(* ===== verification/Prelude.thy ===== *)
theory Prelude
  imports Main "HOL-Library.Word" "HOL-Library.List_Lexorder" "HOL-Library.Sublist"
begin

text \<open>
  Shared vocabulary of the development.

  A \<^verbatim>\<open>std::string\<close> of the program is a sequence of bytes, compared byte by byte as unsigned
  values; here it is a list of 8-bit words under the lexicographic order of
  \<^verbatim>\<open>HOL-Library.List_Lexorder\<close>. Fixed-width integers keep their width: an \<^verbatim>\<open>int64_t\<close> is a
  64-bit word read with \<^const>\<open>sint\<close>, a \<^verbatim>\<open>uint32_t\<close> or \<^verbatim>\<open>uint64_t\<close> a word read with
  \<^const>\<open>unat\<close>. A C++ exception is a value of \<open>cpp_exn\<close> on the left of a sum, and
  \<open>C++\<close>'s truncating division on signed integers is \<open>cdiv\<close> with remainder \<open>cmod\<close>.

  The lemmas are the generic facts the components share: big-endian encodings of words
  (round trip, injectivity, order), the order isomorphism between signed 64-bit integers and
  their sign-flipped unsigned images, and the lexicographic order on byte strings (prefixes,
  the immediate successor obtained by appending a zero byte).
\<close>

unbundle bit_operations_syntax

section \<open>Types\<close>

type_synonym byte = "8 word"
type_synonym bytes = "byte list"
type_synonym int64 = "64 word"
type_synonym uint64 = "64 word"
type_synonym uint32 = "32 word"

datatype cpp_exn = Runtime_Error | Invalid_Argument | Out_Of_Range | Bad_Variant_Access

text \<open>The bytes of a string literal.\<close>

definition str :: "string \<Rightarrow> bytes" where
  "str s = map of_char s"

lemma str_simps [simp]: "str [] = []" "str (c # cs) = of_char c # str cs"
  by (simp_all add: str_def)

text \<open>Signed division and remainder of C++: truncation towards zero.\<close>

definition cdiv :: "int \<Rightarrow> int \<Rightarrow> int" where
  "cdiv a b = sgn a * sgn b * (\<bar>a\<bar> div \<bar>b\<bar>)"

definition cmod :: "int \<Rightarrow> int \<Rightarrow> int" where
  "cmod a b = a - cdiv a b * b"

lemma cdiv_nonneg: "0 \<le> a \<Longrightarrow> 0 < b \<Longrightarrow> cdiv a b = a div b"
  by (cases "a = 0") (auto simp: cdiv_def)

lemma cmod_nonneg: "0 \<le> a \<Longrightarrow> 0 < b \<Longrightarrow> cmod a b = a mod b"
  by (simp add: cmod_def cdiv_nonneg minus_div_mult_eq_mod)

lemma cdiv_floor:
  assumes "0 < b"
  shows "cdiv (if 0 \<le> y then y else y - (b - 1)) b = y div b"
proof (cases "0 \<le> y")
  case True
  with assms show ?thesis by (simp add: cdiv_nonneg)
next
  case False
  then have "sgn (y - (b - 1)) = -1" "\<bar>y - (b - 1)\<bar> = b - 1 - y" using assms by auto
  then have "cdiv (y - (b - 1)) b = - ((b - 1 - y) div b)"
    using assms by (simp only: cdiv_def) simp
  also have "\<dots> = y div b"
  proof -
    have "(b - 1 - y) div b = - (y div b)"
    proof (rule int_div_pos_eq)
      show "b - 1 - y = b * - (y div b) + (b - 1 - y mod b)"
        using mult_div_mod_eq[of b y] by linarith
      show "0 \<le> b - 1 - y mod b" using assms pos_mod_bound[of b y] by simp
      show "b - 1 - y mod b < b" using assms pos_mod_sign[of b y] by linarith
    qed
    then show ?thesis by simp
  qed
  finally show ?thesis using False by simp
qed

lemma cdiv_floor_cases:
  assumes "0 < b"
  shows "cdiv n b = (if 0 \<le> n \<or> n mod b = 0 then n div b else n div b + 1)"
proof (cases "0 \<le> n")
  case True
  then show ?thesis using assms by (simp add: cdiv_nonneg)
next
  case False
  then have "cdiv n b = - ((- n) div b)" using assms by (simp add: cdiv_def)
  then show ?thesis using False assms by (simp add: zdiv_zminus1_eq_if)
qed

lemma cmod_floor_cases:
  "0 < b \<Longrightarrow> cmod n b = (if 0 \<le> n \<or> n mod b = 0 then n mod b else n mod b - b)"
  by (auto simp: cmod_def cdiv_floor_cases minus_div_mult_eq_mod[symmetric] algebra_simps)

lemma cdiv_floor': "0 < b \<Longrightarrow> c = b - 1 \<Longrightarrow> cdiv (if 0 \<le> y then y else y - c) b = y div b"
  by (simp only: cdiv_floor)

lemma uint_plus_small: "uint a + uint b < 2 ^ LENGTH('a) \<Longrightarrow> uint (a + b :: 'a::len word) = uint a + uint b"
  by (simp add: uint_add_lem)

lemma uint_mult_small: "uint a * uint b < 2 ^ LENGTH('a) \<Longrightarrow> uint (a * b :: 'a::len word) = uint a * uint b"
  by (simp add: uint_mult_lem)

lemma uint_minus_small: "uint b \<le> uint a \<Longrightarrow> uint (a - b :: 'a::len word) = uint a - uint b"
  by (simp add: uint_sub_lem)

lemma div_bounds: "0 < k \<Longrightarrow> k * (a div k) \<le> a \<and> a < k * (a div k) + k" for a k :: int
  using pos_mod_bound[of k a] pos_mod_sign[of k a] minus_mult_div_eq_mod[of a k] by linarith

lemma div_add_le: "0 \<le> (k::int) \<Longrightarrow> 0 < n \<Longrightarrow> (x + k) div n \<le> x div n + k"
proof -
  assume a: "0 \<le> k" "0 < n"
  have "k * 1 \<le> k * n" using a by (intro mult_left_mono) auto
  then have "(x + k) div n \<le> (x + k * n) div n" using a by (intro zdiv_mono1) auto
  also have "\<dots> = x div n + k" using a by simp
  finally show ?thesis .
qed

lemma div_plus_one: "0 \<le> z \<Longrightarrow> 0 < k \<Longrightarrow> (z + 1) div k = z div k + of_bool ((z + 1) mod k = 0)" for z k :: int
proof -
  assume a: "0 \<le> z" "0 < k"
  then obtain n q where n: "z = int n" "k = int q" by (metis zero_le_imp_eq_int order_less_imp_le)
  have "int (Suc n div q) = int (n div q) + of_bool (int (Suc n mod q) = 0)" by (simp add: div_Suc)
  then show ?thesis by (simp add: n zdiv_int zmod_int add.commute)
qed

lemma uint_eq_word_of_int: "uint w = k \<Longrightarrow> w = word_of_int k"
  by auto

lemma cmod_eq_0_iff: "0 < b \<Longrightarrow> cmod a b = 0 \<longleftrightarrow> a mod b = 0"
proof -
  assume b: "0 < b"
  have "cmod a b = 0 \<longleftrightarrow> b dvd a"
  proof
    assume "cmod a b = 0"
    then have "a = cdiv a b * b" by (simp add: cmod_def)
    then show "b dvd a" by (metis dvd_triv_right)
  next
    assume "b dvd a"
    then obtain k where "a = b * k" by (elim dvdE)
    then show "cmod a b = 0" using b
      by (cases k "0::int" rule: linorder_cases) (auto simp: cmod_def cdiv_def abs_mult sgn_mult)
  qed
  then show ?thesis by (simp add: dvd_eq_mod_eq_0)
qed

text \<open>
  Fact collections: \<open>codec_simps\<close> holds the round-trip equations of the byte formats,
  \<open>lex_simps\<close> the rewrite rules for the order on byte strings.
\<close>

named_theorems codec_simps
named_theorems lex_simps

section \<open>Lexicographic order on byte strings\<close>

lemma append_less_cancel [lex_simps]: "xs @ ys < xs @ (zs :: 'a::linorder list) \<longleftrightarrow> ys < zs"
  by (induction xs) auto

lemma append_le_cancel [lex_simps]: "xs @ ys \<le> xs @ (zs :: 'a::linorder list) \<longleftrightarrow> ys \<le> zs"
  by (induction xs) auto

lemma prefix_le: "prefix xs ys \<Longrightarrow> xs \<le> (ys :: 'a::linorder list)"
proof (induction xs arbitrary: ys)
  case (Cons x xs)
  then obtain zs where "ys = x # zs" "prefix xs zs" by (cases ys) auto
  with Cons.IH show ?case by simp
qed simp

text \<open>Nothing lies strictly between a byte string and its extension by a zero byte.\<close>

lemma less_snoc_zero [lex_simps]: "(x :: bytes) < k @ [0] \<longleftrightarrow> x \<le> k"
proof (induction k arbitrary: x)
  case Nil
  then show ?case by (cases x) (auto simp: word_le_nat_alt)
next
  case (Cons a k)
  then show ?case by (cases x) auto
qed

lemma snoc_zero_le [lex_simps]: "k @ [0] \<le> (x :: bytes) \<longleftrightarrow> k < x"
  using less_snoc_zero[of x k] by (simp add: not_less[symmetric])

lemma less_self_snoc [simp]: "k < (k :: 'a::linorder list) @ x # xs"
  by (induction k) auto

lemma snoc_not_le [simp]: "\<not> (k :: 'a::linorder list) @ x # xs \<le> k"
  by (simp add: not_le)

section \<open>Big-endian words\<close>

text \<open>
  \<open>be_bytes n v\<close> are the \<open>n\<close> low bytes of \<open>v\<close>, most significant first, and \<open>be_word n bs\<close>
  assembles a word from the first \<open>n\<close> bytes of \<open>bs\<close> by shifting and or-ing, as the
  encoders and decoders of the program do.
\<close>

definition be_bytes :: "nat \<Rightarrow> 'a::len word \<Rightarrow> bytes" where
  "be_bytes n v = map (\<lambda>i. ucast (drop_bit (8 * (n - 1 - i)) v) :: byte) [0..<n]"

definition be_word :: "nat \<Rightarrow> bytes \<Rightarrow> 'a::len word" where
  "be_word n bs = fold (\<lambda>i acc. acc OR push_bit (8 * (n - 1 - i)) (ucast (bs ! i))) [0..<n] 0"

lemma length_be_bytes [simp]: "length (be_bytes n v) = n"
  by (simp add: be_bytes_def)

lemma bit_fold_or:
  "bit (fold (\<lambda>i acc. acc OR f i) xs (a :: 'a::len word)) k \<longleftrightarrow> bit a k \<or> (\<exists>i\<in>set xs. bit (f i) k)"
  by (induction xs arbitrary: a) (auto simp: bit_or_iff)

lemma bit_be_word:
  "bit (be_word n bs :: 'a::len word) k \<longleftrightarrow>
     k < LENGTH('a) \<and> k < 8 * n \<and> bit (bs ! (n - 1 - k div 8)) (k mod 8)" (is "?l \<longleftrightarrow> ?r")
proof
  assume ?l
  then obtain i where i: "i < n" and b: "bit (push_bit (8 * (n - 1 - i)) (ucast (bs ! i)) :: 'a word) k"
    by (auto simp: be_word_def bit_fold_or)
  from b have k: "8 * (n - 1 - i) \<le> k" "bit (bs ! i) (k - 8 * (n - 1 - i))" "k < LENGTH('a)"
    by (auto simp: bit_simps)
  from k(2) have "k - 8 * (n - 1 - i) < 8" using bit_imp_le_length[OF k(2)] by simp
  then have dm: "k div 8 = n - 1 - i" "k mod 8 = k - 8 * (n - 1 - i)"
    using k(1) by (auto simp: div_nat_eqI modulo_nat_def)
  moreover have "n - 1 - (n - 1 - i) = i" using i by simp
  ultimately show ?r using k i \<open>k - 8 * (n - 1 - i) < 8\<close> by auto
next
  assume r: ?r
  define i where "i = n - 1 - k div 8"
  have "k div 8 < n" using r by auto
  then have i: "i < n" "n - 1 - i = k div 8" by (auto simp: i_def)
  have "bit (push_bit (8 * (n - 1 - i)) (ucast (bs ! i)) :: 'a word) k"
    using r i by (auto simp: bit_simps i_def minus_mult_div_eq_mod)
  then show ?l using i(1) by (auto simp: be_word_def bit_fold_or)
qed

lemma be_word_be_bytes [simp]:
  assumes "LENGTH('a) = 8 * n"
  shows "be_word n (be_bytes n v @ rest) = (v :: 'a::len word)"
proof (rule bit_word_eqI)
  fix k assume k: "k < LENGTH('a)"
  have "k div 8 < n" using k assms by auto
  then have i: "n - 1 - k div 8 < n" "n - 1 - (n - 1 - k div 8) = k div 8" by auto
  have "bit (be_bytes n v ! (n - 1 - k div 8)) (k mod 8) = bit v k"
    using i by (simp add: be_bytes_def bit_simps)
  then show "bit (be_word n (be_bytes n v @ rest) :: 'a word) k = bit v k"
    using k assms i(1) by (simp add: bit_be_word nth_append)
qed

lemma be_bytes_be_word:
  assumes "LENGTH('a) = 8 * n" "length bs = n"
  shows "be_bytes n (be_word n bs :: 'a::len word) = bs"
proof (rule nth_equalityI)
  fix i assume "i < length (be_bytes n (be_word n bs :: 'a word))"
  then have i: "i < n" by simp
  show "be_bytes n (be_word n bs :: 'a word) ! i = bs ! i"
  proof (rule bit_word_eqI)
    fix k assume "k < LENGTH(8)"
    then have k: "k < 8" by simp
    have "8 * (n - 1 - i) + k < 8 * n" using i k by auto
    moreover have "(8 * (n - 1 - i) + k) div 8 = n - 1 - i" using k by simp
    moreover have "n - 1 - (n - 1 - i) = i" using i by simp
    ultimately show "bit (be_bytes n (be_word n bs :: 'a word) ! i) k = bit (bs ! i) k"
      using i k assms by (simp add: be_bytes_def bit_simps bit_be_word)
  qed
qed (use assms in simp)

lemma be_bytes_Suc:
  "be_bytes (Suc n) v = ucast (drop_bit (8 * n) v) # be_bytes n v"
  by (simp add: be_bytes_def upt_rec[of 0] map_Suc_upt[symmetric] del: upt_Suc)


fun be_nat :: "bytes \<Rightarrow> nat" where
  "be_nat [] = 0"
| "be_nat (b # bs) = unat b * 256 ^ length bs + be_nat bs"

lemma be_nat_bound: "be_nat bs < 256 ^ length bs"
proof (induction bs)
  case (Cons b bs)
  have "unat b + 1 \<le> 256" using unsigned_less[of b, where 'a = nat] by simp
  then have "(unat b + 1) * 256 ^ length bs \<le> 256 * 256 ^ length bs" by (rule mult_le_mono1)
  have "be_nat (b # bs) < unat b * 256 ^ length bs + 256 ^ length bs" using Cons by simp
  also have "\<dots> = (unat b + 1) * 256 ^ length bs" by simp
  also have "\<dots> \<le> 256 ^ length (b # bs)" using \<open>(unat b + 1) * _ \<le> _\<close> by simp
  finally show ?case .
qed simp

lemma less_iff_be_nat:
  "length bs = length cs \<Longrightarrow> bs < cs \<longleftrightarrow> be_nat bs < be_nat cs"
proof (induction bs cs rule: list_induct2)
  case (Cons b bs c cs)
  have bnd: "be_nat bs < 256 ^ length bs" "be_nat cs < 256 ^ length bs"
    using be_nat_bound[of bs] be_nat_bound[of cs] Cons.hyps by auto
  consider "unat b < unat c" | "unat b = unat c" | "unat c < unat b" by linarith
  then show ?case
  proof cases
    case 1
    then have "(unat b + 1) * 256 ^ length bs \<le> unat c * 256 ^ length bs" by (intro mult_le_mono1) simp
    with 1 bnd Cons.hyps show ?thesis by (simp add: word_less_nat_alt algebra_simps)
  next
    case 2
    with Cons show ?thesis by (simp add: word_less_nat_alt word_unat_eq_iff)
  next
    case 3
    then have "(unat c + 1) * 256 ^ length bs \<le> unat b * 256 ^ length bs" by (intro mult_le_mono1) simp
    with 3 bnd Cons.hyps show ?thesis by (simp add: word_less_nat_alt algebra_simps word_unat_eq_iff)
  qed
qed simp

lemma be_nat_be_bytes: "be_nat (be_bytes n v) = unat v mod 256 ^ n"
proof (induction n)
  case 0 then show ?case by (simp add: be_bytes_def)
next
  case (Suc n)
  have "unat (drop_bit (8 * n) v) = unat v div 256 ^ n"
    by (simp add: unsigned_drop_bit_eq drop_bit_eq_div[where 'a = nat] power_mult take_bit_nat_eq_self)
  then have "unat (ucast (drop_bit (8 * n) v) :: byte) = (unat v div 256 ^ n) mod 256"
    by (simp add: unsigned_ucast_eq take_bit_eq_mod)
  moreover have "unat v mod 256 ^ Suc n = 256 ^ n * (unat v div 256 ^ n mod 256) + unat v mod 256 ^ n"
    using mod_mult2_eq[of "unat v" "256 ^ n" 256] by (simp add: mult.commute)
  ultimately show ?case using Suc by (simp add: be_bytes_Suc)
qed

lemma be_bytes_less_iff:
  fixes v w :: "'a::len word"
  assumes "LENGTH('a) = 8 * n"
  shows "be_bytes n v < be_bytes n w \<longleftrightarrow> v < w"
proof -
  have "(256::nat) ^ n = 2 ^ LENGTH('a)" using assms by (simp add: power_mult)
  then have "unat x mod 256 ^ n = unat x" for x :: "'a word" by simp
  then show ?thesis by (simp add: less_iff_be_nat be_nat_be_bytes word_less_nat_alt)
qed

lemma be_bytes_inj [simp]:
  fixes v w :: "'a::len word"
  assumes "LENGTH('a) = 8 * n"
  shows "be_bytes n v = be_bytes n w \<longleftrightarrow> v = w"
  by (metis assms be_word_be_bytes append_Nil2)



lemma uint_xor_msb64:
  fixes x :: "64 word"
  shows "uint (x XOR 0x8000000000000000) = sint x + 2 ^ 63"
proof -
  let ?m = "0x8000000000000000 :: 64 word"
  have "bit (2 ^ 63 :: 64 word) k \<longleftrightarrow> k = 63" for k
    by (subst bit_exp_iff) auto
  then have m: "bit ?m k \<longleftrightarrow> k = 63" for k by simp
  have s: "sint x = uint x - 2 ^ 64 * of_bool (bit x 63)"
    using unsigned_less[of x, where 'a = int]
    by (simp add: sint_uint signed_take_bit_eq_take_bit_minus bit_uint_iff take_bit_int_eq_self)
  have b: "bit x 63 \<longleftrightarrow> 2 ^ 63 \<le> uint x"
  proof -
    have "bit x 63 \<longleftrightarrow> bit (uint x) 63" by (simp add: bit_uint_iff)
    also have "\<dots> \<longleftrightarrow> odd (uint x div 2 ^ 63)" by (rule bit_iff_odd)
    also have "\<dots> \<longleftrightarrow> 2 ^ 63 \<le> uint x"
    proof (cases "2 ^ 63 \<le> uint x")
      case True
      have "uint x < 2 * 2 ^ 63" using unsigned_less[of x, where 'a = int] by simp
      then have "uint x div 2 ^ 63 = 1" using True by (intro int_div_pos_eq[where r = "uint x - 2 ^ 63"]) auto
      then show ?thesis using True by simp
    qed (simp add: div_pos_pos_trivial)
    finally show ?thesis .
  qed
  show ?thesis
  proof (cases "bit x 63")
    case False
    have "x AND 2 ^ 63 = 0" using False by (subst and_exp_eq_0_iff_not_bit)
    then have "x AND ?m = 0" by simp
    then have "x XOR ?m = x + ?m" by (simp add: disjunctive_add_eq_xor)
    then show ?thesis using s b False by (simp add: uint_word_ariths)
  next
    case True
    have "\<not> bit (x XOR ?m) 63" using True m[of 63] by (subst bit_xor_iff) simp
    then have "(x XOR ?m) AND 2 ^ 63 = 0" by (subst and_exp_eq_0_iff_not_bit)
    then have "(x XOR ?m) AND ?m = 0" by simp
    then have "(x XOR ?m) + ?m = x" by (simp add: disjunctive_add_eq_xor xor.assoc)
    then have "x XOR ?m = x - ?m" by (simp add: algebra_simps)
    then show ?thesis using s b True unsigned_less[of x, where 'a = int]
      by (simp add: uint_word_ariths mod_pos_pos_trivial)
  qed
qed

lemma sint_less_iff_xor_msb:
  fixes x y :: int64
  shows "x XOR 0x8000000000000000 < y XOR 0x8000000000000000 \<longleftrightarrow> sint x < sint y"
  by (simp add: word_less_def uint_xor_msb64)

lemma sint_inject: "sint a = sint b \<longleftrightarrow> a = (b :: 'a::len word)"
  by (metis scast_eq scast_id)

end
