(* ===== verification/Field_Type.thy ===== *)
theory Field_Type
  imports Prelude
begin

text \<open>
  The SQL type system: the type tags shared with the parser (\<^verbatim>\<open>common/c_types.h\<close>) and the
  logical types of the engine (\<^verbatim>\<open>sql_types/field_type.h\<close>), with their families, value ranges,
  declared lengths, promotion rules, and the parsing of integers and type names.
  The lemmas show that promotion never loses a value, that the two enumerations correspond,
  and what the integer parser accepts and returns.
\<close>

section \<open>Type tags of the parser\<close>

datatype CDataType =
    DT_INT | DT_BIGINT | DT_VARCHAR | DT_TEXT | DT_BOOLEAN | DT_NULL | DT_UNKNOWN
  | DT_TINYINT | DT_SMALLINT | DT_DATE | DT_TIME | DT_DATETIME | DT_CHAR

definition CTYPE_MAX_CHAR_LEN :: nat where "CTYPE_MAX_CHAR_LEN = 255"
definition CTYPE_MAX_VARCHAR_LEN :: nat where "CTYPE_MAX_VARCHAR_LEN = 65535"
definition CTYPE_MAX_TEXT_LEN :: nat where "CTYPE_MAX_TEXT_LEN = 65535"

lemmas ctype_len_defs = CTYPE_MAX_CHAR_LEN_def CTYPE_MAX_VARCHAR_LEN_def CTYPE_MAX_TEXT_LEN_def

definition c_type_aliases :: "(bytes \<times> CDataType) list" where
  "c_type_aliases =
    [(str ''tinyint'', DT_TINYINT), (str ''int8'', DT_TINYINT),
     (str ''smallint'', DT_SMALLINT), (str ''int16'', DT_SMALLINT),
     (str ''int'', DT_INT), (str ''integer'', DT_INT), (str ''int32'', DT_INT),
     (str ''bigint'', DT_BIGINT), (str ''int64'', DT_BIGINT),
     (str ''char'', DT_CHAR), (str ''character'', DT_CHAR),
     (str ''varchar'', DT_VARCHAR), (str ''varying'', DT_VARCHAR),
     (str ''text'', DT_TEXT), (str ''boolean'', DT_BOOLEAN), (str ''bool'', DT_BOOLEAN),
     (str ''date'', DT_DATE), (str ''time'', DT_TIME),
     (str ''datetime'', DT_DATETIME), (str ''timestamp'', DT_DATETIME),
     (str ''null'', DT_NULL)]"

definition c_type_lower :: "byte \<Rightarrow> byte" where
  "c_type_lower c = (if of_char (CHR ''A'') \<le> c \<and> c \<le> of_char (CHR ''Z'')
     then c - of_char (CHR ''A'') + of_char (CHR ''a'') else c)"

text \<open>The arguments are C strings, that is, byte strings without the terminating zero.\<close>

fun c_type_streq_ci :: "bytes \<Rightarrow> bytes \<Rightarrow> bool" where
  "c_type_streq_ci (a # as) (b # bs) =
     (if c_type_lower a \<noteq> c_type_lower b then False else c_type_streq_ci as bs)"
| "c_type_streq_ci [] [] = True"
| "c_type_streq_ci _ _ = False"

fun c_type_lookup_in :: "(bytes \<times> CDataType) list \<Rightarrow> bytes \<Rightarrow> CDataType" where
  "c_type_lookup_in [] name = DT_UNKNOWN"
| "c_type_lookup_in ((alias, t) # rest) name =
     (if c_type_streq_ci name alias then t else c_type_lookup_in rest name)"

definition c_type_lookup :: "bytes \<Rightarrow> CDataType" where
  "c_type_lookup name = c_type_lookup_in c_type_aliases name"

definition c_type_is_string :: "CDataType \<Rightarrow> bool" where
  "c_type_is_string t \<longleftrightarrow> t = DT_CHAR \<or> t = DT_VARCHAR \<or> t = DT_TEXT"

definition c_type_accepts_length :: "CDataType \<Rightarrow> bool" where
  "c_type_accepts_length t \<longleftrightarrow> t = DT_CHAR \<or> t = DT_VARCHAR"

fun c_type_max_length :: "CDataType \<Rightarrow> nat" where
  "c_type_max_length DT_CHAR = CTYPE_MAX_CHAR_LEN"
| "c_type_max_length DT_VARCHAR = CTYPE_MAX_VARCHAR_LEN"
| "c_type_max_length _ = 0"

definition c_type_length_valid :: "CDataType \<Rightarrow> nat \<Rightarrow> bool" where
  "c_type_length_valid t len \<longleftrightarrow>
     (if len = 0 then False else c_type_accepts_length t \<and> len \<le> c_type_max_length t)"

section \<open>Logical types\<close>

datatype DataType =
    TINYINT | SMALLINT | INT_TYPE | BIGINT | CHAR_TYPE | VARCHAR | TEXT | BOOLEAN
  | DATE | TIME | DATETIME | NULL_TYPE | UNKNOWN_TYPE

datatype DataTypeFamily =
    F_INTEGER | F_STRING | F_BOOLEAN | F_TEMPORAL | UNKNOWN_FAMILY

fun to_c :: "DataType \<Rightarrow> CDataType" where
  "to_c TINYINT = DT_TINYINT"
| "to_c SMALLINT = DT_SMALLINT"
| "to_c INT_TYPE = DT_INT"
| "to_c BIGINT = DT_BIGINT"
| "to_c CHAR_TYPE = DT_CHAR"
| "to_c VARCHAR = DT_VARCHAR"
| "to_c TEXT = DT_TEXT"
| "to_c BOOLEAN = DT_BOOLEAN"
| "to_c DATE = DT_DATE"
| "to_c TIME = DT_TIME"
| "to_c DATETIME = DT_DATETIME"
| "to_c NULL_TYPE = DT_NULL"
| "to_c _ = DT_UNKNOWN"

fun from_c :: "CDataType \<Rightarrow> DataType" where
  "from_c DT_TINYINT = TINYINT"
| "from_c DT_SMALLINT = SMALLINT"
| "from_c DT_INT = INT_TYPE"
| "from_c DT_BIGINT = BIGINT"
| "from_c DT_CHAR = CHAR_TYPE"
| "from_c DT_VARCHAR = VARCHAR"
| "from_c DT_TEXT = TEXT"
| "from_c DT_BOOLEAN = BOOLEAN"
| "from_c DT_DATE = DATE"
| "from_c DT_TIME = TIME"
| "from_c DT_DATETIME = DATETIME"
| "from_c DT_NULL = NULL_TYPE"
| "from_c _ = UNKNOWN_TYPE"

definition is_integer :: "DataType \<Rightarrow> bool" where
  "is_integer t \<longleftrightarrow> t = TINYINT \<or> t = SMALLINT \<or> t = INT_TYPE \<or> t = BIGINT"

definition is_string :: "DataType \<Rightarrow> bool" where
  "is_string t \<longleftrightarrow> t = CHAR_TYPE \<or> t = VARCHAR \<or> t = TEXT"

definition is_boolean :: "DataType \<Rightarrow> bool" where
  "is_boolean t \<longleftrightarrow> t = BOOLEAN"

definition is_temporal :: "DataType \<Rightarrow> bool" where
  "is_temporal t \<longleftrightarrow> t = DATE \<or> t = TIME \<or> t = DATETIME"

definition is_numeric :: "DataType \<Rightarrow> bool" where
  "is_numeric t \<longleftrightarrow> is_integer t \<or> is_boolean t"

definition is_null_type :: "DataType \<Rightarrow> bool" where
  "is_null_type t \<longleftrightarrow> t = NULL_TYPE \<or> t = UNKNOWN_TYPE"

definition is_orderable :: "DataType \<Rightarrow> bool" where
  "is_orderable t \<longleftrightarrow> is_integer t \<or> is_string t \<or> is_boolean t \<or> is_temporal t"

lemmas type_family_defs =
  is_integer_def is_string_def is_boolean_def is_temporal_def is_numeric_def is_null_type_def
  is_orderable_def

definition get_type_family :: "DataType \<Rightarrow> DataTypeFamily" where
  "get_type_family t =
     (if is_integer t then F_INTEGER
      else if is_string t then F_STRING
      else if is_boolean t then F_BOOLEAN
      else if is_temporal t then F_TEMPORAL
      else UNKNOWN_FAMILY)"

section \<open>Value ranges\<close>

fun integer_bytes :: "DataType \<Rightarrow> int" where
  "integer_bytes TINYINT = 1"
| "integer_bytes SMALLINT = 2"
| "integer_bytes INT_TYPE = 4"
| "integer_bytes BIGINT = 8"
| "integer_bytes _ = 0"

definition integer_min :: "DataType \<Rightarrow> int" where
  "integer_min t =
     (let n = integer_bytes t in
      if n = 1 then -128 else if n = 2 then -32768
      else if n = 4 then -2147483648 else if n = 8 then -9223372036854775808 else 0)"

definition integer_max :: "DataType \<Rightarrow> int" where
  "integer_max t =
     (let n = integer_bytes t in
      if n = 1 then 127 else if n = 2 then 32767
      else if n = 4 then 2147483647 else if n = 8 then 9223372036854775807 else 0)"

definition kDateMinDays :: int where "kDateMinDays = -719162"
definition kDateMaxDays :: int where "kDateMaxDays = 2932896"
definition kTimeMinSeconds :: int where "kTimeMinSeconds = 0"
definition kTimeMaxSeconds :: int where "kTimeMaxSeconds = 86399"
definition kSecondsPerDay :: int where "kSecondsPerDay = 86400"
definition kDateTimeMinSeconds :: int where
  "kDateTimeMinSeconds = kDateMinDays * kSecondsPerDay"
definition kDateTimeMaxSeconds :: int where
  "kDateTimeMaxSeconds = kDateMaxDays * kSecondsPerDay + kTimeMaxSeconds"

lemmas temporal_bounds =
  kDateMinDays_def kDateMaxDays_def kTimeMinSeconds_def kTimeMaxSeconds_def kSecondsPerDay_def
  kDateTimeMinSeconds_def kDateTimeMaxSeconds_def

fun string_capacity :: "DataType \<Rightarrow> nat \<Rightarrow> nat" where
  "string_capacity CHAR_TYPE len = (if len = 0 then CTYPE_MAX_CHAR_LEN else len)"
| "string_capacity VARCHAR len = (if len = 0 then CTYPE_MAX_VARCHAR_LEN else len)"
| "string_capacity TEXT len = CTYPE_MAX_TEXT_LEN"
| "string_capacity _ len = 0"

definition valid_declared_length :: "DataType \<Rightarrow> nat \<Rightarrow> bool" where
  "valid_declared_length t len \<longleftrightarrow>
     (if len = 0 then True else c_type_length_valid (to_c t) len)"

definition can_represent_length :: "DataType \<Rightarrow> nat \<Rightarrow> nat \<Rightarrow> bool" where
  "can_represent_length t len n \<longleftrightarrow> n \<le> string_capacity t len"

definition common_string_capacity :: "DataType \<Rightarrow> nat \<Rightarrow> DataType \<Rightarrow> nat \<Rightarrow> nat" where
  "common_string_capacity a alen b blen =
     (let ca = string_capacity a alen; cb = string_capacity b blen
      in if ca \<ge> cb then ca else cb)"

definition can_represent :: "DataType \<Rightarrow> int64 \<Rightarrow> bool" where
  "can_represent t v \<longleftrightarrow>
     (if is_integer t then sint v \<ge> integer_min t \<and> sint v \<le> integer_max t
      else if is_boolean t then v = 0 \<or> v = 1
      else (case t of
              DATE \<Rightarrow> sint v \<ge> kDateMinDays \<and> sint v \<le> kDateMaxDays
            | TIME \<Rightarrow> sint v \<ge> kTimeMinSeconds \<and> sint v \<le> kTimeMaxSeconds
            | DATETIME \<Rightarrow> sint v \<ge> kDateTimeMinSeconds \<and> sint v \<le> kDateTimeMaxSeconds
            | _ \<Rightarrow> True))"

section \<open>Families and promotion\<close>

definition is_same_family :: "DataType \<Rightarrow> DataType \<Rightarrow> bool" where
  "is_same_family a b \<longleftrightarrow>
     (if a = b then True
      else if is_integer a \<and> is_integer b then True
      else if is_string a \<and> is_string b then True
      else if is_temporal a \<and> is_temporal b then True
      else False)"

definition common_type :: "DataType \<Rightarrow> DataType \<Rightarrow> DataType" where
  "common_type a b =
     (if a = b then a
      else if is_integer a \<and> is_integer b
        then (if integer_bytes a \<ge> integer_bytes b then a else b)
      else if is_boolean a \<and> is_integer b then b
      else if is_integer a \<and> is_boolean b then a
      else if is_boolean a \<and> is_boolean b then BOOLEAN
      else if is_string a \<and> is_string b
        then (if a = TEXT \<or> b = TEXT then TEXT else VARCHAR)
      else if is_temporal a \<and> is_temporal b
        then (if a = TIME \<or> b = TIME then (if a = b then a else UNKNOWN_TYPE) else DATETIME)
      else UNKNOWN_TYPE)"

section \<open>Text\<close>

text \<open>\<^verbatim>\<open>std::tolower\<close>, \<^verbatim>\<open>std::isspace\<close> and \<^verbatim>\<open>std::isdigit\<close> in the C locale.\<close>

definition tolower :: "byte \<Rightarrow> byte" where
  "tolower c = (if of_char (CHR ''A'') \<le> c \<and> c \<le> of_char (CHR ''Z'') then c + 32 else c)"

definition isspace :: "byte \<Rightarrow> bool" where
  "isspace c \<longleftrightarrow> c = 32 \<or> (9 \<le> c \<and> c \<le> 13)"

definition isdigit :: "byte \<Rightarrow> bool" where
  "isdigit c \<longleftrightarrow> of_char (CHR ''0'') \<le> c \<and> c \<le> of_char (CHR ''9'')"

definition iequals_ascii :: "bytes \<Rightarrow> bytes \<Rightarrow> bool" where
  "iequals_ascii a b \<longleftrightarrow>
     (if length a \<noteq> length b then False else (\<forall>i<length a. tolower (a ! i) = tolower (b ! i)))"

lemma iequals_ascii_map [code]: "iequals_ascii a b \<longleftrightarrow> map tolower a = map tolower b"
  by (auto simp: iequals_ascii_def list_eq_iff_nth_eq dest: map_eq_imp_length_eq)

text \<open>
  \<^verbatim>\<open>std::from_chars\<close> for \<^verbatim>\<open>int64_t\<close>, base 10: an optional minus sign and the longest run of
  digits; an error if there is no digit or the value does not fit. It returns the value and
  the unread suffix. No leading plus sign or white space is accepted.
\<close>

definition digits_value :: "bytes \<Rightarrow> nat" where
  "digits_value ds = foldl (\<lambda>acc d. acc * 10 + (unat d - 48)) 0 ds"

definition from_chars_int64 :: "bytes \<Rightarrow> (int64 \<times> bytes) option" where
  "from_chars_int64 text =
     (let neg = (case text of c # _ \<Rightarrow> c = of_char (CHR ''-'') | [] \<Rightarrow> False);
          body = (if neg then tl text else text);
          ds = takeWhile isdigit body;
          n = (if neg then - int (digits_value ds) else int (digits_value ds))
      in if ds = [] then None
         else if n < - (2 ^ 63) \<or> n \<ge> 2 ^ 63 then None
         else Some (word_of_int n, dropWhile isdigit body))"

definition parse_int64_strict :: "bytes \<Rightarrow> int64 option" where
  "parse_int64_strict text =
     (if text = [] then None
      else let begin = (if hd text = of_char (CHR ''+'') \<or> hd text = of_char (CHR ''-'') then 1 else 0)
           in if begin = length text then None
              else (case from_chars_int64 (drop begin text) of
                      None \<Rightarrow> None
                    | Some (out, rest) \<Rightarrow> if rest = [] then Some out else None))"

fun data_type_name :: "DataType \<Rightarrow> bytes" where
  "data_type_name TINYINT = str ''TINYINT''"
| "data_type_name SMALLINT = str ''SMALLINT''"
| "data_type_name INT_TYPE = str ''INT''"
| "data_type_name BIGINT = str ''BIGINT''"
| "data_type_name CHAR_TYPE = str ''CHAR''"
| "data_type_name VARCHAR = str ''VARCHAR''"
| "data_type_name TEXT = str ''TEXT''"
| "data_type_name BOOLEAN = str ''BOOLEAN''"
| "data_type_name DATE = str ''DATE''"
| "data_type_name TIME = str ''TIME''"
| "data_type_name DATETIME = str ''DATETIME''"
| "data_type_name NULL_TYPE = str ''NULL''"
| "data_type_name _ = str ''UNKNOWN''"

text \<open>The alias table is consulted with the C string of the argument: it ends at the first zero byte.\<close>

definition string_to_data_type :: "bytes \<Rightarrow> DataType" where
  "string_to_data_type s = from_c (c_type_lookup (takeWhile (\<lambda>c. c \<noteq> 0) s))"

definition trim_space :: "bytes \<Rightarrow> bytes" where
  "trim_space text = rev (dropWhile isspace (rev (dropWhile isspace text)))"

definition parse_type_with_length :: "bytes \<Rightarrow> (DataType \<times> nat) option" where
  "parse_type_with_length text =
     (let name = trim_space text in
      if name = [] then None
      else if of_char (CHR ''('') \<notin> set name
        then (let t = string_to_data_type name in if t \<noteq> UNKNOWN_TYPE then Some (t, 0) else None)
      else if last name \<noteq> of_char (CHR '')'') then None
      else
        let base = takeWhile (\<lambda>c. c \<noteq> of_char (CHR ''('')) name;
            paren = length base;
            arg = take (length name - paren - 2) (drop (paren + 1) name);
            t = string_to_data_type base
        in if \<not> is_string t then None
           else (case parse_int64_strict arg of
                   None \<Rightarrow> None
                 | Some parsed \<Rightarrow>
                     if sint parsed < 0 \<or> sint parsed > int CTYPE_MAX_VARCHAR_LEN then None
                     else if parsed = 0 then None
                     else let len = nat (sint parsed)
                          in if valid_declared_length t len then Some (t, len) else None))"

section \<open>Lemmas\<close>

lemma from_c_to_c [simp]: "from_c (to_c t) = t"
  by (cases t) simp_all

lemma to_c_from_c [simp]: "to_c (from_c t) = t"
  by (cases t) simp_all

lemma is_same_family_iff:
  "is_same_family a b \<longleftrightarrow> a = b \<or> (get_type_family a = get_type_family b \<and> get_type_family a \<noteq> UNKNOWN_FAMILY)"
  by (cases a; cases b; simp add: is_same_family_def get_type_family_def type_family_defs)

lemma common_type_commute: "common_type a b = common_type b a"
  by (cases a; cases b; simp add: common_type_def type_family_defs)

text \<open>Promotion to the common type never loses a value.\<close>

lemma common_type_represents:
  assumes "is_numeric a" and "is_numeric b" and "can_represent a v"
  shows "is_numeric (common_type a b) \<and> can_represent (common_type a b) v"
  using assms
  by (cases a; cases b; auto simp: common_type_def type_family_defs can_represent_def
        integer_min_def integer_max_def)

text \<open>What the integer parser does with a run of digits, unsigned and behind one or two signs.\<close>

lemma from_chars_digits:
  assumes "ds \<noteq> []" and "\<forall>d \<in> set ds. isdigit d" and "digits_value ds < 2 ^ 63"
  shows "from_chars_int64 ds = Some (word_of_int (int (digits_value ds)), [])"
    and "from_chars_int64 (of_char (CHR ''-'') # ds) = Some (word_of_int (- int (digits_value ds)), [])"
proof -
  have tw: "takeWhile isdigit ds = ds" "dropWhile isdigit ds = []"
    using assms(2) by (simp_all add: takeWhile_eq_all_conv)
  have "isdigit (hd ds)" using assms(1,2) by simp
  then have "hd ds \<noteq> of_char (CHR ''-'')" by (auto simp: isdigit_def)
  then have neg: "(case ds of [] \<Rightarrow> False | c # _ \<Rightarrow> c = of_char (CHR ''-'')) = False"
    by (cases ds) auto
  have b: "int (digits_value ds) < 2 ^ 63" using assms(3) by (simp add: nat_less_iff[symmetric] zless_nat_eq_int_zless)
  show "from_chars_int64 ds = Some (word_of_int (int (digits_value ds)), [])"
    using assms(1) b by (simp add: from_chars_int64_def neg tw Let_def)
  show "from_chars_int64 (of_char (CHR ''-'') # ds) = Some (word_of_int (- int (digits_value ds)), [])"
    using assms(1) b by (simp add: from_chars_int64_def tw Let_def)
qed

lemma parse_int64_strict_digits:
  assumes "ds \<noteq> []" and "\<forall>d \<in> set ds. isdigit d" and "digits_value ds < 2 ^ 63"
  shows "parse_int64_strict ds = Some (word_of_int (int (digits_value ds)))"
    and "parse_int64_strict (of_char (CHR ''-'') # ds) = Some (word_of_int (int (digits_value ds)))"
    and "parse_int64_strict (of_char (CHR ''-'') # of_char (CHR ''-'') # ds) =
           Some (word_of_int (- int (digits_value ds)))"
proof -
  have "isdigit (hd ds)" using assms(1,2) by simp
  then have h: "hd ds \<noteq> of_char (CHR ''-'')" "hd ds \<noteq> of_char (CHR ''+'')" by (auto simp: isdigit_def)
  show "parse_int64_strict ds = Some (word_of_int (int (digits_value ds)))"
    using assms h by (simp add: parse_int64_strict_def from_chars_digits)
  show "parse_int64_strict (of_char (CHR ''-'') # ds) = Some (word_of_int (int (digits_value ds)))"
    using assms by (simp add: parse_int64_strict_def from_chars_digits)
  show "parse_int64_strict (of_char (CHR ''-'') # of_char (CHR ''-'') # ds) =
           Some (word_of_int (- int (digits_value ds)))"
    using assms from_chars_digits(2)[OF assms] by (simp add: parse_int64_strict_def)
qed

text \<open>Every printed type name is read back as the type.\<close>

lemma string_to_data_type_name [simp]: "string_to_data_type (data_type_name t) = t"
  by (cases t) (simp_all add: string_to_data_type_def c_type_lookup_def c_type_aliases_def c_type_lower_def)

lemma parse_type_with_length_valid:
  "parse_type_with_length text = Some (t, len) \<Longrightarrow> t \<noteq> UNKNOWN_TYPE \<and> valid_declared_length t len"
  by (auto simp: parse_type_with_length_def Let_def valid_declared_length_def is_string_def
      split: if_splits option.splits)

text \<open>
  C20: promotion of two numeric types to their common type is symmetric and never loses a value:
  what one of the types can store, the common type can store.
\<close>

theorem common_type_lossless:
  assumes "is_numeric a" and "is_numeric b" and "can_represent a v \<or> can_represent b v"
  shows "common_type a b = common_type b a \<and> is_numeric (common_type a b) \<and> can_represent (common_type a b) v"
  using assms common_type_represents[of a b v] common_type_represents[of b a v] common_type_commute[of a b] by auto

theorem common_type_lossless_witness:
  "common_type TINYINT BIGINT = BIGINT \<and> can_represent (common_type TINYINT BIGINT) 1000000"
  using common_type_lossless[of TINYINT BIGINT 1000000]
  by (simp add: type_family_defs can_represent_def integer_min_def integer_max_def common_type_def)

text \<open>
  The strict integer parser drops a leading minus sign. On a run of digits with a value below
  2^63 it returns the value; with one minus sign in front it returns the same value, not its negation;
  only a second minus sign, which the scan behind it accepts, negates. The comment of the
  function promises a strict parse of the decimal text.
\<close>

theorem parse_int64_strict_sign:
  assumes "ds \<noteq> []" and "list_all isdigit ds" and "digits_value ds < 2 ^ 63"
  shows "parse_int64_strict ds = Some (word_of_int (int (digits_value ds))) \<and>
    parse_int64_strict (str ''-'' @ ds) = Some (word_of_int (int (digits_value ds))) \<and>
    parse_int64_strict (str ''--'' @ ds) = Some (word_of_int (- int (digits_value ds)))"
  using parse_int64_strict_digits[of ds] assms by (simp add: list_all_iff str_simps)

theorem parse_int64_strict_sign_witness:
  "parse_int64_strict (str ''-5'') = Some 5 \<and> parse_int64_strict (str ''--5'') = Some (-5)"
  using parse_int64_strict_sign[of "str ''5''"] by (simp add: str_simps isdigit_def digits_value_def)

end
