(* ===== verification/Temporal.thy ===== *)
theory Temporal
  imports Field_Type
begin

text \<open>
  Dates and times (\<^verbatim>\<open>sql_types/temporal.cpp\<close>): the proleptic Gregorian calendar as day
  numbers, and the textual forms of DATE, TIME and DATETIME. Signed 64-bit quantities are
  integers; the conversions, which accept any \<^verbatim>\<open>int64_t\<close>, wrap every intermediate value. The
  \<^verbatim>\<open>unsigned\<close> quantities are 32-bit words, whose wrap-around the month arithmetic relies on.
\<close>

section \<open>Calendar\<close>

definition is_leap_year :: "int \<Rightarrow> bool" where
  "is_leap_year year \<longleftrightarrow> (cmod year 4 = 0 \<and> cmod year 100 \<noteq> 0) \<or> cmod year 400 = 0"

definition days_in_month :: "int \<Rightarrow> uint32 \<Rightarrow> int" where
  "days_in_month year month =
     (if month < 1 \<or> month > 12 then 0
      else if month = 2 \<and> is_leap_year year then 29
      else [31, 28, 31, 30, 31, 30, 31, 31, 30, 31, 30, 31] ! (unat month - 1))"

text \<open>Arithmetic on \<^verbatim>\<open>int64_t\<close>, with the wrap-around of two's complement written out.\<close>

definition wrap64 :: "int \<Rightarrow> int" where
  "wrap64 x = sint (word_of_int x :: int64)"

definition days_from_civil :: "int \<Rightarrow> uint32 \<Rightarrow> uint32 \<Rightarrow> int" where
  "days_from_civil y0 m d =
     (let y = wrap64 (y0 - (if m \<le> 2 then 1 else 0));
          era = cdiv (if y \<ge> 0 then y else wrap64 (y - 399)) 400;
          yoe = word_of_int (wrap64 (y - wrap64 (era * 400))) :: uint32;
          doy = (153 * (m + (if m > 2 then -3 else 9)) + 2) div 5 + d - 1;
          doe = yoe * 365 + yoe div 4 - yoe div 100 + doy
      in wrap64 (wrap64 (wrap64 (era * 146097) + uint doe) - 719468))"

definition civil_from_days :: "int \<Rightarrow> int \<times> uint32 \<times> uint32" where
  "civil_from_days days0 =
     (let days = wrap64 (days0 + 719468);
          era = cdiv (if days \<ge> 0 then days else wrap64 (days - 146096)) 146097;
          doe = word_of_int (wrap64 (days - wrap64 (era * 146097))) :: uint32;
          yoe = (doe - doe div 1460 + doe div 36524 - doe div 146096) div 365;
          y = wrap64 (uint yoe + wrap64 (era * 400));
          doy = doe - (365 * yoe + yoe div 4 - yoe div 100);
          mp = (5 * doy + 2) div 153;
          day = doy - (153 * mp + 2) div 5 + 1;
          month = mp + (if mp < 10 then 3 else -9);
          year = wrap64 (y + (if month \<le> 2 then 1 else 0))
      in (year, month, day))"

section \<open>Text\<close>

definition read_digits :: "bytes \<Rightarrow> nat \<Rightarrow> nat \<Rightarrow> int option" where
  "read_digits s pos count =
     (if pos + count > length s then None
      else let ds = take count (drop pos s)
           in if \<forall>c \<in> set ds. isdigit c
              then Some (foldl (\<lambda>v c. v * 10 + (uint c - 48)) 0 ds) else None)"

definition read_separator :: "bytes \<Rightarrow> nat \<Rightarrow> byte \<Rightarrow> bool" where
  "read_separator s pos expected \<longleftrightarrow> (if pos \<ge> length s then False else s ! pos = expected)"

text \<open>The decimal digits that \<^verbatim>\<open>snprintf\<close> prints.\<close>

fun decimal_digits :: "nat \<Rightarrow> bytes" where
  "decimal_digits n =
     (if n < 10 then [of_nat (48 + n)] else decimal_digits (n div 10) @ [of_nat (48 + n mod 10)])"

declare decimal_digits.simps [simp del]

text \<open>\<^verbatim>\<open>snprintf\<close> with \<^verbatim>\<open>%0wlld\<close> into a buffer of eight bytes: at most seven characters remain.\<close>

definition pad_int :: "nat \<Rightarrow> int \<Rightarrow> bytes" where
  "pad_int w v =
     (let sign = (if v < 0 then [of_char (CHR ''-'')] else []);
          ds = decimal_digits (nat \<bar>v\<bar>)
      in take 7 (sign @ replicate (w - length sign - length ds) 48 @ ds))"

definition pad2 :: "int \<Rightarrow> bytes" where "pad2 v = pad_int 2 v"
definition pad4 :: "int \<Rightarrow> bytes" where "pad4 v = pad_int 4 v"

definition parse_date :: "bytes \<Rightarrow> int option" where
  "parse_date text =
     (if length text \<noteq> 10 then None
      else case read_digits text 0 4 of None \<Rightarrow> None | Some year \<Rightarrow>
        (if \<not> read_separator text 4 (of_char (CHR ''-'')) then None
         else case read_digits text 5 2 of None \<Rightarrow> None | Some month \<Rightarrow>
           (if \<not> read_separator text 7 (of_char (CHR ''-'')) then None
            else case read_digits text 8 2 of None \<Rightarrow> None | Some day \<Rightarrow>
              (if month < 1 \<or> month > 12 \<or> day < 1 \<or> day > days_in_month year (word_of_int month)
               then None
               else let days = days_from_civil year (word_of_int month) (word_of_int day)
                    in if days < kDateMinDays \<or> days > kDateMaxDays then None else Some days))))"

definition parse_time :: "bytes \<Rightarrow> int option" where
  "parse_time text =
     (if length text \<noteq> 5 \<and> length text \<noteq> 8 then None
      else case read_digits text 0 2 of None \<Rightarrow> None | Some hour \<Rightarrow>
        (if \<not> read_separator text 2 (of_char (CHR '':'')) then None
         else case read_digits text 3 2 of None \<Rightarrow> None | Some minute \<Rightarrow>
           (case (if length text = 8
                  then (if \<not> read_separator text 5 (of_char (CHR '':'')) then None
                        else read_digits text 6 2)
                  else Some 0) of
              None \<Rightarrow> None
            | Some second \<Rightarrow>
                (if hour < 0 \<or> hour > 23 \<or> minute < 0 \<or> minute > 59 \<or> second < 0 \<or> second > 59
                 then None else Some (hour * 3600 + minute * 60 + second)))))"

definition parse_datetime :: "bytes \<Rightarrow> int option" where
  "parse_datetime text =
     (if length text < 16 then None
      else case parse_date (take 10 text) of None \<Rightarrow> None | Some days \<Rightarrow>
        (let sep = text ! 10
         in if sep \<noteq> of_char (CHR '' '') \<and> sep \<noteq> of_char (CHR ''T'') \<and> sep \<noteq> of_char (CHR ''t'') then None
            else case parse_time (drop 11 text) of None \<Rightarrow> None | Some secs \<Rightarrow>
              Some (days * kSecondsPerDay + secs)))"

definition format_date :: "int \<Rightarrow> bytes" where
  "format_date days =
     (case civil_from_days days of (year, month, day) \<Rightarrow>
        pad4 year @ str ''-'' @ pad2 (uint month) @ str ''-'' @ pad2 (uint day))"

definition format_time :: "int \<Rightarrow> bytes" where
  "format_time seconds =
     (let hour = cdiv seconds 3600;
          minute = cdiv (cmod seconds 3600) 60;
          second = cmod seconds 60
      in pad2 hour @ str '':'' @ pad2 minute @ str '':'' @ pad2 second)"

definition format_datetime :: "int \<Rightarrow> bytes" where
  "format_datetime seconds =
     (let days = cdiv seconds kSecondsPerDay;
          rest = cmod seconds kSecondsPerDay;
          (days', rest') = (if rest < 0 then (days - 1, rest + kSecondsPerDay) else (days, rest))
      in format_date days' @ str '' '' @ format_time rest')"

end
