(* ===== verification/Temporal_Calendar.thy ===== *)
theory Temporal_Calendar imports Temporal begin

text \<open>
  The two calendar conversions of \<^verbatim>\<open>sql_types/temporal.cpp\<close> are inverse to each other.
  The code computes with \<^verbatim>\<open>unsigned\<close> and \<^verbatim>\<open>int64_t\<close> intermediate values; the lemmas show that none of the former
  wraps, that none of the latter does within generous bounds, and give the integer reading of each conversion, in terms of the number \<open>cum y\<close> of days
  before the \<open>y\<close>-th March year of a 400-year era and of the number \<open>moff mp\<close> of days before the
  \<open>mp\<close>-th month counted from March.
\<close>

section \<open>The conversions over unbounded integers\<close>

definition days_exact :: "int \<Rightarrow> uint32 \<Rightarrow> uint32 \<Rightarrow> int" where
  "days_exact y0 m d =
     (let y = y0 - (if m \<le> 2 then 1 else 0);
          era = cdiv (if y \<ge> 0 then y else y - 399) 400;
          yoe = word_of_int (y - era * 400) :: uint32;
          doy = (153 * (m + (if m > 2 then -3 else 9)) + 2) div 5 + d - 1;
          doe = yoe * 365 + yoe div 4 - yoe div 100 + doy
      in era * 146097 + uint doe - 719468)"

definition civil_exact :: "int \<Rightarrow> int \<times> uint32 \<times> uint32" where
  "civil_exact days0 =
     (let days = days0 + 719468;
          era = cdiv (if days \<ge> 0 then days else days - 146096) 146097;
          doe = word_of_int (days - era * 146097) :: uint32;
          yoe = (doe - doe div 1460 + doe div 36524 - doe div 146096) div 365;
          y = uint yoe + era * 400;
          doy = doe - (365 * yoe + yoe div 4 - yoe div 100);
          mp = (5 * doy + 2) div 153;
          day = doy - (153 * mp + 2) div 5 + 1;
          month = mp + (if mp < 10 then 3 else -9);
          year = y + (if month \<le> 2 then 1 else 0)
      in (year, month, day))"

section \<open>The arithmetic of an era\<close>

definition cum :: "int \<Rightarrow> int" where "cum y = 365 * y + y div 4 - y div 100"

definition last_doe :: "int \<Rightarrow> int" where "last_doe y = (if y = 399 then 146096 else cum (y + 1) - 1)"

definition yoe_num :: "int \<Rightarrow> int" where "yoe_num x = x - x div 1460 + x div 36524 - x div 146096"

definition moff :: "int \<Rightarrow> int" where "moff mp = (153 * mp + 2) div 5"

abbreviation march_month :: "uint32 \<Rightarrow> int" where
  "march_month m \<equiv> if uint m > 2 then uint m - 3 else uint m + 9"

lemma yoe_table: "list_all (\<lambda>y. yoe_num (cum y) div 365 = y \<and> yoe_num (last_doe y) div 365 = y) [0..399]"
  by code_simp

lemma yoe_num_mono: "x \<le> x' \<Longrightarrow> yoe_num x \<le> yoe_num x'"
proof -
  assume le: "x \<le> x'"
  have 1: "x' div 1460 \<le> x div 1460 + (x' - x)" using div_add_le[of "x' - x" 1460 x] le by simp
  have q: "z div 146096 = z div 36524 div 4" for z :: int by (simp add: zdiv_zmult2_eq[symmetric])
  have "x div 36524 \<le> x' div 36524" using le by (rule zdiv_mono1) simp
  then have "x' div 36524 div 4 \<le> x div 36524 div 4 + (x' div 36524 - x div 36524)"
    using div_add_le[of "x' div 36524 - x div 36524" 4 "x div 36524"] by simp
  with 1 show ?thesis unfolding yoe_num_def q by linarith
qed

lemma yoe_unique:
  assumes "0 \<le> y" "y < 400" "cum y \<le> doe" "doe \<le> last_doe y"
  shows "yoe_num doe div 365 = y"
proof -
  have "yoe_num (cum y) div 365 = y" "yoe_num (last_doe y) div 365 = y"
    using yoe_table assms(1,2) by (auto simp: list_all_iff)
  moreover have "yoe_num (cum y) div 365 \<le> yoe_num doe div 365"
    using assms by (intro zdiv_mono1 yoe_num_mono) auto
  moreover have "yoe_num doe div 365 \<le> yoe_num (last_doe y) div 365"
    using assms by (intro zdiv_mono1 yoe_num_mono) auto
  ultimately show ?thesis by linarith
qed

lemma yoe_exists_upto:
  assumes "0 \<le> doe" "n \<le> 399" "doe \<le> last_doe (int n)"
  shows "\<exists>y. 0 \<le> y \<and> y \<le> int n \<and> cum y \<le> doe \<and> doe \<le> last_doe y"
  using assms(2,3)
proof (induction n)
  case 0
  then show ?case using assms(1) by (intro exI[of _ 0]) (simp add: cum_def)
next
  case (Suc n)
  show ?case
  proof (cases "doe \<le> last_doe (int n)")
    case True
    with Suc obtain y where "0 \<le> y \<and> y \<le> int n \<and> cum y \<le> doe \<and> doe \<le> last_doe y" by auto
    then show ?thesis by (intro exI[of _ y]) auto
  next
    case False
    then have "cum (int (Suc n)) \<le> doe" using Suc.prems by (simp add: last_doe_def add.commute)
    then show ?thesis using Suc.prems by (intro exI[of _ "int (Suc n)"]) auto
  qed
qed

lemma yoe_exists:
  assumes "0 \<le> doe" "doe \<le> 146096"
  shows "\<exists>y. 0 \<le> y \<and> y < 400 \<and> cum y \<le> doe \<and> doe \<le> last_doe y"
proof -
  have "doe \<le> last_doe (int 399)" using assms by (simp add: last_doe_def)
  then obtain y where y: "0 \<le> y" "y \<le> int 399" "cum y \<le> doe" "doe \<le> last_doe y"
    using yoe_exists_upto[OF assms(1) order.refl] by blast
  have "y < 400" using y(2) by simp
  then show ?thesis using y(1,3,4) by blast
qed

lemma month_cases:
  assumes "1 \<le> m" "m \<le> (12::uint32)"
  obtains "m = 1" | "m = 2" | "m = 3" | "m = 4" | "m = 5" | "m = 6" | "m = 7" | "m = 8"
    | "m = 9" | "m = 10" | "m = 11" | "m = 12"
proof -
  have "1 \<le> unat m" "unat m \<le> 12" using assms by (simp_all add: word_le_nat_alt)
  then have "unat m \<in> {1, 2, 3, 4, 5, 6, 7, 8, 9, 10, 11, 12}" unfolding insert_iff empty_iff by presburger
  then have "word_of_nat (unat m) \<in> (word_of_nat ` {1, 2, 3, 4, 5, 6, 7, 8, 9, 10, 11, 12} :: uint32 set)"
    by (rule imageI)
  then show ?thesis using that by auto
qed

lemma uint_month_offset:
  assumes "1 \<le> m" "m \<le> (12::uint32)"
  shows "uint ((153 * (m + (if m > 2 then -3 else 9)) + 2) div 5) =
     moff (if uint m > 2 then uint m - 3 else uint m + 9)"
  using assms by (cases m rule: month_cases; simp only:; code_simp)

lemma moff_bounds: "0 \<le> mp \<Longrightarrow> mp \<le> 11 \<Longrightarrow> 0 \<le> moff mp \<and> moff mp \<le> 337"
  using div_bounds[of 5 "153 * mp + 2"] by (simp add: moff_def)

lemma uint_doy:
  assumes "1 \<le> m" "m \<le> (12::uint32)" "1 \<le> d" "d \<le> 31"
  shows "uint ((153 * (m + (if m > 2 then -3 else 9)) + 2) div 5 + d - 1) =
     moff (if uint m > 2 then uint m - 3 else uint m + 9) + uint d - 1" (is "uint (?q + d - 1) = ?o + _ - 1")
proof -
  have m: "1 \<le> uint m" "uint m \<le> 12" and d: "1 \<le> uint d" "uint d \<le> 31"
    using assms by (simp_all add: word_le_def)
  have q: "uint ?q = ?o" using assms(1,2) by (rule uint_month_offset)
  have o: "0 \<le> ?o \<and> ?o \<le> 337" using m by (intro moff_bounds) auto
  have "uint (?q + d) = ?o + uint d" using q o d by (subst uint_plus_small) auto
  then show ?thesis using o d by (subst uint_minus_small) auto
qed

lemma uint_doe:
  assumes "uint yoe < 400" "uint doy \<le> 365"
  shows "uint (yoe * 365 + yoe div 4 - yoe div 100 + doy :: uint32) = cum (uint yoe) + uint doy"
proof -
  let ?y = "uint yoe"
  have y: "0 \<le> ?y" by simp
  have 1: "uint (yoe * 365) = ?y * 365" using assms by (subst uint_mult_small) auto
  have 2: "uint (yoe * 365 + yoe div 4) = ?y * 365 + ?y div 4"
    using assms by (subst uint_plus_small) (auto simp: 1 uint_div)
  have "?y div 100 \<le> ?y div 4" using y by (intro zdiv_mono2) auto
  then have "?y div 100 \<le> ?y * 365 + ?y div 4" using y by linarith
  then have 3: "uint (yoe * 365 + yoe div 4 - yoe div 100) = ?y * 365 + ?y div 4 - ?y div 100"
    using y by (subst uint_minus_small) (auto simp: 2 uint_div)
  have "?y * 365 + ?y div 4 - ?y div 100 + uint doy < 2 ^ 32" using assms y by simp
  then show ?thesis by (subst uint_plus_small) (auto simp: 3 cum_def mult.commute)
qed

lemma days_exact_int:
  fixes y :: int and m d :: uint32
  assumes "1 \<le> m" "m \<le> 12" "1 \<le> d" "d \<le> 31" 
  defines "y' \<equiv> y - (if m \<le> 2 then 1 else 0)"
  defines "mp \<equiv> if uint m > 2 then uint m - 3 else uint m + 9"
  assumes "moff mp + uint d - 1 \<le> 365"
  shows "days_exact y m d = (y' div 400) * 146097 + cum (y' mod 400) + (moff mp + uint d - 1) - 719468"
proof -
  have era: "cdiv (if 0 \<le> y' then y' else y' - 399) 400 = y' div 400"
    by (rule cdiv_floor') simp_all
  have yoe: "uint (word_of_int (y' mod 400) :: uint32) = y' mod 400"
    by (simp add: uint_word_of_int)
  have yoe2: "y' - y' div 400 * 400 = y' mod 400" by (simp add: minus_div_mult_eq_mod)
  let ?yoe = "word_of_int (y' mod 400) :: uint32"
  let ?doy = "(153 * (m + (if m > 2 then -3 else 9)) + 2) div 5 + d - 1"
  have doy: "uint ?doy = moff mp + uint d - 1" using uint_doy[OF assms(1-4)] by (simp only: mp_def)
  have "uint (?yoe * 365 + ?yoe div 4 - ?yoe div 100 + ?doy) = cum (uint ?yoe) + uint ?doy"
    by (rule uint_doe) (use yoe doy assms(7) in auto)
  then show ?thesis
    unfolding days_exact_def Let_def y'_def[symmetric] era yoe2 yoe doy by simp
qed

lemma doy_bounds:
  assumes "0 \<le> y" "y < 400" "cum y \<le> doe" "doe \<le> last_doe y"
  shows "0 \<le> doe - cum y \<and> doe - cum y \<le> 365"
proof (cases "y = 399")
  case True
  then show ?thesis using assms by (simp add: last_doe_def cum_def)
next
  case False
  then have le: "doe \<le> cum (y + 1) - 1" using assms by (simp add: last_doe_def)
  have "(y + 1) div 4 \<le> y div 4 + 1" using div_add_le[of 1 4 y] by simp
  moreover have "y div 100 \<le> (y + 1) div 100" by (rule zdiv_mono1) auto
  moreover have "a \<le> b + 1 \<Longrightarrow> c \<le> d \<Longrightarrow> 365 * (y + 1) + a - d \<le> 365 * y + b - c + 366" for a b c d :: int
    by simp
  ultimately have "cum (y + 1) \<le> cum y + 366" unfolding cum_def by blast
  then show ?thesis using assms le by simp
qed

lemma month_of_doy:
  assumes "0 \<le> doy" "doy \<le> 365"
  defines "mp \<equiv> (5 * doy + 2) div 153"
  shows "0 \<le> mp \<and> mp \<le> 11 \<and> moff mp \<le> doy \<and> doy - moff mp \<le> 30"
  using assms(1,2) div_bounds[of 153 "5 * doy + 2"] div_bounds[of 5 "153 * mp + 2"]
  unfolding mp_def[symmetric] moff_def by simp

lemma uint_yoe:
  assumes "uint doe \<le> 146096"
  shows "uint ((doe - doe div 1460 + doe div 36524 - doe div 146096) div 365 :: uint32) =
    yoe_num (uint doe) div 365"
proof -
  let ?D = "uint doe"
  have D: "0 \<le> ?D" by simp
  have le: "?D div 146096 \<le> ?D div 36524" "?D div 36524 \<le> ?D div 1" "?D div 1460 \<le> ?D div 1"
    using D by (intro zdiv_mono2; simp)+
  have 1: "uint (doe - doe div 1460) = ?D - ?D div 1460"
    using le by (subst uint_minus_small) (auto simp: uint_div)
  have 2: "uint (doe - doe div 1460 + doe div 36524) = ?D - ?D div 1460 + ?D div 36524"
    using le D assms by (subst uint_plus_small) (auto simp: 1 uint_div)
  have "uint (doe - doe div 1460 + doe div 36524 - doe div 146096) = yoe_num ?D"
    using le by (subst uint_minus_small) (auto simp: 2 uint_div yoe_num_def)
  then show ?thesis by (simp add: uint_div)
qed

lemma uint_mp:
  assumes "uint doy \<le> 365"
  shows "uint ((5 * doy + 2) div 153 :: uint32) = (5 * uint doy + 2) div 153"
proof -
  have "uint (5 * doy) = 5 * uint doy" using assms by (subst uint_mult_small) auto
  then have "uint (5 * doy + 2) = 5 * uint doy + 2" using assms by (subst uint_plus_small) auto
  then show ?thesis by (simp add: uint_div)
qed

lemma uint_day:
  assumes "uint mp \<le> 11" "moff (uint mp) \<le> uint doy" "uint doy \<le> 365"
  shows "uint (doy - (153 * mp + 2) div 5 + 1 :: uint32) = uint doy - moff (uint mp) + 1"
proof -
  have "uint (153 * mp) = 153 * uint mp" using assms by (subst uint_mult_small) auto
  then have "uint (153 * mp + 2) = 153 * uint mp + 2" using assms by (subst uint_plus_small) auto
  then have "uint ((153 * mp + 2) div 5) = moff (uint mp)" by (simp add: uint_div moff_def)
  then have d: "uint (doy - (153 * mp + 2) div 5) = uint doy - moff (uint mp)"
    using assms by (subst uint_minus_small) auto
  have "0 \<le> moff (uint mp)" using assms moff_bounds[of "uint mp"] by simp
  then show ?thesis using assms d by (subst uint_plus_small) auto
qed

lemma civil_exact_int:
  fixes n :: int
  defines "N \<equiv> n + 719468"
  defines "yoe \<equiv> yoe_num (N mod 146097) div 365"
  defines "doy \<equiv> N mod 146097 - cum yoe"
  defines "mp \<equiv> (5 * doy + 2) div 153"
  defines "m \<equiv> if mp < 10 then mp + 3 else mp - 9"
  assumes yoe: "0 \<le> yoe" "yoe < 400" "cum yoe \<le> N mod 146097" and doy: "0 \<le> doy" "doy \<le> 365"
  shows "civil_exact n =
     (yoe + N div 146097 * 400 + (if m \<le> 2 then 1 else 0), word_of_int m, word_of_int (doy - moff mp + 1))"
proof -
  have mp: "0 \<le> mp" "mp \<le> 11" "moff mp \<le> doy" "doy - moff mp \<le> 30"
    using month_of_doy[OF doy] by (auto simp: mp_def)
  have era: "cdiv (if 0 \<le> N then N else N - 146096) 146097 = N div 146097"
    by (rule cdiv_floor') simp_all
  have sub: "N - N div 146097 * 146097 = N mod 146097" by (simp add: minus_div_mult_eq_mod)
  define doew where "doew = (word_of_int (N mod 146097) :: uint32)"
  have doew: "uint doew = N mod 146097" by (simp add: doew_def uint_word_of_int)
  define yoew where "yoew = (doew - doew div 1460 + doew div 36524 - doew div 146096) div 365"
  have yoew: "uint yoew = yoe" unfolding yoew_def yoe_def
    by (subst uint_yoe) (use pos_mod_bound[of 146097 N] in \<open>auto simp: doew\<close>)
  define doyw where "doyw = doew - (365 * yoew + yoew div 4 - yoew div 100)"
  have "uint (365 * yoew + yoew div 4 - yoew div 100) = cum yoe"
    using uint_doe[of yoew 0] yoe by (simp add: yoew mult.commute)
  then have doyw: "uint doyw = doy" unfolding doyw_def
    using yoe by (subst uint_minus_small) (auto simp: doew doy_def)
  define mpw where "mpw = (5 * doyw + 2) div 153"
  have mpw: "uint mpw = mp" unfolding mpw_def mp_def using doy by (subst uint_mp) (auto simp: doyw)
  have day: "doyw - (153 * mpw + 2) div 5 + 1 = word_of_int (doy - moff mp + 1)"
    using mp doy by (intro uint_eq_word_of_int, subst uint_day) (auto simp: mpw doyw)
  have "mpw < 10 \<longleftrightarrow> mp < 10" by (simp add: word_less_def mpw)
  then have month: "mpw + (if mpw < 10 then 3 else -9) = word_of_int m"
    using uint_eq_word_of_int[OF mpw] by (simp add: m_def)
  have "0 \<le> m" "m \<le> 12" using mp by (auto simp: m_def)
  then have le2: "word_of_int m \<le> (2 :: uint32) \<longleftrightarrow> m \<le> 2"
    by (simp add: word_le_def uint_word_of_int)
  show ?thesis
    unfolding civil_exact_def Let_def N_def[symmetric] era sub doew_def[symmetric] yoew_def[symmetric]
      doyw_def[symmetric] mpw_def[symmetric] day month yoew le2 by simp
qed

lemma is_leap_iff: "is_leap_year y \<longleftrightarrow> (y mod 4 = 0 \<and> y mod 100 \<noteq> 0) \<or> y mod 400 = 0"
  by (simp add: is_leap_year_def cmod_eq_0_iff)

section \<open>Round trips\<close>

lemma days_in_month_31:
  assumes "1 \<le> m" "m \<le> (12::uint32)"
  shows "days_in_month y m \<le> 31"
  using assms by (cases m rule: month_cases) (simp_all add: days_in_month_def)

lemma month_of_doy_unique: "153 * k \<le> 5 * doy + 2 \<Longrightarrow> 5 * doy + 2 < 153 * k + 153 \<Longrightarrow> (5 * doy + 2) div 153 = k"
  for k doy :: int
  by (rule int_div_pos_eq[where r = "5 * doy + 2 - 153 * k"]) simp_all

lemma month_day_table:
  assumes "1 \<le> m" "m \<le> (12::uint32)" "1 \<le> d" "d \<le> days_in_month y m"
  shows "moff (march_month m) + d - 1 \<le> 364 + of_bool (m = 2 \<and> is_leap_year y) \<and>
    (5 * (moff (march_month m) + d - 1) + 2) div 153 = march_month m"
  using assms(1,2)
proof (cases m rule: month_cases)
  case 2
  then have "d \<le> 28 + of_bool (is_leap_year y)" using assms(4)
    by (cases "is_leap_year y") (simp_all add: days_in_month_def)
  then show ?thesis using assms(3) 2
    by (cases "is_leap_year y") (simp_all add: moff_def month_of_doy_unique)
qed (use assms(3,4) in \<open>(simp add: days_in_month_def moff_def month_of_doy_unique)\<close>)+

lemma cum_nonneg: "0 \<le> z \<Longrightarrow> z < 400 \<Longrightarrow> 0 \<le> cum z"
proof -
  assume z: "0 \<le> z" "z < 400"
  have "z div 100 \<le> 3" "0 \<le> z div 100" "0 \<le> z div 4" "z div 100 \<le> z" using z by (auto simp: zdiv_mono1 int_div_less_self)
  then show ?thesis using z by (simp add: cum_def)
qed

lemma last_doe_le: "0 \<le> z \<Longrightarrow> z < 400 \<Longrightarrow> last_doe z \<le> 146096"
proof -
  assume z: "0 \<le> z" "z < 400"
  have "z \<noteq> 399 \<Longrightarrow> (z + 1) div 4 \<le> 99"  "0 \<le> (z + 1) div 100" using z by auto
  then show ?thesis using z by (auto simp: last_doe_def cum_def)
qed

lemma leap_arith:
  fixes a b c d z :: int
  assumes "a = b + of_bool P" "c = d + of_bool Q" "Q \<Longrightarrow> P" "\<not> R"
  shows "365 * (z + 1) + a - c = 365 * z + b - d + 365 + of_bool (P \<and> \<not> Q \<or> R)"
  using assms by (cases P; cases Q) simp_all

lemma last_doe_leap:
  assumes "0 \<le> z" "z < 400"
  shows "last_doe z = cum z + 364 + of_bool (is_leap_year (z + 1))"
proof (cases "z = 399")
  case True
  then show ?thesis by (simp add: last_doe_def cum_def is_leap_iff)
next
  case False
  have "(z + 1) div 4 = z div 4 + of_bool ((z + 1) mod 4 = 0)" using assms by (simp add: div_plus_one)
  moreover have "(z + 1) div 100 = z div 100 + of_bool ((z + 1) mod 100 = 0)"
    using assms by (simp add: div_plus_one)
  moreover have "(z + 1) mod 100 = 0 \<Longrightarrow> (z + 1) mod 4 = 0"
    unfolding mod_eq_0_iff_dvd by (rule dvd_trans[of 4 100]) simp
  moreover have "(z + 1) mod 400 \<noteq> 0" using assms False by simp
  ultimately have "cum (z + 1) = cum z + 365 + of_bool (is_leap_year (z + 1))"
    unfolding cum_def is_leap_iff by (rule leap_arith)
  then show ?thesis using False by (simp add: last_doe_def)
qed

lemma is_leap_mod_400: "is_leap_year (y mod 400 + 1) \<longleftrightarrow> is_leap_year (y + 1)"
proof -
  have "(y mod 400 + 1) mod k = (y + 1) mod k" if "k dvd 400" for k
    using that by (metis mod_add_left_eq mod_mod_cancel)
  then show ?thesis by (simp add: is_leap_iff)
qed

lemma civil_days_exact:
  assumes m: "1 \<le> m" "m \<le> 12" and d: "1 \<le> uint d" "uint d \<le> days_in_month y m"
  shows "civil_exact (days_exact y m d) = (y, m, d)"
proof -
  define y' where "y' = y - (if m \<le> 2 then 1 else 0)"
  define doy where "doy = moff (march_month m) + uint d - 1"
  define doe where "doe = cum (y' mod 400) + doy"
  note table = month_day_table[OF m d, folded doy_def]
  have d31: "1 \<le> d" "d \<le> 31" using d days_in_month_31[OF m, of y] by (simp_all add: word_le_def)
  have um: "1 \<le> uint m" "uint m \<le> 12" using m by (simp_all add: word_le_def)
  have doy0: "0 \<le> doy" "doy \<le> 365" using table moff_bounds[of "march_month m"] um d
    by (auto simp: doy_def of_bool_def split: if_splits)
  have yoe: "0 \<le> y' mod 400" "y' mod 400 < 400" by auto
  have "m = 2 \<and> is_leap_year y \<Longrightarrow> is_leap_year (y' mod 400 + 1)"
    by (simp add: is_leap_mod_400 y'_def)
  then have le: "cum (y' mod 400) \<le> doe" "doe \<le> last_doe (y' mod 400)"
    using table doy0 last_doe_leap[OF yoe] by (auto simp: doe_def of_bool_def split: if_splits)
  have days: "days_exact y m d + 719468 = y' div 400 * 146097 + doe"
    using days_exact_int[OF m d31, of y] doy0 by (simp add: doe_def doy_def y'_def)
  have "0 \<le> cum (y' mod 400)" using cum_nonneg[OF yoe] .
  then have doe: "0 \<le> doe" "doe \<le> 146096" using le last_doe_le[OF yoe] by auto
  then have N: "(days_exact y m d + 719468) mod 146097 = doe" "(days_exact y m d + 719468) div 146097 = y' div 400"
    using days by (simp_all)
  have u: "yoe_num doe div 365 = y' mod 400" by (rule yoe_unique[OF yoe le])
  have bk: "(if march_month m < 10 then march_month m + 3 else march_month m - 9) = uint m"
    using um by auto
  have sub: "doe - cum (y' mod 400) = doy" by (simp add: doe_def)
  have mp: "(5 * doy + 2) div 153 = march_month m" using table by simp
  have "civil_exact (days_exact y m d) =
    (y' mod 400 + y' div 400 * 400 + (if uint m \<le> 2 then 1 else 0), m, word_of_int (doy - moff (march_month m) + 1))"
    by (rule civil_exact_int[of "days_exact y m d", unfolded N u sub mp bk word_of_int_uint])
      (use doy0 yoe le in auto)
  also have "y' mod 400 + y' div 400 * 400 + (if uint m \<le> 2 then 1 else 0) = y"
    using y'_def by (simp add: word_le_def)
  also have "word_of_int (doy - moff (march_month m) + 1) = d"
    unfolding doy_def by simp
  finally show ?thesis .
qed

lemma civil_exactE:
  obtains yoe doy where
    "0 \<le> yoe" "yoe < 400" "0 \<le> doy" "doy \<le> 364 + of_bool (is_leap_year (yoe + 1))"
    "(n + 719468) mod 146097 = cum yoe + doy"
    "civil_exact n =
      (let mp = (5 * doy + 2) div 153; m = if mp < 10 then mp + 3 else mp - 9
       in (yoe + (n + 719468) div 146097 * 400 + (if m \<le> 2 then 1 else 0), word_of_int m,
           word_of_int (doy - moff mp + 1)))"
proof -
  let ?doe = "(n + 719468) mod 146097"
  have "0 \<le> ?doe" "?doe \<le> 146096" by (simp_all add: pos_mod_bound[of 146097, simplified])
  then obtain yoe where y: "0 \<le> yoe" "yoe < 400" "cum yoe \<le> ?doe" "?doe \<le> last_doe yoe"
    using yoe_exists by blast
  have u: "yoe_num ?doe div 365 = yoe" by (rule yoe_unique[OF y])
  define doy where "doy = ?doe - cum yoe"
  have doy: "0 \<le> doy" "doy \<le> 364 + of_bool (is_leap_year (yoe + 1))"
    using y last_doe_leap[OF y(1,2)] by (simp_all add: doy_def)
  moreover have "doy \<le> 365" using doy(2) by (simp add: of_bool_def split: if_splits)
  moreover have "?doe = cum yoe + doy" by (simp add: doy_def)
  ultimately show ?thesis
    using that[of yoe doy, unfolded Let_def] y(1,2)
      civil_exact_int[of n, unfolded u doy_def[symmetric], OF y(1-3)] by blast
qed

lemma month_of_doy_cases:
  fixes doy :: int
  assumes "0 \<le> doy" "doy \<le> 365"
  obtains k where "k \<in> {0..11}" "(5 * doy + 2) div 153 = k" "153 * k \<le> 5 * doy + 2" "5 * doy + 2 < 153 * k + 153"
proof -
  have "153 * ((5 * doy + 2) div 153) \<le> 5 * doy + 2" "5 * doy + 2 < 153 * ((5 * doy + 2) div 153) + 153"
    using div_bounds[of 153 "5 * doy + 2"] by simp_all
  then show ?thesis using month_of_doy[OF assms] by (intro that[OF _ refl]) auto
qed

lemma march_table:
  assumes "0 \<le> doy" "doy \<le> 364 + of_bool (is_leap_year (y + 1))"
  defines "mp \<equiv> (5 * doy + 2) div 153"
  defines "m \<equiv> if mp < 10 then mp + 3 else mp - 9"
  shows "1 \<le> m \<and> m \<le> 12 \<and> 1 \<le> doy - moff mp + 1 \<and>
    doy - moff mp + 1 \<le> days_in_month (y + (if m \<le> 2 then 1 else 0)) (word_of_int m)"
proof -
  have "doy \<le> 365" using assms(2) by (simp add: of_bool_def split: if_splits)
  from month_of_doy_cases[OF assms(1) this] obtain k where k: "k \<in> {0..11}" "mp = k"
     "153 * k \<le> 5 * doy + 2" "5 * doy + 2 < 153 * k + 153" unfolding mp_def by metis
  have "k = 0 \<or> k = 1 \<or> k = 2 \<or> k = 3 \<or> k = 4 \<or> k = 5 \<or> k = 6 \<or> k = 7 \<or> k = 8 \<or> k = 9 \<or> k = 10 \<or> k = 11"
    using k(1) unfolding atLeastAtMost_iff by presburger
  then show ?thesis using assms(2) k(3,4) unfolding m_def k(2)
    by (elim disjE; cases "is_leap_year (y + 1)") (simp_all add: days_in_month_def moff_def)
qed

lemma uint32_of_small: "0 \<le> k \<Longrightarrow> k < 2 ^ 32 \<Longrightarrow> uint (word_of_int k :: uint32) = k"
  by (simp add: uint_word_of_int)

lemma is_leap_era: "is_leap_year (yoe + era * 400 + 1) \<longleftrightarrow> is_leap_year (yoe + 1)"
  using is_leap_mod_400[of "yoe + era * 400"] is_leap_mod_400[of yoe] by simp

lemma civil_exact_valid:
  assumes "civil_exact n = (y, m, d)"
  shows "1 \<le> m \<and> m \<le> 12 \<and> 1 \<le> uint d \<and> uint d \<le> days_in_month y m \<and> days_exact y m d = n"
proof -
  obtain yoe doy where yoe: "0 \<le> yoe" "yoe < 400"
    and doy: "0 \<le> doy" "doy \<le> 364 + of_bool (is_leap_year (yoe + 1))"
    and N: "(n + 719468) mod 146097 = cum yoe + doy"
    and c: "civil_exact n =
      (let mp = (5 * doy + 2) div 153; m = if mp < 10 then mp + 3 else mp - 9
       in (yoe + (n + 719468) div 146097 * 400 + (if m \<le> 2 then 1 else 0), word_of_int m,
           word_of_int (doy - moff mp + 1)))"
    by (rule civil_exactE)
  define mp where "mp = (5 * doy + 2) div 153"
  define m' where "m' = (if mp < 10 then mp + 3 else mp - 9)"
  define d' where "d' = doy - moff mp + 1"
  define era where "era = (n + 719468) div 146097"
  have y: "y = yoe + era * 400 + (if m' \<le> 2 then 1 else 0)" and m: "m = word_of_int m'"
    and d: "d = word_of_int d'"
    using assms unfolding c Let_def mp_def[symmetric] m'_def[symmetric] era_def[symmetric] d'_def by auto
  have t: "1 \<le> m'" "m' \<le> 12" "1 \<le> d'" "d' \<le> days_in_month y m"
    using march_table[of doy "yoe + era * 400"] doy
    unfolding is_leap_era mp_def[symmetric] m'_def[symmetric] d'_def[symmetric] m y by auto
  have um: "uint m = m'" using t by (simp add: m uint_word_of_int)
  have m12: "1 \<le> m" "m \<le> 12" using t um by (simp_all add: word_le_def)
  have "d' \<le> 31" using t days_in_month_31[OF m12, of y] by simp
  then have ud: "uint d = d'" using t by (simp add: d uint_word_of_int)
  have d31: "1 \<le> d" "d \<le> 31" using \<open>d' \<le> 31\<close> t ud by (simp_all add: word_le_def)
  have mm: "march_month m = mp" using month_of_doy[OF doy(1)] doy(2) t
    by (auto simp: um m'_def mp_def of_bool_def split: if_splits)
  have le2: "m \<le> 2 \<longleftrightarrow> m' \<le> 2" by (simp add: word_le_def um)
  have y': "y - (if m \<le> 2 then 1 else 0) = yoe + era * 400" by (simp add: y le2)
  have dd: "moff (march_month m) + uint d - 1 = doy" unfolding mm ud d'_def by simp
  have "doy \<le> 365" using doy(2) by (simp add: of_bool_def split: if_splits)
  then have "days_exact y m d = era * 146097 + cum yoe + doy - 719468"
    using days_exact_int[OF m12 d31, of y] unfolding dd y' using yoe by simp
  also have "\<dots> = n"
    using N div_mult_mod_eq[of "n + 719468" 146097] unfolding era_def by linarith
  finally show ?thesis using m12 t ud by simp
qed

lemma civil_year_range:
  assumes "civil_exact n = (y, m, d)" "kDateMinDays \<le> n" "n \<le> kDateMaxDays"
  shows "1 \<le> y \<and> y \<le> 9999"
proof -
  obtain yoe doy where yoe: "0 \<le> yoe" "yoe < 400"
    and doy: "0 \<le> doy" "doy \<le> 364 + of_bool (is_leap_year (yoe + 1))"
    and N: "(n + 719468) mod 146097 = cum yoe + doy"
    and c: "civil_exact n =
      (let mp = (5 * doy + 2) div 153; m = if mp < 10 then mp + 3 else mp - 9
       in (yoe + (n + 719468) div 146097 * 400 + (if m \<le> 2 then 1 else 0), word_of_int m,
           word_of_int (doy - moff mp + 1)))"
    by (rule civil_exactE)
  define mp where "mp = (5 * doy + 2) div 153"
  define era where "era = (n + 719468) div 146097"
  have n: "n + 719468 = era * 146097 + cum yoe + doy"
    using N div_mult_mod_eq[of "n + 719468" 146097] unfolding era_def by linarith
  have n': "306 \<le> n + 719468" "n + 719468 \<le> 3652364" using assms(2,3) by (simp_all add: temporal_bounds)
  have era: "0 \<le> era" "era \<le> 24" unfolding era_def using n' by auto
  have y: "y = yoe + era * 400 + (if (if mp < 10 then mp + 3 else mp - 9) \<le> 2 then 1 else 0)"
    using assms(1) unfolding c Let_def mp_def[symmetric] era_def[symmetric] by auto
  have "yoe = 0 \<Longrightarrow> era = 0 \<Longrightarrow> 10 \<le> mp" using n n' by (auto simp: mp_def cum_def)
  moreover have "yoe = 399 \<Longrightarrow> era = 24 \<Longrightarrow> mp < 10" using n n' by (auto simp: mp_def cum_def)
  moreover have "0 \<le> mp" "mp \<le> 11" using month_of_doy[OF doy(1)] doy(2)
    by (auto simp: mp_def of_bool_def split: if_splits)
  moreover have "yoe = 0 \<and> era = 0" if "yoe + era * 400 < 1" using that yoe era by linarith
  moreover have "yoe = 399 \<and> era = 24" if "9998 < yoe + era * 400" using that yoe era by linarith
  ultimately show ?thesis using yoe era unfolding y by (cases "mp < 10") force+
qed

section \<open>The conversions of the code\<close>

lemma wrap64_id: "- (2 ^ 63) \<le> x \<Longrightarrow> x < 2 ^ 63 \<Longrightarrow> wrap64 x = x"
  by (simp add: wrap64_def signed_of_int signed_take_bit_int_eq_self)

lemma era_bounds: "0 < n \<Longrightarrow> n * (x div n) \<le> x \<and> x < n * (x div n) + n" for n x :: int
  using mult_div_mod_eq[of n x] pos_mod_bound[of n x] pos_mod_sign[of n x] by linarith

lemma days_from_civil_exact:
  assumes "- (2 ^ 53) \<le> y" "y \<le> 2 ^ 53"
  shows "days_from_civil y m d = days_exact y m d"
proof -
  define y' where "y' = y - (if m \<le> 2 then 1 else 0)"
  define era where "era = y' div 400"
  have y': "- (2 ^ 53) - 1 \<le> y'" "y' \<le> 2 ^ 53" using assms by (simp_all add: y'_def)
  have cd: "cdiv (if 0 \<le> y' then y' else y' - 399) 400 = era" unfolding era_def by (rule cdiv_floor') simp_all
  have e: "400 * era \<le> y'" "y' < 400 * era + 400" using era_bounds[of 400 y'] by (simp_all add: era_def)
  have w: "wrap64 y' = y'" "wrap64 (y' - 399) = y' - 399" "wrap64 (era * 400) = era * 400" "wrap64 (era * 146097) = era * 146097"
    "wrap64 (y' - era * 400) = y' - era * 400"
    by (intro wrap64_id; use y' e in simp)+
  have "wrap64 (wrap64 (era * 146097 + k) - 719468) = era * 146097 + k - 719468" if "0 \<le> k" "k < 4294967296" for k
  proof -
    have "wrap64 (era * 146097 + k) = era * 146097 + k" using that y' e by (intro wrap64_id) simp_all
    then show ?thesis using that y' e by (simp add: wrap64_id)
  qed
  then have u: "wrap64 (wrap64 (era * 146097 + uint (u :: uint32)) - 719468) = era * 146097 + uint u - 719468" for u
    using uint_bounded[of u] by simp
  show ?thesis unfolding days_from_civil_def days_exact_def Let_def y'_def[symmetric] w cd u ..
qed

lemma civil_from_days_exact:
  assumes "- (2 ^ 61) \<le> n" "n \<le> 2 ^ 61"
  shows "civil_from_days n = civil_exact n"
proof -
  define N where "N = n + 719468"
  define era where "era = N div 146097"
  have N: "- (2 ^ 61) \<le> N" "N \<le> 2 ^ 61 + 719468" using assms by (simp_all add: N_def)
  have cd: "cdiv (if 0 \<le> N then N else N - 146096) 146097 = era" unfolding era_def by (rule cdiv_floor') simp_all
  have e: "146097 * era \<le> N" "N < 146097 * era + 146097" using era_bounds[of 146097 N] by (simp_all add: era_def)
  have w: "wrap64 N = N" "wrap64 (N - 146096) = N - 146096" "wrap64 (era * 146097) = era * 146097" "wrap64 (era * 400) = era * 400"
    "wrap64 (N - era * 146097) = N - era * 146097"
    by (intro wrap64_id; use N e in simp)+
  have "wrap64 (wrap64 (k + era * 400) + (if P then 1 else 0)) = k + era * 400 + (if P then 1 else 0)" if "0 \<le> k" "k < 4294967296" for k P
  proof -
    have "wrap64 (k + era * 400) = k + era * 400" using that N e by (intro wrap64_id) simp_all
    then show ?thesis using that N e by (cases P) (simp_all add: wrap64_id)
  qed
  then have u: "wrap64 (wrap64 (uint (u :: uint32) + era * 400) + (if P then 1 else 0)) = uint u + era * 400 + (if P then 1 else 0)" for u P
    using uint_bounded[of u] by simp
  show ?thesis unfolding civil_from_days_def civil_exact_def Let_def N_def[symmetric] w cd u ..
qed

lemma civil_exact_year:
  assumes "civil_exact n = (y, m, d)" "- (2 ^ 61) \<le> n" "n \<le> 2 ^ 61"
  shows "- (2 ^ 53) \<le> y \<and> y \<le> 2 ^ 53"
proof -
  obtain yoe doy where yoe: "0 \<le> yoe" "yoe < 400" and c: "civil_exact n =
      (let mp = (5 * doy + 2) div 153; m = if mp < 10 then mp + 3 else mp - 9
       in (yoe + (n + 719468) div 146097 * 400 + (if m \<le> 2 then 1 else 0), word_of_int m,
           word_of_int (doy - moff mp + 1)))"
    by (rule civil_exactE)
  define era where "era = (n + 719468) div 146097"
  have "yoe + era * 400 \<le> y" "y \<le> yoe + era * 400 + 1"
    using assms(1) unfolding c Let_def era_def[symmetric] by (auto split: if_splits)
  then show ?thesis using yoe era_bounds[of 146097 "n + 719468"] assms(2,3) unfolding era_def[symmetric] by simp
qed

lemma civil_from_days_valid:
  assumes "civil_from_days n = (y, m, d)" "- (2 ^ 61) \<le> n" "n \<le> 2 ^ 61"
  shows "1 \<le> m \<and> m \<le> 12 \<and> 1 \<le> uint d \<and> uint d \<le> days_in_month y m \<and> days_from_civil y m d = n"
proof -
  have c: "civil_exact n = (y, m, d)" using assms by (simp add: civil_from_days_exact)
  then show ?thesis using civil_exact_valid[OF c] civil_exact_year[OF c assms(2,3)] days_from_civil_exact[of y m d] by simp
qed

lemma civil_from_days_from_civil:
  assumes "- (2 ^ 52) \<le> y" "y \<le> 2 ^ 52" "1 \<le> m" "m \<le> 12" "1 \<le> uint d" "uint d \<le> days_in_month y m"
  shows "civil_from_days (days_from_civil y m d) = (y, m, d)"
proof -
  define y' where "y' = y - (if m \<le> 2 then 1 else 0)"
  define doy where "doy = moff (march_month m) + uint d - 1"
  have d31: "1 \<le> d" "d \<le> 31" using assms(5,6) days_in_month_31[OF assms(3,4), of y] by (simp_all add: word_le_def)
  have um: "1 \<le> uint m" "uint m \<le> 12" using assms(3,4) by (simp_all add: word_le_def)
  have doy: "0 \<le> doy" "doy \<le> 365"
    using month_day_table[OF assms(3-6), folded doy_def] moff_bounds[of "march_month m"] um assms(5)
    by (auto simp: doy_def of_bool_def split: if_splits)
  have x: "days_exact y m d = y' div 400 * 146097 + cum (y' mod 400) + doy - 719468"
    using days_exact_int[OF assms(3,4) d31, of y] doy by (simp add: doy_def y'_def)
  have y': "- (2 ^ 52) - 1 \<le> y'" "y' \<le> 2 ^ 52" using assms by (simp_all add: y'_def)
  have "0 \<le> y' mod 400" "y' mod 400 < 400" by simp_all
  then have "0 \<le> cum (y' mod 400)" "cum (y' mod 400) \<le> 146097" unfolding cum_def by auto
  then have "- (2 ^ 61) \<le> days_exact y m d" "days_exact y m d \<le> 2 ^ 61"
    unfolding x using y' doy era_bounds[of 400 y'] by simp_all
  then have "civil_from_days (days_exact y m d) = civil_exact (days_exact y m d)" by (rule civil_from_days_exact)
  then show ?thesis using civil_days_exact[OF assms(3-6)] days_from_civil_exact[of y m d] assms(1,2) by simp
qed

text \<open>
  C18: the two calendar conversions are inverse bijections between valid civil dates and day numbers, as long as no intermediate
  value overflows. Converting a valid date of a year within $\pm 2^{52}$ to a day number and back gives the date; converting
  a day number within $\pm 2^{61}$ gives a valid date (month 1 to 12, day within the month of that year, leap years
  included) that converts back to the number. The arithmetic is that of \<^verbatim>\<open>int64_t\<close> and \<^verbatim>\<open>unsigned\<close>, with wrap-around.
\<close>

theorem calendar_bijection:
  "(- (2 ^ 52) \<le> y \<and> y \<le> 2 ^ 52 \<and> 1 \<le> m \<and> m \<le> 12 \<and> 1 \<le> uint d \<and> uint d \<le> days_in_month y m \<longrightarrow>
      civil_from_days (days_from_civil y m d) = (y, m, d)) \<and>
   (- (2 ^ 61) \<le> n \<and> n \<le> 2 ^ 61 \<longrightarrow> (case civil_from_days n of (y, m, d) \<Rightarrow>
      1 \<le> m \<and> m \<le> 12 \<and> 1 \<le> uint d \<and> uint d \<le> days_in_month y m \<and> days_from_civil y m d = n))"
  using civil_from_days_from_civil[of y m d] civil_from_days_valid[of n] by (cases "civil_from_days n") auto

theorem calendar_bijection_witness:
  "civil_from_days (days_from_civil 2000 2 29) = (2000, 2, 29) \<and>
   days_from_civil 1969 12 31 = -1 \<and> civil_from_days (-1) = (1969, 12, 31)"
proof -
  have "days_from_civil 1969 12 31 = -1" by code_simp
  moreover have "uint (29 :: uint32) \<le> days_in_month 2000 2" by code_simp
  moreover have "uint (31 :: uint32) \<le> days_in_month 1969 12" by code_simp
  ultimately show ?thesis
    using calendar_bijection[of 2000 2 29 0] calendar_bijection[of 1969 12 31 0] by simp
qed

end
