(* ===== verification/Temporal_Text.thy ===== *)
theory Temporal_Text imports Temporal_Calendar begin

text \<open>
  The text formats of \<^verbatim>\<open>sql_types/temporal.cpp\<close>: what \<^verbatim>\<open>format_date\<close>, \<^verbatim>\<open>format_time\<close> and
  \<^verbatim>\<open>format_datetime\<close> print is read back by the parsers as the number it came from, for every number
  a column of the type admits.
\<close>

section \<open>Digits\<close>

definition digit_byte :: "int \<Rightarrow> byte" where
  "digit_byte k = word_of_int (48 + k)"

lemma digit_byte_0: "48 = digit_byte 0"
  by (simp add: digit_byte_def)

lemma uint_digit_byte: "0 \<le> k \<Longrightarrow> k \<le> 9 \<Longrightarrow> uint (digit_byte k) = 48 + k"
  unfolding digit_byte_def by (subst uint_word_of_int) simp

lemma isdigit_digit_byte: "0 \<le> k \<Longrightarrow> k \<le> 9 \<Longrightarrow> isdigit (digit_byte k)"
  using uint_digit_byte[of k] by (simp add: isdigit_def word_le_def)

lemma decimal_digits_small: "n < 10 \<Longrightarrow> decimal_digits n = [digit_byte (int n)]"
  by (simp add: decimal_digits.simps digit_byte_def)

lemma decimal_digits_step: "10 \<le> n \<Longrightarrow> decimal_digits n = decimal_digits (n div 10) @ [digit_byte (int n mod 10)]"
proof -
  assume "10 \<le> n"
  moreover have "int n mod 10 = int (n mod 10)" by (simp add: zmod_int)
  ultimately show ?thesis by (subst decimal_digits.simps) (simp only: digit_byte_def of_int_add of_int_of_nat_eq of_nat_add, simp)
qed

lemma pad2_digits:
  assumes "0 \<le> v" "v \<le> 99"
  shows "pad2 v = [digit_byte (v div 10), digit_byte (v mod 10)]"
proof (cases "v < 10")
  case True
  then show ?thesis using assms by (simp add: digit_byte_0 pad2_def pad_int_def decimal_digits_small)
next
  case False
  then have "nat v div 10 < 10" "10 \<le> nat v" using assms by auto
  then have "decimal_digits (nat v) = [digit_byte (v div 10), digit_byte (v mod 10)]"
    using assms by (simp add: decimal_digits_step decimal_digits_small zdiv_int)
  then show ?thesis using assms by (simp add: digit_byte_0 pad2_def pad_int_def)
qed

lemma replicate_2: "replicate 2 x = [x, x]" by (simp add: numeral_eq_Suc)

lemma pad4_digits:
  assumes "0 \<le> v" "v \<le> 9999"
  shows "pad4 v = [digit_byte (v div 1000), digit_byte (v div 100 mod 10), digit_byte (v div 10 mod 10), digit_byte (v mod 10)]"
proof -
  define n where "n = nat v"
  have v: "v = int n" "n \<le> 9999" using assms by (auto simp: n_def)
  consider "n < 10" | "10 \<le> n" "n < 100" | "100 \<le> n" "n < 1000" | "1000 \<le> n" by linarith
  then show ?thesis
  proof cases
    case 1 then show ?thesis using v by (simp add: digit_byte_0 pad4_def pad_int_def decimal_digits_small numeral_eq_Suc)
  next
    case 2
    then have "decimal_digits n = [digit_byte (int n div 10), digit_byte (int n mod 10)]"
      by (simp add: decimal_digits_step decimal_digits_small zdiv_int)
    then show ?thesis using v 2 by (simp add: digit_byte_0 pad4_def pad_int_def replicate_2)
  next
    case 3
    then have "n div 10 div 10 < 10" "10 \<le> n div 10" by auto
    then have "decimal_digits n = [digit_byte (int n div 100), digit_byte (int n div 10 mod 10), digit_byte (int n mod 10)]"
      using 3 by (simp add: decimal_digits_step decimal_digits_small zdiv_int zmod_int flip: div_mult2_eq)
    then show ?thesis using v 3 by (simp add: digit_byte_0 pad4_def pad_int_def)
  next
    case 4
    then have "n div 10 div 10 div 10 < 10" "10 \<le> n div 10 div 10" "10 \<le> n div 10" using v by auto
    then have "decimal_digits n = [digit_byte (int n div 1000), digit_byte (int n div 100 mod 10), digit_byte (int n div 10 mod 10), digit_byte (int n mod 10)]"
      using 4 by (simp add: decimal_digits_step decimal_digits_small zdiv_int zmod_int flip: div_mult2_eq)
    then show ?thesis using v 4 by (simp add: digit_byte_0 pad4_def pad_int_def)
  qed
qed

lemma read_digits_at:
  assumes "s = a @ ds @ b" "length a = pos" "length ds = count" "list_all isdigit ds"
  shows "read_digits s pos count = Some (foldl (\<lambda>v c. v * 10 + (uint c - 48)) 0 ds)"
  using assms by (auto simp: read_digits_def list_all_iff)

lemma read_pad2:
  assumes "s = a @ pad2 v @ b" "length a = pos" "0 \<le> v" "v \<le> 99"
  shows "read_digits s pos 2 = Some v"
proof -
  have d: "0 \<le> v div 10" "v div 10 \<le> 9" "0 \<le> v mod 10" "v mod 10 \<le> 9" using assms by auto
  show ?thesis
    using assms(1,2) d unfolding pad2_digits[OF assms(3,4)]
    by (subst read_digits_at[OF assms(1), unfolded pad2_digits[OF assms(3,4)]]) (simp_all add: isdigit_digit_byte uint_digit_byte)
qed

lemma read_pad4:
  assumes "s = a @ pad4 v @ b" "length a = pos" "0 \<le> v" "v \<le> 9999"
  shows "read_digits s pos 4 = Some v"
proof -
  define p q r t where "p = v div 1000" and "q = v div 100 mod 10" and "r = v div 10 mod 10" and "t = v mod 10"
  have d: "0 \<le> p" "p \<le> 9" "0 \<le> q" "q \<le> 9" "0 \<le> r" "r \<le> 9" "0 \<le> t" "t \<le> 9"
    using assms by (auto simp: p_def q_def r_def t_def)
  have "v div 100 = p * 10 + q" using div_mult_mod_eq[of "v div 100" 10]
    by (simp add: p_def q_def flip: zdiv_zmult2_eq)
  moreover have "v div 10 = v div 100 * 10 + r" using div_mult_mod_eq[of "v div 10" 10]
    by (simp add: r_def flip: zdiv_zmult2_eq)
  ultimately have v: "((p * 10 + q) * 10 + r) * 10 + t = v" using div_mult_mod_eq[of v 10] by (simp add: t_def)
  have pad: "pad4 v = [digit_byte p, digit_byte q, digit_byte r, digit_byte t]"
    using pad4_digits[OF assms(3,4)] by (simp only: p_def q_def r_def t_def)
  show ?thesis
    by (subst read_digits_at[OF assms(1,2), unfolded pad]) (use d v in \<open>simp_all add: isdigit_digit_byte uint_digit_byte\<close>)
qed

lemma length_pad2: "0 \<le> v \<Longrightarrow> v \<le> 99 \<Longrightarrow> length (pad2 v) = 2" by (simp add: pad2_digits)

lemma length_pad4: "0 \<le> v \<Longrightarrow> v \<le> 9999 \<Longrightarrow> length (pad4 v) = 4" by (simp add: pad4_digits)

lemma parse_format_date:
  assumes "kDateMinDays \<le> n" "n \<le> kDateMaxDays"
  shows "parse_date (format_date n) = Some n \<and> length (format_date n) = 10"
proof -
  obtain y m d where c: "civil_from_days n = (y, m, d)" by (cases "civil_from_days n") auto
  have v: "1 \<le> m" "m \<le> 12" "1 \<le> uint d" "uint d \<le> days_in_month y m" "days_from_civil y m d = n"
    using civil_from_days_valid[OF c] assms by (auto simp: temporal_bounds)
  have "civil_exact n = (y, m, d)" using c civil_from_days_exact[of n] assms by (simp add: temporal_bounds)
  from civil_year_range[OF this assms] have y: "0 \<le> y" "y \<le> 9999" by auto
  have um: "1 \<le> uint m" "uint m \<le> 12" using v by (simp_all add: word_le_def)
  have d31: "uint d \<le> 31" using v days_in_month_31[OF v(1,2), of y] by simp
  define t where "t = pad4 y @ str ''-'' @ pad2 (uint m) @ str ''-'' @ pad2 (uint d)"
  have len: "length t = 10" using y um d31 v by (simp add: t_def length_pad2 length_pad4 str_simps)
  have y4: "read_digits t 0 4 = Some y" using y by (intro read_pad4[of _ "[]"]) (auto simp: t_def)
  have m2: "read_digits t 5 2 = Some (uint m)" using um y
    by (intro read_pad2[of _ "pad4 y @ str ''-''" _ "str ''-'' @ pad2 (uint d)"]) (auto simp: t_def length_pad4 str_simps)
  have d2: "read_digits t 8 2 = Some (uint d)" using um d31 v y
    by (intro read_pad2[of _ "pad4 y @ str ''-'' @ pad2 (uint m) @ str ''-''" _ "[]"])
      (auto simp: t_def length_pad4 length_pad2 str_simps)
  have sep: "read_separator t 4 (of_char (CHR ''-''))" "read_separator t 7 (of_char (CHR ''-''))"
    using len y um by (auto simp: t_def read_separator_def pad4_digits pad2_digits str_simps)
  have "format_date n = t" by (simp add: format_date_def c t_def)
  then show ?thesis using len y4 m2 d2 sep um v assms by (simp add: parse_date_def)
qed

lemma parse_format_time:
  assumes "kTimeMinSeconds \<le> n" "n \<le> kTimeMaxSeconds"
  shows "parse_time (format_time n) = Some n \<and> length (format_time n) = 8"
proof -
  define h mi s where "h = n div 3600" and "mi = n mod 3600 div 60" and "s = n mod 60"
  have n: "0 \<le> n" "n \<le> 86399" using assms by (simp_all add: temporal_bounds)
  have h: "0 \<le> h" "h \<le> 23" using n by (auto simp: h_def)
  have mi: "0 \<le> mi" "mi \<le> 59" by (auto simp: mi_def)
  have s: "0 \<le> s" "s \<le> 59" by (auto simp: s_def)
  define t where "t = pad2 h @ str '':'' @ pad2 mi @ str '':'' @ pad2 s"
  have f: "format_time n = t"
    using n by (simp add: format_time_def t_def h_def mi_def s_def cdiv_nonneg cmod_nonneg)
  have len: "length t = 8" using h mi s by (simp add: t_def length_pad2 str_simps)
  have h2: "read_digits t 0 2 = Some h" using h by (intro read_pad2[of _ "[]"]) (auto simp: t_def)
  have m2: "read_digits t 3 2 = Some mi" using h mi
    by (intro read_pad2[of _ "pad2 h @ str '':''" _ "str '':'' @ pad2 s"]) (auto simp: t_def length_pad2 str_simps)
  have s2: "read_digits t 6 2 = Some s" using h mi s
    by (intro read_pad2[of _ "pad2 h @ str '':'' @ pad2 mi @ str '':''" _ "[]"]) (auto simp: t_def length_pad2 str_simps)
  have sep: "read_separator t 2 (of_char (CHR '':''))" "read_separator t 5 (of_char (CHR '':''))"
    using len h mi by (auto simp: t_def read_separator_def pad2_digits str_simps)
  have "n mod 3600 mod 60 = s" unfolding s_def by (rule mod_mod_cancel) simp
  then have "h * 3600 + mi * 60 + s = n"
    using div_mult_mod_eq[of n 3600] div_mult_mod_eq[of "n mod 3600" 60] unfolding h_def mi_def by linarith
  then show ?thesis unfolding f using len h2 m2 s2 sep h mi s by (simp add: parse_time_def)
qed

lemma parse_format_datetime:
  assumes "kDateTimeMinSeconds \<le> n" "n \<le> kDateTimeMaxSeconds"
  shows "parse_datetime (format_datetime n) = Some n \<and> length (format_datetime n) = 19"
proof -
  define d r where "d = n div 86400" and "r = n mod 86400"
  have f: "format_datetime n = format_date d @ str '' '' @ format_time r" 
  unfolding format_datetime_def Let_def temporal_bounds using pos_mod_bound[of 86400 n]
    by (auto simp: d_def r_def cdiv_floor_cases cmod_floor_cases)
  have d: "kDateMinDays \<le> d" "d \<le> kDateMaxDays" and r: "kTimeMinSeconds \<le> r" "r \<le> kTimeMaxSeconds"
    using assms pos_mod_bound[of 86400 n] by (auto simp: d_def r_def temporal_bounds)
  note D = parse_format_date[OF d] and T = parse_format_time[OF r]
  have "take 10 (format_datetime n) = format_date d" "drop 11 (format_datetime n) = format_time r"
    "format_datetime n ! 10 = of_char (CHR '' '')"
    using D by (simp_all add: f str_simps nth_append)
  moreover have "d * 86400 + r = n" by (simp add: d_def r_def)
  ultimately show ?thesis using D T by (simp add: parse_datetime_def f str_simps kSecondsPerDay_def)
qed

text \<open>
  C19: printing a DATE, TIME or DATETIME number and parsing the text gives the number back, for every
  number within the bounds of the type, including seconds before 1970, and the texts have the fixed
  widths 10, 8 and 19.
\<close>

theorem temporal_text_roundtrip:
  "(kDateMinDays \<le> n \<and> n \<le> kDateMaxDays \<longrightarrow>
      parse_date (format_date n) = Some n \<and> length (format_date n) = 10) \<and>
   (kTimeMinSeconds \<le> n \<and> n \<le> kTimeMaxSeconds \<longrightarrow>
      parse_time (format_time n) = Some n \<and> length (format_time n) = 8) \<and>
   (kDateTimeMinSeconds \<le> n \<and> n \<le> kDateTimeMaxSeconds \<longrightarrow>
      parse_datetime (format_datetime n) = Some n \<and> length (format_datetime n) = 19)"
  using parse_format_date parse_format_time parse_format_datetime by blast

theorem temporal_text_roundtrip_witness:
  "parse_date (format_date (-1)) = Some (-1) \<and> parse_time (format_time 3661) = Some 3661 \<and>
   parse_datetime (format_datetime (-1)) = Some (-1)"
  using temporal_text_roundtrip[of "-1"] temporal_text_roundtrip[of 3661] by (simp add: temporal_bounds)

end
