(* ===== verification/Identifier.thy ===== *)
theory Identifier imports Field_Type begin

text \<open>
  SQL identifiers (\<^verbatim>\<open>sql_types/identifier.h\<close>): the name without its quotes, its lower-case form,
  which alone decides equality, order and hashing, and whether it was quoted.
\<close>

record Identifier =
  id_name :: bytes
  id_normalized :: bytes
  id_quoted :: bool

definition make_lower :: "bytes \<Rightarrow> bytes" where
  "make_lower s = map tolower s"

definition in_quotes :: "bytes \<Rightarrow> bool" where
  "in_quotes raw \<longleftrightarrow>
     length raw \<ge> 2 \<and>
     ((hd raw = of_char (CHR 0x22) \<and> last raw = of_char (CHR 0x22)) \<or>
      (hd raw = of_char (CHR 0x27) \<and> last raw = of_char (CHR 0x27)))"

definition make_identifier :: "bytes \<Rightarrow> Identifier" where
  "make_identifier raw =
     (if in_quotes raw
      then (let name = take (length raw - 2) (drop 1 raw)
            in \<lparr> id_name = name, id_normalized = make_lower name, id_quoted = True \<rparr>)
      else \<lparr> id_name = raw, id_normalized = make_lower raw, id_quoted = False \<rparr>)"

text \<open>A default-constructed identifier.\<close>

definition no_identifier :: Identifier where
  "no_identifier = \<lparr> id_name = [], id_normalized = [], id_quoted = False \<rparr>"

definition display_name :: "Identifier \<Rightarrow> bytes" where
  "display_name i = (if id_quoted i then [of_char (CHR 0x22)] @ id_name i @ [of_char (CHR 0x22)] else id_name i)"

definition id_eq :: "Identifier \<Rightarrow> Identifier \<Rightarrow> bool" where
  "id_eq a b \<longleftrightarrow> id_normalized a = id_normalized b"

definition id_less :: "Identifier \<Rightarrow> Identifier \<Rightarrow> bool" where
  "id_less a b \<longleftrightarrow> id_normalized a < id_normalized b"

definition id_eq_str :: "Identifier \<Rightarrow> bytes \<Rightarrow> bool" where
  "id_eq_str a s \<longleftrightarrow> id_normalized a = make_lower s"

definition id_hash :: "(bytes \<Rightarrow> 'h) \<Rightarrow> Identifier \<Rightarrow> 'h" where
  "id_hash std_hash a = std_hash (id_normalized a)"

text \<open>The class invariant that every constructor establishes.\<close>

definition id_wf :: "Identifier \<Rightarrow> bool" where
  "id_wf a \<longleftrightarrow> id_normalized a = make_lower (id_name a)"

lemma id_wf_make_identifier [simp]: "id_wf (make_identifier raw)" "id_wf no_identifier"
  by (simp_all add: id_wf_def make_identifier_def no_identifier_def make_lower_def Let_def)

lemma id_eq_equiv [simp]: "id_eq a a" "id_eq a b \<Longrightarrow> id_eq b a"
  by (simp_all add: id_eq_def)

lemma id_eq_trans: "id_eq a b \<Longrightarrow> id_eq b c \<Longrightarrow> id_eq a c"
  by (simp add: id_eq_def)

lemma id_eq_iff_case_insensitive:
  "id_wf a \<Longrightarrow> id_wf b \<Longrightarrow> id_eq a b \<longleftrightarrow> iequals_ascii (id_name a) (id_name b)"
  by (simp add: id_eq_def id_wf_def make_lower_def iequals_ascii_map)

lemma id_eq_str_iff: "id_wf a \<Longrightarrow> id_wf b \<Longrightarrow> id_eq_str a (id_name b) \<longleftrightarrow> id_eq a b"
  by (simp add: id_eq_str_def id_eq_def id_wf_def)

text \<open>Displaying and reading back a name gives the identifier, when an unquoted name does not itself look quoted.\<close>

lemma identifier_display:
  assumes "id_wf a" and "id_quoted a \<or> \<not> in_quotes (id_name a)"
  shows "make_identifier (display_name a) = a"
  using assms by (cases a) (auto simp: make_identifier_def display_name_def in_quotes_def id_wf_def)

text \<open>Re-reading the bare name keeps the identifier up to equality, unless the bare name looks quoted.\<close>

lemma identifier_name:
  "id_wf a \<Longrightarrow> \<not> in_quotes (id_name a) \<Longrightarrow> make_identifier (id_name a) = a\<lparr>id_quoted := False\<rparr>"
  by (cases a) (simp add: make_identifier_def id_wf_def)

end
