(* ===== verification/Sql_Value.thy ===== *)
theory Sql_Value imports Temporal Identifier begin

text \<open>
  SQL values (\<^verbatim>\<open>sql_types/value.h\<close>, \<^verbatim>\<open>value.cpp\<close>). The class pairs a logical type with a variant
  whose alternative the type determines: every constructor stores an \<^verbatim>\<open>int64_t\<close> for the integer
  and temporal types, a \<^verbatim>\<open>bool\<close> for BOOLEAN, a \<^verbatim>\<open>std::string\<close> for the string types and nothing
  for NULL. The datatype has one constructor per alternative, carrying the logical
  type among those the alternative admits, so a value satisfies that invariant by construction. The
  constructor from an \<^verbatim>\<open>int64_t\<close> and a type would also admit BOOLEAN; no code passes it that type, and
  such a value, which has no alternative to match its type, is not represented.
\<close>

section \<open>Values\<close>

datatype int_kind = K_TINYINT | K_SMALLINT | K_INT | K_BIGINT | K_DATE | K_TIME | K_DATETIME

datatype str_kind = K_CHAR | K_VARCHAR | K_TEXT

datatype Value = NullV | IntV int_kind int64 | BoolV bool | StrV str_kind bytes

fun int_type :: "int_kind \<Rightarrow> DataType" where
  "int_type K_TINYINT = TINYINT"
| "int_type K_SMALLINT = SMALLINT"
| "int_type K_INT = INT_TYPE"
| "int_type K_BIGINT = BIGINT"
| "int_type K_DATE = DATE"
| "int_type K_TIME = TIME"
| "int_type K_DATETIME = DATETIME"

fun str_type :: "str_kind \<Rightarrow> DataType" where
  "str_type K_CHAR = CHAR_TYPE"
| "str_type K_VARCHAR = VARCHAR"
| "str_type K_TEXT = TEXT"

fun int_kind_of :: "DataType \<Rightarrow> int_kind option" where
  "int_kind_of TINYINT = Some K_TINYINT"
| "int_kind_of SMALLINT = Some K_SMALLINT"
| "int_kind_of INT_TYPE = Some K_INT"
| "int_kind_of BIGINT = Some K_BIGINT"
| "int_kind_of DATE = Some K_DATE"
| "int_kind_of TIME = Some K_TIME"
| "int_kind_of DATETIME = Some K_DATETIME"
| "int_kind_of _ = None"

fun str_kind_of :: "DataType \<Rightarrow> str_kind option" where
  "str_kind_of CHAR_TYPE = Some K_CHAR"
| "str_kind_of VARCHAR = Some K_VARCHAR"
| "str_kind_of TEXT = Some K_TEXT"
| "str_kind_of _ = None"

fun vtype :: "Value \<Rightarrow> DataType" where
  "vtype NullV = NULL_TYPE"
| "vtype (IntV k _) = int_type k"
| "vtype (BoolV _) = BOOLEAN"
| "vtype (StrV k _) = str_type k"

section \<open>Type tests and accessors\<close>

definition v_is_null :: "Value \<Rightarrow> bool" where
  "v_is_null v \<longleftrightarrow> vtype v = NULL_TYPE \<or> vtype v = UNKNOWN_TYPE"

definition v_is_int :: "Value \<Rightarrow> bool" where "v_is_int v \<longleftrightarrow> is_integer (vtype v)"
definition v_is_string :: "Value \<Rightarrow> bool" where "v_is_string v \<longleftrightarrow> is_string (vtype v)"
definition v_is_bool :: "Value \<Rightarrow> bool" where "v_is_bool v \<longleftrightarrow> vtype v = BOOLEAN"
definition v_is_numeric :: "Value \<Rightarrow> bool" where "v_is_numeric v \<longleftrightarrow> is_numeric (vtype v)"
definition v_is_temporal :: "Value \<Rightarrow> bool" where "v_is_temporal v \<longleftrightarrow> is_temporal (vtype v)"
definition v_is_date :: "Value \<Rightarrow> bool" where "v_is_date v \<longleftrightarrow> vtype v = DATE"
definition v_is_time :: "Value \<Rightarrow> bool" where "v_is_time v \<longleftrightarrow> vtype v = TIME"
definition v_is_datetime :: "Value \<Rightarrow> bool" where "v_is_datetime v \<longleftrightarrow> vtype v = DATETIME"

definition holds_int64 :: "Value \<Rightarrow> bool" where
  "holds_int64 v \<longleftrightarrow> is_integer (vtype v) \<or> is_temporal (vtype v)"

text \<open>\<^verbatim>\<open>std::get\<close> on the variant.\<close>

fun storage_int64 :: "Value \<Rightarrow> cpp_exn + int64" where
  "storage_int64 (IntV _ v) = Inr v"
| "storage_int64 _ = Inl Bad_Variant_Access"

fun storage_string :: "Value \<Rightarrow> cpp_exn + bytes" where
  "storage_string (StrV _ s) = Inr s"
| "storage_string _ = Inl Bad_Variant_Access"

fun storage_bool :: "Value \<Rightarrow> cpp_exn + bool" where
  "storage_bool (BoolV b) = Inr b"
| "storage_bool _ = Inl Bad_Variant_Access"

definition as_int :: "Value \<Rightarrow> cpp_exn + int64" where
  "as_int v = (if \<not> holds_int64 v then Inl Runtime_Error else storage_int64 v)"

definition as_str :: "Value \<Rightarrow> cpp_exn + bytes" where
  "as_str v = (if \<not> v_is_string v then Inl Runtime_Error else storage_string v)"

definition as_bool :: "Value \<Rightarrow> cpp_exn + bool" where
  "as_bool v = (if \<not> v_is_bool v then Inl Runtime_Error else storage_bool v)"

definition get_int :: "int64 \<Rightarrow> Value \<Rightarrow> int64" where
  "get_int default_val v = (case v of IntV _ i \<Rightarrow> i | _ \<Rightarrow> default_val)"

definition get_bool :: "bool \<Rightarrow> Value \<Rightarrow> bool" where
  "get_bool default_val v = (case v of BoolV b \<Rightarrow> b | _ \<Rightarrow> default_val)"

definition get_str_view :: "Value \<Rightarrow> bytes" where
  "get_str_view v = (case v of StrV _ s \<Rightarrow> s | _ \<Rightarrow> [])"

fun is_truthy :: "Value \<Rightarrow> bool" where
  "is_truthy (IntV _ v) \<longleftrightarrow> v \<noteq> 0"
| "is_truthy (BoolV b) \<longleftrightarrow> b"
| "is_truthy (StrV _ s) \<longleftrightarrow> s \<noteq> []"
| "is_truthy NullV \<longleftrightarrow> False"

section \<open>Equality and hashing\<close>

definition value_eq :: "Value \<Rightarrow> Value \<Rightarrow> bool" where
  "value_eq a b \<longleftrightarrow>
     (if v_is_null a \<or> v_is_null b then v_is_null a \<and> v_is_null b
      else if v_is_temporal a \<or> v_is_temporal b
        then vtype a = vtype b \<and> holds_int64 a \<and> holds_int64 b \<and> storage_int64 a = storage_int64 b
      else
        let lhs_class = get_type_family (vtype a); rhs_class = get_type_family (vtype b)
        in if lhs_class \<noteq> rhs_class then False
           else (case lhs_class of
                   F_INTEGER \<Rightarrow> storage_int64 a = storage_int64 b
                 | F_BOOLEAN \<Rightarrow> storage_bool a = storage_bool b
                 | F_STRING \<Rightarrow> storage_string a = storage_string b
                 | _ \<Rightarrow> False))"

text \<open>The enumerator values of \<^verbatim>\<open>DataType\<close>.\<close>

fun data_type_code :: "DataType \<Rightarrow> nat" where
  "data_type_code TINYINT = 0"
| "data_type_code SMALLINT = 1"
| "data_type_code INT_TYPE = 2"
| "data_type_code BIGINT = 3"
| "data_type_code CHAR_TYPE = 4"
| "data_type_code VARCHAR = 5"
| "data_type_code TEXT = 6"
| "data_type_code BOOLEAN = 7"
| "data_type_code DATE = 8"
| "data_type_code TIME = 9"
| "data_type_code DATETIME = 10"
| "data_type_code NULL_TYPE = 11"
| "data_type_code UNKNOWN_TYPE = 12"

text \<open>The three \<^verbatim>\<open>std::hash\<close> functions are arguments.\<close>

fun value_hash :: "(int64 \<Rightarrow> uint64) \<Rightarrow> (bool \<Rightarrow> uint64) \<Rightarrow> (bytes \<Rightarrow> uint64) \<Rightarrow> Value \<Rightarrow> uint64" where
  "value_hash hi hb hs NullV = 0"
| "value_hash hi hb hs (IntV k v) =
     (if is_temporal (int_type k) then hi v XOR push_bit 1 (of_nat (data_type_code (int_type k))) else hi v)"
| "value_hash hi hb hs (BoolV b) = hb b"
| "value_hash hi hb hs (StrV _ s) = hs s"

section \<open>Text\<close>

definition is_null_text :: "bytes \<Rightarrow> bool" where
  "is_null_text text \<longleftrightarrow> text = [0x5C, of_char (CHR ''N'')] \<or> iequals_ascii text (str ''null'')"

definition int_to_string :: "int \<Rightarrow> bytes" where
  "int_to_string i = (if i < 0 then str ''-'' else []) @ decimal_digits (nat \<bar>i\<bar>)"

fun value_to_string :: "Value \<Rightarrow> bytes" where
  "value_to_string NullV = str ''NULL''"
| "value_to_string (StrV _ s) = s"
| "value_to_string (BoolV b) = (if b then str ''true'' else str ''false'')"
| "value_to_string (IntV K_DATE v) = format_date (sint v)"
| "value_to_string (IntV K_TIME v) = format_time (sint v)"
| "value_to_string (IntV K_DATETIME v) = format_datetime (sint v)"
| "value_to_string (IntV _ v) = int_to_string (sint v)"

definition parse_integer_value :: "bytes \<Rightarrow> int_kind \<Rightarrow> cpp_exn + Value" where
  "parse_integer_value s k =
     (case parse_int64_strict s of
        None \<Rightarrow> Inl Invalid_Argument
      | Some parsed \<Rightarrow> if \<not> can_represent (int_type k) parsed then Inl Out_Of_Range else Inr (IntV k parsed))"

definition parse_temporal_value :: "int option \<Rightarrow> int_kind \<Rightarrow> cpp_exn + Value" where
  "parse_temporal_value parsed k =
     (case parsed of None \<Rightarrow> Inl Invalid_Argument | Some n \<Rightarrow> Inr (IntV k (word_of_int n)))"

definition value_from_string :: "bytes \<Rightarrow> DataType \<Rightarrow> cpp_exn + Value" where
  "value_from_string s t =
     (if is_null_text s then Inr NullV
      else case t of
        TINYINT \<Rightarrow> parse_integer_value s K_TINYINT
      | SMALLINT \<Rightarrow> parse_integer_value s K_SMALLINT
      | INT_TYPE \<Rightarrow> parse_integer_value s K_INT
      | BIGINT \<Rightarrow> parse_integer_value s K_BIGINT
      | VARCHAR \<Rightarrow> Inr (StrV K_VARCHAR s)
      | TEXT \<Rightarrow> Inr (StrV K_TEXT s)
      | BOOLEAN \<Rightarrow>
          (if iequals_ascii s (str ''true'') \<or> s = str ''1'' then Inr (BoolV True)
           else if iequals_ascii s (str ''false'') \<or> s = str ''0'' then Inr (BoolV False)
           else Inl Invalid_Argument)
      | DATE \<Rightarrow> parse_temporal_value (parse_date s) K_DATE
      | TIME \<Rightarrow> parse_temporal_value (parse_time s) K_TIME
      | DATETIME \<Rightarrow> parse_temporal_value (parse_datetime s) K_DATETIME
      | _ \<Rightarrow> Inl Invalid_Argument)"

section \<open>Lemmas\<close>

lemmas value_test_defs = v_is_null_def v_is_int_def v_is_string_def v_is_bool_def v_is_numeric_def
  v_is_temporal_def v_is_date_def v_is_time_def v_is_datetime_def holds_int64_def

lemma int_kind_of_int_type [simp]: "int_kind_of (int_type k) = Some k"
  by (cases k) simp_all

lemma str_kind_of_str_type [simp]: "str_kind_of (str_type k) = Some k"
  by (cases k) simp_all

lemma int_type_tests [simp]:
  "is_integer (int_type k) \<or> is_temporal (int_type k)" "\<not> is_string (int_type k)" "\<not> is_boolean (int_type k)"
  "is_integer (int_type k) \<longleftrightarrow> \<not> is_temporal (int_type k)"
  "int_type k \<noteq> NULL_TYPE" "int_type k \<noteq> UNKNOWN_TYPE" "int_type k \<noteq> BOOLEAN"
  by (cases k; simp add: type_family_defs)+

lemma str_type_tests [simp]:
  "is_string (str_type k)" "\<not> is_integer (str_type k)" "\<not> is_temporal (str_type k)" "\<not> is_boolean (str_type k)"
  "str_type k \<noteq> NULL_TYPE" "str_type k \<noteq> UNKNOWN_TYPE" "str_type k \<noteq> BOOLEAN"
  by (cases k; simp add: type_family_defs)+

lemma other_type_tests [simp]:
  "\<not> is_integer BOOLEAN" "\<not> is_temporal BOOLEAN" "\<not> is_string BOOLEAN" "is_boolean BOOLEAN"
  "\<not> is_integer NULL_TYPE" "\<not> is_temporal NULL_TYPE" "\<not> is_string NULL_TYPE" "\<not> is_boolean NULL_TYPE"
  by (simp_all add: type_family_defs)

lemma same_family_kinds:
  "is_same_family t (int_type k) \<longleftrightarrow> is_integer t \<and> \<not> is_temporal (int_type k) \<or> is_temporal t \<and> is_temporal (int_type k)"
  "is_same_family t (str_type l) \<longleftrightarrow> is_string t" "is_same_family t BOOLEAN \<longleftrightarrow> t = BOOLEAN"
proof -
  show "is_same_family t (int_type k) \<longleftrightarrow> is_integer t \<and> \<not> is_temporal (int_type k) \<or> is_temporal t \<and> is_temporal (int_type k)"
    by (cases k; cases t; simp add: is_same_family_def type_family_defs)
  show "is_same_family t (str_type l) \<longleftrightarrow> is_string t"
    by (cases l; cases t; simp add: is_same_family_def type_family_defs)
  show "is_same_family t BOOLEAN \<longleftrightarrow> t = BOOLEAN"
    by (cases t; simp add: is_same_family_def type_family_defs)
qed

lemma v_is_null_iff [simp]: "v_is_null v \<longleftrightarrow> v = NullV"
  by (cases v) (simp_all add: v_is_null_def)

lemma accessors [simp]:
  "as_int (IntV k i) = Inr i" "as_str (StrV s x) = Inr x" "as_bool (BoolV b) = Inr b"
  by (simp_all add: as_int_def as_str_def as_bool_def value_test_defs)

text \<open>A checked accessor never reaches the wrong alternative of the variant.\<close>

lemma accessors_safe:
  "as_int v \<noteq> Inl Bad_Variant_Access" "as_str v \<noteq> Inl Bad_Variant_Access" "as_bool v \<noteq> Inl Bad_Variant_Access"
  by (cases v; simp add: as_int_def as_str_def as_bool_def value_test_defs)+

lemma value_eq_simps [simp]:
  "value_eq NullV x \<longleftrightarrow> x = NullV" "value_eq x NullV \<longleftrightarrow> x = NullV"
  "value_eq (BoolV a) (BoolV b) \<longleftrightarrow> a = b"
  "value_eq (StrV k s) (StrV l t) \<longleftrightarrow> s = t"
  "value_eq (IntV i v) (IntV j w) \<longleftrightarrow>
     v = w \<and> (i = j \<or> \<not> is_temporal (int_type i) \<and> \<not> is_temporal (int_type j))"
  "\<not> value_eq (IntV i v) (BoolV b)" "\<not> value_eq (BoolV b) (IntV i v)"
  "\<not> value_eq (IntV i v) (StrV k s)" "\<not> value_eq (StrV k s) (IntV i v)"
  "\<not> value_eq (BoolV b) (StrV k s)" "\<not> value_eq (StrV k s) (BoolV b)"
proof -
  show "value_eq (IntV i v) (IntV j w) \<longleftrightarrow>
     v = w \<and> (i = j \<or> \<not> is_temporal (int_type i) \<and> \<not> is_temporal (int_type j))"
    by (cases i; cases j; simp add: value_eq_def value_test_defs get_type_family_def type_family_defs)
  show "value_eq (StrV k s) (StrV l t) \<longleftrightarrow> s = t"
    by (cases k; cases l; simp add: value_eq_def value_test_defs get_type_family_def type_family_defs)
  show "\<not> value_eq (IntV i v) (BoolV b)" "\<not> value_eq (BoolV b) (IntV i v)"
    by (cases i; simp add: value_eq_def value_test_defs get_type_family_def type_family_defs)+
  show "\<not> value_eq (IntV i v) (StrV k s)" "\<not> value_eq (StrV k s) (IntV i v)"
    by (cases i; cases k; simp add: value_eq_def value_test_defs get_type_family_def type_family_defs)+
  show "\<not> value_eq (BoolV b) (StrV k s)" "\<not> value_eq (StrV k s) (BoolV b)"
    by (cases k; simp add: value_eq_def value_test_defs get_type_family_def type_family_defs)+
  show "value_eq NullV x \<longleftrightarrow> x = NullV" "value_eq x NullV \<longleftrightarrow> x = NullV"
    by (auto simp: value_eq_def)
  show "value_eq (BoolV a) (BoolV b) \<longleftrightarrow> a = b"
    by (simp add: value_eq_def value_test_defs get_type_family_def type_family_defs)
qed

lemma value_eq_refl [simp]: "value_eq v v"
  by (cases v) simp_all

lemma value_eq_sym: "value_eq a b \<Longrightarrow> value_eq b a"
  by (cases a; cases b) auto

lemma value_eq_trans: "value_eq a b \<Longrightarrow> value_eq b c \<Longrightarrow> value_eq a c"
  by (cases a; cases b; cases c) auto

lemma value_hash_eq: "value_eq a b \<Longrightarrow> value_hash hi hb hs a = value_hash hi hb hs b"
  by (cases a; cases b) auto

end
