(* ===== verification/Key_Codec.thy ===== *)
theory Key_Codec imports Sql_Value begin

text \<open>
  The key encoding of \<^verbatim>\<open>sql_types/key.h\<close> (\<^verbatim>\<open>KeyCodecs\<close>): a family tag, a null flag and a payload
  chosen so that the byte order of keys is the logical order of values. The lemmas show order
  preservation, the round trip, that the validity test accepts exactly the keys the encoder makes,
  the family bounds, and what the prefix successor computes.
\<close>

section \<open>Encoding\<close>

type_synonym Key = bytes

definition kTagNull :: byte where "kTagNull = 0x00"
definition kTagInt64 :: byte where "kTagInt64 = 0x01"
definition kTagString :: byte where "kTagString = 0x02"
definition kTagBool :: byte where "kTagBool = 0x03"
definition kNullFlag :: byte where "kNullFlag = 0x00"
definition kValueFlag :: byte where "kValueFlag = 0x01"

definition tag_of :: "DataType \<Rightarrow> byte" where
  "tag_of t =
     (if is_integer t \<or> is_temporal t then kTagInt64
      else if is_string t then kTagString
      else if is_boolean t then kTagBool
      else kTagNull)"

definition make_null_key :: "byte \<Rightarrow> Key" where
  "make_null_key tag = [tag, kNullFlag]"

definition int64_to_ordered :: "int64 \<Rightarrow> uint64" where
  "int64_to_ordered v = v XOR 0x8000000000000000"

definition ordered_to_int64 :: "uint64 \<Rightarrow> int64" where
  "ordered_to_int64 v = v XOR 0x8000000000000000"

definition encode_be64 :: "uint64 \<Rightarrow> Key \<Rightarrow> Key" where
  "encode_be64 v out = out @ be_bytes 8 v"

definition decode_be64 :: "bytes \<Rightarrow> uint64" where
  "decode_be64 p = be_word 8 p"

definition encode_string :: "bytes \<Rightarrow> Key \<Rightarrow> Key" where
  "encode_string s out = out @ concat (map (\<lambda>c. if c = 0 then [0, 0xFF] else [c]) s) @ [0]"

text \<open>The decoder's loop, over the bytes from its position on; None when it reports failure.\<close>

fun decode_string :: "bytes \<Rightarrow> bytes option" where
  "decode_string [] = None"
| "decode_string (c # bs) =
     (if c \<noteq> 0 then map_option ((#) c) (decode_string bs)
      else case bs of
             [] \<Rightarrow> Some []
           | d # bs' \<Rightarrow> if d = 0xFF then map_option ((#) 0) (decode_string bs') else None)"

definition encode_value :: "Value \<Rightarrow> byte \<Rightarrow> cpp_exn + Key" where
  "encode_value val tag =
     (let k = [tag, kValueFlag] in
      if tag = kTagBool then
        (case as_bool val of Inl e \<Rightarrow> Inl e | Inr b \<Rightarrow> Inr (k @ [if b then 0x01 else 0x00]))
      else if tag = kTagInt64 then
        (case as_int val of Inl e \<Rightarrow> Inl e | Inr i \<Rightarrow> Inr (encode_be64 (int64_to_ordered i) k))
      else if tag = kTagString then
        (case as_str val of Inl e \<Rightarrow> Inl e | Inr s \<Rightarrow> Inr (encode_string s k))
      else Inr [])"

text \<open>
  The two overloads of \<^verbatim>\<open>to_key\<close>, without and with a column type. An accessor exception cannot
  occur, because the tag is that of the value's own type (lemma \<open>encode_value_total\<close>).
\<close>

definition encode_own :: "Value \<Rightarrow> Key" where
  "encode_own val = (case encode_value val (tag_of (vtype val)) of Inr k \<Rightarrow> k | Inl _ \<Rightarrow> [])"

definition to_key :: "Value \<Rightarrow> Key" where
  "to_key val = (if v_is_null val then make_null_key kTagNull else encode_own val)"

definition to_key_col :: "Value \<Rightarrow> DataType \<Rightarrow> Key" where
  "to_key_col val column_type =
     (if v_is_null val then make_null_key (tag_of column_type) else encode_own val)"

section \<open>Decoding\<close>

definition decode_value :: "Key \<Rightarrow> byte \<Rightarrow> DataType \<Rightarrow> Value" where
  "decode_value key tag t =
     (if tag = kTagBool then
        (if length key \<noteq> 3 then NullV else BoolV (key ! 2 \<noteq> 0x00))
      else if tag = kTagInt64 then
        (if length key \<noteq> 10 then NullV
         else let v = ordered_to_int64 (decode_be64 (drop 2 key))
              in case int_kind_of (if is_temporal t then t else BIGINT) of
                   Some k \<Rightarrow> IntV k v | None \<Rightarrow> NullV)
      else if tag = kTagString then
        (case decode_string (drop 2 key) of
           None \<Rightarrow> NullV
         | Some out \<Rightarrow>
             (case str_kind_of (if is_string t then t else VARCHAR) of
                Some k \<Rightarrow> StrV k out | None \<Rightarrow> NullV))
      else NullV)"

definition from_key :: "Key \<Rightarrow> DataType \<Rightarrow> Value" where
  "from_key key t =
     (if key = [] then NullV
      else let tag = key ! 0 in
        if tag = kTagNull then NullV
        else if tag \<noteq> tag_of t \<or> length key < 2 then NullV
        else if key ! 1 = kNullFlag then NullV
        else if key ! 1 \<noteq> kValueFlag then NullV
        else decode_value key tag t)"

definition is_valid_key :: "Key \<Rightarrow> DataType \<Rightarrow> bool" where
  "is_valid_key key t \<longleftrightarrow>
     (if key = [] then False
      else let tag = key ! 0 in
        if tag = kTagNull then length key = 2
        else if tag \<noteq> tag_of t \<or> length key < 2 then False
        else let flag = key ! 1 in
          if flag = kNullFlag then length key = 2
          else if flag \<noteq> kValueFlag then False
          else if tag = kTagInt64 then length key = 2 + 8
          else if tag = kTagBool then length key = 2 + 1 \<and> (key ! 2 = 0x00 \<or> key ! 2 = 0x01)
          else if tag = kTagString then decode_string (drop 2 key) \<noteq> None
          else False)"

section \<open>Bounds and comparison\<close>

definition inclusive_upper_bound :: "Key \<Rightarrow> Key" where
  "inclusive_upper_bound k = k @ [0]"

definition min_key_for_type :: "DataType \<Rightarrow> Key" where
  "min_key_for_type t = make_null_key (if tag_of t = kTagNull then kTagNull else tag_of t)"

definition upper_key_for_type :: "DataType \<Rightarrow> Key" where
  "upper_key_for_type t = (if tag_of t = kTagNull then [0xFF] else [tag_of t + 1])"

definition null_key_for_type :: "DataType \<Rightarrow> Key" where
  "null_key_for_type t = min_key_for_type t"

definition first_value_key :: "DataType \<Rightarrow> Key" where
  "first_value_key t = [tag_of t, kValueFlag]"

definition compare_keys :: "Key \<Rightarrow> Key \<Rightarrow> int" where
  "compare_keys a b = (if a = b then 0 else if a < b then -1 else 1)"

definition compare_values :: "Value \<Rightarrow> Value \<Rightarrow> int" where
  "compare_values a b = compare_keys (to_key a) (to_key b)"

definition key_less :: "Value \<Rightarrow> Value \<Rightarrow> bool" where
  "key_less a b \<longleftrightarrow> to_key a < to_key b"

text \<open>Trailing 0xFF bytes are dropped and the last remaining byte is incremented.\<close>

definition successor :: "Key \<Rightarrow> Key" where
  "successor k =
     (let out = rev (dropWhile (\<lambda>c. c = 0xFF) (rev k))
      in if out = [] then [] else butlast out @ [last out + 1])"

section \<open>The string payload\<close>

lemmas tag_defs = kTagNull_def kTagInt64_def kTagString_def kTagBool_def kNullFlag_def kValueFlag_def

lemma encode_string_Nil [simp]: "encode_string [] out = out @ [0]"
  by (simp add: encode_string_def)

lemma encode_string_append: "encode_string s out = out @ encode_string s []"
  by (simp add: encode_string_def)

lemma encode_string_Cons: "encode_string (c # s) [] = (if c = 0 then [0, 0xFF] else [c]) @ encode_string s []"
  by (simp add: encode_string_def)

lemma encode_string_less_iff: "encode_string s [] < encode_string t [] \<longleftrightarrow> s < t"
proof (induction s arbitrary: t)
  case Nil
  show ?case by (cases t) (auto simp: encode_string_Cons word_gt_0)
next
  case (Cons c s)
  then show ?case by (cases t) (auto simp: encode_string_Cons word_gt_0)
qed

lemma decode_encode_string [simp, codec_simps]: "decode_string (encode_string s []) = Some s"
  by (induction s) (simp_all add: encode_string_Cons)

lemma decode_string_canonical: "decode_string bs = Some s \<Longrightarrow> bs = encode_string s []"
  by (induction bs arbitrary: s rule: decode_string.induct)
    (auto simp: encode_string_Cons split: if_splits list.splits)

lemma decode_string_Some_iff: "decode_string bs = Some s \<longleftrightarrow> bs = encode_string s []"
  using decode_string_canonical by auto

lemma encode_string_inj [simp]: "encode_string s [] = encode_string t [] \<longleftrightarrow> s = t"
  by (metis decode_encode_string option.inject)

lemma encode_string_Cons_ex: "\<exists>c cs. encode_string s [] = c # cs"
  by (cases s) (auto simp: encode_string_Cons)

section \<open>The shape of a key\<close>

lemma tag_of_int [simp]: "tag_of (int_type k) = kTagInt64"
  by (cases k) (simp_all add: tag_of_def type_family_defs)

lemma tag_of_str [simp]: "tag_of (str_type k) = kTagString"
  by (simp add: tag_of_def)

lemma tag_of_bool [simp]: "tag_of BOOLEAN = kTagBool"
  by (simp add: tag_of_def)

lemma tag_of_defaults [simp]: "tag_of BIGINT = kTagInt64" "tag_of VARCHAR = kTagString"
  by (simp_all add: tag_of_def type_family_defs)

lemma tag_of_cases: "tag_of t = kTagNull \<or> tag_of t = kTagInt64 \<or> tag_of t = kTagString \<or> tag_of t = kTagBool"
  by (simp add: tag_of_def)

lemma encode_value_total: "\<exists>k. encode_value v (tag_of (vtype v)) = Inr k"
  by (cases v) (simp_all add: encode_value_def tag_defs, simp add: tag_of_def tag_defs)

lemma encode_own_simps [simp]:
  "encode_own (IntV k i) = kTagInt64 # kValueFlag # be_bytes 8 (int64_to_ordered i)"
  "encode_own (BoolV b) = [kTagBool, kValueFlag, if b then 1 else 0]"
  "encode_own (StrV l s) = kTagString # kValueFlag # encode_string s []"
  by (simp_all add: encode_own_def encode_value_def tag_defs encode_be64_def encode_string_def)

lemma to_key_simps [simp]:
  "to_key NullV = [kTagNull, kNullFlag]"
  "to_key (IntV k i) = kTagInt64 # kValueFlag # be_bytes 8 (int64_to_ordered i)"
  "to_key (BoolV b) = [kTagBool, kValueFlag, if b then 1 else 0]"
  "to_key (StrV l s) = kTagString # kValueFlag # encode_string s []"
  by (simp_all add: to_key_def make_null_key_def)

lemma to_key_col_simps [simp]:
  "to_key_col NullV t = [tag_of t, kNullFlag]"
  "v \<noteq> NullV \<Longrightarrow> to_key_col v t = to_key v"
  by (simp_all add: to_key_col_def to_key_def make_null_key_def)

lemma int64_to_ordered_less_iff: "int64_to_ordered a < int64_to_ordered b \<longleftrightarrow> sint a < sint b"
  by (simp add: int64_to_ordered_def sint_less_iff_xor_msb)

lemma ordered_inverse [simp, codec_simps]: "ordered_to_int64 (int64_to_ordered v) = v"
  by (simp add: ordered_to_int64_def int64_to_ordered_def xor.assoc)

lemma ordered_inverse' [simp]: "int64_to_ordered (ordered_to_int64 v) = v"
  by (simp add: ordered_to_int64_def int64_to_ordered_def xor.assoc)

lemma int64_to_ordered_inj [simp]: "int64_to_ordered a = int64_to_ordered b \<longleftrightarrow> a = b"
  by (metis ordered_inverse)

section \<open>Order, round trip and validity\<close>

text \<open>
  The reference order on values: NULL first, then the families in the order of their tags, and the
  logical order within a family. \<open>same_content\<close> ignores the logical type within a family.
\<close>

fun family_rank :: "Value \<Rightarrow> nat" where
  "family_rank NullV = 0"
| "family_rank (IntV _ _) = 1"
| "family_rank (StrV _ _) = 2"
| "family_rank (BoolV _) = 3"

fun value_before :: "Value \<Rightarrow> Value \<Rightarrow> bool" where
  "value_before (IntV _ a) (IntV _ b) \<longleftrightarrow> sint a < sint b"
| "value_before (StrV _ a) (StrV _ b) \<longleftrightarrow> a < b"
| "value_before (BoolV a) (BoolV b) \<longleftrightarrow> a < b"
| "value_before a b \<longleftrightarrow> family_rank a < family_rank b"

fun same_content :: "Value \<Rightarrow> Value \<Rightarrow> bool" where
  "same_content NullV NullV \<longleftrightarrow> True"
| "same_content (IntV _ a) (IntV _ b) \<longleftrightarrow> a = b"
| "same_content (StrV _ a) (StrV _ b) \<longleftrightarrow> a = b"
| "same_content (BoolV a) (BoolV b) \<longleftrightarrow> a = b"
| "same_content _ _ \<longleftrightarrow> False"

lemma to_key_less_iff: "to_key a < to_key b \<longleftrightarrow> value_before a b"
  by (cases a; cases b)
    (auto simp: tag_defs be_bytes_less_iff int64_to_ordered_less_iff encode_string_less_iff)

lemma to_key_eq_iff: "to_key a = to_key b \<longleftrightarrow> same_content a b"
  by (cases a; cases b) (auto simp: tag_defs)

lemma value_eq_same_content: "value_eq a b \<Longrightarrow> same_content a b"
  by (cases a; cases b) auto

lemma to_key_col_less_iff:
  assumes "a = NullV \<or> tag_of (vtype a) = tag_of t" "b = NullV \<or> tag_of (vtype b) = tag_of t" "tag_of t \<noteq> kTagNull"
  shows "to_key_col a t < to_key_col b t \<longleftrightarrow> value_before a b"
  using assms to_key_less_iff[of a b] by (cases a; cases b) (auto simp: tag_defs)

text \<open>What decoding a column's key gives: the content with the column's representation of the type.\<close>

fun key_view :: "DataType \<Rightarrow> Value \<Rightarrow> Value" where
  "key_view t (IntV k i) = IntV (if is_temporal t then the (int_kind_of t) else K_BIGINT) i"
| "key_view t (StrV k s) = StrV (the (str_kind_of t)) s"
| "key_view t v = v"

lemma is_string_kind: "is_string t \<Longrightarrow> \<exists>k. str_kind_of t = Some k"
  by (cases t) (simp_all add: type_family_defs)

lemma is_temporal_kind: "is_temporal t \<Longrightarrow> \<exists>k. int_kind_of t = Some k"
  by (cases t) (simp_all add: type_family_defs)

lemma tag_of_eqs:
  "tag_of t = kTagInt64 \<longleftrightarrow> is_integer t \<or> is_temporal t"
  "tag_of t = kTagString \<longleftrightarrow> is_string t"
  "tag_of t = kTagBool \<longleftrightarrow> is_boolean t"
  by (cases t; simp add: tag_of_def type_family_defs tag_defs)+

lemma from_key_to_key:
  assumes "v = NullV \<or> tag_of (vtype v) = tag_of t"
  shows "from_key (to_key_col v t) t = key_view t v"
proof (cases v)
  case NullV
  then show ?thesis by (simp add: from_key_def kNullFlag_def Let_def)
next
  case (IntV k i)
  then have t: "tag_of t = kTagInt64" using assms by simp
  have "be_word 8 (be_bytes 8 (int64_to_ordered i)) = int64_to_ordered i"
    using be_word_be_bytes[of 8 "int64_to_ordered i" "[]"] by simp
  then show ?thesis using IntV t is_temporal_kind[of t]
    by (auto simp: from_key_def decode_value_def decode_be64_def tag_defs)
next
  case (BoolV b)
  then show ?thesis using assms by (auto simp: from_key_def decode_value_def tag_defs)
next
  case (StrV k s)
  then have "tag_of t = kTagString" using assms by simp
  moreover from this have "is_string t" by (simp add: tag_of_eqs)
  ultimately show ?thesis using StrV is_string_kind[of t]
    by (auto simp: from_key_def decode_value_def tag_defs)
qed

lemma same_family_tag: "is_same_family t u \<Longrightarrow> tag_of u = tag_of t"
  by (cases t; cases u; simp add: is_same_family_def tag_of_def type_family_defs)

lemma key_view_eq:
  assumes "is_same_family t (vtype v)" "is_temporal t \<longrightarrow> vtype v = t"
  shows "value_eq (key_view t v) v"
  using assms by (cases v; cases t; auto simp: is_same_family_def type_family_defs elim: int_type.elims str_type.elims)

lemma two_bytes: "length k = 2 \<longleftrightarrow> k = [k ! 0, k ! 1]"
  by (cases k; cases "tl k") auto

lemma is_valid_key_iff:
  assumes "tag_of t \<noteq> kTagNull"
  shows "is_valid_key k t \<longleftrightarrow>
    (\<exists>b. k = [kTagNull, b]) \<or> (\<exists>v. (v = NullV \<or> tag_of (vtype v) = tag_of t) \<and> k = to_key_col v t)"
  (is "_ \<longleftrightarrow> ?n \<or> ?v")
proof
  assume valid: "is_valid_key k t"
  then obtain a b p where k: "k = a # b # p"
    by (cases k; cases "tl k") (auto simp: is_valid_key_def Let_def split: if_splits)
  consider "a = kTagNull" | "a = tag_of t" "b = kNullFlag" "p = []" | "a = tag_of t" "b = kValueFlag" "a \<noteq> kTagNull"
    using valid by (auto simp: k is_valid_key_def Let_def tag_defs split: if_splits)
  then show "?n \<or> ?v"
  proof cases
    case 1 then show ?thesis using valid by (simp add: k is_valid_key_def)
  next
    case 2 then show ?thesis by (intro disjI2 exI[of _ NullV]) (simp add: k)
  next
    case 3
    then consider (i) "tag_of t = kTagInt64" | (s) "tag_of t = kTagString" | (b) "tag_of t = kTagBool"
      using tag_of_cases[of t] by auto
    then show ?thesis
    proof cases
      case i
      then have "length p = 8" using valid 3 by (simp add: k is_valid_key_def tag_defs)
      then have "be_bytes 8 (be_word 8 p :: uint64) = p" by (intro be_bytes_be_word) simp_all
      then show ?thesis using 3 i
        by (intro disjI2 exI[of _ "IntV K_BIGINT (ordered_to_int64 (be_word 8 p))"]) (simp add: k)
    next
      case s
      then obtain x where "decode_string p = Some x" using valid 3
        by (auto simp: k is_valid_key_def tag_defs)
      then show ?thesis using 3 s
        by (intro disjI2 exI[of _ "StrV K_VARCHAR x"]) (simp add: k decode_string_Some_iff)
    next
      case b
      then have "p = [0] \<or> p = [1]" using valid 3 by (cases p; auto simp: k is_valid_key_def tag_defs)
      then show ?thesis using 3 b
        by (intro disjI2 exI[of _ "BoolV (p = [1])"]) (auto simp: k)
    qed
  qed
next
  assume "?n \<or> ?v"
  then show "is_valid_key k t"
  proof
    assume ?v
    then obtain v where v: "v = NullV \<or> tag_of (vtype v) = tag_of t" "k = to_key_col v t" by blast
    then show ?thesis using assms by (cases v) (auto simp: is_valid_key_def tag_defs)
  qed (auto simp: is_valid_key_def)
qed

section \<open>Family bounds and prefix successors\<close>

lemma tag_of_less_upper: "tag_of t \<noteq> kTagNull \<Longrightarrow> tag_of t < tag_of t + 1"
  using tag_of_cases[of t] by (auto simp: tag_defs)

lemma family_bounds:
  assumes "tag_of t \<noteq> kTagNull" "v = NullV \<or> tag_of (vtype v) = tag_of t"
  shows "min_key_for_type t \<le> to_key_col v t" "to_key_col v t < upper_key_for_type t"
    "first_value_key t \<le> to_key_col v t \<longleftrightarrow> v \<noteq> NullV"
  using assms tag_of_less_upper[of t]
  by (cases v; auto simp: min_key_for_type_def upper_key_for_type_def first_value_key_def make_null_key_def tag_defs)+

text \<open>Conversely, every key the encoder makes within the bounds of a family belongs to it.\<close>

lemma family_bounds_only:
  assumes "tag_of t \<noteq> kTagNull" "v \<noteq> NullV" "min_key_for_type t \<le> to_key v" "to_key v < upper_key_for_type t"
  shows "tag_of (vtype v) = tag_of t"
  using assms tag_of_cases[of t]
  by (cases v) (auto simp: min_key_for_type_def upper_key_for_type_def make_null_key_def tag_defs)

lemma between_prefix: "ks @ a \<le> x \<Longrightarrow> x < ks @ b \<Longrightarrow> \<exists>y. x = ks @ (y :: bytes)"
proof (induction ks arbitrary: x)
  case (Cons k ks)
  then show ?case by (cases x) auto
qed simp

lemma successor_snoc_ff [simp]: "successor (ks @ [0xFF]) = successor ks"
  by (simp add: successor_def)

lemma successor_snoc: "c \<noteq> 0xFF \<Longrightarrow> successor (ks @ [c]) = ks @ [c + 1]"
  by (simp add: successor_def)

lemma byte_less_succ: "c \<noteq> (0xFF :: byte) \<Longrightarrow> x < c + 1 \<longleftrightarrow> x \<le> c"
proof -
  assume "c \<noteq> 0xFF"
  then have "uint c + 1 < 2 ^ 8" using unsigned_less[of c, where 'a = int] by (auto simp: word_uint_eq_iff)
  then have "uint (c + 1) = uint c + 1" by (subst uint_plus_small) auto
  then show ?thesis by (simp add: word_less_def word_le_def)
qed

lemma byte_ff_le: "(0xFF :: byte) \<le> x \<longleftrightarrow> x = 0xFF" "\<not> (0xFF :: byte) < x"
  using unsigned_less[of x, where 'a = int] by (auto simp: word_le_def word_less_def word_uint_eq_iff)

lemma prefix_iff_successor:
  "prefix k x \<longleftrightarrow> k \<le> x \<and> (successor k = [] \<or> x < successor k)"
proof (induction k rule: rev_induct)
  case Nil
  then show ?case by (simp add: successor_def)
next
  case (snoc c ks)
  show ?case
  proof (cases "c = 0xFF")
    case True
    have "ks @ [0xFF] \<le> x \<Longrightarrow> ks \<le> x" using prefix_le[of ks "ks @ [0xFF]"] by auto
    then have "ks @ [c] \<le> x \<and> (successor ks = [] \<or> x < successor ks) \<longleftrightarrow> ks @ [c] \<le> x \<and> prefix ks x"
      using True snoc by blast
    also have "\<dots> \<longleftrightarrow> prefix (ks @ [c]) x"
    proof
      assume "ks @ [c] \<le> x \<and> prefix ks x"
      then obtain y where "x = ks @ y" "[c] \<le> y" by (auto simp: prefix_def lex_simps)
      then show "prefix (ks @ [c]) x" using True by (cases y) (auto simp: byte_ff_le)
    qed (auto intro: prefix_le append_prefixD)
    finally show ?thesis using True by simp
  next
    case False
    have "prefix (ks @ [c]) x" if x: "ks @ [c] \<le> x" "x < ks @ [c + 1]"
    proof -
      obtain y where y: "x = ks @ y" using between_prefix[OF x] by blast
      then have "[c] \<le> y" "y < [c + 1]" using x by (simp_all add: lex_simps)
      then show ?thesis using y False by (cases y) (auto simp: byte_less_succ)
    qed
    moreover have "x < ks @ [c + 1]" if "prefix (ks @ [c]) x"
      using that False by (auto simp: prefix_def lex_simps byte_less_succ)
    ultimately show ?thesis using False by (auto simp: successor_snoc intro: prefix_le)
  qed
qed

section \<open>Properties\<close>

text \<open>
  C1: the byte order of keys is the logical order of values. For any two values, their keys compare
  as the values do: NULL below everything, integers and temporal values by their signed number,
  strings lexicographically by unsigned byte (zero bytes included), false before true, and distinct
  families in the order of their tags; two keys are equal exactly when the contents are.
\<close>

theorem key_order_preserved:
  "(to_key a < to_key b \<longleftrightarrow> value_before a b) \<and> (to_key a = to_key b \<longleftrightarrow> same_content a b) \<and>
   compare_values a b = (if same_content a b then 0 else if value_before a b then -1 else 1)"
  by (simp add: to_key_less_iff to_key_eq_iff compare_values_def compare_keys_def)

text \<open>
  C5: decoding inverts encoding. A value encoded for a column and decoded with the column's type is
  equal to the original in the sense of the class's equality, for NULL and for every value whose type
  family is that of the column (and whose type is exactly the column's if that is temporal).
\<close>

theorem key_roundtrip:
  assumes "v = NullV \<or> is_same_family t (vtype v) \<and> (is_temporal t \<longrightarrow> vtype v = t)"
  shows "value_eq (from_key (to_key_col v t) t) v"
proof (cases "v = NullV")
  case False
  then have f: "is_same_family t (vtype v)" "is_temporal t \<longrightarrow> vtype v = t" using assms by auto
  then have "tag_of (vtype v) = tag_of t" by (simp add: same_family_tag)
  then show ?thesis using from_key_to_key[of v t] key_view_eq[OF f] by simp
qed (use from_key_to_key[of NullV t] in simp)

theorem key_roundtrip_witness:
  "value_eq (from_key (to_key_col (IntV K_TINYINT (-3)) INT_TYPE) INT_TYPE) (IntV K_TINYINT (-3))"
  using key_roundtrip[of "IntV K_TINYINT (-3)" INT_TYPE] by (simp add: is_same_family_def type_family_defs)

text \<open>
  C6: what the validity test accepts. For a column type with a family, a byte string is valid iff it is
  the key of NULL or of some value of the family, or has two bytes of which the first is the untyped
  NULL tag. The second byte is not looked at, so that besides the keys some strings are accepted that
  are the key of no value.
\<close>

theorem key_validity_exact:
  assumes "tag_of t \<noteq> kTagNull"
  shows "is_valid_key k t \<longleftrightarrow>
    (\<exists>b. k = [kTagNull, b]) \<or> (\<exists>v. (v = NullV \<or> tag_of (vtype v) = tag_of t) \<and> k = to_key_col v t)"
  using assms by (rule is_valid_key_iff)

theorem key_validity_exact_witness: "is_valid_key (to_key_col (StrV K_TEXT [0, 255, 0]) VARCHAR) VARCHAR"
proof -
  have "\<exists>v. (v = NullV \<or> tag_of (vtype v) = tag_of VARCHAR) \<and>
      to_key_col (StrV K_TEXT [0, 255, 0]) VARCHAR = to_key_col v VARCHAR"
    by (intro exI[of _ "StrV K_VARCHAR [0, 255, 0]"]) simp
  then show ?thesis using key_validity_exact[of VARCHAR] by (simp add: tag_defs)
qed

text \<open>
  The bounds of a family are tight. Every key of a column lies in the half-open interval from the
  family's NULL key to its upper key, a key is at or above the first-value key exactly when it is not
  the NULL key, and no value of another family has its key in the interval.
\<close>

theorem family_interval:
  assumes "tag_of t \<noteq> kTagNull"
  shows "(v = NullV \<or> tag_of (vtype v) = tag_of t \<longrightarrow>
      min_key_for_type t \<le> to_key_col v t \<and> to_key_col v t < upper_key_for_type t \<and>
      (first_value_key t \<le> to_key_col v t \<longleftrightarrow> v \<noteq> NullV)) \<and>
    (v \<noteq> NullV \<and> min_key_for_type t \<le> to_key v \<and> to_key v < upper_key_for_type t \<longrightarrow>
      tag_of (vtype v) = tag_of t)"
  using family_bounds[OF assms] family_bounds_only[OF assms] by blast

theorem family_interval_witness:
  "to_key_col (BoolV True) BOOLEAN < upper_key_for_type BOOLEAN \<and> first_value_key BOOLEAN \<le> to_key_col (BoolV True) BOOLEAN"
  using family_interval[of BOOLEAN "BoolV True"] by (simp add: tag_defs)

text \<open>
  The successor of a key bounds its extensions. A byte string extends \<open>k\<close> iff it lies at or above
  \<open>k\<close> and below \<open>successor k\<close>, the empty successor standing for plus infinity.
\<close>

theorem successor_prefix_interval:
  "prefix k x \<longleftrightarrow> k \<le> x \<and> (successor k = [] \<or> x < successor k)"
  by (rule prefix_iff_successor)

end
