(* ===== verification/Byte_Buffer.thy ===== *)
theory Byte_Buffer imports Prelude begin

text \<open>
  The length-prefixed byte buffers of \<^verbatim>\<open>sql_types/byte_buffer.h\<close>, used by the schema and row formats.
  A \<^verbatim>\<open>ByteWriter\<close> is its buffer; a \<^verbatim>\<open>ByteReader\<close> is a record of its data, position and status.

  The locale \<open>field_codec\<close> is the contract between a format and the loop that reads a sequence of its
  fields: what \<open>put\<close> appends, \<open>get\<close> reads back. The loop over many fields is verified once, inside the
  locale; the schema and row formats interpret it on their own field readers.
\<close>

section \<open>Writer\<close>

definition put_u8 :: "byte \<Rightarrow> bytes \<Rightarrow> bytes" where
  "put_u8 v buf = buf @ [v]"

definition put_u32 :: "uint32 \<Rightarrow> bytes \<Rightarrow> bytes" where
  "put_u32 v buf = buf @ be_bytes 4 v"

definition put_str :: "bytes \<Rightarrow> bytes \<Rightarrow> bytes" where
  "put_str s buf = put_u32 (of_nat (length s)) buf @ s"

section \<open>Reader\<close>

record ByteReader =
  rd_data :: bytes
  rd_pos :: nat
  rd_ok :: bool

definition byte_reader :: "bytes \<Rightarrow> ByteReader" where
  "byte_reader d = \<lparr> rd_data = d, rd_pos = 0, rd_ok = True \<rparr>"

definition eof :: "ByteReader \<Rightarrow> bool" where
  "eof r \<longleftrightarrow> rd_pos r = length (rd_data r)"

definition remaining :: "ByteReader \<Rightarrow> nat" where
  "remaining r = length (rd_data r) - rd_pos r"

definition get_u8 :: "ByteReader \<Rightarrow> byte \<times> ByteReader" where
  "get_u8 r =
     (if \<not> rd_ok r \<or> remaining r < 1 then (0, r\<lparr>rd_ok := False\<rparr>)
      else (rd_data r ! rd_pos r, r\<lparr>rd_pos := rd_pos r + 1\<rparr>))"

definition get_u32 :: "ByteReader \<Rightarrow> uint32 \<times> ByteReader" where
  "get_u32 r =
     (if \<not> rd_ok r \<or> remaining r < 4 then (0, r\<lparr>rd_ok := False\<rparr>)
      else (be_word 4 (drop (rd_pos r) (rd_data r)), r\<lparr>rd_pos := rd_pos r + 4\<rparr>))"

definition get_str :: "ByteReader \<Rightarrow> bytes \<times> ByteReader" where
  "get_str r0 =
     (let (len, r) = get_u32 r0 in
      if \<not> rd_ok r \<or> remaining r < unat len then ([], r\<lparr>rd_ok := False\<rparr>)
      else (take (unat len) (drop (rd_pos r) (rd_data r)), r\<lparr>rd_pos := rd_pos r + unat len\<rparr>))"

text \<open>A loop that reads one field with each of a list of field readers and stops at the first error.\<close>

fun read_each :: "(ByteReader \<Rightarrow> 'e + 'a \<times> ByteReader) list \<Rightarrow> ByteReader \<Rightarrow> 'e + 'a list \<times> ByteReader" where
  "read_each [] r = Inr ([], r)"
| "read_each (g # gs) r =
     (case g r of
        Inl e \<Rightarrow> Inl e
      | Inr (x, r') \<Rightarrow>
          (case read_each gs r' of Inl e \<Rightarrow> Inl e | Inr (xs, r'') \<Rightarrow> Inr (x # xs, r'')))"

section \<open>What a reader has in front of it\<close>

text \<open>A reader without an error, whose unread bytes are \<open>bs\<close>.\<close>

definition reader_at :: "ByteReader \<Rightarrow> bytes \<Rightarrow> bool" where
  "reader_at r bs \<longleftrightarrow> rd_ok r \<and> rd_pos r \<le> length (rd_data r) \<and> drop (rd_pos r) (rd_data r) = bs"

lemma reader_at_start [simp]: "reader_at (byte_reader bs) bs"
  by (simp add: reader_at_def byte_reader_def)

lemma reader_at_ok: "reader_at r bs \<Longrightarrow> rd_ok r"
  by (simp add: reader_at_def)

lemma reader_at_eof: "reader_at r bs \<Longrightarrow> eof r \<longleftrightarrow> bs = []"
  by (auto simp: reader_at_def eof_def)

lemma reader_at_remaining: "reader_at r bs \<Longrightarrow> remaining r = length bs"
  by (auto simp: reader_at_def remaining_def)

lemma reader_at_advance: "reader_at r (xs @ bs) \<Longrightarrow> reader_at (r\<lparr>rd_pos := rd_pos r + length xs\<rparr>) bs"
proof -
  assume a: "reader_at r (xs @ bs)"
  then have "length (drop (rd_pos r) (rd_data r)) = length xs + length bs" by (simp add: reader_at_def)
  moreover have "drop (rd_pos r + length xs) (rd_data r) = bs"
    using a drop_drop[of "length xs" "rd_pos r" "rd_data r"] by (simp add: reader_at_def add.commute)
  ultimately show ?thesis using a by (auto simp: reader_at_def)
qed

lemma get_u8_at: "reader_at r (b # bs) \<Longrightarrow> \<exists>r'. get_u8 r = (b, r') \<and> reader_at r' bs"
  using reader_at_advance[of r "[b]" bs] reader_at_remaining[of r "b # bs"]
  by (auto simp: get_u8_def reader_at_def nth_via_drop)

lemma get_u32_at: "reader_at r (be_bytes 4 v @ bs) \<Longrightarrow> \<exists>r'. get_u32 r = (v, r') \<and> reader_at r' bs"
  using reader_at_advance[of r "be_bytes 4 v" bs] reader_at_remaining[of r "be_bytes 4 v @ bs"]
  by (auto simp: get_u32_def reader_at_def)

lemma get_str_at:
  assumes "reader_at r (put_str s [] @ bs)" "length s < 2 ^ 32"
  shows "\<exists>r'. get_str r = (s, r') \<and> reader_at r' bs"
proof -
  have "reader_at r (be_bytes 4 (of_nat (length s) :: uint32) @ s @ bs)"
    using assms(1) by (simp add: put_str_def put_u32_def)
  then obtain r' where r': "get_u32 r = (of_nat (length s), r')" "reader_at r' (s @ bs)"
    using get_u32_at by blast
  have "unat (of_nat (length s) :: uint32) = length s" using assms(2) by (simp add: unsigned_of_nat take_bit_nat_eq_self)
  then show ?thesis
    using r' reader_at_advance[OF r'(2)] reader_at_remaining[OF r'(2)]
    by (auto simp: get_str_def reader_at_def)
qed

text \<open>An error is sticky: once a read has failed, every later read fails and returns the default.\<close>

lemma reader_error_sticky:
  assumes "\<not> rd_ok r"
  shows "\<not> rd_ok (snd (get_u8 r))" "\<not> rd_ok (snd (get_u32 r))" "\<not> rd_ok (snd (get_str r))"
  using assms by (auto simp: get_u8_def get_u32_def get_str_def Let_def)

lemma put_append:
  "put_u8 v buf = buf @ put_u8 v []" "put_u32 w buf = buf @ put_u32 w []" "put_str s buf = buf @ put_str s []"
  by (simp_all add: put_u8_def put_u32_def put_str_def)

section \<open>The contract of a field format\<close>

text \<open>
  A field with parameter \<open>p\<close> (the column of a row field, nothing for a schema column) and content
  \<open>x\<close> is written as \<open>put p x\<close>; reading it gives \<open>view p x\<close>, the content as the reader represents it.
\<close>

locale field_codec =
  fixes put :: "'p \<Rightarrow> 'a \<Rightarrow> bytes"
    and get :: "'p \<Rightarrow> ByteReader \<Rightarrow> 'e + 'b \<times> ByteReader"
    and fits :: "'p \<Rightarrow> 'a \<Rightarrow> bool"
    and view :: "'p \<Rightarrow> 'a \<Rightarrow> 'b"
  assumes get_put: "fits p x \<Longrightarrow> reader_at r (put p x @ bs) \<Longrightarrow>
    \<exists>r'. get p r = Inr (view p x, r') \<and> reader_at r' bs"
begin

lemma read_each_put:
  assumes "list_all2 fits ps xs" and "reader_at r (concat (map2 put ps xs) @ bs)"
  shows "\<exists>r'. read_each (map get ps) r = Inr (map2 view ps xs, r') \<and> reader_at r' bs"
  using assms
proof (induction ps xs arbitrary: r rule: list_all2_induct)
  case Nil
  then show ?case by simp
next
  case (Cons p ps x xs)
  have "reader_at r (put p x @ concat (map2 put ps xs) @ bs)" using Cons.prems by simp
  then obtain r1 where r1: "get p r = Inr (view p x, r1)" "reader_at r1 (concat (map2 put ps xs) @ bs)"
    using get_put[OF Cons.hyps(1)] by blast
  from Cons.IH[OF r1(2)] obtain r2 where
    "read_each (map get ps) r1 = Inr (map2 view ps xs, r2)" "reader_at r2 bs" by blast
  with r1(1) show ?case by simp
qed

end

end
