(* ===== verification/Schema.thy ===== *)
theory Schema imports Key_Codec Byte_Buffer begin

text \<open>
  Table schemas (\<^verbatim>\<open>sql_types/schema.h\<close>, \<^verbatim>\<open>schema.cpp\<close>): column definitions, the building
  operations with their sticky first error, validation of schemas and values, and the versioned
  binary format. The lemmas show what the building operations guarantee, that the format round-trips,
  and where \<^verbatim>\<open>primary_key\<close> skips the checks of \<^verbatim>\<open>add_column\<close>.
\<close>

section \<open>Columns and schemas\<close>

record ColumnDef =
  col_name :: Identifier
  col_type :: DataType
  col_length :: uint32
  col_nullable :: bool
  col_primary_key :: bool

definition column_def :: "Identifier \<Rightarrow> DataType \<Rightarrow> uint32 \<Rightarrow> bool \<Rightarrow> bool \<Rightarrow> ColumnDef" where
  "column_def n t len pk nul =
     \<lparr> col_name = n, col_type = t, col_length = len, col_nullable = nul, col_primary_key = pk \<rparr>"

definition column_eq :: "ColumnDef \<Rightarrow> ColumnDef \<Rightarrow> bool" where
  "column_eq a b \<longleftrightarrow>
     id_eq (col_name a) (col_name b) \<and> col_type a = col_type b \<and> col_length a = col_length b \<and>
     col_nullable a = col_nullable b \<and> col_primary_key a = col_primary_key b"

definition type_display :: "ColumnDef \<Rightarrow> bytes" where
  "type_display c =
     (let s = data_type_name (col_type c)
      in if is_string (col_type c) \<and> col_type c \<noteq> TEXT \<and> col_length c > 0
         then s @ str ''('' @ int_to_string (uint (col_length c)) @ str '')''
         else s)"

definition column_to_string :: "ColumnDef \<Rightarrow> bytes" where
  "column_to_string c =
     id_name (col_name c) @ str '' '' @ type_display c @
     (if col_primary_key c then str '' PRIMARY KEY'' else []) @
     (if \<not> col_nullable c then str '' NOT NULL'' else [])"

datatype SchemaError =
    SE_OK | DUPLICATE_PRIMARY_KEY | NO_PRIMARY_KEY | DUPLICATE_COLUMN_NAME | INVALID_ROW
  | INVALID_FORMAT | VALUE_OUT_OF_RANGE | INVALID_COLUMN_DEF | COLUMN_NOT_FOUND
  | COLUMN_ATTR_NULL_MISMATCH | COLUMN_SIZE_MISMATCH | COLUMN_TYPE_MISMATCH

record TableSchema =
  ts_name :: Identifier
  ts_columns :: "ColumnDef list"
  ts_pk_index :: int
  ts_error :: SchemaError

definition table_schema :: "Identifier \<Rightarrow> TableSchema" where
  "table_schema name = \<lparr> ts_name = name, ts_columns = [], ts_pk_index = -1, ts_error = SE_OK \<rparr>"

definition has_error :: "TableSchema \<Rightarrow> bool" where
  "has_error s \<longleftrightarrow> ts_error s \<noteq> SE_OK"

definition set_error :: "SchemaError \<Rightarrow> TableSchema \<Rightarrow> TableSchema" where
  "set_error err s = (if ts_error s = SE_OK then s\<lparr>ts_error := err\<rparr> else s)"

definition has_primary_key :: "TableSchema \<Rightarrow> bool" where
  "has_primary_key s \<longleftrightarrow> ts_pk_index s \<ge> 0 \<and> ts_pk_index s < int (length (ts_columns s))"

definition check_duplicate_primary_key :: "ColumnDef \<Rightarrow> TableSchema \<Rightarrow> SchemaError" where
  "check_duplicate_primary_key col s =
     (if col_primary_key col \<and> has_primary_key s then DUPLICATE_PRIMARY_KEY else SE_OK)"

definition check_duplicate_column_name :: "bytes \<Rightarrow> TableSchema \<Rightarrow> SchemaError" where
  "check_duplicate_column_name name s =
     (if list_ex (\<lambda>existing. id_eq_str (col_name existing) name) (ts_columns s)
      then DUPLICATE_COLUMN_NAME else SE_OK)"

definition append_column :: "ColumnDef \<Rightarrow> TableSchema \<Rightarrow> TableSchema" where
  "append_column col s =
     (let s' = s\<lparr>ts_columns := ts_columns s @ [col]\<rparr>
      in if col_primary_key col then s'\<lparr>ts_pk_index := int (length (ts_columns s')) - 1\<rparr> else s')"

definition add_column :: "ColumnDef \<Rightarrow> TableSchema \<Rightarrow> TableSchema" where
  "add_column col s =
     (if has_error s then s
      else if \<not> valid_declared_length (col_type col) (unat (col_length col)) then set_error INVALID_COLUMN_DEF s
      else let err = check_duplicate_primary_key col s in
        if err \<noteq> SE_OK then set_error err s
        else let err = check_duplicate_column_name (id_name (col_name col)) s in
          if err \<noteq> SE_OK then set_error err s
          else append_column col s)"

definition primary_key :: "Identifier \<Rightarrow> DataType \<Rightarrow> TableSchema \<Rightarrow> TableSchema" where
  "primary_key name t s =
     (if has_error s then s
      else if has_primary_key s then set_error DUPLICATE_PRIMARY_KEY s
      else s\<lparr>ts_columns := ts_columns s @ [column_def name t 0 True False],
             ts_pk_index := int (length (ts_columns s))\<rparr>)"

definition not_null :: "Identifier \<Rightarrow> DataType \<Rightarrow> TableSchema \<Rightarrow> TableSchema" where
  "not_null name t s = add_column (column_def name t 0 False False) s"

definition nullable :: "Identifier \<Rightarrow> DataType \<Rightarrow> TableSchema \<Rightarrow> TableSchema" where
  "nullable name t s = add_column (column_def name t 0 False True) s"

section \<open>Queries\<close>

fun find_column :: "Identifier \<Rightarrow> ColumnDef list \<Rightarrow> nat \<Rightarrow> int" where
  "find_column name [] i = -1"
| "find_column name (c # cs) i = (if id_eq (col_name c) name then int i else find_column name cs (Suc i))"

definition column_index :: "TableSchema \<Rightarrow> Identifier \<Rightarrow> int" where
  "column_index s name = find_column name (ts_columns s) 0"

definition column :: "TableSchema \<Rightarrow> Identifier \<Rightarrow> ColumnDef option" where
  "column s name = (let idx = column_index s name in if idx \<ge> 0 then Some (ts_columns s ! nat idx) else None)"

definition column_at :: "TableSchema \<Rightarrow> int \<Rightarrow> cpp_exn + ColumnDef" where
  "column_at s idx =
     (if idx < 0 \<or> nat idx \<ge> length (ts_columns s) then Inl Out_Of_Range else Inr (ts_columns s ! nat idx))"

definition column_type :: "TableSchema \<Rightarrow> Identifier \<Rightarrow> DataType" where
  "column_type s name = (case column s name of Some c \<Rightarrow> col_type c | None \<Rightarrow> UNKNOWN_TYPE)"

definition primary_key_name :: "TableSchema \<Rightarrow> Identifier" where
  "primary_key_name s =
     (if has_primary_key s then col_name (ts_columns s ! nat (ts_pk_index s)) else no_identifier)"

definition primary_key_column :: "TableSchema \<Rightarrow> ColumnDef option" where
  "primary_key_column s =
     (if has_primary_key s
      then (case column_at s (ts_pk_index s) of Inr c \<Rightarrow> Some c | Inl _ \<Rightarrow> None) else None)"

section \<open>Validation\<close>

fun duplicate_names :: "ColumnDef list \<Rightarrow> bool" where
  "duplicate_names [] \<longleftrightarrow> False"
| "duplicate_names (c # cs) \<longleftrightarrow> list_ex (\<lambda>d. id_eq (col_name c) (col_name d)) cs \<or> duplicate_names cs"

definition validate :: "TableSchema \<Rightarrow> SchemaError" where
  "validate s =
     (if has_error s then ts_error s
      else if \<not> has_primary_key s then NO_PRIMARY_KEY
      else if col_nullable (ts_columns s ! nat (ts_pk_index s)) then INVALID_ROW
      else if duplicate_names (ts_columns s) then DUPLICATE_COLUMN_NAME
      else if length (filter col_primary_key (ts_columns s)) > 1 then DUPLICATE_PRIMARY_KEY
      else SE_OK)"

definition validate_value :: "ColumnDef \<Rightarrow> Value \<Rightarrow> SchemaError" where
  "validate_value col value =
     (if v_is_null value then (if col_nullable col then SE_OK else COLUMN_ATTR_NULL_MISMATCH)
      else if \<not> is_same_family (col_type col) (vtype value) then COLUMN_TYPE_MISMATCH
      else if is_temporal (col_type col) \<and> is_temporal (vtype value) \<and> col_type col \<noteq> vtype value
        then COLUMN_TYPE_MISMATCH
      else if (v_is_int value \<or> v_is_temporal value \<or> v_is_bool value) \<and>
              \<not> can_represent (col_type col)
                   (if v_is_bool value then (if get_bool False value then 1 else 0) else get_int 0 value)
        then VALUE_OUT_OF_RANGE
      else if v_is_string value \<and>
              \<not> can_represent_length (col_type col) (unat (col_length col)) (length (get_str_view value))
        then VALUE_OUT_OF_RANGE
      else SE_OK)"

definition validate_value_named :: "TableSchema \<Rightarrow> Identifier \<Rightarrow> Value \<Rightarrow> SchemaError" where
  "validate_value_named s name value =
     (case column s name of None \<Rightarrow> COLUMN_NOT_FOUND | Some col \<Rightarrow> validate_value col value)"

fun validate_values :: "ColumnDef list \<Rightarrow> Value list \<Rightarrow> SchemaError" where
  "validate_values (c # cs) (v # vs) =
     (let err = validate_value c v in if err \<noteq> SE_OK then err else validate_values cs vs)"
| "validate_values _ _ = SE_OK"

definition validate_row :: "TableSchema \<Rightarrow> Value list \<Rightarrow> SchemaError" where
  "validate_row s row =
     (if length row \<noteq> length (ts_columns s) then COLUMN_SIZE_MISMATCH
      else validate_values (ts_columns s) row)"

section \<open>Binary format\<close>

definition schema_format_version :: byte where "schema_format_version = 2"

definition column_flags :: "ColumnDef \<Rightarrow> byte" where
  "column_flags c = (if col_nullable c then 0x01 else 0) OR (if col_primary_key c then 0x02 else 0)"

definition put_column :: "ColumnDef \<Rightarrow> bytes \<Rightarrow> bytes" where
  "put_column c buf =
     put_u8 (column_flags c)
       (put_u32 (col_length c)
         (put_u8 (of_nat (data_type_code (col_type c)))
           (put_str (id_name (col_name c)) buf)))"

definition serialize_schema :: "TableSchema \<Rightarrow> bytes" where
  "serialize_schema s =
     (let w = put_u8 schema_format_version [];
          w = put_str (id_name (ts_name s)) w;
          w = put_u32 (if ts_pk_index s \<ge> 0 then word_of_int (ts_pk_index s) + 1 else 0) w;
          w = put_u32 (of_nat (length (ts_columns s))) w
      in fold put_column (ts_columns s) w)"

definition data_types :: "DataType list" where
  "data_types = [TINYINT, SMALLINT, INT_TYPE, BIGINT, CHAR_TYPE, VARCHAR, TEXT, BOOLEAN, DATE, TIME,
     DATETIME, NULL_TYPE, UNKNOWN_TYPE]"

definition read_column :: "ByteReader \<Rightarrow> SchemaError + ColumnDef \<times> ByteReader" where
  "read_column r0 =
     (let (name, r1) = get_str r0; (t, r2) = get_u8 r1; (len, r3) = get_u32 r2; (flags, r) = get_u8 r3
      in if \<not> rd_ok r then Inl INVALID_FORMAT
         else if unat t > data_type_code UNKNOWN_TYPE then Inl INVALID_FORMAT
         else let col = \<lparr> col_name = make_identifier name, col_type = data_types ! unat t, col_length = len,
                           col_nullable = (flags AND 0x01 \<noteq> 0), col_primary_key = (flags AND 0x02 \<noteq> 0) \<rparr>
              in if \<not> valid_declared_length (col_type col) (unat (col_length col)) then Inl INVALID_FORMAT
                 else Inr (col, r))"

definition deserialize_schema :: "bytes \<Rightarrow> SchemaError + TableSchema" where
  "deserialize_schema d =
     (let (version, r) = get_u8 (byte_reader d)
      in if \<not> rd_ok r \<or> version \<noteq> schema_format_version then Inl INVALID_FORMAT
         else
           let (name, r) = get_str r; schema = table_schema (make_identifier name);
               (pk_slot, r) = get_u32 r; (column_count, r) = get_u32 r
           in if \<not> rd_ok r \<or> unat column_count > 65535 then Inl INVALID_FORMAT
              else case read_each (replicate (unat column_count) read_column) r of
                     Inl e \<Rightarrow> Inl e
                   | Inr (cols, r) \<Rightarrow>
                       let schema = fold append_column cols schema
                       in if \<not> rd_ok r \<or> \<not> eof r then Inl INVALID_FORMAT
                          else Inr (if pk_slot > 0 \<and> pk_slot \<le> column_count
                                    then schema\<lparr>ts_pk_index := uint pk_slot - 1\<rparr> else schema))"

definition schema_eq :: "TableSchema \<Rightarrow> TableSchema \<Rightarrow> bool" where
  "schema_eq a b \<longleftrightarrow>
     id_eq (ts_name a) (ts_name b) \<and> list_all2 column_eq (ts_columns a) (ts_columns b) \<and>
     ts_pk_index a = ts_pk_index b"

section \<open>The invariant of the building operations\<close>

text \<open>
  While no error is recorded: the primary key index names the one column flagged as primary key, or
  is -1 if there is none; column names are pairwise distinct; declared lengths are valid.
\<close>

definition schema_inv :: "TableSchema \<Rightarrow> bool" where
  "schema_inv s \<longleftrightarrow>
     -1 \<le> ts_pk_index s \<and> ts_pk_index s < int (length (ts_columns s)) \<and>
     (\<forall>i < length (ts_columns s). col_primary_key (ts_columns s ! i) \<longleftrightarrow> int i = ts_pk_index s) \<and>
     \<not> duplicate_names (ts_columns s) \<and>
     (\<forall>c \<in> set (ts_columns s). id_wf (col_name c) \<and>
        valid_declared_length (col_type c) (unat (col_length c)))"

lemma duplicate_names_snoc:
  "duplicate_names (cs @ [c]) \<longleftrightarrow> duplicate_names cs \<or> list_ex (\<lambda>d. id_eq (col_name d) (col_name c)) cs"
  by (induction cs) (auto simp: id_eq_def)

lemma schema_inv_empty [simp]: "schema_inv (table_schema n)"
  by (simp add: schema_inv_def table_schema_def)

lemma schema_inv_set_error [simp]: "schema_inv (set_error e s) \<longleftrightarrow> schema_inv s"
  by (simp add: schema_inv_def set_error_def)

lemma append_column_fields [simp]:
  "ts_columns (append_column c s) = ts_columns s @ [c]"
  "ts_pk_index (append_column c s) = (if col_primary_key c then int (length (ts_columns s)) else ts_pk_index s)"
  "ts_error (append_column c s) = ts_error s" "ts_name (append_column c s) = ts_name s"
  by (simp_all add: append_column_def Let_def)

lemma schema_inv_no_pk:
  "schema_inv s \<Longrightarrow> \<not> has_primary_key s \<longleftrightarrow> ts_pk_index s = -1"
  by (auto simp: schema_inv_def has_primary_key_def)

lemma schema_inv_append:
  assumes inv: "schema_inv s" and wf: "id_wf (col_name c)"
    and len: "valid_declared_length (col_type c) (unat (col_length c))"
    and pk: "\<not> (col_primary_key c \<and> has_primary_key s)"
    and nodup: "\<not> list_ex (\<lambda>d. id_eq (col_name d) (col_name c)) (ts_columns s)"
  shows "schema_inv (append_column c s)"
proof -
  have none: "col_primary_key c \<Longrightarrow> ts_pk_index s = -1" using pk schema_inv_no_pk[OF inv] by auto
  have pk_at: "\<forall>i < length (ts_columns s). col_primary_key (ts_columns s ! i) \<longleftrightarrow> int i = ts_pk_index s"
    and b: "-1 \<le> ts_pk_index s" "ts_pk_index s < int (length (ts_columns s))"
    and dup: "\<not> duplicate_names (ts_columns s)"
    and ok: "\<forall>c \<in> set (ts_columns s). id_wf (col_name c) \<and> valid_declared_length (col_type c) (unat (col_length c))"
    using inv unfolding schema_inv_def by blast+
  have "col_primary_key ((ts_columns s @ [c]) ! i) \<longleftrightarrow> int i = ts_pk_index (append_column c s)"
    if "i < Suc (length (ts_columns s))" for i
  proof (cases "i = length (ts_columns s)")
    case True
    then show ?thesis using b by auto
  next
    case False
    then have i: "i < length (ts_columns s)" using that by simp
    then have "col_primary_key (ts_columns s ! i) \<longleftrightarrow> int i = ts_pk_index s" using pk_at by blast
    then show ?thesis using none i by (auto simp: nth_append)
  qed
  then show ?thesis
    unfolding schema_inv_def append_column_fields duplicate_names_snoc
    using b dup ok wf len nodup by auto
qed

lemma schema_inv_add_column:
  assumes "schema_inv s" "id_wf (col_name c)"
  shows "schema_inv (add_column c s)"
proof -
  have "list_ex (\<lambda>d. id_eq_str (col_name d) (id_name (col_name c))) (ts_columns s) \<longleftrightarrow>
    list_ex (\<lambda>d. id_eq (col_name d) (col_name c)) (ts_columns s)"
    using assms by (auto simp: list_ex_iff schema_inv_def id_eq_str_iff)
  then show ?thesis
    using assms
    by (auto simp: add_column_def check_duplicate_primary_key_def check_duplicate_column_name_def Let_def
        intro: schema_inv_append)
qed

lemma unique_filter_length:
  assumes "\<forall>i < length xs. P (xs ! i) \<longrightarrow> i = k"
  shows "length (filter P xs) \<le> 1"
proof -
  have "{i. i < length xs \<and> P (xs ! i)} \<subseteq> {k}" using assms by auto
  then have "card {i. i < length xs \<and> P (xs ! i)} \<le> card {k}" by (intro card_mono) auto
  then show ?thesis by (simp add: length_filter_conv_card)
qed

lemma validate_of_inv:
  assumes "schema_inv s" "\<not> has_error s"
  shows "validate s =
    (case primary_key_column s of
       None \<Rightarrow> NO_PRIMARY_KEY | Some c \<Rightarrow> if col_nullable c then INVALID_ROW else SE_OK)"
proof -
  have "length (filter col_primary_key (ts_columns s)) \<le> 1"
    using assms(1) by (intro unique_filter_length[where k = "nat (ts_pk_index s)"]) (auto simp: schema_inv_def)
  then show ?thesis using assms
    by (auto simp: validate_def primary_key_column_def column_at_def has_primary_key_def schema_inv_def)
qed

text \<open>A schema built by \<^verbatim>\<open>add_column\<close> calls only.\<close>

definition build_schema :: "Identifier \<Rightarrow> ColumnDef list \<Rightarrow> TableSchema" where
  "build_schema name cols = fold add_column cols (table_schema name)"

lemma schema_inv_fold:
  "schema_inv s \<Longrightarrow> \<forall>c \<in> set cols. id_wf (col_name c) \<Longrightarrow> schema_inv (fold add_column cols s)"
  by (induction cols arbitrary: s) (auto simp: schema_inv_add_column)

lemma add_column_error_sticky: "has_error s \<Longrightarrow> add_column c s = s"
  by (simp add: add_column_def)

lemmas schema_eval = build_schema_def add_column_def append_column_def table_schema_def column_def_def has_error_def
  has_primary_key_def check_duplicate_primary_key_def check_duplicate_column_name_def set_error_def
  valid_declared_length_def is_string_def c_type_length_valid_def c_type_accepts_length_def c_type_is_string_def
  make_identifier_def in_quotes_def make_lower_def tolower_def id_eq_def id_eq_str_def primary_key_column_def column_at_def
  ctype_len_defs

lemma find_column_ge: "find_column n cs i = -1 \<or> int i \<le> find_column n cs i"
proof (induction cs arbitrary: i)
  case (Cons c cs)
  then show ?case using Cons.IH[of "Suc i"] by auto
qed simp

lemma find_column_find:
  "(if find_column n cs i \<ge> 0 then Some (cs ! (nat (find_column n cs i) - i)) else None) =
     List.find (\<lambda>c. id_eq (col_name c) n) cs"
proof (induction cs arbitrary: i)
  case (Cons c cs)
  show ?case
  proof (cases "id_eq (col_name c) n")
    case False
    have "0 \<le> find_column n cs (Suc i) \<Longrightarrow>
        (c # cs) ! (nat (find_column n cs (Suc i)) - i) = cs ! (nat (find_column n cs (Suc i)) - Suc i)"
      using find_column_ge[of n cs "Suc i"] by (auto simp: nth_Cons')
    then show ?thesis using False Cons.IH[of "Suc i"] by auto
  qed simp
qed simp

lemma column_find: "column s n = List.find (\<lambda>c. id_eq (col_name c) n) (ts_columns s)"
  using find_column_find[of n "ts_columns s" 0] unfolding column_def column_index_def Let_def diff_zero .

section \<open>The binary format\<close>

definition column_fits :: "ColumnDef \<Rightarrow> bool" where
  "column_fits c \<longleftrightarrow>
     id_wf (col_name c) \<and> \<not> in_quotes (id_name (col_name c)) \<and> length (id_name (col_name c)) < 2 ^ 32 \<and>
     valid_declared_length (col_type c) (unat (col_length c))"

definition column_view :: "ColumnDef \<Rightarrow> ColumnDef" where
  "column_view c = c\<lparr>col_name := (col_name c)\<lparr>id_quoted := False\<rparr>\<rparr>"

lemma data_type_code_inverse:
  "data_types ! unat (of_nat (data_type_code t) :: byte) = t" "unat (of_nat (data_type_code t) :: byte) \<le> 12"
  by (cases t; simp add: data_types_def)+

lemma column_flags_bits:
  "column_flags c AND 0x01 \<noteq> 0 \<longleftrightarrow> col_nullable c" "column_flags c AND 0x02 \<noteq> 0 \<longleftrightarrow> col_primary_key c"
  by (simp_all add: column_flags_def)

lemma put_column_bytes:
  "put_column c buf = buf @ put_str (id_name (col_name c)) [] @
     [of_nat (data_type_code (col_type c))] @ be_bytes 4 (col_length c) @ [column_flags c]"
  by (simp add: put_column_def put_u8_def put_u32_def put_str_def)

lemma read_put_column:
  assumes "column_fits c" "reader_at r (put_column c [] @ bs)"
  shows "\<exists>r'. read_column r = Inr (column_view c, r') \<and> reader_at r' bs"
proof -
  have fits: "length (id_name (col_name c)) < 2 ^ 32" "\<not> in_quotes (id_name (col_name c))" "id_wf (col_name c)"
    "valid_declared_length (col_type c) (unat (col_length c))"
    using assms(1) by (simp_all add: column_fits_def)
  obtain r1 where r1: "get_str r = (id_name (col_name c), r1)"
    "reader_at r1 (of_nat (data_type_code (col_type c)) # be_bytes 4 (col_length c) @ column_flags c # bs)"
    using get_str_at[OF _ fits(1)] assms(2) by (auto simp: put_column_bytes)
  obtain r2 where r2: "get_u8 r1 = (of_nat (data_type_code (col_type c)), r2)"
    "reader_at r2 (be_bytes 4 (col_length c) @ column_flags c # bs)" using get_u8_at[OF r1(2)] by blast
  obtain r3 where r3: "get_u32 r2 = (col_length c, r3)" "reader_at r3 (column_flags c # bs)"
    using get_u32_at[OF r2(2)] by blast
  obtain r4 where r4: "get_u8 r3 = (column_flags c, r4)" "reader_at r4 bs" using get_u8_at[OF r3(2)] by blast
  have "read_column r = Inr (column_view c, r4)"
    using fits reader_at_ok[OF r4(2)]
    by (simp add: read_column_def r1 r2 r3 r4 data_type_code_inverse column_flags_bits identifier_name
        column_view_def not_less)
  with r4(2) show ?thesis by blast
qed

interpretation column_codec: field_codec
  "\<lambda>_ :: unit. \<lambda>c. put_column c []" "\<lambda>_. read_column" "\<lambda>_. column_fits" "\<lambda>_. column_view"
  by unfold_locales (rule read_put_column)

lemma fold_put_column: "fold put_column cs w = w @ concat (map (\<lambda>c. put_column c []) cs)"
proof (induction cs arbitrary: w)
  case (Cons c cs)
  then show ?case using put_column_bytes[of c w] put_column_bytes[of c "[]"] by simp
qed simp

lemma map2_replicate: "map2 f (replicate (length cs) x) cs = map (f x) cs"
  by (induction cs) simp_all

lemma read_columns:
  assumes "\<forall>c \<in> set cs. column_fits c" "reader_at r (concat (map (\<lambda>c. put_column c []) cs) @ bs)"
  shows "\<exists>r'. read_each (replicate (length cs) read_column) r = Inr (map column_view cs, r') \<and> reader_at r' bs"
proof -
  have "list_all2 (\<lambda>_ :: unit. column_fits) (replicate (length cs) ()) cs"
    using assms(1) by (simp add: list_all2_conv_all_nth)
  from column_codec.read_each_put[OF this, of r bs] show ?thesis
    using assms(2) by (simp add: map2_replicate)
qed

lemma fold_append_column:
  "ts_columns (fold append_column cs s) = ts_columns s @ cs"
  "ts_name (fold append_column cs s) = ts_name s" "ts_error (fold append_column cs s) = ts_error s"
  by (induction cs arbitrary: s) simp_all

lemma fold_append_no_pk:
  "\<forall>c \<in> set cs. \<not> col_primary_key c \<Longrightarrow> ts_pk_index (fold append_column cs s) = ts_pk_index s"
  by (induction cs arbitrary: s) simp_all

definition schema_fits :: "TableSchema \<Rightarrow> bool" where
  "schema_fits s \<longleftrightarrow>
     id_wf (ts_name s) \<and> \<not> in_quotes (id_name (ts_name s)) \<and> length (id_name (ts_name s)) < 2 ^ 32 \<and>
     length (ts_columns s) \<le> 65535 \<and>
     (\<forall>c \<in> set (ts_columns s). \<not> in_quotes (id_name (col_name c)) \<and> length (id_name (col_name c)) < 2 ^ 32)"

lemma restored_schema:
  assumes inv: "schema_inv s" and n: "length (ts_columns s) \<le> 65535"
  defines "slot \<equiv> if ts_pk_index s \<ge> 0 then word_of_int (ts_pk_index s) + 1 else 0 :: uint32"
  shows "(let schema = fold append_column (map column_view (ts_columns s)) (table_schema name)
      in if slot > 0 \<and> slot \<le> of_nat (length (ts_columns s)) then schema\<lparr>ts_pk_index := uint slot - 1\<rparr> else schema) =
    table_schema name\<lparr>ts_columns := map column_view (ts_columns s), ts_pk_index := ts_pk_index s\<rparr>"
proof -
  let ?s = "fold append_column (map column_view (ts_columns s)) (table_schema name)"
  have f: "ts_columns ?s = map column_view (ts_columns s)" "ts_name ?s = name" "ts_error ?s = SE_OK"
    by (simp_all add: fold_append_column table_schema_def)
  have b: "-1 \<le> ts_pk_index s" "ts_pk_index s < int (length (ts_columns s))"
    using inv by (auto simp: schema_inv_def)
  show ?thesis
  proof (cases "ts_pk_index s \<ge> 0")
    case True
    have "uint (word_of_int (ts_pk_index s) :: uint32) = ts_pk_index s" using True b n by (simp add: uint_word_of_int)
    then have u: "uint slot = ts_pk_index s + 1" using True b n unfolding slot_def
      by (simp only: if_True) (subst uint_plus_small, auto)
    have "uint (of_nat (length (ts_columns s)) :: uint32) = int (length (ts_columns s))"
      using n by (simp add: unsigned_of_nat take_bit_nat_eq_self)
    then have "slot > 0 \<and> slot \<le> of_nat (length (ts_columns s))"
      using u True b by (simp add: word_less_def word_le_def)
    then show ?thesis using u f by (simp add: table_schema_def)
  next
    case False
    then have m: "ts_pk_index s = -1" using b by simp
    then have "\<forall>c \<in> set (map column_view (ts_columns s)). \<not> col_primary_key c"
      using inv by (auto simp: schema_inv_def column_view_def in_set_conv_nth)
    then have "ts_pk_index ?s = -1" by (simp add: fold_append_no_pk table_schema_def)
    then show ?thesis using f m by (simp add: slot_def table_schema_def)
  qed
qed

lemma deserialize_serialize:
  assumes inv: "schema_inv s" and fits: "schema_fits s"
  shows "deserialize_schema (serialize_schema s) =
    Inr (table_schema ((ts_name s)\<lparr>id_quoted := False\<rparr>)
      \<lparr>ts_columns := map column_view (ts_columns s), ts_pk_index := ts_pk_index s\<rparr>)"
proof -
  let ?cs = "ts_columns s" and ?slot = "if ts_pk_index s \<ge> 0 then word_of_int (ts_pk_index s) + 1 else 0 :: uint32"
  have cols: "\<forall>c \<in> set ?cs. column_fits c"
    using inv fits by (auto simp: schema_inv_def schema_fits_def column_fits_def)
  have n: "length ?cs \<le> 65535" "length (id_name (ts_name s)) < 2 ^ 32" using fits by (auto simp: schema_fits_def)
  then have un: "unat (of_nat (length ?cs) :: uint32) = length ?cs"
    by (simp add: unsigned_of_nat take_bit_nat_eq_self)
  have ser: "serialize_schema s = schema_format_version # put_str (id_name (ts_name s)) [] @ be_bytes 4 ?slot @
      be_bytes 4 (of_nat (length ?cs) :: uint32) @ concat (map (\<lambda>c. put_column c []) ?cs) @ []"
    by (simp add: serialize_schema_def Let_def fold_put_column put_u8_def put_u32_def put_str_def)
  obtain r1 where r1: "get_u8 (byte_reader (serialize_schema s)) = (schema_format_version, r1)"
    "reader_at r1 (put_str (id_name (ts_name s)) [] @ be_bytes 4 ?slot @
      be_bytes 4 (of_nat (length ?cs) :: uint32) @ concat (map (\<lambda>c. put_column c []) ?cs) @ [])"
    using get_u8_at[OF reader_at_start] unfolding ser by blast
  obtain r2 where r2: "get_str r1 = (id_name (ts_name s), r2)" "reader_at r2 (be_bytes 4 ?slot @
      be_bytes 4 (of_nat (length ?cs) :: uint32) @ concat (map (\<lambda>c. put_column c []) ?cs) @ [])"
    using get_str_at[OF r1(2) n(2)] by blast
  obtain r3 where r3: "get_u32 r2 = (?slot, r3)"
    "reader_at r3 (be_bytes 4 (of_nat (length ?cs) :: uint32) @ concat (map (\<lambda>c. put_column c []) ?cs) @ [])"
    using get_u32_at[OF r2(2)] by blast
  obtain r4 where r4: "get_u32 r3 = (of_nat (length ?cs), r4)"
    "reader_at r4 (concat (map (\<lambda>c. put_column c []) ?cs) @ [])" using get_u32_at[OF r3(2)] by blast
  obtain r5 where r5: "read_each (replicate (length ?cs) read_column) r4 = Inr (map column_view ?cs, r5)"
    "reader_at r5 []" using read_columns[OF cols r4(2)] by blast
  have name: "make_identifier (id_name (ts_name s)) = (ts_name s)\<lparr>id_quoted := False\<rparr>"
    using fits by (simp add: schema_fits_def identifier_name)
  have flags: "rd_ok r1" "rd_ok r4" "rd_ok r5" "eof r5"
    using r1(2) r4(2) r5(2) by (auto simp: reader_at_ok reader_at_eof)
  have fields: "TableSchema.ts_columns (fold append_column (map column_view ?cs) (table_schema n)) = map column_view ?cs"
    for n by (simp add: fold_append_column table_schema_def)
  have "deserialize_schema (serialize_schema s) =
    Inr (let schema = fold append_column (map column_view ?cs) (table_schema ((ts_name s)\<lparr>id_quoted := False\<rparr>))
         in if ?slot > 0 \<and> ?slot \<le> of_nat (length ?cs) then schema\<lparr>ts_pk_index := uint ?slot - 1\<rparr> else schema)"
    using n(1) flags by (simp only: deserialize_schema_def r1(1) r2(1) r3(1) r4(1) r5(1) Let_def prod.case sum.case un name) simp
  then show ?thesis using restored_schema[OF inv n(1)] by (simp only:)
qed

lemma schema_reread:
  assumes "schema_inv s" and "schema_fits s"
  shows "\<exists>s'. deserialize_schema (serialize_schema s) = Inr s' \<and> schema_eq s' s \<and> \<not> has_error s'"
proof -
  have "list_all2 column_eq (map column_view (ts_columns s)) (ts_columns s)"
    by (auto simp: list_all2_conv_all_nth column_eq_def column_view_def id_eq_def)
  then show ?thesis using deserialize_serialize[OF assms]
    by (auto simp: schema_eq_def id_eq_def has_error_def table_schema_def)
qed

section \<open>Properties\<close>

text \<open>
  One \<^verbatim>\<open>add_column\<close> call, branch by branch. A recorded error makes it a no-op; otherwise an
  invalid declared length, a second primary key and a duplicate name are reported in that order and
  leave the columns alone; otherwise the column is appended, and becomes the primary key if flagged.
\<close>

theorem add_column_branches:
  assumes "schema_inv s" and "id_wf (col_name c)"
  shows "add_column c s =
    (if has_error s then s
     else if \<not> valid_declared_length (col_type c) (unat (col_length c)) then s\<lparr>ts_error := INVALID_COLUMN_DEF\<rparr>
     else if col_primary_key c \<and> (\<exists>d \<in> set (ts_columns s). col_primary_key d) then s\<lparr>ts_error := DUPLICATE_PRIMARY_KEY\<rparr>
     else if \<exists>d \<in> set (ts_columns s). id_eq (col_name d) (col_name c) then s\<lparr>ts_error := DUPLICATE_COLUMN_NAME\<rparr>
     else s\<lparr>ts_columns := ts_columns s @ [c],
            ts_pk_index := (if col_primary_key c then int (length (ts_columns s)) else ts_pk_index s)\<rparr>)"
proof -
  have pk: "(\<exists>d \<in> set (ts_columns s). col_primary_key d) \<longleftrightarrow> has_primary_key s"
  proof
    assume "\<exists>d \<in> set (ts_columns s). col_primary_key d"
    then obtain i where "i < length (ts_columns s)" "col_primary_key (ts_columns s ! i)"
      by (auto simp: in_set_conv_nth)
    then show "has_primary_key s" using assms(1) by (auto simp: schema_inv_def has_primary_key_def)
  next
    assume "has_primary_key s"
    then have "nat (ts_pk_index s) < length (ts_columns s)" "int (nat (ts_pk_index s)) = ts_pk_index s"
      by (auto simp: has_primary_key_def)
    then show "\<exists>d \<in> set (ts_columns s). col_primary_key d"
      using assms(1) unfolding schema_inv_def by (metis nth_mem)
  qed
  have dup: "list_ex (\<lambda>d. id_eq_str (col_name d) (id_name (col_name c))) (ts_columns s) \<longleftrightarrow>
    (\<exists>d \<in> set (ts_columns s). id_eq (col_name d) (col_name c))"
    using assms by (auto simp: list_ex_iff schema_inv_def id_eq_str_iff)
  show ?thesis
    by (simp add: add_column_def pk dup check_duplicate_primary_key_def check_duplicate_column_name_def
        set_error_def has_error_def append_column_def Let_def)
qed

theorem add_column_branches_witness:
  "ts_error (add_column (column_def (make_identifier (str ''ID'')) TEXT 0 False True)
     (build_schema (make_identifier (str ''t'')) [column_def (make_identifier (str ''id'')) INT_TYPE 0 True False])) =
   DUPLICATE_COLUMN_NAME"
proof -
  let ?s = "build_schema (make_identifier (str ''t'')) [column_def (make_identifier (str ''id'')) INT_TYPE 0 True False]"
  let ?c = "column_def (make_identifier (str ''ID'')) TEXT 0 False True"
  have "schema_inv ?s" unfolding build_schema_def by (rule schema_inv_fold) (simp_all add: column_def_def)
  moreover have "id_wf (col_name ?c)" by (simp add: column_def_def)
  moreover have "\<not> has_error ?s" "valid_declared_length (col_type ?c) (unat (col_length ?c))"
    "\<not> col_primary_key ?c" by (simp_all add: schema_eval)
  moreover have "\<exists>d \<in> set (ts_columns ?s). id_eq (col_name d) (col_name ?c)" by (simp add: schema_eval)
  ultimately show ?thesis using add_column_branches[of ?s ?c] by simp
qed

text \<open>What makes a list of columns a schema: declared lengths, names distinct up to case, at most one primary key.\<close>

definition columns_ok :: "ColumnDef list \<Rightarrow> bool" where
  "columns_ok cols \<longleftrightarrow> list_all (\<lambda>c. valid_declared_length (col_type c) (unat (col_length c))) cols \<and>
     distinct (map (id_normalized \<circ> col_name) cols) \<and> length (filter col_primary_key cols) \<le> 1"

lemma build_schema_columns:
  assumes "\<forall>c \<in> set cols. id_wf (col_name c)"
  shows "(\<not> has_error (build_schema name cols) \<longleftrightarrow> columns_ok cols) \<and>
    (columns_ok cols \<longrightarrow> ts_columns (build_schema name cols) = cols)"
  using assms
proof (induction cols rule: rev_induct)
  case (snoc c cols)
  let ?s = "build_schema name cols"
  have inv: "schema_inv ?s" using schema_inv_fold[OF schema_inv_empty, of cols] snoc(2) by (simp add: build_schema_def)
  have step: "build_schema name (cols @ [c]) = add_column c ?s" by (simp add: build_schema_def)
  show ?case
  proof (cases "has_error ?s")
    case True
    then have "\<not> columns_ok cols" using snoc by simp
    then show ?thesis using True unfolding step columns_ok_def by (auto simp: add_column_def)
  next
    case False
    then have ok: "columns_ok cols" "ts_columns ?s = cols" using snoc by auto
    have "ts_error ?s = SE_OK" using False by (simp add: has_error_def)
    then show ?thesis using ok add_column_branches[OF inv, of c] False snoc(2)
      by (auto simp: step columns_ok_def has_error_def id_eq_def filter_empty_conv image_iff) metis+
  qed
qed (simp add: build_schema_def table_schema_def has_error_def columns_ok_def)

text \<open>
  C9: which column lists make a schema. Adding columns one by one records no error exactly when every declared length is valid, the
  names are pairwise distinct up to case and at most one column is flagged as primary key, and then the schema has these columns in
  order. On every path, errors included, the invariant holds: the primary key index points at the only flagged column. Without an
  error, \<^verbatim>\<open>validate\<close> complains about a missing or a nullable primary key and about nothing else.
\<close>

theorem build_schema_correct:
  assumes "\<forall>c \<in> set cols. id_wf (col_name c)"
  shows "(\<not> has_error (build_schema name cols) \<longleftrightarrow> columns_ok cols) \<and>
    schema_inv (build_schema name cols) \<and>
    (columns_ok cols \<longrightarrow> ts_columns (build_schema name cols) = cols \<and>
      validate (build_schema name cols) =
        (case primary_key_column (build_schema name cols) of
           None \<Rightarrow> NO_PRIMARY_KEY | Some c \<Rightarrow> if col_nullable c then INVALID_ROW else SE_OK))"
  using build_schema_columns[OF assms] schema_inv_fold[OF schema_inv_empty assms] validate_of_inv by (simp add: build_schema_def)

theorem build_schema_correct_witness:
  "validate (build_schema (make_identifier (str ''t''))
     [column_def (make_identifier (str ''id'')) INT_TYPE 0 True False,
      column_def (make_identifier (str ''name'')) VARCHAR 32 False True]) = SE_OK"
proof -
  let ?cols = "[column_def (make_identifier (str ''id'')) INT_TYPE 0 True False,
      column_def (make_identifier (str ''name'')) VARCHAR 32 False True]"
  have "\<forall>c \<in> set ?cols. id_wf (col_name c)" by (simp add: column_def_def)
  moreover have "columns_ok ?cols" by (simp add: columns_ok_def schema_eval)
  moreover have "primary_key_column (build_schema (make_identifier (str ''t'')) ?cols) = Some (hd ?cols)" by (simp add: schema_eval)
  moreover have "\<not> col_nullable (hd ?cols)" by (simp add: schema_eval)
  ultimately show ?thesis using build_schema_correct[of ?cols "make_identifier (str ''t'')"] by simp
qed

text \<open>
  C7: reading back a written schema gives an equal schema, for every schema that satisfies the
  building invariant, has at most 65535 columns and has no name that is itself wrapped in quotes
  (such a name loses a second pair of quotes when it is read).
\<close>

theorem schema_format_roundtrip:
  assumes "schema_inv s" and "schema_fits s"
  shows "\<exists>s'. deserialize_schema (serialize_schema s) = Inr s' \<and> schema_eq s' s \<and> \<not> has_error s'"
  using assms by (rule schema_reread)

theorem schema_format_roundtrip_witness:
  "\<exists>s'. deserialize_schema (serialize_schema (build_schema (make_identifier (str ''t''))
     [column_def (make_identifier (str ''id'')) INT_TYPE 0 True False])) = Inr s' \<and>
    schema_eq s' (build_schema (make_identifier (str ''t'')) [column_def (make_identifier (str ''id'')) INT_TYPE 0 True False])"
proof -
  let ?s = "build_schema (make_identifier (str ''t'')) [column_def (make_identifier (str ''id'')) INT_TYPE 0 True False]"
  have "schema_inv ?s" unfolding build_schema_def by (rule schema_inv_fold) (simp_all add: column_def_def)
  moreover have "schema_fits ?s" by (simp add: schema_fits_def schema_eval id_wf_def)
  ultimately show ?thesis using schema_format_roundtrip[of ?s] by blast
qed

text \<open>
  \<^verbatim>\<open>primary_key\<close> does not check for a duplicate name. Called on a schema without primary key that
  already has a column of the name, it records no error and appends the second column;
  only \<^verbatim>\<open>validate\<close> reports it.
\<close>

theorem primary_key_skips_name_check:
  assumes "\<not> has_error s" and "\<not> has_primary_key s" and "d \<in> set (ts_columns s)" and "id_eq (col_name d) name"
  shows "\<not> has_error (primary_key name t s) \<and> length (ts_columns (primary_key name t s)) = Suc (length (ts_columns s)) \<and>
    validate (primary_key name t s) = DUPLICATE_COLUMN_NAME"
proof -
  have "list_ex (\<lambda>d. id_eq (col_name d) name) (ts_columns s)" using assms(3,4) by (auto simp: list_ex_iff)
  then have "duplicate_names (ts_columns s @ [column_def name t 0 True False])"
    by (simp add: duplicate_names_snoc column_def_def)
  moreover have "primary_key name t s = s\<lparr>ts_columns := ts_columns s @ [column_def name t 0 True False],
      ts_pk_index := int (length (ts_columns s))\<rparr>" using assms(1,2) by (simp add: primary_key_def)
  ultimately show ?thesis using assms(1)
    by (simp add: validate_def has_error_def has_primary_key_def nth_append) (simp add: column_def_def)
qed

theorem primary_key_skips_name_check_witness:
  "validate (primary_key (make_identifier (str ''id'')) INT_TYPE
     (build_schema (make_identifier (str ''t'')) [column_def (make_identifier (str ''id'')) TEXT 0 False True])) =
   DUPLICATE_COLUMN_NAME"
proof -
  let ?d = "column_def (make_identifier (str ''id'')) TEXT 0 False True"
  let ?s = "build_schema (make_identifier (str ''t'')) [?d]"
  have "\<not> has_error ?s" "\<not> has_primary_key ?s" "id_eq (col_name ?d) (make_identifier (str ''id''))" by (simp_all add: schema_eval)
  moreover have "ts_columns ?s = [?d]" by (simp add: schema_eval)
  ultimately show ?thesis using primary_key_skips_name_check[of ?s ?d "make_identifier (str ''id'')" INT_TYPE] by simp
qed

end
