(* ===== verification/Schema_Text.thy ===== *)
theory Schema_Text imports Schema begin

text \<open>
  The printed forms of a schema (\<^verbatim>\<open>sql_types/schema.cpp\<close>, second half). An \<^verbatim>\<open>ostringstream\<close> with
  \<^verbatim>\<open>std::left\<close> and \<^verbatim>\<open>std::setw(w)\<close> pads a field with spaces on the right, up to width \<open>w\<close>.
\<close>

definition setw_left :: "nat \<Rightarrow> bytes \<Rightarrow> bytes" where
  "setw_left w s = s @ replicate (w - length s) (of_char (CHR '' ''))"

definition dashes :: "nat \<Rightarrow> bytes" where
  "dashes n = replicate n (of_char (CHR ''-''))"

definition newline :: bytes where "newline = [10]"

fun error_message :: "SchemaError \<Rightarrow> bytes" where
  "error_message SE_OK = str ''OK''"
| "error_message DUPLICATE_PRIMARY_KEY = str ''Duplicate primary key: table already has a primary key''"
| "error_message NO_PRIMARY_KEY = str ''No primary key defined''"
| "error_message DUPLICATE_COLUMN_NAME = str ''Duplicate column name''"
| "error_message COLUMN_SIZE_MISMATCH = str ''Row size mismatch''"
| "error_message COLUMN_TYPE_MISMATCH = str ''Type mismatch''"
| "error_message COLUMN_ATTR_NULL_MISMATCH = str ''NULL constraint violation''"
| "error_message COLUMN_NOT_FOUND = str ''Column not found''"
| "error_message INVALID_ROW = str ''Invalid row''"
| "error_message INVALID_FORMAT = str ''Invalid serialized format (corrupted data or version mismatch)''"
| "error_message VALUE_OUT_OF_RANGE = str ''Value out of range for column type''"
| "error_message INVALID_COLUMN_DEF = str ''Invalid column definition (bad declared length)''"

definition column_item :: "ColumnDef \<Rightarrow> bytes" where
  "column_item c =
     id_name (col_name c) @ str '' '' @ type_display c @
     (if col_primary_key c then str '' PRIMARY KEY'' else if \<not> col_nullable c then str '' NOT NULL'' else [])"

fun join_items :: "bytes \<Rightarrow> bytes list \<Rightarrow> bytes" where
  "join_items sep [] = []"
| "join_items sep [x] = x"
| "join_items sep (x # y # xs) = x @ sep @ join_items sep (y # xs)"

definition schema_to_string :: "TableSchema \<Rightarrow> bytes" where
  "schema_to_string s =
     id_name (ts_name s) @ str ''('' @ join_items (str '', '') (map column_item (ts_columns s)) @ str '')''"

definition column_constraint :: "ColumnDef \<Rightarrow> bytes" where
  "column_constraint c =
     (if col_primary_key c then str ''PRIMARY KEY'' else if \<not> col_nullable c then str ''NOT NULL'' else [])"

definition column_null_text :: "ColumnDef \<Rightarrow> bytes" where
  "column_null_text c = (if col_nullable c then str ''YES'' else str ''NO'')"

definition schema_to_string_pretty :: "TableSchema \<Rightarrow> bytes" where
  "schema_to_string_pretty s =
     (if ts_columns s = [] then id_name (ts_name s) @ str '' (empty table)''
      else str ''Table: '' @ id_name (ts_name s) @ newline @ str ''Columns:'' @ newline @
        str ''  '' @ setw_left 25 (str ''Name'') @ setw_left 15 (str ''Type'') @
          setw_left 10 (str ''Nullable'') @ str ''Constraint'' @ newline @
        str ''  '' @ dashes 50 @ newline @
        concat (map (\<lambda>c. str ''  '' @ setw_left 25 (id_name (col_name c)) @ setw_left 15 (type_display c) @
          setw_left 10 (column_null_text c) @ column_constraint c @ newline) (ts_columns s)))"

definition max_column_name_width :: "TableSchema \<Rightarrow> nat" where
  "max_column_name_width s = foldl (\<lambda>w c. max w (length (id_name (col_name c)))) 0 (ts_columns s)"

definition max_type_width :: "TableSchema \<Rightarrow> nat" where
  "max_type_width s = foldl (\<lambda>w c. max w (length (type_display c))) 0 (ts_columns s)"

definition table_border :: "bytes \<Rightarrow> nat \<Rightarrow> nat \<Rightarrow> bytes" where
  "table_border corner nw tw =
     corner @ dashes (nw + 2) @ corner @ dashes (tw + 2) @ corner @ dashes (8 + 2) @ corner @ dashes (12 + 2) @ corner"

definition table_line :: "nat \<Rightarrow> nat \<Rightarrow> bytes \<Rightarrow> bytes \<Rightarrow> bytes \<Rightarrow> bytes \<Rightarrow> bytes" where
  "table_line nw tw a b c d =
     str ''| '' @ setw_left nw a @ str ''| '' @ setw_left tw b @ str ''| '' @ setw_left 8 c @
     str ''| '' @ setw_left 12 d @ str ''|''"

text \<open>The lines of the table, without the line breaks that follow each of them.\<close>

definition schema_table_lines :: "TableSchema \<Rightarrow> bytes list" where
  "schema_table_lines s =
     (let nw = max_column_name_width s + 2; tw = max_type_width s + 2
      in [table_border (str ''+'') nw tw,
          table_line nw tw (str ''Column'') (str ''Type'') (str ''Nullable'') (str ''Constraint''),
          table_border (str ''|'') nw tw] @
         map (\<lambda>c. table_line nw tw (id_name (col_name c)) (type_display c) (column_null_text c) (column_constraint c))
           (ts_columns s) @
         [table_border (str ''+'') nw tw])"

definition schema_to_string_table :: "TableSchema \<Rightarrow> bytes" where
  "schema_to_string_table s =
     (if ts_columns s = [] then str ''Table \"'' @ id_name (ts_name s) @ str ''\" has no columns.'' @ newline
      else str ''Table \"'' @ id_name (ts_name s) @ str ''\"'' @ newline @
        concat (map (\<lambda>l. l @ newline) (schema_table_lines s)))"

definition schema_to_string_summary :: "TableSchema \<Rightarrow> bytes" where
  "schema_to_string_summary s =
     id_name (ts_name s) @ str ''('' @ int_to_string (int (length (ts_columns s))) @ str '' columns'' @
     (case primary_key_column s of Some c \<Rightarrow> str '', PK: '' @ id_name (col_name c) | None \<Rightarrow> []) @ str '')''"

section \<open>Alignment\<close>

lemma length_setw_left: "length (setw_left w s) = max w (length s)"
  by (simp add: setw_left_def)

lemma foldl_max_ge:
  "(w :: nat) \<le> foldl (\<lambda>w c. max w (f c)) w cs" "c \<in> set cs \<Longrightarrow> f c \<le> foldl (\<lambda>w c. max w (f c)) w cs"
proof (induction cs arbitrary: w)
  case (Cons d cs)
  { case 1 show ?case using Cons.IH(1)[of "max w (f d)"] by simp }
  { case 2 then show ?case using Cons.IH(1)[of "max w (f d)"] Cons.IH(2)[of "max w (f d)"] by auto }
qed simp_all

lemma length_table_border: "length x = 1 \<Longrightarrow> length (table_border x nw tw) = nw + tw + 33"
  by (simp add: table_border_def dashes_def)

lemma length_table_line:
  "length a \<le> nw \<Longrightarrow> length b \<le> tw \<Longrightarrow> length c \<le> 8 \<Longrightarrow> length d \<le> 12 \<Longrightarrow>
    length (table_line nw tw a b c d) = nw + tw + 29"
  by (simp add: table_line_def length_setw_left)

text \<open>
  In the table form of a schema all data lines have the same length, whatever the names and types
  of the columns, so the columns are aligned with each other; but every border line is four characters
  longer, one per column, because a border cell is drawn one dash wider than a data cell.
\<close>

theorem schema_table_alignment:
  assumes "c \<in> set (ts_columns s)"
  shows "length (table_line (max_column_name_width s + 2) (max_type_width s + 2)
        (id_name (col_name c)) (type_display c) (column_null_text c) (column_constraint c)) =
      max_column_name_width s + max_type_width s + 33 \<and>
    length (table_border (str ''+'') (max_column_name_width s + 2) (max_type_width s + 2)) =
      max_column_name_width s + max_type_width s + 37"
proof -
  have "length (id_name (col_name c)) \<le> max_column_name_width s" "length (type_display c) \<le> max_type_width s"
    unfolding max_column_name_width_def max_type_width_def using assms by (rule foldl_max_ge(2))+
  moreover have "length (column_null_text c) \<le> 8" "length (column_constraint c) \<le> 12"
    by (simp_all add: column_null_text_def column_constraint_def)
  ultimately show ?thesis by (subst length_table_line) (simp_all add: length_table_border)
qed

theorem schema_table_alignment_witness:
  "length (table_border (str ''+'') (max_column_name_width (build_schema (make_identifier (str ''t''))
      [column_def (make_identifier (str ''id'')) INT_TYPE 0 True False]) + 2) 5) = 42"
proof -
  let ?c = "column_def (make_identifier (str ''id'')) INT_TYPE 0 True False"
  let ?s = "build_schema (make_identifier (str ''t'')) [?c]"
  have "ts_columns ?s = [?c]" by (simp add: schema_eval)
  moreover have "max_column_name_width ?s = 2" "max_type_width ?s = 3"
    by (simp_all add: max_column_name_width_def max_type_width_def type_display_def schema_eval)
  ultimately show ?thesis using schema_table_alignment[of ?c ?s] by simp
qed

end
