(* ===== verification/Row.thy ===== *)
theory Row imports Schema begin

text \<open>
  Rows and the row builder (\<^verbatim>\<open>sql_types/row.h\<close>, \<^verbatim>\<open>row.cpp\<close>). A row is the list of its values. The
  builder's \<^verbatim>\<open>unordered_map\<close> from column identifiers is an association list whose keys are compared
  by \<open>id_eq\<close>; the results do not depend on its iteration order.
\<close>

type_synonym Row = "Value list"

definition row_to_string :: "Row \<Rightarrow> bytes" where
  "row_to_string row =
     str ''['' @ concat (map2 (\<lambda>i v. (if i > 0 then str '', '' else []) @ value_to_string v) [0..<length row] row) @ str '']''"

definition row_eq :: "Row \<Rightarrow> Row \<Rightarrow> bool" where
  "row_eq a b \<longleftrightarrow> list_all2 value_eq a b"

section \<open>Binary format\<close>

definition row_format_version :: byte where "row_format_version = 1"

definition serialize_row :: "Row \<Rightarrow> bytes" where
  "serialize_row row =
     (let w = put_u8 row_format_version []; w = put_u32 (of_nat (length row)) w
      in fold (\<lambda>v w. put_str (to_key v) w) row w)"

definition field_type_at :: "TableSchema \<Rightarrow> Row \<Rightarrow> nat \<Rightarrow> DataType" where
  "field_type_at s row i = (if i < length (ts_columns s) then col_type (ts_columns s ! i) else vtype (row ! i))"

definition serialize_row_schema :: "TableSchema \<Rightarrow> Row \<Rightarrow> bytes" where
  "serialize_row_schema s row =
     (let w = put_u8 row_format_version []; w = put_u32 (of_nat (length row)) w
      in fold (\<lambda>i w. put_str (to_key_col (row ! i) (field_type_at s row i)) w) [0..<length row] w)"

definition read_field :: "ColumnDef \<Rightarrow> ByteReader \<Rightarrow> SchemaError + Value \<times> ByteReader" where
  "read_field col r0 =
     (let (field, r) = get_str r0
      in if \<not> rd_ok r then Inl INVALID_FORMAT
         else if \<not> is_valid_key field (col_type col) then Inl INVALID_FORMAT
         else let value = from_key field (col_type col); err = validate_value col value
              in if err \<noteq> SE_OK then Inl err else Inr (value, r))"

definition deserialize_row :: "bytes \<Rightarrow> TableSchema \<Rightarrow> SchemaError + Row" where
  "deserialize_row d s =
     (let (version, r) = get_u8 (byte_reader d)
      in if \<not> rd_ok r \<or> version \<noteq> row_format_version then Inl INVALID_FORMAT
         else let (field_count, r) = get_u32 r
              in if \<not> rd_ok r \<or> unat field_count \<noteq> length (ts_columns s) then Inl COLUMN_SIZE_MISMATCH
                 else case read_each (map read_field (ts_columns s)) r of
                        Inl e \<Rightarrow> Inl e
                      | Inr (row, r) \<Rightarrow> if \<not> eof r then Inl INVALID_FORMAT else Inr row)"

section \<open>Row builder\<close>

type_synonym RowBuilder = "(Identifier \<times> Value) list"

fun rb_find :: "RowBuilder \<Rightarrow> Identifier \<Rightarrow> Value option" where
  "rb_find [] c = None"
| "rb_find ((k, v) # kvs) c = (if id_eq k c then Some v else rb_find kvs c)"

fun rb_set :: "Identifier \<Rightarrow> Value \<Rightarrow> RowBuilder \<Rightarrow> RowBuilder" where
  "rb_set c v [] = [(c, v)]"
| "rb_set c v ((k, w) # kvs) = (if id_eq k c then (k, v) # kvs else (k, w) # rb_set c v kvs)"

definition rb_set_null :: "Identifier \<Rightarrow> RowBuilder \<Rightarrow> RowBuilder" where
  "rb_set_null c b = rb_set c NullV b"

definition rb_get :: "RowBuilder \<Rightarrow> Identifier \<Rightarrow> Value" where
  "rb_get b c = (case rb_find b c of Some v \<Rightarrow> v | None \<Rightarrow> NullV)"

definition rb_has :: "RowBuilder \<Rightarrow> Identifier \<Rightarrow> bool" where
  "rb_has b c \<longleftrightarrow> rb_find b c \<noteq> None"

fun rb_collect :: "RowBuilder \<Rightarrow> ColumnDef list \<Rightarrow> SchemaError + Row" where
  "rb_collect b [] = Inr []"
| "rb_collect b (col # cols) =
     (case (case rb_find b (col_name col) of
              Some v \<Rightarrow> Inr v
            | None \<Rightarrow> if \<not> col_nullable col then Inl INVALID_ROW else Inr NullV) of
        Inl e \<Rightarrow> Inl e
      | Inr v \<Rightarrow> (case rb_collect b cols of Inl e \<Rightarrow> Inl e | Inr row \<Rightarrow> Inr (v # row)))"

definition rb_build :: "RowBuilder \<Rightarrow> TableSchema \<Rightarrow> SchemaError + Row" where
  "rb_build b s =
     (if list_ex (\<lambda>(name, value). column s name = None) b then Inl COLUMN_NOT_FOUND
      else case rb_collect b (ts_columns s) of
             Inl e \<Rightarrow> Inl e
           | Inr row \<Rightarrow> (let err = validate_row s row in if err \<noteq> SE_OK then Inl err else Inr row))"

fun rb_build_ordered :: "RowBuilder \<Rightarrow> TableSchema \<Rightarrow> Identifier list \<Rightarrow> SchemaError + Row" where
  "rb_build_ordered b s [] = Inr []"
| "rb_build_ordered b s (name # order) =
     (case column s name of
        None \<Rightarrow> Inl COLUMN_NOT_FOUND
      | Some col \<Rightarrow>
          (case (case rb_find b name of
                   Some v \<Rightarrow> (let err = validate_value col v in if err \<noteq> SE_OK then Inl err else Inr v)
                 | None \<Rightarrow> if \<not> col_nullable col then Inl INVALID_ROW else Inr NullV) of
             Inl e \<Rightarrow> Inl e
           | Inr v \<Rightarrow> (case rb_build_ordered b s order of Inl e \<Rightarrow> Inl e | Inr row \<Rightarrow> Inr (v # row))))"

section \<open>Validated values survive the format\<close>

lemma validate_value_simps:
  "validate_value col NullV = (if col_nullable col then SE_OK else COLUMN_ATTR_NULL_MISMATCH)"
  "validate_value col (IntV k i) =
     (if \<not> is_same_family (col_type col) (int_type k) \<or>
         is_temporal (col_type col) \<and> is_temporal (int_type k) \<and> col_type col \<noteq> int_type k
      then COLUMN_TYPE_MISMATCH
      else if \<not> can_represent (col_type col) i then VALUE_OUT_OF_RANGE else SE_OK)"
  "validate_value col (StrV l x) =
     (if \<not> is_string (col_type col) then COLUMN_TYPE_MISMATCH
      else if \<not> can_represent_length (col_type col) (unat (col_length col)) (length x) then VALUE_OUT_OF_RANGE
      else SE_OK)"
  "validate_value col (BoolV b) =
     (if col_type col \<noteq> BOOLEAN then COLUMN_TYPE_MISMATCH
      else if \<not> can_represent (col_type col) (if b then 1 else 0) then VALUE_OUT_OF_RANGE else SE_OK)"
  by (simp_all add: validate_value_def value_test_defs get_int_def get_bool_def get_str_view_def same_family_kinds(2,3))

lemma validate_value_family:
  "validate_value col v = SE_OK \<Longrightarrow> v \<noteq> NullV \<Longrightarrow>
    is_same_family (col_type col) (vtype v) \<and> (is_temporal (col_type col) \<longrightarrow> vtype v = col_type col)"
  by (cases v) (auto simp: validate_value_simps same_family_kinds type_family_defs split: if_splits)

lemma validate_values_iff:
  "length cols = length row \<Longrightarrow>
    validate_values cols row = SE_OK \<longleftrightarrow> list_all2 (\<lambda>c v. validate_value c v = SE_OK) cols row"
  by (induction cols row rule: list_induct2) (simp_all add: Let_def)

lemma validate_row_iff:
  "validate_row s row = SE_OK \<longleftrightarrow> list_all2 (\<lambda>c v. validate_value c v = SE_OK) (ts_columns s) row"
  by (cases "length (ts_columns s) = length row")
    (auto simp: validate_row_def validate_values_iff dest: list_all2_lengthD)

lemma validate_key_view:
  assumes "validate_value col v = SE_OK"
  shows "validate_value col (key_view (col_type col) v) = SE_OK"
proof (cases v)
  case (IntV k i)
  have ok: "is_same_family (col_type col) (int_type k)" "can_represent (col_type col) i"
    using assms unfolding IntV validate_value_simps by (auto split: if_splits)
  show ?thesis
  proof (cases "is_temporal (col_type col)")
    case True
    then obtain l where l: "int_kind_of (col_type col) = Some l" using is_temporal_kind by blast
    then have "int_type l = col_type col" by (cases "col_type col") auto
    then show ?thesis using IntV ok l True by (simp add: validate_value_simps is_same_family_def)
  next
    case False
    then show ?thesis using IntV ok same_family_kinds(1)[of "col_type col" K_BIGINT]
      by (simp add: validate_value_simps same_family_kinds(1)) (simp add: type_family_defs)
  qed
next
  case (StrV l x)
  then show ?thesis using assms by (simp add: validate_value_simps split: if_splits)
qed (use assms in simp_all)

lemma valid_key_of_validated:
  assumes "validate_value col v = SE_OK"
  shows "is_valid_key (to_key_col v (col_type col)) (col_type col)"
    and "from_key (to_key_col v (col_type col)) (col_type col) = key_view (col_type col) v"
proof -
  have t: "v = NullV \<or> tag_of (vtype v) = tag_of (col_type col)"
    using validate_value_family[OF assms] same_family_tag by blast
  show "from_key (to_key_col v (col_type col)) (col_type col) = key_view (col_type col) v"
    using t by (rule from_key_to_key)
  show "is_valid_key (to_key_col v (col_type col)) (col_type col)"
  proof (cases "v = NullV")
    case True
    then show ?thesis by (simp add: is_valid_key_def)
  next
    case False
    then have "tag_of (col_type col) \<noteq> kTagNull" using t by (cases v) (auto simp: tag_defs)
    then show ?thesis using t by (auto simp: is_valid_key_iff)
  qed
qed

definition field_fits :: "ColumnDef \<Rightarrow> Value \<Rightarrow> bool" where
  "field_fits col v \<longleftrightarrow> validate_value col v = SE_OK \<and> length (to_key_col v (col_type col)) < 2 ^ 32"

lemma read_put_field:
  assumes "field_fits col v" "reader_at r (put_str (to_key_col v (col_type col)) [] @ bs)"
  shows "\<exists>r'. read_field col r = Inr (key_view (col_type col) v, r') \<and> reader_at r' bs"
proof -
  have v: "validate_value col v = SE_OK" "length (to_key_col v (col_type col)) < 2 ^ 32"
    using assms(1) by (auto simp: field_fits_def)
  obtain r' where "get_str r = (to_key_col v (col_type col), r')" "reader_at r' bs"
    using get_str_at[OF assms(2) v(2)] by blast
  then show ?thesis
    using valid_key_of_validated[OF v(1)] validate_key_view[OF v(1)]
    by (simp add: read_field_def reader_at_ok)
qed

interpretation row_codec: field_codec
  "\<lambda>col v. put_str (to_key_col v (col_type col)) []" read_field field_fits "\<lambda>col. key_view (col_type col)"
  by unfold_locales (rule read_put_field)

lemma fold_put_str: "fold (\<lambda>i w. put_str (f i) w) xs w = w @ concat (map (\<lambda>i. put_str (f i) []) xs)"
proof (induction xs arbitrary: w)
  case (Cons x xs)
  then show ?case using put_append(3)[of "f x" w] by simp
qed simp

lemma serialize_row_schema_bytes:
  assumes "length row = length (ts_columns s)"
  shows "serialize_row_schema s row = row_format_version # be_bytes 4 (of_nat (length row) :: uint32) @
    concat (map2 (\<lambda>col v. put_str (to_key_col v (col_type col)) []) (ts_columns s) row) @ []"
proof -
  have "map (\<lambda>i. put_str (to_key_col (row ! i) (field_type_at s row i)) []) [0..<length row] =
      map2 (\<lambda>col v. put_str (to_key_col v (col_type col)) []) (ts_columns s) row"
    using assms by (intro nth_equalityI) (simp_all add: field_type_at_def)
  then show ?thesis
    by (simp add: serialize_row_schema_def Let_def fold_put_str put_u8_def put_u32_def)
qed

lemma deserialize_serialize_row:
  assumes valid: "validate_row s row = SE_OK" and n: "length row < 2 ^ 32"
    and len: "\<forall>v \<in> set row. \<forall>c \<in> set (ts_columns s). length (to_key_col v (col_type c)) < 2 ^ 32"
  shows "deserialize_row (serialize_row_schema s row) s =
    Inr (map2 (\<lambda>c. key_view (col_type c)) (ts_columns s) row)"
proof -
  have fits: "list_all2 field_fits (ts_columns s) row"
    using valid len unfolding validate_row_iff list_all2_conv_all_nth field_fits_def by auto
  then have eq: "length row = length (ts_columns s)" by (simp add: list_all2_lengthD)
  note ser = serialize_row_schema_bytes[OF eq]
  obtain r1 where r1: "get_u8 (byte_reader (serialize_row_schema s row)) = (row_format_version, r1)"
    "reader_at r1 (be_bytes 4 (of_nat (length row) :: uint32) @
      concat (map2 (\<lambda>col v. put_str (to_key_col v (col_type col)) []) (ts_columns s) row) @ [])"
    using get_u8_at[OF reader_at_start] unfolding ser by blast
  obtain r2 where r2: "get_u32 r1 = (of_nat (length row), r2)"
    "reader_at r2 (concat (map2 (\<lambda>col v. put_str (to_key_col v (col_type col)) []) (ts_columns s) row) @ [])"
    using get_u32_at[OF r1(2)] by blast
  obtain r3 where r3: "read_each (map read_field (ts_columns s)) r2 =
      Inr (map2 (\<lambda>c. key_view (col_type c)) (ts_columns s) row, r3)" "reader_at r3 []"
    using row_codec.read_each_put[OF fits r2(2)] by blast
  have "unat (of_nat (length row) :: uint32) = length row"
    using n by (simp add: unsigned_of_nat take_bit_nat_eq_self)
  then show ?thesis
    using eq r1 r2 r3 by (simp add: deserialize_row_def reader_at_ok reader_at_eof)
qed

section \<open>Row builder lemmas\<close>

lemma rb_find_set: "rb_find (rb_set c v b) c' = (if id_eq c c' then Some v else rb_find b c')"
  by (induction b) (auto simp: id_eq_def)

lemma rb_collect_eq:
  "rb_collect b cols =
    (if \<forall>c \<in> set cols. rb_find b (col_name c) = None \<longrightarrow> col_nullable c
     then Inr (map (\<lambda>c. rb_get b (col_name c)) cols) else Inl INVALID_ROW)"
  by (induction cols) (auto simp: rb_get_def split: option.splits)

section \<open>Properties\<close>

text \<open>
  C8: a row that passes validation survives the disk format. Serialising it with its schema and
  deserialising the bytes gives a row that is equal value by value and that again passes validation.
  The length bounds say that counts and encoded fields fit the 32-bit length prefixes.
\<close>

theorem row_format_roundtrip:
  assumes "validate_row s row = SE_OK" and "length row < 2 ^ 32"
    and "\<forall>v \<in> set row. \<forall>c \<in> set (ts_columns s). length (to_key_col v (col_type c)) < 2 ^ 32"
  shows "\<exists>row'. deserialize_row (serialize_row_schema s row) s = Inr row' \<and> row_eq row' row \<and>
    validate_row s row' = SE_OK"
proof -
  have all: "list_all2 (\<lambda>c v. validate_value c v = SE_OK) (ts_columns s) row"
    using assms(1) by (simp add: validate_row_iff)
  have eq: "value_eq (key_view (col_type c) v) v" if "validate_value c v = SE_OK" for c v
    using validate_value_family[OF that] key_view_eq[of "col_type c" v] by (cases "v = NullV") auto
  have "row_eq (map2 (\<lambda>c. key_view (col_type c)) (ts_columns s) row) row"
    using all eq by (simp add: row_eq_def list_all2_conv_all_nth)
  moreover have "validate_row s (map2 (\<lambda>c. key_view (col_type c)) (ts_columns s) row) = SE_OK"
    using all validate_key_view by (simp add: validate_row_iff list_all2_conv_all_nth)
  ultimately show ?thesis using deserialize_serialize_row[OF assms] by blast
qed

theorem row_format_roundtrip_witness:
  "\<exists>row'. deserialize_row (serialize_row_schema (build_schema (make_identifier (str ''t''))
      [column_def (make_identifier (str ''id'')) INT_TYPE 0 True False]) [IntV K_TINYINT 7])
      (build_schema (make_identifier (str ''t'')) [column_def (make_identifier (str ''id'')) INT_TYPE 0 True False]) =
    Inr row' \<and> row_eq row' [IntV K_TINYINT 7]"
proof -
  let ?s = "build_schema (make_identifier (str ''t'')) [column_def (make_identifier (str ''id'')) INT_TYPE 0 True False]"
  have cols: "ts_columns ?s = [column_def (make_identifier (str ''id'')) INT_TYPE 0 True False]" by (simp add: schema_eval)
  have "validate_row ?s [IntV K_TINYINT 7] = SE_OK"
    unfolding validate_row_iff cols by (simp add: validate_value_simps is_same_family_def column_def_def type_family_defs
        can_represent_def integer_min_def integer_max_def)
  moreover have "length (to_key_col (IntV K_TINYINT 7) t) < 2 ^ 32" for t by simp
  ultimately show ?thesis using row_format_roundtrip[of ?s "[IntV K_TINYINT 7]"] by auto
qed

text \<open>
  C10: what the row builder returns. Setting a column and asking for any spelling of its name gives the
  value. Building succeeds iff every set column exists, every column that is not set is
  nullable, and the resulting row passes validation; the row then has the set values in schema order and
  NULL elsewhere. The errors come in the order unknown column, missing NOT NULL column, validation error.
\<close>

theorem row_builder_correct:
  "rb_find (rb_set c v b) c' = (if id_eq c c' then Some v else rb_find b c') \<and>
   rb_build b s =
    (let row = map (\<lambda>c. rb_get b (col_name c)) (ts_columns s)
     in if list_ex (\<lambda>(name, value). \<not> list_ex (\<lambda>col. id_eq (col_name col) name) (ts_columns s)) b then Inl COLUMN_NOT_FOUND
        else if list_ex (\<lambda>col. \<not> rb_has b (col_name col) \<and> \<not> col_nullable col) (ts_columns s) then Inl INVALID_ROW
        else if validate_row s row \<noteq> SE_OK then Inl (validate_row s row)
        else Inr row)"
proof -
  have "list_ex (\<lambda>(name, value). column s name = None) b \<longleftrightarrow>
      list_ex (\<lambda>(name, value). \<not> list_ex (\<lambda>col. id_eq (col_name col) name) (ts_columns s)) b"
    by (auto simp: list_ex_iff column_find find_None_iff)
  moreover have "(\<forall>col \<in> set (ts_columns s). rb_find b (col_name col) = None \<longrightarrow> col_nullable col) \<longleftrightarrow>
      \<not> list_ex (\<lambda>col. \<not> rb_has b (col_name col) \<and> \<not> col_nullable col) (ts_columns s)"
    by (auto simp: rb_has_def list_ex_iff)
  ultimately show ?thesis by (simp add: rb_find_set rb_build_def rb_collect_eq Let_def)
qed

end
