(* ===== verification/Condition.thy ===== *)
theory Condition imports Sql_Value begin

text \<open>
  Comparison operators (\<^verbatim>\<open>sql_types/compare_op.h\<close>, \<^verbatim>\<open>compare_op.cpp\<close>) and condition trees
  (\<^verbatim>\<open>condition.h\<close>, \<^verbatim>\<open>condition_types.h\<close>). The node classes are the constructors of one datatype; a
  null child pointer, which no caller builds, has no counterpart.
\<close>

section \<open>Operators\<close>

datatype CompareOp = EQ | NE | GT | GE | LT | LE | LIKE | NOT_LIKE | IS_NULL | IS_NOT_NULL | UNKNOWN_OP

datatype COpType =
    OP_EQ | OP_NE | OP_GT | OP_GE | OP_LT | OP_LE | OP_AND | OP_OR | OP_NOT | OP_IN | OP_NOT_IN
  | OP_ASC | OP_DESC | OP_IS_NULL | OP_IS_NOT_NULL | OP_LIKE | OP_UNKNOWN | OP_NOT_LIKE

definition is_range_op :: "CompareOp \<Rightarrow> bool" where
  "is_range_op op \<longleftrightarrow> op = GT \<or> op = GE \<or> op = LT \<or> op = LE"

definition is_equality_op :: "CompareOp \<Rightarrow> bool" where
  "is_equality_op op \<longleftrightarrow> op = EQ \<or> op = NE"

definition is_null_op :: "CompareOp \<Rightarrow> bool" where
  "is_null_op op \<longleftrightarrow> op = IS_NULL \<or> op = IS_NOT_NULL"

definition is_like_op :: "CompareOp \<Rightarrow> bool" where
  "is_like_op op \<longleftrightarrow> op = LIKE \<or> op = NOT_LIKE"

definition require_full_scan :: "CompareOp \<Rightarrow> bool" where
  "require_full_scan op \<longleftrightarrow> op = LIKE \<or> op = NOT_LIKE \<or> op = IS_NULL \<or> op = IS_NOT_NULL"

fun is_indexable :: "CompareOp \<Rightarrow> bool" where
  "is_indexable EQ = True"
| "is_indexable GT = True"
| "is_indexable GE = True"
| "is_indexable LT = True"
| "is_indexable LE = True"
| "is_indexable _ = False"

fun compare_op_to_string :: "CompareOp \<Rightarrow> bytes" where
  "compare_op_to_string EQ = str ''=''"
| "compare_op_to_string NE = str ''!=''"
| "compare_op_to_string GT = str ''>''"
| "compare_op_to_string GE = str ''>=''"
| "compare_op_to_string LT = str ''<''"
| "compare_op_to_string LE = str ''<=''"
| "compare_op_to_string LIKE = str ''LIKE''"
| "compare_op_to_string NOT_LIKE = str ''NOT LIKE''"
| "compare_op_to_string IS_NULL = str ''IS NULL''"
| "compare_op_to_string IS_NOT_NULL = str ''IS NOT NULL''"
| "compare_op_to_string UNKNOWN_OP = str ''UNKNOWN''"

definition toupper :: "byte \<Rightarrow> byte" where
  "toupper c = (if of_char (CHR ''a'') \<le> c \<and> c \<le> of_char (CHR ''z'') then c - 32 else c)"

definition string_to_compare_op :: "bytes \<Rightarrow> CompareOp" where
  "string_to_compare_op s =
     (if s = str ''='' then EQ
      else if s = str ''!='' \<or> s = str ''<>'' then NE
      else if s = str ''>'' then GT
      else if s = str ''>='' then GE
      else if s = str ''<'' then LT
      else if s = str ''<='' then LE
      else let upper = map toupper s in
        if upper = str ''LIKE'' then LIKE
        else if upper = str ''NOT LIKE'' then NOT_LIKE
        else if upper = str ''IS NULL'' then IS_NULL
        else if upper = str ''IS NOT NULL'' then IS_NOT_NULL
        else UNKNOWN_OP)"

fun flip_compare_op :: "CompareOp \<Rightarrow> CompareOp" where
  "flip_compare_op EQ = NE"
| "flip_compare_op NE = EQ"
| "flip_compare_op GT = LE"
| "flip_compare_op GE = LT"
| "flip_compare_op LT = GE"
| "flip_compare_op LE = GT"
| "flip_compare_op LIKE = NOT_LIKE"
| "flip_compare_op NOT_LIKE = LIKE"
| "flip_compare_op IS_NULL = IS_NOT_NULL"
| "flip_compare_op IS_NOT_NULL = IS_NULL"
| "flip_compare_op UNKNOWN_OP = UNKNOWN_OP"

fun op_to_c :: "CompareOp \<Rightarrow> COpType" where
  "op_to_c EQ = OP_EQ"
| "op_to_c NE = OP_NE"
| "op_to_c GT = OP_GT"
| "op_to_c GE = OP_GE"
| "op_to_c LT = OP_LT"
| "op_to_c LE = OP_LE"
| "op_to_c LIKE = OP_LIKE"
| "op_to_c NOT_LIKE = OP_NOT_LIKE"
| "op_to_c IS_NULL = OP_IS_NULL"
| "op_to_c IS_NOT_NULL = OP_IS_NOT_NULL"
| "op_to_c UNKNOWN_OP = OP_UNKNOWN"

fun op_from_c :: "COpType \<Rightarrow> CompareOp" where
  "op_from_c OP_EQ = EQ"
| "op_from_c OP_NE = NE"
| "op_from_c OP_GT = GT"
| "op_from_c OP_GE = GE"
| "op_from_c OP_LT = LT"
| "op_from_c OP_LE = LE"
| "op_from_c OP_LIKE = LIKE"
| "op_from_c OP_NOT_LIKE = NOT_LIKE"
| "op_from_c OP_IS_NULL = IS_NULL"
| "op_from_c OP_IS_NOT_NULL = IS_NOT_NULL"
| "op_from_c _ = UNKNOWN_OP"

section \<open>Condition trees\<close>

datatype Condition =
    Compare Identifier CompareOp Value
  | InCond Identifier bool "Value list"
  | AndCond Condition Condition
  | OrCond Condition Condition
  | NotCond Condition

fun child_count :: "Condition \<Rightarrow> nat" where
  "child_count (AndCond _ _) = 2"
| "child_count (OrCond _ _) = 2"
| "child_count (NotCond _) = 1"
| "child_count _ = 0"

fun child_at :: "Condition \<Rightarrow> nat \<Rightarrow> Condition option" where
  "child_at (AndCond l r) i = (if i = 0 then Some l else if i = 1 then Some r else None)"
| "child_at (OrCond l r) i = (if i = 0 then Some l else if i = 1 then Some r else None)"
| "child_at (NotCond c) i = (if i = 0 then Some c else None)"
| "child_at _ i = None"

definition is_leaf :: "Condition \<Rightarrow> bool" where
  "is_leaf c \<longleftrightarrow> (case c of Compare _ _ _ \<Rightarrow> True | InCond _ _ _ \<Rightarrow> True | _ \<Rightarrow> False)"

definition in_contains :: "Value list \<Rightarrow> Value \<Rightarrow> bool" where
  "in_contains values v \<longleftrightarrow> list_ex (\<lambda>w. value_eq w v) values"

fun join_comma :: "bytes list \<Rightarrow> bytes" where
  "join_comma [] = []"
| "join_comma [x] = x"
| "join_comma (x # y # xs) = x @ str '', '' @ join_comma (y # xs)"

fun condition_to_string :: "Condition \<Rightarrow> bytes" where
  "condition_to_string (Compare c op v) =
     display_name c @ str '' '' @ compare_op_to_string op @
     (if \<not> is_null_op op then str '' '' @ value_to_string v else [])"
| "condition_to_string (InCond c is_not_in vs) =
     display_name c @ (if is_not_in then str '' NOT IN ('' else str '' IN ('') @
     join_comma (map value_to_string vs) @ str '')''"
| "condition_to_string (AndCond l r) =
     str ''('' @ condition_to_string l @ str '' AND '' @ condition_to_string r @ str '')''"
| "condition_to_string (OrCond l r) =
     str ''('' @ condition_to_string l @ str '' OR '' @ condition_to_string r @ str '')''"
| "condition_to_string (NotCond c) = str ''NOT ('' @ condition_to_string c @ str '')''"

definition make_and_all :: "Condition list \<Rightarrow> Condition option" where
  "make_and_all cs = (case cs of [] \<Rightarrow> None | c # rest \<Rightarrow> Some (foldl AndCond c rest))"

definition make_or_all :: "Condition list \<Rightarrow> Condition option" where
  "make_or_all cs = (case cs of [] \<Rightarrow> None | c # rest \<Rightarrow> Some (foldl OrCond c rest))"

section \<open>Lemmas\<close>

lemma flip_flip [simp]: "flip_compare_op (flip_compare_op op) = op"
  by (cases op) simp_all

lemma op_c_inverse [simp]: "op_from_c (op_to_c op) = op"
  by (cases op) simp_all

lemma string_to_compare_op_inverse [simp]: "string_to_compare_op (compare_op_to_string op) = op"
  by (cases op) (simp_all add: string_to_compare_op_def toupper_def)

text \<open>\<^verbatim>\<open>child_at\<close> is defined exactly below \<^verbatim>\<open>child_count\<close>, as the visitors' loops assume.\<close>

lemma child_at_defined: "child_at c i \<noteq> None \<longleftrightarrow> i < child_count c"
  by (cases c) auto

end
