(* ===== verification/Sql_Truth.thy ===== *)
theory Sql_Truth imports Condition Key_Codec begin

text \<open>
  SQL's three-valued logic (\<^verbatim>\<open>sql_types/sql_truth.h\<close>): the truth values, LIKE matching, ordering of
  values with type promotion, comparison predicates and the evaluation of condition trees.

  The lemmas show that the loop of \<open>like_match\<close> decides the declarative meaning of a pattern, that
  the SQL order is antisymmetric and agrees with the key order inside a column, that flipping an
  operator negates its truth value, and that evaluation with early exits is Kleene's logic.
\<close>

section \<open>Truth values\<close>

datatype Truth = T_FALSE | T_TRUE | T_UNKNOWN

fun truth_to_string :: "Truth \<Rightarrow> bytes" where
  "truth_to_string T_TRUE = str ''TRUE''"
| "truth_to_string T_FALSE = str ''FALSE''"
| "truth_to_string T_UNKNOWN = str ''UNKNOWN''"

definition truth_from_bool :: "bool \<Rightarrow> Truth" where
  "truth_from_bool b = (if b then T_TRUE else T_FALSE)"

fun truth_not :: "Truth \<Rightarrow> Truth" where
  "truth_not T_TRUE = T_FALSE"
| "truth_not T_FALSE = T_TRUE"
| "truth_not T_UNKNOWN = T_UNKNOWN"

definition truth_and :: "Truth \<Rightarrow> Truth \<Rightarrow> Truth" where
  "truth_and a b =
     (if a = T_FALSE \<or> b = T_FALSE then T_FALSE
      else if a = T_UNKNOWN \<or> b = T_UNKNOWN then T_UNKNOWN
      else T_TRUE)"

definition truth_or :: "Truth \<Rightarrow> Truth \<Rightarrow> Truth" where
  "truth_or a b =
     (if a = T_TRUE \<or> b = T_TRUE then T_TRUE
      else if a = T_UNKNOWN \<or> b = T_UNKNOWN then T_UNKNOWN
      else T_FALSE)"

definition where_keeps :: "Truth \<Rightarrow> bool" where
  "where_keeps t \<longleftrightarrow> t = T_TRUE"

section \<open>LIKE\<close>

abbreviation pct :: byte where "pct \<equiv> of_char (CHR ''%'')"
abbreviation underscore :: byte where "underscore \<equiv> of_char (CHR ''_'')"
abbreviation backslash :: byte where "backslash \<equiv> 0x5C"

function like_match :: "bytes \<Rightarrow> bytes \<Rightarrow> bool" where
  "like_match text [] \<longleftrightarrow> text = []"
| "like_match text (pc # ps) \<longleftrightarrow>
     (if pc = backslash \<and> ps \<noteq> [] then
        (case text of [] \<Rightarrow> False | c # cs \<Rightarrow> if c \<noteq> hd ps then False else like_match cs (tl ps))
      else if pc = pct then
        (let rest = dropWhile (\<lambda>c. c = pct) ps
         in if rest = [] then True
            else list_ex (\<lambda>k. like_match (drop k text) rest) [0..<length text + 1])
      else if pc = underscore then
        (case text of [] \<Rightarrow> False | c # cs \<Rightarrow> like_match cs ps)
      else
        (case text of [] \<Rightarrow> False | c # cs \<Rightarrow> if c \<noteq> pc then False else like_match cs ps))"
  by pat_completeness auto
termination
proof (relation "measure (\<lambda>(t, p). length p)", goal_cases)
  case (3 s pc ps rest k)
  then show ?case using length_dropWhile_le[of "\<lambda>c. c = pct" ps] by simp
qed auto

section \<open>Ordering\<close>

fun int64_of :: "Value \<Rightarrow> int64 option" where
  "int64_of (BoolV b) = Some (if b then 1 else 0)"
| "int64_of (IntV k i) = (if is_integer (int_type k) then Some i else None)"
| "int64_of _ = None"

text \<open>The product wraps as a 64-bit multiplication does.\<close>

fun temporal_seconds :: "Value \<Rightarrow> int64 option" where
  "temporal_seconds (IntV K_DATE i) = Some (i * word_of_int kSecondsPerDay)"
| "temporal_seconds (IntV K_TIME i) = Some i"
| "temporal_seconds (IntV K_DATETIME i) = Some i"
| "temporal_seconds _ = None"

definition parse_temporal :: "DataType \<Rightarrow> bytes \<Rightarrow> int64 option" where
  "parse_temporal t text =
     (if t = DATE then map_option word_of_int (parse_date text)
      else if t = TIME then map_option word_of_int (parse_time text)
      else if t = DATETIME then map_option word_of_int (parse_datetime text)
      else None)"

definition cmp_int64 :: "int64 \<Rightarrow> int64 \<Rightarrow> int" where
  "cmp_int64 a b = (if a = b then 0 else if sint a < sint b then -1 else 1)"

text \<open>The cross-family case: \<open>text\<close> is the string operand, \<open>other\<close> the other one.\<close>

definition order_with_text :: "Value \<Rightarrow> bytes \<Rightarrow> int option" where
  "order_with_text other text =
     (if is_numeric (vtype other) then
        (case parse_int64_strict text of
           None \<Rightarrow> None
         | Some parsed \<Rightarrow>
             (case int64_of other of None \<Rightarrow> None | Some v \<Rightarrow> Some (cmp_int64 v parsed)))
      else if is_temporal (vtype other) then
        (case (parse_temporal (vtype other) text, temporal_seconds other) of
           (Some parsed, Some v) \<Rightarrow>
             (let scaled = (if v_is_date other then parsed * word_of_int kSecondsPerDay else parsed)
              in Some (cmp_int64 v scaled))
         | _ \<Rightarrow> None)
      else None)"

definition sql_order :: "Value \<Rightarrow> Value \<Rightarrow> int option" where
  "sql_order a b =
     (if v_is_null a \<or> v_is_null b then None
      else let common = common_type (vtype a) (vtype b) in
        if is_integer common \<or> is_boolean common then
          (case (int64_of a, int64_of b) of (Some l, Some r) \<Rightarrow> Some (cmp_int64 l r) | _ \<Rightarrow> None)
        else if is_string common then
          (let l = get_str_view a; r = get_str_view b
           in Some (if l = r then 0 else if l < r then -1 else 1))
        else if is_temporal common then
          (case (temporal_seconds a, temporal_seconds b) of (Some l, Some r) \<Rightarrow> Some (cmp_int64 l r) | _ \<Rightarrow> None)
        else if v_is_string a \<noteq> v_is_string b then
          (if v_is_string a
           then map_option uminus (order_with_text b (get_str_view a))
           else order_with_text a (get_str_view b))
        else None)"

definition sql_compare_op :: "CompareOp \<Rightarrow> Value \<Rightarrow> Value \<Rightarrow> Truth" where
  "sql_compare_op op a b =
     (case op of
        IS_NULL \<Rightarrow> truth_from_bool (v_is_null a)
      | IS_NOT_NULL \<Rightarrow> truth_from_bool (\<not> v_is_null a)
      | _ \<Rightarrow>
        if op = LIKE \<or> op = NOT_LIKE then
          (if v_is_null a \<or> v_is_null b \<or> \<not> v_is_string a \<or> \<not> v_is_string b then T_UNKNOWN
           else let matched = like_match (get_str_view a) (get_str_view b)
                in truth_from_bool (if op = LIKE then matched else \<not> matched))
        else
          (case sql_order a b of
             None \<Rightarrow> T_UNKNOWN
           | Some order \<Rightarrow>
               (case op of
                  EQ \<Rightarrow> truth_from_bool (order = 0)
                | NE \<Rightarrow> truth_from_bool (order \<noteq> 0)
                | GT \<Rightarrow> truth_from_bool (order > 0)
                | GE \<Rightarrow> truth_from_bool (order \<ge> 0)
                | LT \<Rightarrow> truth_from_bool (order < 0)
                | LE \<Rightarrow> truth_from_bool (order \<le> 0)
                | _ \<Rightarrow> T_UNKNOWN)))"

definition sql_equal :: "Value \<Rightarrow> Value \<Rightarrow> Truth" where
  "sql_equal a b = sql_compare_op EQ a b"

definition sql_not_equal :: "Value \<Rightarrow> Value \<Rightarrow> Truth" where
  "sql_not_equal a b = sql_compare_op NE a b"

definition sql_less :: "Value \<Rightarrow> Value \<Rightarrow> Truth" where
  "sql_less a b = sql_compare_op LT a b"

definition sql_equal_null_safe :: "Value \<Rightarrow> Value \<Rightarrow> Truth" where
  "sql_equal_null_safe a b =
     (if v_is_null a \<or> v_is_null b then truth_from_bool (v_is_null a \<and> v_is_null b) else sql_equal a b)"

section \<open>Evaluation of conditions\<close>

type_synonym ValueLookup = "Identifier \<Rightarrow> Value option"

fun evaluate :: "ValueLookup \<Rightarrow> Condition \<Rightarrow> Truth" where
  "evaluate lookup (Compare column op value) =
     (case lookup column of None \<Rightarrow> T_UNKNOWN | Some lhs \<Rightarrow> sql_compare_op op lhs value)"
| "evaluate lookup (InCond column is_not_in values) =
     (case lookup column of
        None \<Rightarrow> T_UNKNOWN
      | Some lhs \<Rightarrow>
          (let acc = foldl (\<lambda>acc candidate. truth_or acc (sql_compare_op EQ lhs candidate)) T_FALSE values
           in if is_not_in then truth_not acc else acc))"
| "evaluate lookup (AndCond l r) =
     (let acc = truth_and T_TRUE (evaluate lookup l)
      in if acc = T_FALSE then acc else truth_and acc (evaluate lookup r))"
| "evaluate lookup (OrCond l r) =
     (let acc = truth_or T_FALSE (evaluate lookup l)
      in if acc = T_TRUE then acc else truth_or acc (evaluate lookup r))"
| "evaluate lookup (NotCond c) = truth_not (evaluate lookup c)"

section \<open>The meaning of a LIKE pattern\<close>

datatype like_token = Lit byte | AnyOne | AnySeq

fun like_tokens :: "bytes \<Rightarrow> like_token list" where
  "like_tokens [] = []"
| "like_tokens [pc] = [if pc = pct then AnySeq else if pc = underscore then AnyOne else Lit pc]"
| "like_tokens (pc # p # ps) =
     (if pc = backslash then Lit p # like_tokens ps
      else (if pc = pct then AnySeq else if pc = underscore then AnyOne else Lit pc) # like_tokens (p # ps))"

fun matches :: "like_token list \<Rightarrow> bytes \<Rightarrow> bool" where
  "matches [] t \<longleftrightarrow> t = []"
| "matches (Lit c # ts) t \<longleftrightarrow> (\<exists>u. t = c # u \<and> matches ts u)"
| "matches (AnyOne # ts) t \<longleftrightarrow> (\<exists>c u. t = c # u \<and> matches ts u)"
| "matches (AnySeq # ts) t \<longleftrightarrow> (\<exists>u v. t = u @ v \<and> matches ts v)"

lemma like_tokens_Cons:
  "pc \<noteq> backslash \<or> ps = [] \<Longrightarrow>
    like_tokens (pc # ps) = (if pc = pct then AnySeq else if pc = underscore then AnyOne else Lit pc) # like_tokens ps"
  by (cases ps) auto

lemma like_tokens_escape: "ps \<noteq> [] \<Longrightarrow> like_tokens (backslash # ps) = Lit (hd ps) # like_tokens (tl ps)"
  by (cases ps) auto

lemma matches_AnySeq_twice: "matches (AnySeq # AnySeq # ts) t \<longleftrightarrow> matches (AnySeq # ts) t"
  by (simp del: ex_simps) (metis append_assoc append_Nil)

lemma matches_drop_pct:
  "matches (AnySeq # like_tokens ps) t \<longleftrightarrow> matches (AnySeq # like_tokens (dropWhile (\<lambda>c. c = pct) ps)) t"
proof (induction ps)
  case (Cons p ps)
  show ?case
  proof (cases "p = pct")
    case True
    then have "like_tokens (p # ps) = AnySeq # like_tokens ps" by (simp add: like_tokens_Cons)
    then show ?thesis using True Cons matches_AnySeq_twice by simp
  qed simp
qed simp

lemma ex_append_drop: "(\<exists>u v. t = u @ v \<and> P v) \<longleftrightarrow> (\<exists>k \<in> set [0..<length t + 1]. P (drop k t))"
proof
  assume "\<exists>u v. t = u @ v \<and> P v"
  then obtain u v where "t = u @ v" "P v" by blast
  then show "\<exists>k \<in> set [0..<length t + 1]. P (drop k t)" by (intro bexI[of _ "length u"]) auto
next
  assume "\<exists>k \<in> set [0..<length t + 1]. P (drop k t)"
  then show "\<exists>u v. t = u @ v \<and> P v" by (metis append_take_drop_id)
qed

lemma like_match_matches: "like_match t p \<longleftrightarrow> matches (like_tokens p) t"
proof (induction t p rule: like_match.induct)
  case (2 t pc ps)
  show ?case
  proof (cases "pc = backslash \<and> ps \<noteq> []")
    case True
    then show ?thesis using 2(1)[OF True] by (cases t) (auto simp: like_tokens_escape)
  next
    case esc: False
    then have tok: "like_tokens (pc # ps) =
        (if pc = pct then AnySeq else if pc = underscore then AnyOne else Lit pc) # like_tokens ps"
      by (intro like_tokens_Cons) auto
    show ?thesis
    proof (cases "pc = pct")
      case True
      let ?rest = "dropWhile (\<lambda>c. c = pct) ps"
      have m: "matches (like_tokens (pc # ps)) t \<longleftrightarrow> (\<exists>k \<in> set [0..<length t + 1]. matches (like_tokens ?rest) (drop k t))"
        using tok True matches_drop_pct[of ps t] by (simp only: if_True matches.simps ex_append_drop simp_thms)
      show ?thesis
      proof (cases "?rest = []")
        case True
        have "\<exists>k \<in> set [0..<length t + 1]. matches (like_tokens ?rest) (drop k t)"
          unfolding True by (intro bexI[of _ "length t"]) simp_all
        moreover have "like_match t (pc # ps)" using \<open>pc = pct\<close> True by simp
        ultimately show ?thesis using m by simp
      next
        case False
        then have "like_match (drop k t) ?rest \<longleftrightarrow> matches (like_tokens ?rest) (drop k t)"
          if "k \<in> set [0..<length t + 1]" for k
          using 2(2)[OF esc True refl False that] by simp
        moreover have "like_match t (pc # ps) = list_ex (\<lambda>k. like_match (drop k t) ?rest) [0..<length t + 1]"
          using True False by (simp del: dropWhile_eq_Nil_conv add: Let_def)
        ultimately show ?thesis using m unfolding list_ex_iff by blast
      qed
    next
      case False
      then show ?thesis using esc tok 2(3,4) by (cases t) auto
    qed
  qed
qed simp

section \<open>Laws of the order and the predicates\<close>

lemma cmp_int64_swap: "cmp_int64 b a = - cmp_int64 a b"
  using sint_inject[of a b] by (auto simp: cmp_int64_def)

abbreviation pair_order :: "int64 option \<Rightarrow> int64 option \<Rightarrow> int option" where
  "pair_order x y \<equiv> (case (x, y) of (Some l, Some r) \<Rightarrow> Some (cmp_int64 l r) | _ \<Rightarrow> None)"

lemma pair_order_swap: "pair_order y x = map_option uminus (pair_order x y)"
  by (cases x; cases y; simp; rule cmp_int64_swap)

lemma sql_order_swap: "sql_order b a = map_option uminus (sql_order a b)"
proof -
  have c: "common_type (vtype b) (vtype a) = common_type (vtype a) (vtype b)" by (rule common_type_commute)
  have t: "(if get_str_view b = get_str_view a then 0 else if get_str_view b < get_str_view a then -1 else 1) =
      - (if get_str_view a = get_str_view b then 0 else if get_str_view a < get_str_view b then -1 else (1 :: int))"
    by auto
  show ?thesis
    unfolding sql_order_def c Let_def t pair_order_swap[of "int64_of b" "int64_of a"]
      pair_order_swap[of "temporal_seconds b" "temporal_seconds a"]
    by (simp add: option.map_comp comp_def option.map_ident)
qed

lemma truth_not_from_bool [simp]: "truth_not (truth_from_bool b) = truth_from_bool (\<not> b)"
  by (simp add: truth_from_bool_def)

lemma flip_negates: "sql_compare_op (flip_compare_op op) a b = truth_not (sql_compare_op op a b)"
  by (cases op) (auto simp: sql_compare_op_def Let_def not_less not_le split: option.split)

lemma evaluate_connectives [simp]:
  "evaluate lookup (AndCond l r) = truth_and (evaluate lookup l) (evaluate lookup r)"
  "evaluate lookup (OrCond l r) = truth_or (evaluate lookup l) (evaluate lookup r)"
  by (auto simp: truth_and_def truth_or_def Let_def)

lemma foldl_truth_or: "foldl (\<lambda>acc x. truth_or acc (f x)) acc xs = truth_or acc (foldl (\<lambda>acc x. truth_or acc (f x)) T_FALSE xs)"
proof (induction xs arbitrary: acc)
  case Nil
  then show ?case by (cases acc) (simp_all add: truth_or_def)
next
  case (Cons x xs)
  have assoc: "truth_or (truth_or a b) c = truth_or a (truth_or b c)" for a b c
    by (cases a; cases b; cases c) (simp_all add: truth_or_def)
  have f: "truth_or T_FALSE y = y" for y by (cases y) (simp_all add: truth_or_def)
  show ?case using Cons[of "truth_or acc (f x)"] Cons[of "truth_or T_FALSE (f x)"] by (simp add: assoc f)
qed

text \<open>The reference semantics: Kleene's strong three-valued connectives, by minimum and maximum.\<close>

fun truth_rank :: "Truth \<Rightarrow> int" where
  "truth_rank T_FALSE = -1"
| "truth_rank T_UNKNOWN = 0"
| "truth_rank T_TRUE = 1"

lemma truth_rank_inj: "truth_rank a = truth_rank b \<Longrightarrow> a = b"
  by (cases a; cases b) simp_all

lemma truth_rank_ops:
  "truth_rank (truth_and a b) = min (truth_rank a) (truth_rank b)"
  "truth_rank (truth_or a b) = max (truth_rank a) (truth_rank b)"
  "truth_rank (truth_not a) = - truth_rank a"
  by (cases a; cases b; simp add: truth_and_def truth_or_def)+

lemma in_rank:
  "truth_rank (foldl (\<lambda>acc x. truth_or acc (f x)) acc xs) = fold max (map (truth_rank \<circ> f) xs) (truth_rank acc)"
  by (induction xs arbitrary: acc) (simp_all add: truth_rank_ops max.commute)

fun kleene :: "ValueLookup \<Rightarrow> Condition \<Rightarrow> int" where
  "kleene lookup (Compare c op v) =
     (case lookup c of None \<Rightarrow> 0 | Some x \<Rightarrow> truth_rank (sql_compare_op op x v))"
| "kleene lookup (InCond c neg vs) =
     (case lookup c of
        None \<Rightarrow> 0
      | Some x \<Rightarrow> (if neg then uminus else id) (fold max (map (\<lambda>v. truth_rank (sql_equal x v)) vs) (-1)))"
| "kleene lookup (AndCond l r) = min (kleene lookup l) (kleene lookup r)"
| "kleene lookup (OrCond l r) = max (kleene lookup l) (kleene lookup r)"
| "kleene lookup (NotCond c) = - kleene lookup c"

lemma evaluate_kleene: "truth_rank (evaluate lookup c) = kleene lookup c"
proof (induction c)
  case (InCond c neg vs)
  then show ?case
    by (cases "lookup c") (simp_all add: in_rank comp_def sql_equal_def truth_rank_ops Let_def)
qed (simp_all add: truth_rank_ops split: option.split del: evaluate.simps(3,4))

section \<open>The SQL order inside a column\<close>

text \<open>A non-NULL value of the family of type \<open>t\<close>, of exactly that type if \<open>t\<close> is temporal, and a date within bounds.\<close>

definition column_value :: "DataType \<Rightarrow> Value \<Rightarrow> bool" where
  "column_value t v \<longleftrightarrow>
     v \<noteq> NullV \<and> is_same_family t (vtype v) \<and> (is_temporal t \<longrightarrow> vtype v = t) \<and>
     (vtype v = DATE \<longrightarrow> kDateMinDays \<le> sint (get_int 0 v) \<and> sint (get_int 0 v) \<le> kDateMaxDays)"

lemma sint_date_seconds:
  assumes "kDateMinDays \<le> sint i" "sint i \<le> kDateMaxDays"
  shows "sint (i * word_of_int kSecondsPerDay :: int64) = sint i * 86400"
proof -
  have "sint (i * word_of_int kSecondsPerDay :: int64) = signed_take_bit 63 (sint i * 86400)"
    by (simp add: sint_word_ariths kSecondsPerDay_def)
  also have "\<dots> = sint i * 86400"
    using assms by (intro signed_take_bit_int_eq_self) (simp_all add: temporal_bounds)
  finally show ?thesis .
qed

lemma cmp_int64_date:
  assumes "kDateMinDays \<le> sint i" "sint i \<le> kDateMaxDays" "kDateMinDays \<le> sint j" "sint j \<le> kDateMaxDays"
  shows "cmp_int64 (i * word_of_int kSecondsPerDay) (j * word_of_int kSecondsPerDay) = cmp_int64 i j"
  using sint_date_seconds[OF assms(1,2)] sint_date_seconds[OF assms(3,4)]
    sint_inject[of i j] sint_inject[of "i * word_of_int kSecondsPerDay" "j * word_of_int kSecondsPerDay"]
  by (simp add: cmp_int64_def)

lemma compare_values_int: "compare_values (IntV k i) (IntV l j) = cmp_int64 i j"
  by (simp add: compare_values_def compare_keys_def cmp_int64_def be_bytes_less_iff int64_to_ordered_less_iff)

lemma sql_order_int:
  "\<not> is_temporal (int_type k) \<Longrightarrow> \<not> is_temporal (int_type l) \<Longrightarrow> sql_order (IntV k i) (IntV l j) = Some (cmp_int64 i j)"
  by (cases k; cases l; simp add: sql_order_def common_type_def type_family_defs)

lemma sql_order_str: "sql_order (StrV k x) (StrV l y) = Some (if x = y then 0 else if x < y then -1 else 1)"
  by (cases k; cases l; simp add: sql_order_def common_type_def type_family_defs get_str_view_def)

lemma sql_order_bool: "sql_order (BoolV x) (BoolV y) = Some (cmp_int64 (if x then 1 else 0) (if y then 1 else 0))"
  by (simp add: sql_order_def common_type_def type_family_defs)

lemma sql_order_temporal:
  "is_temporal (int_type k) \<Longrightarrow> sql_order (IntV k i) (IntV k j) = Some (if k = K_DATE
     then cmp_int64 (i * word_of_int kSecondsPerDay) (j * word_of_int kSecondsPerDay) else cmp_int64 i j)"
  by (cases k; simp add: sql_order_def common_type_def type_family_defs)

lemma int_type_inj: "int_type k = int_type l \<longleftrightarrow> k = l"
  by (metis int_kind_of_int_type option.inject)

lemma sql_order_column:
  assumes "column_value t a" "column_value t b"
  shows "sql_order a b = Some (compare_values a b)"
proof -
  note cv = assms[unfolded column_value_def]
  consider k i l j where "a = IntV k i" "b = IntV l j" | k x l y where "a = StrV k x" "b = StrV l y"
    | x y where "a = BoolV x" "b = BoolV y"
    using cv by (cases a; cases b) (auto simp: same_family_kinds type_family_defs)
  then show ?thesis
  proof cases
    case 1
    show ?thesis
    proof (cases "is_temporal t")
      case True
      then have "k = l" "is_temporal (int_type k)" using cv 1 int_type_inj by auto
      moreover have "k = K_DATE \<Longrightarrow> cmp_int64 (i * word_of_int kSecondsPerDay) (j * word_of_int kSecondsPerDay) = cmp_int64 i j"
        using cv 1 \<open>k = l\<close> by (intro cmp_int64_date) (simp_all add: get_int_def)
      ultimately show ?thesis using 1 by (simp add: sql_order_temporal compare_values_int)
    next
      case False
      then have "\<not> is_temporal (int_type k)" "\<not> is_temporal (int_type l)" using cv 1 by (auto simp: same_family_kinds)
      then show ?thesis using 1 by (simp add: sql_order_int compare_values_int)
    qed
  next
    case 2
    then show ?thesis
      by (simp add: sql_order_str compare_values_def compare_keys_def encode_string_less_iff)
  next
    case 3
    then show ?thesis by (simp add: sql_order_bool compare_values_def compare_keys_def cmp_int64_def)
  qed
qed

section \<open>Properties\<close>

text \<open>
  C4: \<^verbatim>\<open>like_match\<close> decides the declarative meaning of LIKE patterns. A pattern is a sequence of literal
  bytes (a backslash quotes the next byte; a trailing backslash stands for itself), of any-byte marks
  and of any-sequence marks; the text matches iff it can be split accordingly. The recursive search
  always terminates.
\<close>

theorem like_match_correct: "like_match text pattern \<longleftrightarrow> matches (like_tokens pattern) text"
  by (rule like_match_matches)

text \<open>
  C3: evaluating a condition tree, with its early exits on FALSE and TRUE, computes Kleene's strong
  three-valued semantics: AND is the minimum, OR the maximum, NOT the negation of the ranks -1, 0, 1;
  IN is the maximum over its candidates. WHERE keeps a row iff the rank is 1.
\<close>

theorem evaluate_is_kleene:
  "truth_rank (evaluate lookup c) = kleene lookup c \<and> (where_keeps (evaluate lookup c) \<longleftrightarrow> kleene lookup c = 1)"
  using evaluate_kleene[of lookup c] truth_rank_inj[of "evaluate lookup c" T_TRUE] by (auto simp: where_keeps_def)

text \<open>
  Flipping a comparison operator negates its truth value, with UNKNOWN negated to UNKNOWN, for
  every operator and all operands, NULL and operands of different families included; and the SQL
  order is antisymmetric, UNKNOWN in one direction iff in the other.
\<close>

theorem flip_and_swap_laws:
  "sql_compare_op (flip_compare_op op) a b = truth_not (sql_compare_op op a b) \<and>
   sql_order b a = map_option uminus (sql_order a b)"
  by (simp add: flip_negates sql_order_swap[of b a])

text \<open>
  Inside a column the SQL order is the key order. For two non-NULL values of the family of a
  column type (of exactly that type if it is temporal, with dates within bounds), the SQL comparison
  gives the result of comparing their storage keys byte by byte.
\<close>

theorem sql_order_is_key_order:
  assumes "column_value t a" and "column_value t b"
  shows "sql_order a b = Some (compare_values a b)"
  using assms by (rule sql_order_column)

theorem sql_order_is_key_order_witness:
  "sql_order (IntV K_DATE (-1)) (IntV K_DATE 5) = Some (compare_values (IntV K_DATE (-1)) (IntV K_DATE 5))"
  by (rule sql_order_is_key_order[of DATE])
    (simp_all add: column_value_def is_same_family_def get_int_def temporal_bounds)

end
