(* ===== verification/Key_Range.thy ===== *)
theory Key_Range imports Key_Codec begin

text \<open>
  Ranges of keys (\<^verbatim>\<open>sql_types/key_range.h\<close>): intervals given by optional boundary values with
  open/closed flags, compared through their encoded keys, and their flattening to half-open physical
  intervals.

  The semantics of a range is the set of values of a column's family (NULL included) that
  \<open>contains\<close> accepts. The lemmas give each operation its meaning in these terms: intersection, union,
  difference and complement are the set operations, and the flattened interval contains the key of a
  value iff the range contains the value.
\<close>

section \<open>Representation\<close>

datatype NullScope = NS_INCLUDE | NS_EXCLUDE | NS_ONLY

record StrKeyRange =
  sk_start :: Key
  sk_end :: Key

definition str_range_is_empty :: "StrKeyRange \<Rightarrow> bool" where
  "str_range_is_empty s \<longleftrightarrow> \<not> sk_start s < sk_end s"

record KeyRange =
  kr_type :: DataType
  kr_low :: "Value option"
  kr_high :: "Value option"
  kr_low_exclusive :: bool
  kr_high_inclusive :: bool

definition range_all :: "DataType \<Rightarrow> KeyRange" where
  "range_all t = \<lparr> kr_type = t, kr_low = None, kr_high = None, kr_low_exclusive = False, kr_high_inclusive = False \<rparr>"

definition normalize :: "KeyRange \<Rightarrow> KeyRange" where
  "normalize r = (if kr_low r = Some NullV \<and> \<not> kr_low_exclusive r then r\<lparr>kr_low := None\<rparr> else r)"

definition merge_type :: "DataType \<Rightarrow> DataType \<Rightarrow> DataType" where
  "merge_type a b = (if a \<noteq> UNKNOWN_TYPE then a else b)"

section \<open>Factories\<close>

definition range_non_null :: "DataType \<Rightarrow> KeyRange" where
  "range_non_null t = (range_all t)\<lparr>kr_low := Some NullV, kr_low_exclusive := True\<rparr>"

definition range_null_only :: "DataType \<Rightarrow> KeyRange" where
  "range_null_only t = normalize ((range_all t)\<lparr>kr_high := Some NullV, kr_high_inclusive := True\<rparr>)"

definition range_empty :: "DataType \<Rightarrow> KeyRange" where
  "range_empty t =
     (range_all t)\<lparr>kr_low := Some NullV, kr_high := Some NullV, kr_low_exclusive := True, kr_high_inclusive := False\<rparr>"

definition range_from :: "Value \<Rightarrow> KeyRange" where
  "range_from start =
     (if \<not> v_is_null start then (range_all UNKNOWN_TYPE)\<lparr>kr_low := Some start, kr_type := vtype start\<rparr>
      else range_all UNKNOWN_TYPE)"

definition range_to :: "Value \<Rightarrow> KeyRange" where
  "range_to v =
     (if v_is_null v then range_empty UNKNOWN_TYPE
      else (range_all UNKNOWN_TYPE)\<lparr>kr_high := Some v, kr_type := vtype v\<rparr>)"

definition range_closed :: "Value \<Rightarrow> Value \<Rightarrow> KeyRange" where
  "range_closed low high =
     (if v_is_null low \<or> v_is_null high then range_empty UNKNOWN_TYPE
      else (range_all UNKNOWN_TYPE)\<lparr>kr_low := Some low, kr_high := Some high, kr_high_inclusive := True,
             kr_type := vtype low\<rparr>)"

definition range_point :: "Value \<Rightarrow> KeyRange" where
  "range_point v = (if v_is_null v then range_empty UNKNOWN_TYPE else range_closed v v)"

definition range_range :: "Value \<Rightarrow> Value \<Rightarrow> KeyRange" where
  "range_range start end_v =
     normalize ((range_all UNKNOWN_TYPE)\<lparr>kr_low := Some start, kr_high := Some end_v,
       kr_type := (if \<not> v_is_null start then vtype start else vtype end_v)\<rparr>)"

definition range_gt :: "Value \<Rightarrow> KeyRange" where
  "range_gt v = (if v_is_null v then range_empty UNKNOWN_TYPE else (range_from v)\<lparr>kr_low_exclusive := True\<rparr>)"

definition range_ge :: "Value \<Rightarrow> KeyRange" where
  "range_ge v = (if v_is_null v then range_empty UNKNOWN_TYPE else range_from v)"

definition range_lt :: "Value \<Rightarrow> KeyRange" where
  "range_lt v =
     (if v_is_null v then range_empty UNKNOWN_TYPE
      else (range_non_null (vtype v))\<lparr>kr_high := Some v, kr_high_inclusive := False\<rparr>)"

definition range_le :: "Value \<Rightarrow> KeyRange" where
  "range_le v =
     (if v_is_null v then range_empty UNKNOWN_TYPE
      else (range_non_null (vtype v))\<lparr>kr_high := Some v, kr_high_inclusive := True\<rparr>)"

definition range_eq :: "Value \<Rightarrow> DataType \<Rightarrow> KeyRange" where
  "range_eq v t = (if v_is_null v then range_null_only t else range_point v)"

section \<open>Boundary keys and queries\<close>

definition low_key :: "KeyRange \<Rightarrow> Key option" where
  "low_key r =
     (case kr_low r of
        None \<Rightarrow> None
      | Some low \<Rightarrow>
          if v_is_null low then
            (let k = null_key_for_type (kr_type r)
             in Some (if kr_low_exclusive r then inclusive_upper_bound k else k))
          else let k = to_key low in
            if k = [] then None
            else Some (if kr_low_exclusive r then inclusive_upper_bound k else k))"

definition high_key :: "KeyRange \<Rightarrow> Key option" where
  "high_key r =
     (case kr_high r of
        None \<Rightarrow> None
      | Some high \<Rightarrow>
          if v_is_null high then
            (let k = null_key_for_type (kr_type r)
             in Some (if kr_high_inclusive r then inclusive_upper_bound k else k))
          else let k = to_key high in
            if k = [] then None
            else Some (if kr_high_inclusive r then inclusive_upper_bound k else k))"

definition range_is_empty :: "KeyRange \<Rightarrow> bool" where
  "range_is_empty r \<longleftrightarrow>
     (if kr_high r = Some NullV \<and> \<not> kr_high_inclusive r then True
      else case (low_key r, high_key r) of (Some lk, Some hk) \<Rightarrow> \<not> lk < hk | _ \<Rightarrow> False)"

definition range_is_all :: "KeyRange \<Rightarrow> bool" where
  "range_is_all r \<longleftrightarrow> kr_low r = None \<and> kr_high r = None"

definition range_is_bounded :: "KeyRange \<Rightarrow> bool" where
  "range_is_bounded r \<longleftrightarrow> (case (low_key r, high_key r) of (Some lk, Some hk) \<Rightarrow> lk < hk | _ \<Rightarrow> False)"

definition range_is_half :: "KeyRange \<Rightarrow> bool" where
  "range_is_half r \<longleftrightarrow> \<not> range_is_all r \<and> (kr_low r = None \<or> kr_high r = None)"

definition low_admits_null :: "KeyRange \<Rightarrow> bool" where
  "low_admits_null r \<longleftrightarrow> (case kr_low r of None \<Rightarrow> True | Some low \<Rightarrow> v_is_null low \<and> \<not> kr_low_exclusive r)"

definition high_admits_null :: "KeyRange \<Rightarrow> bool" where
  "high_admits_null r \<longleftrightarrow> (case kr_high r of None \<Rightarrow> True | Some high \<Rightarrow> \<not> v_is_null high \<or> kr_high_inclusive r)"

definition null_scope :: "KeyRange \<Rightarrow> NullScope" where
  "null_scope r =
     (if range_is_empty r then NS_EXCLUDE
      else if \<not> (low_admits_null r \<and> high_admits_null r) then NS_EXCLUDE
      else if kr_high r = Some NullV \<and> kr_high_inclusive r then NS_ONLY
      else NS_INCLUDE)"

definition includes_null :: "KeyRange \<Rightarrow> bool" where
  "includes_null r \<longleftrightarrow> null_scope r \<noteq> NS_EXCLUDE"

text \<open>Differences of \<^verbatim>\<open>int64_t\<close> values wrap.\<close>

definition range_is_point :: "KeyRange \<Rightarrow> bool" where
  "range_is_point r \<longleftrightarrow>
     (if range_is_empty r then False
      else case (kr_low r, kr_high r) of
        (Some low, Some high) \<Rightarrow>
          if \<not> kr_high_inclusive r \<and> \<not> kr_low_exclusive r \<and> v_is_int low \<and> v_is_int high
          then get_int 0 high - get_int 0 low = 1
          else if kr_high_inclusive r \<and> \<not> kr_low_exclusive r then value_eq low high
          else False
      | (None, Some high) \<Rightarrow> v_is_null high \<and> kr_high_inclusive r
      | _ \<Rightarrow> False)"

definition point_value :: "KeyRange \<Rightarrow> Value" where
  "point_value r =
     (if \<not> range_is_point r then NullV
      else case kr_low r of
             Some low \<Rightarrow> if kr_low_exclusive r then the (kr_high r) else low
           | None \<Rightarrow> the (kr_high r))"

definition range_size :: "KeyRange \<Rightarrow> int64 option" where
  "range_size r =
     (case (kr_low r, kr_high r) of
        (Some low, Some high) \<Rightarrow>
          if \<not> v_is_int low \<or> \<not> v_is_int high then None
          else if \<not> range_is_bounded r then None
          else let count = get_int 0 high - get_int 0 low;
                   count = (if kr_high_inclusive r then count + 1 else count);
                   count = (if kr_low_exclusive r then count - 1 else count)
               in if sint count \<le> 0 then None else Some count
      | _ \<Rightarrow> None)"

definition to_str_key_range :: "KeyRange \<Rightarrow> DataType \<Rightarrow> StrKeyRange" where
  "to_str_key_range r fallback_type =
     (let t = (if kr_type r = UNKNOWN_TYPE then fallback_type else kr_type r)
      in if range_is_empty r then \<lparr> sk_start = min_key_for_type t, sk_end = min_key_for_type t \<rparr>
         else
           let start = (case kr_low r of
                 None \<Rightarrow> min_key_for_type t
               | Some low \<Rightarrow>
                   (let k = (if v_is_null low then min_key_for_type t else to_key low);
                        k = (if k = [] then min_key_for_type t else k)
                    in if kr_low_exclusive r then inclusive_upper_bound k else k));
               end_k = (case kr_high r of
                 None \<Rightarrow> upper_key_for_type t
               | Some high \<Rightarrow>
                   (let k = (if v_is_null high then min_key_for_type t else to_key high);
                        k = (if k = [] then upper_key_for_type t else k)
                    in if kr_high_inclusive r then inclusive_upper_bound k else k))
           in \<lparr> sk_start = start, sk_end = end_k \<rparr>)"

definition range_contains :: "KeyRange \<Rightarrow> Value \<Rightarrow> bool" where
  "range_contains r v \<longleftrightarrow>
     (if range_is_empty r then False
      else if v_is_null v then low_admits_null r \<and> high_admits_null r
      else let k = to_key v in
        if k = [] then False
        else if (case low_key r of None \<Rightarrow> False | Some lk \<Rightarrow> k < lk) then False
        else if (case high_key r of None \<Rightarrow> False | Some hk \<Rightarrow> \<not> k < hk) then False
        else True)"

definition range_overlaps :: "KeyRange \<Rightarrow> KeyRange \<Rightarrow> bool" where
  "range_overlaps a b \<longleftrightarrow>
     (if range_is_empty a \<or> range_is_empty b then False
      else if (case (low_key a, high_key b) of (Some lk, Some ohk) \<Rightarrow> \<not> lk < ohk | _ \<Rightarrow> False) then False
      else if (case (low_key b, high_key a) of (Some olk, Some hk) \<Rightarrow> \<not> olk < hk | _ \<Rightarrow> False) then False
      else True)"

definition range_is_adjacent :: "KeyRange \<Rightarrow> KeyRange \<Rightarrow> bool" where
  "range_is_adjacent a b \<longleftrightarrow>
     (if range_is_empty a \<or> range_is_empty b then False
      else if (case (high_key a, low_key b) of (Some hk, Some olk) \<Rightarrow> hk = olk | _ \<Rightarrow> False) then True
      else (case (low_key a, high_key b) of (Some lk, Some ohk) \<Rightarrow> lk = ohk | _ \<Rightarrow> False))"

definition range_covers :: "KeyRange \<Rightarrow> KeyRange \<Rightarrow> bool" where
  "range_covers a b \<longleftrightarrow>
     (if range_is_empty a then range_is_empty b
      else if range_is_empty b then True
      else if (case low_key a of None \<Rightarrow> False
               | Some lk \<Rightarrow> (case low_key b of None \<Rightarrow> True | Some olk \<Rightarrow> olk < lk)) then False
      else if (case high_key a of None \<Rightarrow> False
               | Some hk \<Rightarrow> (case high_key b of None \<Rightarrow> True | Some ohk \<Rightarrow> hk < ohk)) then False
      else True)"

definition range_equals :: "KeyRange \<Rightarrow> KeyRange \<Rightarrow> bool" where
  "range_equals a b \<longleftrightarrow>
     (if range_is_empty a \<and> range_is_empty b then True
      else if range_is_empty a \<or> range_is_empty b then False
      else low_key a = low_key b \<and> high_key a = high_key b)"

section \<open>Set operations\<close>

definition take_low :: "KeyRange \<Rightarrow> KeyRange \<Rightarrow> KeyRange" where
  "take_low src r = r\<lparr>kr_low := kr_low src, kr_low_exclusive := kr_low_exclusive src\<rparr>"

definition take_high :: "KeyRange \<Rightarrow> KeyRange \<Rightarrow> KeyRange" where
  "take_high src r = r\<lparr>kr_high := kr_high src, kr_high_inclusive := kr_high_inclusive src\<rparr>"

definition intersect :: "KeyRange \<Rightarrow> KeyRange \<Rightarrow> KeyRange" where
  "intersect a b =
     (if range_is_empty a \<or> range_is_empty b then range_empty UNKNOWN_TYPE
      else
        let result = range_all (merge_type (kr_type a) (kr_type b));
            result = (case (low_key a, low_key b) of
                (None, _) \<Rightarrow> take_low b result
              | (Some lk, None) \<Rightarrow> take_low a result
              | (Some lk, Some olk) \<Rightarrow> if lk < olk then take_low b result else take_low a result);
            result = (case (high_key a, high_key b) of
                (None, _) \<Rightarrow> take_high b result
              | (Some hk, None) \<Rightarrow> take_high a result
              | (Some hk, Some ohk) \<Rightarrow> if ohk < hk then take_high b result else take_high a result)
        in normalize result)"

definition unite :: "KeyRange \<Rightarrow> KeyRange \<Rightarrow> KeyRange list" where
  "unite a b =
     (if range_is_empty a then [b]
      else if range_is_empty b then [a]
      else if \<not> range_overlaps a b \<and> \<not> range_is_adjacent a b then [a, b]
      else
        let result = range_all (merge_type (kr_type a) (kr_type b));
            result = (case (low_key a, low_key b) of
                (None, _) \<Rightarrow> take_low a result
              | (Some lk, None) \<Rightarrow> take_low b result
              | (Some lk, Some olk) \<Rightarrow> if lk < olk then take_low a result else take_low b result);
            result = (case (high_key a, high_key b) of
                (None, _) \<Rightarrow> take_high a result
              | (Some hk, None) \<Rightarrow> take_high b result
              | (Some hk, Some ohk) \<Rightarrow> if hk < ohk then take_high b result else take_high a result)
        in [normalize result])"

definition subtract_left :: "KeyRange \<Rightarrow> KeyRange \<Rightarrow> KeyRange" where
  "subtract_left a b =
     normalize ((take_low a (range_all (merge_type (kr_type a) (kr_type b))))
       \<lparr>kr_high := kr_low b, kr_high_inclusive := kr_low_exclusive b\<rparr>)"

definition subtract_right :: "KeyRange \<Rightarrow> KeyRange \<Rightarrow> KeyRange" where
  "subtract_right a b =
     normalize ((take_high a (range_all (merge_type (kr_type a) (kr_type b))))
       \<lparr>kr_low := kr_high b, kr_low_exclusive := kr_high_inclusive b\<rparr>)"

definition subtract :: "KeyRange \<Rightarrow> KeyRange \<Rightarrow> KeyRange list" where
  "subtract a b =
     (if range_is_empty a then [range_empty UNKNOWN_TYPE]
      else if range_is_empty b \<or> \<not> range_overlaps a b then [a]
      else if range_covers b a then [range_empty UNKNOWN_TYPE]
      else
        let keep = (\<lambda>r. \<not> range_is_empty r \<and> \<not> range_is_all r);
            result = (if kr_low b \<noteq> None \<and> keep (subtract_left a b) then [subtract_left a b] else []) @
                     (if kr_high b \<noteq> None \<and> keep (subtract_right a b) then [subtract_right a b] else [])
        in if result = [] then [range_empty UNKNOWN_TYPE] else result)"

definition complement :: "KeyRange \<Rightarrow> KeyRange list" where
  "complement r =
     (if range_is_empty r then [range_all (kr_type r)]
      else if range_is_all r then [range_empty UNKNOWN_TYPE]
      else
        let left = normalize ((range_all (kr_type r))\<lparr>kr_high := kr_low r, kr_high_inclusive := kr_low_exclusive r\<rparr>);
            right = normalize ((range_all (kr_type r))\<lparr>kr_low := kr_high r, kr_low_exclusive := kr_high_inclusive r\<rparr>)
        in (if kr_low r \<noteq> None \<and> \<not> range_is_empty left then [left] else []) @
           (if kr_high r \<noteq> None \<and> \<not> range_is_empty right then [right] else []))"

section \<open>Ranges over a column's family\<close>

text \<open>
  A value of the family of \<open>t\<close> or NULL, and a range whose boundaries are such values. A range with a
  NULL boundary must know its type, since the key of NULL depends on it; a NULL lower boundary
  is exclusive, as \<^verbatim>\<open>normalize\<close> ensures. An empty range needs nothing.
\<close>

definition in_family :: "DataType \<Rightarrow> Value \<Rightarrow> bool" where
  "in_family t v \<longleftrightarrow> v = NullV \<or> tag_of (vtype v) = tag_of t"

definition range_ok :: "DataType \<Rightarrow> KeyRange \<Rightarrow> bool" where
  "range_ok t r \<longleftrightarrow>
     (kr_type r = UNKNOWN_TYPE \<or> tag_of (kr_type r) = tag_of t) \<and>
     (kr_low r = Some NullV \<or> kr_high r = Some NullV \<longrightarrow> kr_type r \<noteq> UNKNOWN_TYPE) \<and>
     (kr_low r = Some NullV \<longrightarrow> kr_low_exclusive r) \<and>
     (case kr_low r of None \<Rightarrow> True | Some v \<Rightarrow> in_family t v) \<and>
     (case kr_high r of None \<Rightarrow> True | Some v \<Rightarrow> in_family t v)"

definition range_wf :: "DataType \<Rightarrow> KeyRange \<Rightarrow> bool" where
  "range_wf t r \<longleftrightarrow> range_is_empty r \<or> range_ok t r"

definition bound_key :: "DataType \<Rightarrow> Value \<Rightarrow> bool \<Rightarrow> Key" where
  "bound_key t v after = (if after then to_key_col v t @ [0] else to_key_col v t)"

definition above :: "Key option \<Rightarrow> Key \<Rightarrow> bool" where
  "above lk k \<longleftrightarrow> (case lk of None \<Rightarrow> True | Some l \<Rightarrow> l \<le> k)"

definition below :: "Key option \<Rightarrow> Key \<Rightarrow> bool" where
  "below hk k \<longleftrightarrow> (case hk of None \<Rightarrow> True | Some h \<Rightarrow> k < h)"

lemma to_key_nonempty [simp]: "to_key v \<noteq> []"
  by (cases v) simp_all

lemma to_key_col_nonempty [simp]: "to_key_col v t \<noteq> []"
  by (cases "v = NullV") simp_all

lemma null_key_col: "tag_of u = tag_of t \<Longrightarrow> tag_of t \<noteq> kTagNull \<Longrightarrow> null_key_for_type u = to_key_col NullV t"
  by (simp add: null_key_for_type_def min_key_for_type_def make_null_key_def)

lemma range_ok_keys:
  assumes "range_ok t r" "tag_of t \<noteq> kTagNull"
  shows "low_key r = map_option (\<lambda>v. bound_key t v (kr_low_exclusive r)) (kr_low r)"
    and "high_key r = map_option (\<lambda>v. bound_key t v (kr_high_inclusive r)) (kr_high r)"
proof -
  have n: "null_key_for_type (kr_type r) = to_key_col NullV t" if "kr_low r = Some NullV \<or> kr_high r = Some NullV"
    using assms that null_key_col[of "kr_type r" t] by (auto simp: range_ok_def)
  show "low_key r = map_option (\<lambda>v. bound_key t v (kr_low_exclusive r)) (kr_low r)"
    using n by (auto simp: low_key_def bound_key_def inclusive_upper_bound_def Let_def
        simp del: to_key_col_simps(1) split: option.split)
  show "high_key r = map_option (\<lambda>v. bound_key t v (kr_high_inclusive r)) (kr_high r)"
    using n by (auto simp: high_key_def bound_key_def inclusive_upper_bound_def Let_def
        simp del: to_key_col_simps(1) split: option.split)
qed

lemma null_key_least: "tag_of t \<noteq> kTagNull \<Longrightarrow> in_family t v \<Longrightarrow> to_key_col NullV t \<le> to_key_col v t"
  using family_bounds(1)[of t v] by (simp add: in_family_def min_key_for_type_def make_null_key_def)

lemma null_key_less: "tag_of t \<noteq> kTagNull \<Longrightarrow> in_family t v \<Longrightarrow> v \<noteq> NullV \<Longrightarrow> to_key_col NullV t < to_key_col v t"
  using to_key_col_less_iff[of NullV t v] by (cases v) (auto simp: in_family_def)

text \<open>Membership is the key lying between the boundary keys; an empty range has no key between them.\<close>

lemma contains_iff:
  assumes ok: "range_ok t r" and t: "tag_of t \<noteq> kTagNull" and v: "in_family t v"
  shows "range_contains r v \<longleftrightarrow> above (low_key r) (to_key_col v t) \<and> below (high_key r) (to_key_col v t)"
proof -
  note keys = range_ok_keys[OF ok t]
  have empty: "\<not> (above (low_key r) (to_key_col v t) \<and> below (high_key r) (to_key_col v t))" if e: "range_is_empty r"
  proof (cases "kr_high r = Some NullV \<and> \<not> kr_high_inclusive r")
    case True
    then show ?thesis using null_key_least[OF t v] by (auto simp: keys below_def bound_key_def)
  next
    case False
    then show ?thesis using e
      by (auto simp: range_is_empty_def above_def below_def split: option.splits)
  qed
  show ?thesis
  proof (cases "v = NullV")
    case True
    have fam: "kr_low r = Some w \<Longrightarrow> in_family t w" "kr_high r = Some w \<Longrightarrow> in_family t w" for w
      using ok by (auto simp: range_ok_def)
    have "above (low_key r) (to_key_col v t) \<longleftrightarrow> low_admits_null r"
    proof (cases "kr_low r")
      case (Some w)
      have "\<not> to_key_col w t \<le> to_key_col NullV t \<and> \<not> to_key_col w t @ [0] \<le> to_key_col NullV t" if "w \<noteq> NullV"
        using null_key_less[OF t fam(1)[OF Some] that] less_self_snoc[of "to_key_col w t" 0 "[]"]
        by (metis not_le order.strict_trans)
      moreover have "w = NullV \<Longrightarrow> kr_low_exclusive r" using ok Some by (auto simp: range_ok_def)
      ultimately show ?thesis using Some True
        by (cases "w = NullV") (auto simp: keys above_def bound_key_def low_admits_null_def simp del: to_key_col_simps)
    qed (simp add: keys above_def low_admits_null_def)
    moreover have "below (high_key r) (to_key_col v t) \<longleftrightarrow> high_admits_null r"
    proof (cases "kr_high r")
      case (Some w)
      have "to_key_col NullV t < to_key_col w t \<and> to_key_col NullV t < to_key_col w t @ [0]" if "w \<noteq> NullV"
        using null_key_less[OF t fam(2)[OF Some] that] less_self_snoc[of "to_key_col w t" 0 "[]"]
        by (metis order.strict_trans)
      then show ?thesis using Some True
        by (cases "w = NullV") (auto simp: keys below_def bound_key_def high_admits_null_def simp del: to_key_col_simps)
    qed (simp add: keys below_def high_admits_null_def)
    ultimately show ?thesis using True empty by (auto simp: range_contains_def)
  next
    case False
    then have "range_contains r v \<longleftrightarrow>
      \<not> range_is_empty r \<and> above (low_key r) (to_key_col v t) \<and> below (high_key r) (to_key_col v t)"
      by (auto simp: range_contains_def above_def below_def Let_def not_less split: option.splits)
    then show ?thesis using empty by blast
  qed
qed

lemma contains_empty [simp]: "range_is_empty r \<Longrightarrow> \<not> range_contains r v"
  by (simp add: range_contains_def)

lemma range_empty_is_empty [simp]: "range_is_empty (range_empty t)"
  by (simp add: range_is_empty_def range_empty_def)

lemma range_wf_empty [simp]: "range_wf t (range_empty u)"
  by (simp add: range_wf_def)

lemma range_wf_ok: "range_wf t r \<Longrightarrow> \<not> range_is_empty r \<Longrightarrow> range_ok t r"
  by (simp add: range_wf_def)

section \<open>Operations as set operations\<close>

lemma in_low: "in_family t v \<Longrightarrow> range_wf t r \<Longrightarrow> tag_of t \<noteq> kTagNull \<Longrightarrow> range_contains r v \<longleftrightarrow>
    \<not> range_is_empty r \<and> above (low_key r) (to_key_col v t) \<and> below (high_key r) (to_key_col v t)"
  using contains_iff[of t r v] by (auto simp: range_wf_def)

lemma merged_ok:
  assumes "range_ok t a" "range_ok t b"
    and "kr_low r = kr_low a \<and> kr_low_exclusive r = kr_low_exclusive a \<or> kr_low r = kr_low b \<and> kr_low_exclusive r = kr_low_exclusive b"
    and "kr_high r = kr_high a \<and> kr_high_inclusive r = kr_high_inclusive a \<or> kr_high r = kr_high b \<and> kr_high_inclusive r = kr_high_inclusive b"
    and "kr_type r = merge_type (kr_type a) (kr_type b)"
  shows "range_ok t r"
  using assms unfolding range_ok_def merge_type_def by (elim disjE conjE) simp_all

lemma normalize_ok: "range_ok t r \<Longrightarrow> normalize r = r"
  by (auto simp: normalize_def range_ok_def)

lemma same_bound_key:
  assumes "range_ok t r" "range_ok t a" "tag_of t \<noteq> kTagNull"
  shows "kr_low r = kr_low a \<Longrightarrow> kr_low_exclusive r = kr_low_exclusive a \<Longrightarrow> low_key r = low_key a"
    "kr_high r = kr_high a \<Longrightarrow> kr_high_inclusive r = kr_high_inclusive a \<Longrightarrow> high_key r = high_key a"
    "kr_high r = kr_low a \<Longrightarrow> kr_high_inclusive r = kr_low_exclusive a \<Longrightarrow> high_key r = low_key a"
    "kr_low r = kr_high a \<Longrightarrow> kr_low_exclusive r = kr_high_inclusive a \<Longrightarrow> low_key r = high_key a"
  by (simp_all add: range_ok_keys[OF assms(1,3)] range_ok_keys[OF assms(2,3)])

lemma range_fields [simp]:
  "kr_low (take_low a r) = kr_low a" "kr_low_exclusive (take_low a r) = kr_low_exclusive a"
  "kr_high (take_low a r) = kr_high r" "kr_high_inclusive (take_low a r) = kr_high_inclusive r"
  "kr_type (take_low a r) = kr_type r" "kr_low (take_high a r) = kr_low r"
  "kr_low_exclusive (take_high a r) = kr_low_exclusive r" "kr_high (take_high a r) = kr_high a"
  "kr_high_inclusive (take_high a r) = kr_high_inclusive a" "kr_type (take_high a r) = kr_type r"
  "kr_low (range_all u) = None" "kr_high (range_all u) = None" "kr_type (range_all u) = u"
  "\<not> kr_low_exclusive (range_all u)" "\<not> kr_high_inclusive (range_all u)"
  by (simp_all add: take_low_def take_high_def range_all_def)

text \<open>The intersection of two nonempty ranges, before normalisation: which bounds it takes.\<close>

lemma intersect_bounds:
  assumes a: "range_ok t a" "\<not> range_is_empty a" and b: "range_ok t b" "\<not> range_is_empty b" and t: "tag_of t \<noteq> kTagNull"
  shows "range_ok t (intersect a b)"
    and "above (low_key (intersect a b)) k \<longleftrightarrow> above (low_key a) k \<and> above (low_key b) k"
    and "below (high_key (intersect a b)) k \<longleftrightarrow> below (high_key a) k \<and> below (high_key b) k"
proof -
  define la where "la \<longleftrightarrow> (case (low_key a, low_key b) of (None, _) \<Rightarrow> False | (_, None) \<Rightarrow> True | (Some x, Some y) \<Rightarrow> \<not> x < y)"
  define ha where "ha \<longleftrightarrow> (case (high_key a, high_key b) of (None, _) \<Rightarrow> False | (_, None) \<Rightarrow> True | (Some x, Some y) \<Rightarrow> \<not> y < x)"
  let ?r = "take_high (if ha then a else b) (take_low (if la then a else b) (range_all (merge_type (kr_type a) (kr_type b))))"
  have ok: "range_ok t ?r" by (rule merged_ok[OF a(1) b(1)]) auto
  have r: "intersect a b = ?r"
    using a(2) b(2) normalize_ok[OF ok]
    by (auto simp: intersect_def la_def ha_def Let_def split: option.splits)
  show "range_ok t (intersect a b)" using ok r by simp
  have lk: "low_key ?r = (if la then low_key a else low_key b)"
    using same_bound_key(1)[OF ok a(1) t] same_bound_key(1)[OF ok b(1) t] by (cases la) simp_all
  have hk: "high_key ?r = (if ha then high_key a else high_key b)"
    using same_bound_key(2)[OF ok a(1) t] same_bound_key(2)[OF ok b(1) t] by (cases ha) simp_all
  show "above (low_key (intersect a b)) k \<longleftrightarrow> above (low_key a) k \<and> above (low_key b) k"
    unfolding r lk unfolding la_def by (auto simp: above_def split: option.splits)
  show "below (high_key (intersect a b)) k \<longleftrightarrow> below (high_key a) k \<and> below (high_key b) k"
    unfolding r hk unfolding ha_def by (auto simp: below_def split: option.splits)
qed

lemma intersect_contains:
  assumes "range_wf t a" "range_wf t b" "tag_of t \<noteq> kTagNull" "in_family t v"
  shows "range_contains (intersect a b) v \<longleftrightarrow> range_contains a v \<and> range_contains b v"
proof (cases "range_is_empty a \<or> range_is_empty b")
  case True
  then show ?thesis by (auto simp: intersect_def)
next
  case False
  then have ok: "range_ok t a" "range_ok t b" using assms by (auto simp: range_wf_def)
  then show ?thesis using False intersect_bounds[OF ok(1) _ ok(2) _ assms(3)] assms(3,4)
    by (auto simp: contains_iff)
qed

text \<open>Two key intervals that overlap or touch have an interval as their union.\<close>

lemma union_of_touching:
  fixes k :: Key
  assumes "case (la, hb) of (Some l, Some h) \<Rightarrow> l \<le> h | _ \<Rightarrow> True"
    and "case (lb, ha) of (Some l, Some h) \<Rightarrow> l \<le> h | _ \<Rightarrow> True"
    and "case (la, ha) of (Some l, Some h) \<Rightarrow> l < h | _ \<Rightarrow> True"
    and "case (lb, hb) of (Some l, Some h) \<Rightarrow> l < h | _ \<Rightarrow> True"
  shows "(above la k \<or> above lb k) \<and> (below ha k \<or> below hb k) \<longleftrightarrow>
    above la k \<and> below ha k \<or> above lb k \<and> below hb k"
  using assms by (cases la; cases lb; cases ha; cases hb) (auto simp: above_def below_def)

lemma touching:
  assumes "\<not> range_is_empty a" "\<not> range_is_empty b" "range_overlaps a b \<or> range_is_adjacent a b"
  shows "case (low_key a, high_key b) of (Some l, Some h) \<Rightarrow> l \<le> h | _ \<Rightarrow> True"
    and "case (low_key b, high_key a) of (Some l, Some h) \<Rightarrow> l \<le> h | _ \<Rightarrow> True"
    and "case (low_key a, high_key a) of (Some l, Some h) \<Rightarrow> l < h | _ \<Rightarrow> True"
    and "case (low_key b, high_key b) of (Some l, Some h) \<Rightarrow> l < h | _ \<Rightarrow> True"
  using assms
  by (auto simp: range_overlaps_def range_is_adjacent_def range_is_empty_def split: option.splits if_splits)

lemma unite_bounds:
  assumes a: "range_ok t a" "\<not> range_is_empty a" and b: "range_ok t b" "\<not> range_is_empty b"
    and touch: "range_overlaps a b \<or> range_is_adjacent a b" and t: "tag_of t \<noteq> kTagNull"
  obtains r where "unite a b = [r]" "range_ok t r"
    "\<And>k. above (low_key r) k \<longleftrightarrow> above (low_key a) k \<or> above (low_key b) k"
    "\<And>k. below (high_key r) k \<longleftrightarrow> below (high_key a) k \<or> below (high_key b) k"
proof -
  define la where "la \<longleftrightarrow> (case (low_key a, low_key b) of (None, _) \<Rightarrow> True | (_, None) \<Rightarrow> False | (Some x, Some y) \<Rightarrow> x < y)"
  define ha where "ha \<longleftrightarrow> (case (high_key a, high_key b) of (None, _) \<Rightarrow> True | (_, None) \<Rightarrow> False | (Some x, Some y) \<Rightarrow> \<not> x < y)"
  let ?r = "take_high (if ha then a else b) (take_low (if la then a else b) (range_all (merge_type (kr_type a) (kr_type b))))"
  have ok: "range_ok t ?r" by (rule merged_ok[OF a(1) b(1)]) auto
  have r: "unite a b = [?r]"
    using a(2) b(2) normalize_ok[OF ok] touch
    by (auto simp: unite_def la_def ha_def Let_def split: option.splits)
  have lk: "low_key ?r = (if la then low_key a else low_key b)"
    using same_bound_key(1)[OF ok a(1) t] same_bound_key(1)[OF ok b(1) t] by (cases la) simp_all
  have hk: "high_key ?r = (if ha then high_key a else high_key b)"
    using same_bound_key(2)[OF ok a(1) t] same_bound_key(2)[OF ok b(1) t] by (cases ha) simp_all
  have "above (low_key ?r) k \<longleftrightarrow> above (low_key a) k \<or> above (low_key b) k" for k
    unfolding lk unfolding la_def by (auto simp: above_def split: option.splits)
  moreover have "below (high_key ?r) k \<longleftrightarrow> below (high_key a) k \<or> below (high_key b) k" for k
    unfolding hk unfolding ha_def by (auto simp: below_def split: option.splits)
  ultimately show ?thesis using that[OF r ok] by blast
qed

lemma unite_contains:
  assumes "range_wf t a" "range_wf t b" "tag_of t \<noteq> kTagNull" "in_family t v"
  shows "list_ex (\<lambda>r. range_contains r v) (unite a b) \<longleftrightarrow> range_contains a v \<or> range_contains b v"
proof (cases "range_is_empty a \<or> range_is_empty b \<or> (\<not> range_overlaps a b \<and> \<not> range_is_adjacent a b)")
  case True
  then show ?thesis by (auto simp: unite_def)
next
  case False
  then have ok: "range_ok t a" "\<not> range_is_empty a" "range_ok t b" "\<not> range_is_empty b"
    "range_overlaps a b \<or> range_is_adjacent a b" using assms by (auto simp: range_wf_def)
  from unite_bounds[OF ok assms(3)] obtain r where r: "unite a b = [r]" "range_ok t r"
    "\<And>k. above (low_key r) k \<longleftrightarrow> above (low_key a) k \<or> above (low_key b) k"
    "\<And>k. below (high_key r) k \<longleftrightarrow> below (high_key a) k \<or> below (high_key b) k" by blast
  show ?thesis
    using union_of_touching[OF touching[OF ok(2,4,5)], of "to_key_col v t"] r ok assms(3,4)
    by (simp add: contains_iff)
qed

lemma covers_contains:
  assumes "range_wf t a" "range_wf t b" "tag_of t \<noteq> kTagNull" "in_family t v" "range_covers a b" "range_contains b v"
  shows "range_contains a v"
proof -
  have nb: "\<not> range_is_empty b" using assms(6) contains_empty by blast
  then have na: "\<not> range_is_empty a" using assms(5) by (auto simp: range_covers_def)
  have ok: "range_ok t a" "range_ok t b" using na nb assms(1,2) by (auto simp: range_wf_def)
  then show ?thesis using assms(3-6) na nb
    by (auto simp: contains_iff range_covers_def above_def below_def split: option.splits if_splits)
qed

lemma not_above: "\<not> above lk k \<longleftrightarrow> lk \<noteq> None \<and> below lk k"
  by (auto simp: above_def below_def split: option.splits)

lemma not_below: "\<not> below hk k \<longleftrightarrow> hk \<noteq> None \<and> above hk k"
  by (auto simp: above_def below_def split: option.splits)

lemma overlap_key_order:
  assumes "range_overlaps a b"
  shows "low_key b \<noteq> None \<Longrightarrow> below (low_key b) k \<Longrightarrow> below (high_key a) k"
    and "high_key b \<noteq> None \<Longrightarrow> above (high_key b) k \<Longrightarrow> above (low_key a) k"
  using assms by (auto simp: range_overlaps_def above_def below_def split: option.splits if_splits)

lemma ok_key_None:
  assumes "range_ok t r" "tag_of t \<noteq> kTagNull"
  shows "low_key r = None \<longleftrightarrow> kr_low r = None" "high_key r = None \<longleftrightarrow> kr_high r = None"
  by (simp_all add: range_ok_keys[OF assms])

text \<open>The two parts a range is cut into by another nonempty range, and their boundary keys.\<close>

lemma subtract_left_keys:
  assumes a: "range_ok t a" and b: "range_ok t b" and t: "tag_of t \<noteq> kTagNull"
  shows "range_ok t (subtract_left a b)" "low_key (subtract_left a b) = low_key a" "high_key (subtract_left a b) = low_key b"
proof -
  let ?r = "(take_low a (range_all (merge_type (kr_type a) (kr_type b))))
      \<lparr>kr_high := kr_low b, kr_high_inclusive := kr_low_exclusive b\<rparr>"
  have ok: "range_ok t ?r" using a b unfolding range_ok_def merge_type_def by auto
  then have r: "subtract_left a b = ?r" by (simp add: subtract_left_def normalize_ok)
  show "range_ok t (subtract_left a b)" using ok r by simp
  show "low_key (subtract_left a b) = low_key a" unfolding r by (rule same_bound_key(1)[OF ok a t]) simp_all
  show "high_key (subtract_left a b) = low_key b" unfolding r by (rule same_bound_key(3)[OF ok b t]) simp_all
qed

lemma nonempty_high_null: "\<not> range_is_empty r \<Longrightarrow> kr_high r = Some NullV \<Longrightarrow> kr_high_inclusive r"
  by (rule ccontr) (simp add: range_is_empty_def)

lemma subtract_right_keys:
  assumes a: "range_ok t a" and b: "range_ok t b" "\<not> range_is_empty b" and t: "tag_of t \<noteq> kTagNull"
  shows "range_ok t (subtract_right a b)" "low_key (subtract_right a b) = high_key b" "high_key (subtract_right a b) = high_key a"
proof -
  let ?r = "(take_high a (range_all (merge_type (kr_type a) (kr_type b))))
      \<lparr>kr_low := kr_high b, kr_low_exclusive := kr_high_inclusive b\<rparr>"
  have "kr_high b = Some NullV \<Longrightarrow> kr_high_inclusive b" using b(2) nonempty_high_null by blast
  then have ok: "range_ok t ?r" using a b(1) unfolding range_ok_def merge_type_def by auto
  then have r: "subtract_right a b = ?r" by (simp add: subtract_right_def normalize_ok)
  show "range_ok t (subtract_right a b)" using ok r by simp
  show "low_key (subtract_right a b) = high_key b" unfolding r by (rule same_bound_key(4)[OF ok b(1) t]) simp_all
  show "high_key (subtract_right a b) = high_key a" unfolding r by (rule same_bound_key(2)[OF ok a t]) simp_all
qed

lemma overlaps_if_common:
  assumes "range_ok t a" "range_ok t b" "tag_of t \<noteq> kTagNull" "in_family t v" "range_contains a v" "range_contains b v"
  shows "range_overlaps a b"
proof -
  have "\<not> range_is_empty a" "\<not> range_is_empty b" using assms(5,6) contains_empty by blast+
  then show ?thesis using assms
    by (auto simp: contains_iff range_overlaps_def above_def below_def split: option.splits)
qed

lemma subtract_contains:
  assumes wf: "range_wf t a" "range_wf t b" and t: "tag_of t \<noteq> kTagNull" and v: "in_family t v"
  shows "list_ex (\<lambda>r. range_contains r v) (subtract a b) \<longleftrightarrow> range_contains a v \<and> \<not> range_contains b v"
proof -
  consider "range_is_empty a" | "\<not> range_is_empty a" "range_is_empty b"
    | "\<not> range_is_empty a" "\<not> range_is_empty b" "\<not> range_overlaps a b"
    | "\<not> range_is_empty a" "\<not> range_is_empty b" "range_overlaps a b" "range_covers b a"
    | "\<not> range_is_empty a" "\<not> range_is_empty b" "range_overlaps a b" "\<not> range_covers b a" by blast
  then show ?thesis
  proof cases
    case 3
    then have "range_contains a v \<Longrightarrow> \<not> range_contains b v"
      using overlaps_if_common[OF range_wf_ok[OF wf(1)] range_wf_ok[OF wf(2)] t v] by blast
    then show ?thesis using 3 by (auto simp: subtract_def)
  next
    case 4
    then show ?thesis using covers_contains[OF wf(2,1) t v] by (auto simp: subtract_def)
  next
    case 5
    have ok: "range_ok t a" "range_ok t b" using 5 wf by (auto simp: range_wf_def)
    note L = subtract_left_keys[OF ok t] and R = subtract_right_keys[OF ok 5(2) t]
    let ?k = "to_key_col v t"
    have l: "kr_low b \<noteq> None \<and> range_contains (subtract_left a b) v \<longleftrightarrow> range_contains a v \<and> \<not> above (low_key b) ?k"
      using L ok t v overlap_key_order(1)[OF 5(3), of ?k] ok_key_None(1)[OF ok(2) t]
      by (auto simp: contains_iff not_above)
    have r: "kr_high b \<noteq> None \<and> range_contains (subtract_right a b) v \<longleftrightarrow> range_contains a v \<and> \<not> below (high_key b) ?k"
      using R ok t v overlap_key_order(2)[OF 5(3), of ?k] ok_key_None(2)[OF ok(2) t]
      by (auto simp: contains_iff not_below)
    have na: "kr_low b \<noteq> None \<Longrightarrow> \<not> range_is_all (subtract_left a b)"
      "kr_high b \<noteq> None \<Longrightarrow> \<not> range_is_all (subtract_right a b)"
      using L R ok_key_None[OF ok(2) t] ok_key_None[OF L(1) t] ok_key_None[OF R(1) t] by (auto simp: range_is_all_def)
    have "list_ex (\<lambda>r. range_contains r v) (subtract a b) \<longleftrightarrow>
      kr_low b \<noteq> None \<and> range_contains (subtract_left a b) v \<or> kr_high b \<noteq> None \<and> range_contains (subtract_right a b) v"
      using 5 na by (auto simp: subtract_def Let_def)
    then show ?thesis using l r ok t v by (auto simp: contains_iff)
  qed (auto simp: subtract_def)
qed

lemma contains_all [simp]: "range_contains (range_all u) v"
  by (simp add: range_contains_def range_is_empty_def low_key_def high_key_def low_admits_null_def high_admits_null_def)

lemma range_ok_all: "range_ok t r \<Longrightarrow> range_ok t (range_all (kr_type r))"
  by (auto simp: range_ok_def)

lemma complement_contains:
  assumes wf: "range_wf t r" and t: "tag_of t \<noteq> kTagNull" and v: "in_family t v"
  shows "list_ex (\<lambda>q. range_contains q v) (complement r) \<longleftrightarrow> \<not> range_contains r v"
proof (cases "range_is_empty r \<or> range_is_all r")
  case True
  then show ?thesis
  proof (cases "range_is_empty r")
    case False
    then have "range_is_all r" using True by blast
    then have "range_contains r v" using range_wf_ok[OF wf False] t v
      by (auto simp: contains_iff range_is_all_def above_def below_def low_key_def high_key_def)
    then show ?thesis using False True by (simp add: complement_def)
  qed (simp add: complement_def)
next
  case False
  then have ok: "range_ok t r" using wf by (auto simp: range_wf_def)
  let ?L = "(range_all (kr_type r))\<lparr>kr_high := kr_low r, kr_high_inclusive := kr_low_exclusive r\<rparr>"
  let ?R = "(range_all (kr_type r))\<lparr>kr_low := kr_high r, kr_low_exclusive := kr_high_inclusive r\<rparr>"
  have inc: "kr_high r = Some NullV \<Longrightarrow> kr_high_inclusive r" using False nonempty_high_null by blast
  have okL: "range_ok t ?L" and okR: "range_ok t ?R" using ok inc unfolding range_ok_def by auto
  have L: "low_key ?L = None" "high_key ?L = low_key r" and R: "low_key ?R = high_key r" "high_key ?R = None"
    using same_bound_key(3)[OF okL ok t] same_bound_key(4)[OF okR ok t] by (simp_all add: low_key_def high_key_def)
  have "list_ex (\<lambda>q. range_contains q v) (complement r) \<longleftrightarrow>
      kr_low r \<noteq> None \<and> range_contains ?L v \<or> kr_high r \<noteq> None \<and> range_contains ?R v"
    using False normalize_ok[OF okL] normalize_ok[OF okR] by (auto simp: complement_def Let_def)
  also have "\<dots> \<longleftrightarrow> \<not> above (low_key r) (to_key_col v t) \<or> \<not> below (high_key r) (to_key_col v t)"
    using okL okR t v ok_key_None[OF ok t] unfolding not_above not_below
    by (auto simp: contains_iff L R above_def below_def)
  finally show ?thesis using ok t v by (auto simp: contains_iff)
qed

lemma flatten_keys:
  assumes ok: "range_ok t r" and ne: "\<not> range_is_empty r" and t: "tag_of t \<noteq> kTagNull"
  shows "sk_start (to_str_key_range r t) = (case low_key r of None \<Rightarrow> to_key_col NullV t | Some k \<Rightarrow> k)"
    and "sk_end (to_str_key_range r t) = (case high_key r of None \<Rightarrow> [tag_of t + 1] | Some k \<Rightarrow> k)"
proof -
  define u where "u = (if kr_type r = UNKNOWN_TYPE then t else kr_type r)"
  have u: "tag_of u = tag_of t" using ok by (auto simp: u_def range_ok_def)
  have m: "min_key_for_type u = to_key_col NullV t" "upper_key_for_type u = [tag_of t + 1]"
    using u t by (auto simp: min_key_for_type_def make_null_key_def upper_key_for_type_def)
  show "sk_start (to_str_key_range r t) = (case low_key r of None \<Rightarrow> to_key_col NullV t | Some k \<Rightarrow> k)"
    using ne by (auto simp: to_str_key_range_def u_def[symmetric] m range_ok_keys[OF ok t] bound_key_def
        inclusive_upper_bound_def Let_def simp del: to_key_col_simps(1) split: option.split)
  show "sk_end (to_str_key_range r t) = (case high_key r of None \<Rightarrow> [tag_of t + 1] | Some k \<Rightarrow> k)"
    using ne by (auto simp: to_str_key_range_def u_def[symmetric] m range_ok_keys[OF ok t] bound_key_def
        inclusive_upper_bound_def Let_def simp del: to_key_col_simps(1) split: option.split)
qed

lemma flatten_contains:
  assumes wf: "range_wf t r" and t: "tag_of t \<noteq> kTagNull" and v: "in_family t v"
  shows "range_contains r v \<longleftrightarrow>
    sk_start (to_str_key_range r t) \<le> to_key_col v t \<and> to_key_col v t < sk_end (to_str_key_range r t)"
proof (cases "range_is_empty r")
  case True
  then show ?thesis by (auto simp: to_str_key_range_def Let_def)
next
  case False
  then have ok: "range_ok t r" using wf by (simp add: range_wf_def)
  have "to_key_col v t < [tag_of t + 1]"
    using family_bounds(2)[of t v] t v by (simp add: in_family_def upper_key_for_type_def)
  then show ?thesis
    using contains_iff[OF ok t v] flatten_keys[OF ok False t] null_key_least[OF t v]
    by (auto simp: above_def below_def simp del: to_key_col_simps split: option.splits)
qed

section \<open>Factories, NULL scope and points\<close>

lemma factory_ok:
  assumes "v \<noteq> NullV" "tag_of (vtype v) = tag_of t" "tag_of t \<noteq> kTagNull"
  shows "range_ok t (range_gt v)" "range_ok t (range_ge v)" "range_ok t (range_lt v)" "range_ok t (range_le v)"
    "range_ok t (range_point v)"
proof -
  have "vtype v \<noteq> UNKNOWN_TYPE" using assms by (cases v) auto
  then show "range_ok t (range_gt v)" "range_ok t (range_ge v)" "range_ok t (range_lt v)" "range_ok t (range_le v)"
    "range_ok t (range_point v)"
    using assms by (simp_all add: range_ok_def in_family_def range_gt_def range_ge_def range_lt_def range_le_def
        range_from_def range_non_null_def range_point_def range_closed_def)
qed

lemma factory_wf:
  assumes "in_family t v" "tag_of t \<noteq> kTagNull"
  shows "range_wf t (range_gt v) \<and> range_wf t (range_ge v) \<and> range_wf t (range_lt v) \<and> range_wf t (range_le v) \<and>
    range_wf t (range_point v)"
proof (cases "v = NullV")
  case True
  then show ?thesis by (simp add: range_gt_def range_ge_def range_lt_def range_le_def range_point_def)
next
  case False
  then show ?thesis using assms factory_ok[of v t] by (auto simp: range_wf_def in_family_def)
qed

text \<open>A comparison range holds exactly the non-NULL values that compare accordingly by key.\<close>

lemma factory_contains:
  assumes v: "v \<noteq> NullV" "tag_of (vtype v) = tag_of t" and t: "tag_of t \<noteq> kTagNull" and w: "in_family t w"
  shows "range_contains (range_gt v) w \<longleftrightarrow> w \<noteq> NullV \<and> to_key v < to_key w"
    and "range_contains (range_ge v) w \<longleftrightarrow> w \<noteq> NullV \<and> to_key v \<le> to_key w"
    and "range_contains (range_lt v) w \<longleftrightarrow> w \<noteq> NullV \<and> to_key w < to_key v"
    and "range_contains (range_le v) w \<longleftrightarrow> w \<noteq> NullV \<and> to_key w \<le> to_key v"
    and "range_contains (range_point v) w \<longleftrightarrow> w \<noteq> NullV \<and> to_key w = to_key v"
proof -
  note ok = factory_ok[OF v t]
  have K: "to_key_col v t = to_key v" using v by simp
  have N: "to_key_col NullV t < to_key v" using null_key_less[OF t _ v(1)] v by (simp add: in_family_def)
  have W: "w \<noteq> NullV \<Longrightarrow> to_key_col NullV t < to_key w" using null_key_less[OF t w] by simp
  have ge: "range_contains (range_ge v) w \<longleftrightarrow> to_key v \<le> to_key_col w t"
    unfolding contains_iff[OF ok(2) t w] range_ok_keys[OF ok(2) t] using v
    by (simp add: above_def below_def bound_key_def range_ge_def range_from_def)
  then show "range_contains (range_ge v) w \<longleftrightarrow> w \<noteq> NullV \<and> to_key v \<le> to_key w"
    using N by (cases "w = NullV") auto
  have gt: "range_contains (range_gt v) w \<longleftrightarrow> to_key v < to_key_col w t"
    unfolding contains_iff[OF ok(1) t w] range_ok_keys[OF ok(1) t] using v
    by (simp add: above_def below_def bound_key_def range_gt_def range_from_def snoc_zero_le)
  then show "range_contains (range_gt v) w \<longleftrightarrow> w \<noteq> NullV \<and> to_key v < to_key w"
    using N by (cases "w = NullV") auto
  have "range_contains (range_lt v) w \<longleftrightarrow> to_key_col NullV t < to_key_col w t \<and> to_key_col w t < to_key v"
    unfolding contains_iff[OF ok(3) t w] range_ok_keys[OF ok(3) t] using v
    by (simp add: above_def below_def bound_key_def range_lt_def range_non_null_def snoc_zero_le
        del: to_key_col_simps(1))
  then show "range_contains (range_lt v) w \<longleftrightarrow> w \<noteq> NullV \<and> to_key w < to_key v"
    using W by (cases "w = NullV") auto
  have "range_contains (range_le v) w \<longleftrightarrow> to_key_col NullV t < to_key_col w t \<and> to_key_col w t \<le> to_key v"
    unfolding contains_iff[OF ok(4) t w] range_ok_keys[OF ok(4) t] using v
    by (simp add: above_def below_def bound_key_def range_le_def range_non_null_def snoc_zero_le
        less_snoc_zero del: to_key_col_simps(1))
  then show "range_contains (range_le v) w \<longleftrightarrow> w \<noteq> NullV \<and> to_key w \<le> to_key v"
    using W by (cases "w = NullV") auto
  have "range_contains (range_point v) w \<longleftrightarrow> to_key v \<le> to_key_col w t \<and> to_key_col w t \<le> to_key v"
    unfolding contains_iff[OF ok(5) t w] range_ok_keys[OF ok(5) t] using v
    by (simp add: above_def below_def bound_key_def range_point_def range_closed_def less_snoc_zero)
  then show "range_contains (range_point v) w \<longleftrightarrow> w \<noteq> NullV \<and> to_key w = to_key v"
    using N by (cases "w = NullV") auto
qed

lemma null_factories:
  "range_contains (range_non_null u) v \<longleftrightarrow> v \<noteq> NullV" if "tag_of u = tag_of t" "tag_of t \<noteq> kTagNull" "in_family t v" "u \<noteq> UNKNOWN_TYPE"
proof -
  have ok: "range_ok t (range_non_null u)" using that by (simp add: range_ok_def range_non_null_def in_family_def)
  have "range_contains (range_non_null u) v \<longleftrightarrow> to_key_col NullV t < to_key_col v t"
    unfolding contains_iff[OF ok that(2,3)] range_ok_keys[OF ok that(2)]
    by (simp add: above_def below_def bound_key_def range_non_null_def snoc_zero_le del: to_key_col_simps(1))
  then show ?thesis using null_key_less[OF that(2,3)] by (cases "v = NullV") auto
qed

lemma includes_null_iff: "includes_null r \<longleftrightarrow> range_contains r NullV"
  by (auto simp: includes_null_def null_scope_def range_contains_def)

lemma to_key_col_eq_iff:
  assumes "in_family t v" "in_family t w"
  shows "to_key_col v t = to_key_col w t \<longleftrightarrow> same_content v w"
  using assms to_key_eq_iff[of v w] by (cases v; cases w) (auto simp: tag_defs in_family_def)

lemma sint_succ_of_less: "sint i < sint j \<Longrightarrow> j - i = 1 \<Longrightarrow> sint j = sint i + 1" for i j :: int64
proof -
  assume a: "sint i < sint j" "j - i = 1"
  then have j: "j = i + 1" by (simp add: algebra_simps)
  have b: "- (2 ^ 63) \<le> sint i" "sint j < 2 ^ 63"
    using sint_ge[of i] sint_lt[of j] by simp_all
  have "sint (i + 1) = signed_take_bit 63 (sint i + 1)" by (simp add: sint_word_ariths)
  also have "\<dots> = sint i + 1" using a b j by (intro signed_take_bit_int_eq_self) auto
  finally show ?thesis using j by simp
qed

lemma point_contains:
  assumes ok: "range_ok t r" and t: "tag_of t \<noteq> kTagNull" and w: "in_family t w" and p: "range_is_point r"
  shows "range_contains r w \<longleftrightarrow> same_content w (point_value r)"
proof -
  have ne: "\<not> range_is_empty r" using p by (auto simp: range_is_point_def)
  note keys = range_ok_keys[OF ok t] and iff = contains_iff[OF ok t w]
  have fam: "kr_low r = Some x \<Longrightarrow> in_family t x" "kr_high r = Some x \<Longrightarrow> in_family t x" for x
    using ok by (auto simp: range_ok_def)
  consider low high where "kr_low r = Some low" "kr_high r = Some high" "\<not> kr_high_inclusive r" "\<not> kr_low_exclusive r"
      "v_is_int low" "v_is_int high" "get_int 0 high - get_int 0 low = 1"
    | low high where "kr_low r = Some low" "kr_high r = Some high" "kr_high_inclusive r" "\<not> kr_low_exclusive r" "value_eq low high"
    | "kr_low r = None" "kr_high r = Some NullV" "kr_high_inclusive r"
    using p by (auto simp: range_is_point_def split: if_splits option.splits)
  then show ?thesis
  proof cases
    case 1
    then obtain k i l j where lh: "low = IntV k i" "high = IntV l j" and d: "j - i = 1"
      by (cases low; cases high) (auto simp: v_is_int_def get_int_def)
    have "sint i < sint j" using ne 1 lh
      by (auto simp: range_is_empty_def keys bound_key_def be_bytes_less_iff int64_to_ordered_less_iff)
    from sint_succ_of_less[OF this d] have j: "sint j = sint i + 1" .
    have "point_value r = low" using p 1 by (simp add: point_value_def)
    moreover have "range_contains r w \<longleftrightarrow> \<not> to_key_col w t < to_key_col low t \<and> to_key_col w t < to_key_col high t"
      using 1 by (simp add: iff keys above_def below_def bound_key_def not_less)
    moreover have "\<dots> \<longleftrightarrow> \<not> value_before w low \<and> value_before w high"
      using to_key_col_less_iff[of w t low] to_key_col_less_iff[of w t high] w fam 1 t by (auto simp: in_family_def)
    ultimately show ?thesis using lh j by (cases w) (auto simp flip: sint_inject)
  next
    case 2
    have "point_value r = low" using p 2 by (simp add: point_value_def)
    moreover have "to_key_col high t = to_key_col low t"
      using value_eq_same_content[OF 2(5)] to_key_col_eq_iff[OF fam(1)[OF 2(1)] fam(2)[OF 2(2)]] by simp
    moreover have "range_contains r w \<longleftrightarrow> to_key_col low t \<le> to_key_col w t \<and> to_key_col w t \<le> to_key_col high t"
      using 2 by (simp add: iff keys above_def below_def bound_key_def less_snoc_zero)
    ultimately show ?thesis using to_key_col_eq_iff[OF w fam(1)[OF 2(1)]] by auto
  next
    case 3
    have "point_value r = NullV" using p 3 by (simp add: point_value_def)
    moreover have "range_contains r w \<longleftrightarrow> to_key_col w t \<le> to_key_col NullV t"
      using 3 by (simp add: iff keys above_def below_def bound_key_def less_snoc_zero del: to_key_col_simps)
    ultimately show ?thesis using null_key_less[OF t w] by (cases w) auto
  qed
qed

section \<open>Properties\<close>

text \<open>
  C2: the range operations are the set operations. For two well-formed ranges over a column and any
  value of the column's family, NULL included: the intersection contains the value iff both ranges do;
  one of the ranges that \<^verbatim>\<open>unite\<close> returns contains it iff one of the two does; one that \<^verbatim>\<open>subtract\<close> returns
  iff the first does and the second does not; one that \<^verbatim>\<open>complement\<close> returns iff the range does not.
\<close>

theorem range_set_operations:
  assumes "range_wf t a" and "range_wf t b" and "tag_of t \<noteq> kTagNull" and "in_family t v"
  shows "(range_contains (intersect a b) v \<longleftrightarrow> range_contains a v \<and> range_contains b v) \<and>
    (list_ex (\<lambda>r. range_contains r v) (unite a b) \<longleftrightarrow> range_contains a v \<or> range_contains b v) \<and>
    (list_ex (\<lambda>r. range_contains r v) (subtract a b) \<longleftrightarrow> range_contains a v \<and> \<not> range_contains b v) \<and>
    (list_ex (\<lambda>r. range_contains r v) (complement a) \<longleftrightarrow> \<not> range_contains a v)"
  using intersect_contains[OF assms] unite_contains[OF assms] subtract_contains[OF assms]
    complement_contains[OF assms(1,3,4)] by blast

theorem range_set_operations_witness:
  "range_contains (intersect (range_ge (IntV K_INT 3)) (range_lt (IntV K_INT 9))) (IntV K_INT 5) \<and>
   \<not> list_ex (\<lambda>r. range_contains r NullV) (subtract (range_ge (IntV K_INT 3)) (range_lt (IntV K_INT 9)))"
proof -
  have t: "tag_of INT_TYPE \<noteq> kTagNull" "in_family INT_TYPE (IntV K_INT x)" "in_family INT_TYPE NullV" for x
    by (simp_all add: tag_of_def type_family_defs tag_defs in_family_def)
  have wf: "range_wf INT_TYPE (range_ge (IntV K_INT 3))" "range_wf INT_TYPE (range_lt (IntV K_INT 9))"
    using factory_wf[OF t(2,1)] by blast+
  have f: "IntV K_INT x \<noteq> NullV" "tag_of (vtype (IntV K_INT x)) = tag_of INT_TYPE" for x by simp_all
  show ?thesis
    using range_set_operations[OF wf t(1) t(2)[of 5]] range_set_operations[OF wf t(1,3)]
      factory_contains(2)[OF f t(1) t(2)[of 5], of 3] factory_contains(3)[OF f t(1) t(2)[of 5], of 9]
      factory_contains(2)[OF f t(1,3), of 3]
    by (simp add: be_bytes_less_iff int64_to_ordered_less_iff not_less[symmetric])
qed

text \<open>
  C11: flattening loses nothing. A well-formed range contains a value of the column's family iff the
  value's storage key lies in the half-open interval that the range is flattened to for the scan.
\<close>

theorem range_flatten_exact:
  assumes "range_wf t r" and "tag_of t \<noteq> kTagNull" and "in_family t v"
  shows "range_contains r v \<longleftrightarrow>
    sk_start (to_str_key_range r t) \<le> to_key_col v t \<and> to_key_col v t < sk_end (to_str_key_range r t)"
  using assms by (rule flatten_contains)

theorem range_flatten_exact_witness:
  "\<not> to_key_col (StrV K_TEXT [97]) TEXT < sk_end (to_str_key_range (range_lt (StrV K_TEXT [97])) TEXT)"
proof -
  let ?v = "StrV K_TEXT [97]"
  have t: "tag_of TEXT \<noteq> kTagNull" "in_family TEXT ?v" by (simp_all add: tag_of_def type_family_defs tag_defs in_family_def)
  have f: "?v \<noteq> NullV" "tag_of (vtype ?v) = tag_of TEXT" by simp_all
  have "\<not> range_contains (range_lt ?v) ?v" using factory_contains(3)[OF f t] by simp
  moreover have "sk_start (to_str_key_range (range_lt ?v) TEXT) \<le> to_key_col ?v TEXT"
    by (simp add: to_str_key_range_def range_lt_def range_non_null_def range_is_empty_def low_key_def high_key_def
        min_key_for_type_def make_null_key_def null_key_for_type_def inclusive_upper_bound_def tag_of_def type_family_defs
        tag_defs encode_string_def)
  ultimately show ?thesis using range_flatten_exact[of TEXT "range_lt ?v" ?v] factory_wf[OF t(2,1)] t by blast
qed

text \<open>
  A range reported as a point has exactly one member. It contains a value of the family iff the
  value has the content of \<^verbatim>\<open>point_value\<close>. The 64-bit difference that the test for \<open>[v, v + 1)\<close>
  computes may wrap, but on a nonempty range never to 1.
\<close>

theorem range_point_exact:
  assumes "range_ok t r" and "tag_of t \<noteq> kTagNull" and "in_family t w" and "range_is_point r"
  shows "range_contains r w \<longleftrightarrow> same_content w (point_value r)"
  using assms by (rule point_contains)

theorem range_point_exact_witness:
  "\<not> range_contains (range_point (BoolV True)) (BoolV False)"
proof -
  have "range_ok BOOLEAN (range_point (BoolV True))" by (intro factory_ok) (simp_all add: tag_defs)
  moreover have "range_is_point (range_point (BoolV True))" "point_value (range_point (BoolV True)) = BoolV True"
    by (simp_all add: range_is_point_def point_value_def range_point_def range_closed_def range_all_def range_is_empty_def
        low_key_def high_key_def inclusive_upper_bound_def)
  ultimately show ?thesis
    using range_point_exact[of BOOLEAN "range_point (BoolV True)" "BoolV False"] by (simp add: tag_defs in_family_def)
qed

end
