(* ===== verification/Sorted_Algorithms.thy ===== *)
theory Sorted_Algorithms imports Prelude "HOL-Library.Multiset" begin

text \<open>
  The algorithms of the C++ standard library on sorted ranges that the program calls with a
  comparator: \<^verbatim>\<open>std::set_union\<close>, \<^verbatim>\<open>std::set_intersection\<close>, \<^verbatim>\<open>std::set_difference\<close>,
  \<^verbatim>\<open>std::set_symmetric_difference\<close>, \<^verbatim>\<open>std::includes\<close>, \<^verbatim>\<open>std::lower_bound\<close>,
  \<^verbatim>\<open>std::binary_search\<close> and \<^verbatim>\<open>std::unique\<close>.

  The locale \<open>comparator\<close> is their contract: the comparator orders by a key in a linear order. Under it,
  and on sorted inputs, the algorithms are the operations on the multisets of keys.
\<close>

section \<open>Algorithms\<close>

fun set_union :: "('a \<Rightarrow> 'a \<Rightarrow> bool) \<Rightarrow> 'a list \<Rightarrow> 'a list \<Rightarrow> 'a list" where
  "set_union lt [] ys = ys"
| "set_union lt (x # xs) [] = x # xs"
| "set_union lt (x # xs) (y # ys) =
     (if lt y x then y # set_union lt (x # xs) ys
      else if lt x y then x # set_union lt xs (y # ys)
      else x # set_union lt xs ys)"

fun set_intersection :: "('a \<Rightarrow> 'a \<Rightarrow> bool) \<Rightarrow> 'a list \<Rightarrow> 'a list \<Rightarrow> 'a list" where
  "set_intersection lt [] ys = []"
| "set_intersection lt (x # xs) [] = []"
| "set_intersection lt (x # xs) (y # ys) =
     (if lt x y then set_intersection lt xs (y # ys)
      else if lt y x then set_intersection lt (x # xs) ys
      else x # set_intersection lt xs ys)"

fun set_difference :: "('a \<Rightarrow> 'a \<Rightarrow> bool) \<Rightarrow> 'a list \<Rightarrow> 'a list \<Rightarrow> 'a list" where
  "set_difference lt [] ys = []"
| "set_difference lt (x # xs) [] = x # xs"
| "set_difference lt (x # xs) (y # ys) =
     (if lt x y then x # set_difference lt xs (y # ys)
      else if lt y x then set_difference lt (x # xs) ys
      else set_difference lt xs ys)"

fun set_symmetric_difference :: "('a \<Rightarrow> 'a \<Rightarrow> bool) \<Rightarrow> 'a list \<Rightarrow> 'a list \<Rightarrow> 'a list" where
  "set_symmetric_difference lt [] ys = ys"
| "set_symmetric_difference lt (x # xs) [] = x # xs"
| "set_symmetric_difference lt (x # xs) (y # ys) =
     (if lt x y then x # set_symmetric_difference lt xs (y # ys)
      else if lt y x then y # set_symmetric_difference lt (x # xs) ys
      else set_symmetric_difference lt xs ys)"

fun includes_all :: "('a \<Rightarrow> 'a \<Rightarrow> bool) \<Rightarrow> 'a list \<Rightarrow> 'a list \<Rightarrow> bool" where
  "includes_all lt xs [] = True"
| "includes_all lt [] (y # ys) = False"
| "includes_all lt (x # xs) (y # ys) =
     (if lt y x then False
      else if lt x y then includes_all lt xs (y # ys)
      else includes_all lt xs ys)"

function lower_bound :: "('a \<Rightarrow> 'a \<Rightarrow> bool) \<Rightarrow> 'a list \<Rightarrow> 'a \<Rightarrow> nat \<Rightarrow> nat \<Rightarrow> nat" where
  "lower_bound lt xs v first len =
     (if len = 0 then first
      else let half = len div 2 in
        if lt (xs ! (first + half)) v then lower_bound lt xs v (first + half + 1) (len - half - 1)
        else lower_bound lt xs v first half)"
  by pat_completeness auto
termination by (relation "measure (\<lambda>(_, _, _, _, len). len)") auto

declare lower_bound.simps [simp del]

definition binary_search :: "('a \<Rightarrow> 'a \<Rightarrow> bool) \<Rightarrow> 'a list \<Rightarrow> 'a \<Rightarrow> bool" where
  "binary_search lt xs v =
     (let i = lower_bound lt xs v 0 (length xs) in i < length xs \<and> \<not> lt v (xs ! i))"

text \<open>\<^verbatim>\<open>std::unique\<close> keeps the first element of every group of consecutive equivalent elements.\<close>

fun unique :: "('a \<Rightarrow> 'a \<Rightarrow> bool) \<Rightarrow> 'a list \<Rightarrow> 'a list" where
  "unique eq [] = []"
| "unique eq [x] = [x]"
| "unique eq (x # y # ys) = (if eq x y then unique eq (x # ys) else x # unique eq (y # ys))"

text \<open>
  \<^verbatim>\<open>std::sort\<close> by insertion. The order that \<^verbatim>\<open>std::sort\<close> gives equivalent elements is unspecified; here they
  keep theirs.
\<close>

fun std_insert :: "('a \<Rightarrow> 'a \<Rightarrow> bool) \<Rightarrow> 'a \<Rightarrow> 'a list \<Rightarrow> 'a list" where
  "std_insert lt x [] = [x]"
| "std_insert lt x (y # ys) = (if lt y x then y # std_insert lt x ys else x # y # ys)"

definition std_sort :: "('a \<Rightarrow> 'a \<Rightarrow> bool) \<Rightarrow> 'a list \<Rightarrow> 'a list" where
  "std_sort lt xs = foldr (std_insert lt) xs []"

lemma mset_std_insert: "mset (std_insert lt x xs) = add_mset x (mset xs)"
  by (induction xs) auto

lemma mset_std_sort [simp]: "mset (std_sort lt xs) = mset xs"
  by (induction xs) (simp_all add: std_sort_def mset_std_insert)

lemma set_std_sort [simp]: "set (std_sort lt xs) = set xs"
  by (rule mset_eq_setD) simp

section \<open>The contract of a comparator\<close>

lemma merge_induct [case_names left right step]:
  "(\<And>ys. P [] ys) \<Longrightarrow> (\<And>x xs. P (x # xs) []) \<Longrightarrow>
   (\<And>x xs y ys. P xs (y # ys) \<Longrightarrow> P (x # xs) ys \<Longrightarrow> P xs ys \<Longrightarrow> P (x # xs) (y # ys)) \<Longrightarrow> P xs ys"
  by induction_schema (pat_completeness, lexicographic_order)

lemma in_set_union: "z \<in> set (set_union lt xs ys) \<Longrightarrow> z \<in> set xs \<or> z \<in> set ys"
  by (induction xs ys rule: merge_induct) (auto split: if_splits)

lemma in_set_intersection: "z \<in> set (set_intersection lt xs ys) \<Longrightarrow> z \<in> set xs"
  by (induction xs ys rule: merge_induct) (auto split: if_splits)

lemma in_set_difference: "z \<in> set (set_difference lt xs ys) \<Longrightarrow> z \<in> set xs"
  by (induction xs ys rule: merge_induct) (auto split: if_splits)

lemma in_set_symmetric_difference: "z \<in> set (set_symmetric_difference lt xs ys) \<Longrightarrow> z \<in> set xs \<or> z \<in> set ys"
  by (induction xs ys rule: merge_induct) (auto split: if_splits)

lemma subset_add_mset_iff: "A \<subseteq># add_mset k B \<longleftrightarrow> A \<subseteq># B" if "k \<notin># A"
proof -
  have "count A a \<le> count (add_mset k B) a \<longleftrightarrow> count A a \<le> count B a" for a
    using that by (cases "a = k") (auto simp: not_in_iff)
  then show ?thesis by (simp only: subseteq_mset_def)
qed

locale comparator =
  fixes lt :: "'a \<Rightarrow> 'a \<Rightarrow> bool" and key :: "'a \<Rightarrow> 'k::linorder"
  assumes lt_key: "lt x y \<longleftrightarrow> key x < key y"
begin

lemma below_head:
  "sorted (map key (x # xs)) \<Longrightarrow> k < key x \<Longrightarrow> k \<notin># add_mset (key x) (image_mset key (mset xs))"
  by auto

lemma heads_apart:
  assumes "sorted (map key (x # xs))" "sorted (map key (y # ys))"
  shows "key x < key y \<Longrightarrow> count (image_mset key (mset ys)) (key x) = 0"
    and "key y < key x \<Longrightarrow> count (image_mset key (mset xs)) (key y) = 0"
  using below_head[OF assms(1), of "key y"] below_head[OF assms(2), of "key x"] by (auto simp: count_eq_zero_iff)

lemma union_keys:
  assumes "sorted (map key xs)" "sorted (map key ys)"
  shows "mset (map key (set_union lt xs ys)) = mset (map key xs) \<union># mset (map key ys)"
  using assms
proof (induction xs ys rule: merge_induct)
  case (step x xs y ys)
  note heads_apart[OF step(4,5)]
  then show ?case using step
    by (cases "key x" "key y" rule: linorder_cases) (auto simp: lt_key multiset_eq_iff max_def)
qed auto

lemma intersection_keys:
  assumes "sorted (map key xs)" "sorted (map key ys)"
  shows "mset (map key (set_intersection lt xs ys)) = mset (map key xs) \<inter># mset (map key ys)"
  using assms
proof (induction xs ys rule: merge_induct)
  case (step x xs y ys)
  note heads_apart[OF step(4,5)]
  then show ?case using step
    by (cases "key x" "key y" rule: linorder_cases) (auto simp: lt_key multiset_eq_iff min_def)
qed auto

lemma difference_keys:
  assumes "sorted (map key xs)" "sorted (map key ys)"
  shows "mset (map key (set_difference lt xs ys)) = mset (map key xs) - mset (map key ys)"
  using assms
proof (induction xs ys rule: merge_induct)
  case (step x xs y ys)
  note heads_apart[OF step(4,5)]
  then show ?case using step
    by (cases "key x" "key y" rule: linorder_cases) (auto simp: lt_key multiset_eq_iff)
qed auto

lemma symmetric_difference_keys:
  assumes "sorted (map key xs)" "sorted (map key ys)"
  shows "mset (map key (set_symmetric_difference lt xs ys)) =
    (mset (map key xs) - mset (map key ys)) + (mset (map key ys) - mset (map key xs))"
  using assms
proof (induction xs ys rule: merge_induct)
  case (step x xs y ys)
  note heads_apart[OF step(4,5)]
  then show ?case using step
    by (cases "key x" "key y" rule: linorder_cases) (auto simp: lt_key multiset_eq_iff)
qed auto

lemma includes_keys:
  assumes "sorted (map key xs)" "sorted (map key ys)"
  shows "includes_all lt xs ys \<longleftrightarrow> mset (map key ys) \<subseteq># mset (map key xs)"
  using assms
proof (induction xs ys rule: merge_induct)
  case (right x xs)
  then show ?case by simp
next
  case (step x xs y ys)
  have x: "key x < key y \<Longrightarrow> key x \<notin># add_mset (key y) (image_mset key (mset ys))"
    and y: "key y < key x \<Longrightarrow> key y \<notin># add_mset (key x) (image_mset key (mset xs))"
    using below_head[OF step(4), of "key y"] below_head[OF step(5), of "key x"] by simp_all
  show ?case
  proof (cases "key x" "key y" rule: linorder_cases)
    case less
    have "add_mset (key y) (image_mset key (mset ys)) \<subseteq># add_mset (key x) (image_mset key (mset xs)) \<longleftrightarrow>
      add_mset (key y) (image_mset key (mset ys)) \<subseteq># image_mset key (mset xs)"
      by (rule subset_add_mset_iff) (rule x[OF less])
    then show ?thesis using less step by (auto simp: lt_key)
  next
    case greater
    then show ?thesis using y by (auto simp: lt_key dest: mset_subset_eqD)
  qed (use step in \<open>simp add: lt_key\<close>)
qed (case_tac ys, simp_all)

lemma sorted_union: "sorted (map key xs) \<Longrightarrow> sorted (map key ys) \<Longrightarrow> sorted (map key (set_union lt xs ys))"
  by (induction xs ys rule: merge_induct) (fastforce simp: lt_key dest: in_set_union)+

lemma sorted_intersection:
  "sorted (map key xs) \<Longrightarrow> sorted (map key ys) \<Longrightarrow> sorted (map key (set_intersection lt xs ys))"
  by (induction xs ys rule: merge_induct) (fastforce simp: lt_key dest: in_set_intersection)+

lemma sorted_difference:
  "sorted (map key xs) \<Longrightarrow> sorted (map key ys) \<Longrightarrow> sorted (map key (set_difference lt xs ys))"
  by (induction xs ys rule: merge_induct) (fastforce simp: lt_key dest: in_set_difference)+

lemma sorted_symmetric_difference:
  "sorted (map key xs) \<Longrightarrow> sorted (map key ys) \<Longrightarrow> sorted (map key (set_symmetric_difference lt xs ys))"
  by (induction xs ys rule: merge_induct) (fastforce simp: lt_key dest: in_set_symmetric_difference)+

lemma lower_bound_splits:
  assumes "sorted (map key xs)" "first + len \<le> length xs"
  shows "first \<le> lower_bound lt xs v first len \<and> lower_bound lt xs v first len \<le> first + len \<and>
    (\<forall>j. first \<le> j \<and> j < lower_bound lt xs v first len \<longrightarrow> key (xs ! j) < key v) \<and>
    (\<forall>j. lower_bound lt xs v first len \<le> j \<and> j < first + len \<longrightarrow> key v \<le> key (xs ! j))"
  using assms(2)
proof (induction len arbitrary: first rule: less_induct)
  case (less len)
  show ?case
  proof (cases "len = 0")
    case True
    then show ?thesis by (auto simp: lower_bound.simps)
  next
    case False
    define half where "half = len div 2"
    have h: "half < len" "first + half < length xs" using False less(2) by (auto simp: half_def)
    have mono: "i \<le> j \<Longrightarrow> j < length xs \<Longrightarrow> key (xs ! i) \<le> key (xs ! j)" for i j
      using sorted_nth_mono[OF assms(1), of i j] by simp
    show ?thesis
    proof (cases "key (xs ! (first + half)) < key v")
      case True
      define m where "m = lower_bound lt xs v (first + half + 1) (len - half - 1)"
      have e: "lower_bound lt xs v first len = m"
        using True False by (subst lower_bound.simps) (simp add: lt_key half_def m_def Let_def)
      have "key (xs ! j) < key v" if "first \<le> j" "j \<le> first + half" for j
        using mono[of j "first + half"] that h True by auto
      then show ?thesis unfolding e
        using less(1)[of "len - half - 1" "first + half + 1"] h less(2) unfolding m_def[symmetric]
        by (auto simp: Suc_le_eq) (metis not_less)
    next
      case False
      define m where "m = lower_bound lt xs v first half"
      have e: "lower_bound lt xs v first len = m"
        using False \<open>len \<noteq> 0\<close> by (subst lower_bound.simps) (simp add: lt_key half_def m_def Let_def)
      have "key v \<le> key (xs ! j)" if "first + half \<le> j" "j < first + len" for j
        using mono[of "first + half" j] that less(2) False by auto
      then show ?thesis unfolding e
        using less(1)[of half first] h less(2) unfolding m_def[symmetric] by (auto) (metis not_less)
    qed
  qed
qed

lemma binary_search_iff:
  assumes "sorted (map key xs)"
  shows "binary_search lt xs v \<longleftrightarrow> key v \<in> key ` set xs"
proof -
  define m where "m = lower_bound lt xs v 0 (length xs)"
  have m: "m \<le> length xs" "\<And>j. j < m \<Longrightarrow> key (xs ! j) < key v" "\<And>j. m \<le> j \<Longrightarrow> j < length xs \<Longrightarrow> key v \<le> key (xs ! j)"
    using lower_bound_splits[OF assms, of 0 "length xs" v] by (auto simp: m_def)
  have "m < length xs \<and> \<not> key v < key (xs ! m)" if j: "j < length xs" "key (xs ! j) = key v" for j
  proof -
    have "m \<le> j" using m(2)[of j] j by (metis less_irrefl not_less)
    then show ?thesis using sorted_nth_mono[OF assms, of m j] j by auto
  qed
  moreover have "key v = key (xs ! m)" if "m < length xs" "\<not> key v < key (xs ! m)"
    using m(3)[of m] that by auto
  ultimately show ?thesis
    unfolding binary_search_def Let_def m_def[symmetric] lt_key
    by (metis (no_types, lifting) imageE imageI in_set_conv_nth)
qed

lemma unique_keys:
  assumes "\<And>x y. eq x y \<longleftrightarrow> key x = key y"
  shows "sorted (map key xs) \<Longrightarrow> sorted (map key (unique eq xs)) \<and> distinct (map key (unique eq xs)) \<and>
    key ` set (unique eq xs) = key ` set xs"
proof (induction "length xs" arbitrary: xs)
  case 0
  then show ?case by simp
next
  case (Suc n)
  then obtain x zs where xs: "xs = x # zs" by (cases xs) auto
  show ?case
  proof (cases zs)
    case (Cons y ys)
    show ?thesis
      using Suc(1)[of "x # ys"] Suc(1)[of "y # ys"] Suc(2,3) by (auto simp: xs Cons assms)
  qed (simp add: xs)
qed

lemma sorted_std_sort: "sorted (map key (std_sort lt xs))"
proof -
  have set: "set (std_insert lt x ys) = insert x (set ys)" for x ys by (induction ys) auto
  have "sorted (map key ys) \<Longrightarrow> sorted (map key (std_insert lt x ys))" for x ys
    by (induction ys) (auto simp: lt_key set)
  then show ?thesis by (induction xs) (simp_all add: std_sort_def)
qed

end

end
