(* ===== verification/Key_Set.thy ===== *)
theory Key_Set imports Key_Range Sorted_Algorithms begin

text \<open>
  Sets of points (\<^verbatim>\<open>sql_types/key_set.h\<close>): a vector of values with a flag that says whether it is sorted
  by key; the operations sort it when they need to. Its two friends in \<^verbatim>\<open>sql_types/key_range.cpp\<close>
  keep the points that a range contains.

  The abstraction \<open>ks_keys\<close> of a point set is the multiset of its keys, and the invariant \<open>ks_inv\<close> is that the
  flag tells the truth. \<^verbatim>\<open>std::sort\<close> is the stable \<^const>\<open>sort_key\<close>: the standard leaves the order
  of points with equal keys open, and the lemmas speak of keys only. Two points have one key when they are equal
  up to the width of their integer type.
\<close>

section \<open>Representation\<close>

definition value_key_less :: "Value \<Rightarrow> Value \<Rightarrow> bool" where
  "value_key_less a b \<longleftrightarrow> to_key a < to_key b"

definition value_key_equal :: "Value \<Rightarrow> Value \<Rightarrow> bool" where
  "value_key_equal a b \<longleftrightarrow> to_key a = to_key b"

record KeySet =
  ks_points :: "Value list"
  ks_sorted :: bool

definition key_set :: "Value list \<Rightarrow> KeySet" where
  "key_set vs = \<lparr> ks_points = vs, ks_sorted = False \<rparr>"

text \<open>The private constructor of the results that are known to be sorted.\<close>

definition sorted_key_set :: "Value list \<Rightarrow> KeySet" where
  "sorted_key_set vs = \<lparr> ks_points = vs, ks_sorted = True \<rparr>"

definition ensure_sorted :: "KeySet \<Rightarrow> KeySet" where
  "ensure_sorted s =
     (if \<not> ks_sorted s \<and> length (ks_points s) > 1
      then \<lparr> ks_points = sort_key to_key (ks_points s), ks_sorted = True \<rparr> else s)"

definition points_const :: "KeySet \<Rightarrow> Value list" where
  "points_const s = ks_points (ensure_sorted s)"

section \<open>Updates\<close>

definition ks_add :: "Value \<Rightarrow> KeySet \<Rightarrow> KeySet" where
  "ks_add v s =
     (if list_all (\<lambda>x. \<not> value_key_equal x v) (ks_points s)
      then \<lparr> ks_points = ks_points s @ [v], ks_sorted = False \<rparr> else s)"

definition ks_add_all :: "Value list \<Rightarrow> KeySet \<Rightarrow> KeySet" where
  "ks_add_all vs s = fold ks_add vs s"

fun erase_first :: "Value \<Rightarrow> Value list \<Rightarrow> Value list option" where
  "erase_first v [] = None"
| "erase_first v (x # xs) = (if value_key_equal x v then Some xs else map_option (\<lambda>ys. x # ys) (erase_first v xs))"

definition ks_remove :: "Value \<Rightarrow> KeySet \<Rightarrow> bool \<times> KeySet" where
  "ks_remove v s =
     (case erase_first v (ks_points s) of
        Some ps \<Rightarrow> (True, s\<lparr>ks_points := ps\<rparr>)
      | None \<Rightarrow> (False, s))"

definition ks_clear :: "KeySet \<Rightarrow> KeySet" where
  "ks_clear s = \<lparr> ks_points = [], ks_sorted = True \<rparr>"

definition ks_sort :: "KeySet \<Rightarrow> KeySet" where
  "ks_sort s = \<lparr> ks_points = sort_key to_key (ks_points s), ks_sorted = True \<rparr>"

definition ks_normalize :: "KeySet \<Rightarrow> KeySet" where
  "ks_normalize s = \<lparr> ks_points = unique value_key_equal (ks_points (ks_sort s)), ks_sorted = True \<rparr>"

definition ks_min :: "KeySet \<Rightarrow> cpp_exn + Value" where
  "ks_min s = (if ks_points s = [] then Inl Runtime_Error else Inr (hd (points_const s)))"

definition ks_max :: "KeySet \<Rightarrow> cpp_exn + Value" where
  "ks_max s = (if ks_points s = [] then Inl Runtime_Error else Inr (last (points_const s)))"

section \<open>Set operations and queries\<close>

definition ks_unite :: "KeySet \<Rightarrow> KeySet \<Rightarrow> KeySet" where
  "ks_unite a b = sorted_key_set (set_union value_key_less (points_const a) (points_const b))"

definition ks_intersect :: "KeySet \<Rightarrow> KeySet \<Rightarrow> KeySet" where
  "ks_intersect a b = sorted_key_set (set_intersection value_key_less (points_const a) (points_const b))"

definition ks_subtract :: "KeySet \<Rightarrow> KeySet \<Rightarrow> KeySet" where
  "ks_subtract a b = sorted_key_set (set_difference value_key_less (points_const a) (points_const b))"

definition ks_symmetric_difference :: "KeySet \<Rightarrow> KeySet \<Rightarrow> KeySet" where
  "ks_symmetric_difference a b =
     sorted_key_set (set_symmetric_difference value_key_less (points_const a) (points_const b))"

definition ks_contains :: "KeySet \<Rightarrow> Value \<Rightarrow> bool" where
  "ks_contains s v = (if ks_points s = [] then False else binary_search value_key_less (points_const s) v)"

definition ks_contains_all :: "KeySet \<Rightarrow> KeySet \<Rightarrow> bool" where
  "ks_contains_all a b =
     (if ks_points b = [] then True else includes_all value_key_less (points_const a) (points_const b))"

definition ks_contains_any :: "KeySet \<Rightarrow> KeySet \<Rightarrow> bool" where
  "ks_contains_any a b =
     (if ks_points a = [] \<or> ks_points b = [] then False
      else set_intersection value_key_less (points_const a) (points_const b) \<noteq> [])"

definition ks_equals :: "KeySet \<Rightarrow> KeySet \<Rightarrow> bool" where
  "ks_equals a b =
     (if length (ks_points a) \<noteq> length (ks_points b) then False
      else list_all2 value_key_equal (points_const a) (points_const b))"

definition ks_all_int :: "KeySet \<Rightarrow> bool" where
  "ks_all_int s = list_all v_is_int (points_const s)"

definition ks_all_string :: "KeySet \<Rightarrow> bool" where
  "ks_all_string s = list_all v_is_string (points_const s)"

definition ks_data_type :: "KeySet \<Rightarrow> DataType" where
  "ks_data_type s = (if ks_points s = [] then UNKNOWN_TYPE else vtype (hd (ks_points s)))"

section \<open>Points and ranges\<close>

text \<open>\<^verbatim>\<open>as_int\<close> does not throw here, since all points are integers; the difference wraps.\<close>

fun contiguous :: "Value list \<Rightarrow> bool" where
  "contiguous (x # y # ys) = (get_int 0 y - get_int 0 x = 1 \<and> contiguous (y # ys))"
| "contiguous _ = True"

definition ks_to_range :: "KeySet \<Rightarrow> KeyRange option" where
  "ks_to_range s =
     (if ks_points s = [] then Some (range_empty UNKNOWN_TYPE)
      else if \<not> ks_all_int s then None
      else let ps = points_const s in
        if \<not> contiguous ps then None else Some (range_closed (hd ps) (last ps)))"

fun split_runs :: "Value \<Rightarrow> Value \<Rightarrow> Value list \<Rightarrow> KeyRange list" where
  "split_runs start current [] = [range_closed start current]"
| "split_runs start current (p # ps) =
     (if get_int 0 p - get_int 0 current \<noteq> 1 then range_closed start current # split_runs p p ps
      else split_runs start p ps)"

definition ks_to_ranges :: "KeySet \<Rightarrow> KeyRange list" where
  "ks_to_ranges s =
     (if ks_points s = [] then []
      else if \<not> ks_all_int s then []
      else let ps = points_const s in split_runs (hd ps) (hd ps) (tl ps))"

definition intersects_set :: "KeyRange \<Rightarrow> KeySet \<Rightarrow> bool" where
  "intersects_set r s = list_ex (range_contains r) (points_const s)"

definition filter_set :: "KeyRange \<Rightarrow> KeySet \<Rightarrow> KeySet" where
  "filter_set r s = fold (\<lambda>v res. if range_contains r v then ks_add v res else res) (points_const s) (key_set [])"

definition ks_is_intersect :: "KeySet \<Rightarrow> KeyRange \<Rightarrow> bool" where
  "ks_is_intersect s r = (if ks_points s = [] \<or> range_is_empty r then False else intersects_set r (ensure_sorted s))"

definition ks_filter :: "KeySet \<Rightarrow> KeyRange \<Rightarrow> KeySet" where
  "ks_filter s r = (if ks_points s = [] \<or> range_is_empty r then key_set [] else filter_set r (ensure_sorted s))"

section \<open>Abstraction and invariant\<close>

definition ks_keys :: "KeySet \<Rightarrow> Key multiset" where
  "ks_keys s = mset (map to_key (ks_points s))"

definition ks_inv :: "KeySet \<Rightarrow> bool" where
  "ks_inv s \<longleftrightarrow> (ks_sorted s \<longrightarrow> sorted (map to_key (ks_points s)))"

interpretation key_cmp: comparator value_key_less to_key
  by unfold_locales (simp add: value_key_less_def)

lemma points_const_keys [simp]: "image_mset to_key (mset (points_const s)) = ks_keys s"
  by (simp add: points_const_def ensure_sorted_def ks_keys_def)

lemma set_points_const [simp]: "set (points_const s) = set (ks_points s)"
  by (simp add: points_const_def ensure_sorted_def)

lemma length_points_const [simp]: "length (points_const s) = length (ks_points s)"
  by (simp add: points_const_def ensure_sorted_def)

lemma points_const_Nil [simp]: "points_const s = [] \<longleftrightarrow> ks_points s = []"
  by (metis length_points_const length_0_conv)

lemma sorted_points: "ks_inv s \<Longrightarrow> sorted (map to_key (points_const s))"
  by (auto simp: points_const_def ensure_sorted_def ks_inv_def intro: sorted01)

lemma ensure_sorted_idem [simp]: "points_const (ensure_sorted s) = points_const s"
  by (simp add: points_const_def ensure_sorted_def)

lemma sorted_key_set_abs: "ks_keys (sorted_key_set xs) = mset (map to_key xs)" "ks_inv (sorted_key_set xs) \<longleftrightarrow> sorted (map to_key xs)"
  by (simp_all add: sorted_key_set_def ks_keys_def ks_inv_def)

lemma inv_ensure_sorted: "ks_inv s \<Longrightarrow> ks_inv (ensure_sorted s)"
  by (simp add: ensure_sorted_def ks_inv_def)

lemma keys_Nil: "ks_keys s = {#} \<longleftrightarrow> ks_points s = []"
  by (simp add: ks_keys_def)

lemma set_algebra:
  assumes "ks_inv a" "ks_inv b"
  shows "ks_keys (ks_unite a b) = ks_keys a \<union># ks_keys b" "ks_inv (ks_unite a b)"
    and "ks_keys (ks_intersect a b) = ks_keys a \<inter># ks_keys b" "ks_inv (ks_intersect a b)"
    and "ks_keys (ks_subtract a b) = ks_keys a - ks_keys b" "ks_inv (ks_subtract a b)"
    and "ks_keys (ks_symmetric_difference a b) = (ks_keys a - ks_keys b) + (ks_keys b - ks_keys a)"
      "ks_inv (ks_symmetric_difference a b)"
proof -
  note s = sorted_points[OF assms(1)] sorted_points[OF assms(2)]
  show "ks_keys (ks_unite a b) = ks_keys a \<union># ks_keys b" "ks_inv (ks_unite a b)"
    using key_cmp.union_keys[OF s] key_cmp.sorted_union[OF s] by (simp_all add: ks_unite_def sorted_key_set_abs)
  show "ks_keys (ks_intersect a b) = ks_keys a \<inter># ks_keys b" "ks_inv (ks_intersect a b)"
    using key_cmp.intersection_keys[OF s] key_cmp.sorted_intersection[OF s]
    by (simp_all add: ks_intersect_def sorted_key_set_abs)
  show "ks_keys (ks_subtract a b) = ks_keys a - ks_keys b" "ks_inv (ks_subtract a b)"
    using key_cmp.difference_keys[OF s] key_cmp.sorted_difference[OF s]
    by (simp_all add: ks_subtract_def sorted_key_set_abs)
  show "ks_keys (ks_symmetric_difference a b) = (ks_keys a - ks_keys b) + (ks_keys b - ks_keys a)"
    "ks_inv (ks_symmetric_difference a b)"
    using key_cmp.symmetric_difference_keys[OF s] key_cmp.sorted_symmetric_difference[OF s]
    by (simp_all add: ks_symmetric_difference_def sorted_key_set_abs)
qed

lemma contains_keys: "ks_inv s \<Longrightarrow> ks_contains s v \<longleftrightarrow> to_key v \<in># ks_keys s"
  using key_cmp.binary_search_iff[OF sorted_points, of s v] by (auto simp: ks_contains_def ks_keys_def)

lemma contains_all_keys: "ks_inv a \<Longrightarrow> ks_inv b \<Longrightarrow> ks_contains_all a b \<longleftrightarrow> ks_keys b \<subseteq># ks_keys a"
  using key_cmp.includes_keys[OF sorted_points sorted_points, of a b] by (auto simp: ks_contains_all_def ks_keys_def[of b])

lemma contains_any_keys: "ks_inv a \<Longrightarrow> ks_inv b \<Longrightarrow> ks_contains_any a b \<longleftrightarrow> ks_keys a \<inter># ks_keys b \<noteq> {#}"
proof -
  assume "ks_inv a" "ks_inv b"
  then have "image_mset to_key (mset (set_intersection value_key_less (points_const a) (points_const b))) = ks_keys a \<inter># ks_keys b"
    using key_cmp.intersection_keys[OF sorted_points sorted_points, of a b] by simp
  then have "set_intersection value_key_less (points_const a) (points_const b) = [] \<longleftrightarrow> ks_keys a \<inter># ks_keys b = {#}"
    by (metis image_mset_is_empty_iff mset_zero_iff)
  then show ?thesis using keys_Nil[of a] keys_Nil[of b] by (auto simp: ks_contains_any_def)
qed

lemma equals_keys: "ks_inv a \<Longrightarrow> ks_inv b \<Longrightarrow> ks_equals a b \<longleftrightarrow> ks_keys a = ks_keys b"
proof -
  assume ab: "ks_inv a" "ks_inv b"
  have "list_all2 value_key_equal xs ys \<longleftrightarrow> map to_key xs = map to_key ys" for xs ys
    by (induction xs arbitrary: ys) (auto simp: value_key_equal_def list_all2_Cons1 Cons_eq_map_conv)
  moreover have "ks_keys a = ks_keys b \<longleftrightarrow> map to_key (points_const a) = map to_key (points_const b)"
    using sorted_points[OF ab(1)] sorted_points[OF ab(2)] properties_for_sort[of "map to_key (points_const a)"]
    by (metis mset_map points_const_keys sorted_sort_id)
  moreover have "ks_keys a = ks_keys b \<Longrightarrow> length (ks_points a) = length (ks_points b)"
    by (metis ks_keys_def length_map size_mset)
  ultimately show ?thesis by (auto simp: ks_equals_def)
qed

lemma add_keys:
  "ks_keys (ks_add v s) = (if to_key v \<in># ks_keys s then ks_keys s else add_mset (to_key v) (ks_keys s))"
  "ks_inv s \<Longrightarrow> ks_inv (ks_add v s)"
  by (auto simp: ks_add_def ks_keys_def ks_inv_def list_all_iff value_key_equal_def intro: rev_image_eqI)

lemma erase_first_keys:
  "(case erase_first v xs of
      Some ys \<Rightarrow> to_key v \<in># mset (map to_key xs) \<and> mset (map to_key xs) = add_mset (to_key v) (mset (map to_key ys)) \<and>
        set ys \<subseteq> set xs \<and> (sorted (map to_key xs) \<longrightarrow> sorted (map to_key ys))
    | None \<Rightarrow> to_key v \<notin># mset (map to_key xs))"
  by (induction xs) (auto simp: value_key_equal_def split: option.splits)

lemma remove_keys:
  "fst (ks_remove v s) \<longleftrightarrow> to_key v \<in># ks_keys s"
  "ks_keys (snd (ks_remove v s)) = ks_keys s - {#to_key v#}"
  "ks_inv s \<Longrightarrow> ks_inv (snd (ks_remove v s))"
  using erase_first_keys[of v "ks_points s"]
  by (auto simp: ks_remove_def ks_keys_def ks_inv_def diff_single_trivial split: option.splits)

lemma normalize_keys: "ks_keys (ks_normalize s) = mset_set (set_mset (ks_keys s))" "ks_inv (ks_normalize s)"
proof -
  have u: "sorted (map to_key (ks_points (ks_normalize s)))" "distinct (map to_key (ks_points (ks_normalize s)))"
    "to_key ` set (ks_points (ks_normalize s)) = to_key ` set (ks_points s)"
    using key_cmp.unique_keys[of value_key_equal "sort_key to_key (ks_points s)"]
    by (simp_all add: ks_normalize_def ks_sort_def value_key_equal_def)
  then show "ks_inv (ks_normalize s)" by (simp add: ks_inv_def)
  show "ks_keys (ks_normalize s) = mset_set (set_mset (ks_keys s))"
    using u(2,3) mset_set_set[OF u(2)] by (simp add: ks_keys_def)
qed

lemma min_max_keys:
  assumes "ks_inv s"
  shows "ks_min s = Inr v \<Longrightarrow> v \<in> set (ks_points s) \<and> (\<forall>k \<in># ks_keys s. to_key v \<le> k)"
    and "ks_max s = Inr v \<Longrightarrow> v \<in> set (ks_points s) \<and> (\<forall>k \<in># ks_keys s. k \<le> to_key v)"
proof -
  have K: "set_mset (ks_keys s) = to_key ` set (points_const s)" by (simp flip: points_const_keys)
  show "ks_min s = Inr v \<Longrightarrow> v \<in> set (ks_points s) \<and> (\<forall>k \<in># ks_keys s. to_key v \<le> k)"
    using sorted_points[OF assms] set_points_const[of s] unfolding K
    by (cases "points_const s") (auto simp: ks_min_def split: if_splits)
  show "ks_max s = Inr v \<Longrightarrow> v \<in> set (ks_points s) \<and> (\<forall>k \<in># ks_keys s. k \<le> to_key v)"
    using sorted_points[OF assms] set_points_const[of s] unfolding K
    by (cases "points_const s" rule: rev_cases) (auto simp: ks_max_def sorted_append split: if_splits)
qed

section \<open>Points and ranges\<close>

lemma fold_add_keys:
  "set_mset (ks_keys (fold (\<lambda>v res. if P v then ks_add v res else res) vs s)) =
     set_mset (ks_keys s) \<union> to_key ` {v \<in> set vs. P v}"
  "ks_inv s \<Longrightarrow> ks_inv (fold (\<lambda>v res. if P v then ks_add v res else res) vs s)"
  by (induction vs arbitrary: s) (auto simp: add_keys)

lemma intersects_iff: "ks_is_intersect s r \<longleftrightarrow> (\<exists>v \<in> set (ks_points s). range_contains r v)"
  by (auto simp: ks_is_intersect_def intersects_set_def list_ex_iff)

lemma filter_keys: "set_mset (ks_keys (ks_filter s r)) = to_key ` {v \<in> set (ks_points s). range_contains r v}"
  by (auto simp: ks_filter_def filter_set_def fold_add_keys(1) key_set_def ks_keys_def[of "\<lparr>ks_points = [], ks_sorted = _\<rparr>"])

lemma filter_inv: "ks_inv (ks_filter s r)"
  by (auto simp: ks_filter_def filter_set_def key_set_def ks_inv_def[of "\<lparr>ks_points = [], ks_sorted = _\<rparr>"]
      intro!: fold_add_keys(2))

lemma closed_contains:
  assumes "u \<noteq> NullV" "tag_of (vtype u) = tag_of t" "v \<noteq> NullV" "tag_of (vtype v) = tag_of t"
    and t: "tag_of t \<noteq> kTagNull" and w: "in_family t w"
  shows "range_contains (range_closed u v) w \<longleftrightarrow> w \<noteq> NullV \<and> to_key u \<le> to_key w \<and> to_key w \<le> to_key v"
proof -
  have "range_ok t (range_closed u v)" using assms by (simp add: range_ok_def in_family_def range_closed_def)
  from contains_iff[OF this t w] range_ok_keys[OF this t]
  have "range_contains (range_closed u v) w \<longleftrightarrow> to_key u \<le> to_key_col w t \<and> to_key_col w t \<le> to_key v"
    using assms by (simp add: above_def below_def bound_key_def range_closed_def less_snoc_zero)
  moreover have "to_key_col NullV t < to_key u" using null_key_less[OF t, of u] assms by (simp add: in_family_def)
  ultimately show ?thesis using w by (cases "w = NullV") auto
qed

definition int_of_value :: "Value \<Rightarrow> int" where
  "int_of_value v = sint (get_int 0 v)"

lemma not_integer: "\<not> is_integer NULL_TYPE" "\<not> is_integer BOOLEAN"
  by (simp_all add: is_integer_def)

lemma v_is_intE:
  assumes "v_is_int v" obtains k i where "v = IntV k i" "int_of_value v = sint i"
proof (cases v)
  case (IntV k i)
  then show thesis by (intro that) (simp_all add: int_of_value_def get_int_def)
qed (use assms in \<open>simp_all add: v_is_int_def not_integer\<close>)

lemma int_values:
  assumes "v_is_int u" "v_is_int v"
  shows "to_key u < to_key v \<longleftrightarrow> int_of_value u < int_of_value v"
    and "to_key u \<le> to_key v \<longleftrightarrow> int_of_value u \<le> int_of_value v"
    and "to_key u = to_key v \<longleftrightarrow> int_of_value u = int_of_value v"
proof -
  obtain k i l j where uv: "u = IntV k i" "int_of_value u = sint i" "v = IntV l j" "int_of_value v = sint j"
    using assms by (metis v_is_intE)
  then show *: "to_key u < to_key v \<longleftrightarrow> int_of_value u < int_of_value v"
    and "to_key u = to_key v \<longleftrightarrow> int_of_value u = int_of_value v"
    by (simp_all only: to_key_less_iff to_key_eq_iff value_before.simps same_content.simps sint_inject)
  then show "to_key u \<le> to_key v \<longleftrightarrow> int_of_value u \<le> int_of_value v" by (simp only: le_less)
qed

lemma int_step:
  assumes "v_is_int u" "v_is_int v" "int_of_value u \<le> int_of_value v" "get_int 0 v - get_int 0 u = 1"
  shows "int_of_value v = int_of_value u + 1"
proof -
  have "int_of_value u \<noteq> int_of_value v" using assms(4) by (auto simp: int_of_value_def sint_inject)
  then show ?thesis using sint_succ_of_less[of "get_int 0 u" "get_int 0 v"] assms by (simp add: int_of_value_def)
qed

lemma closed_int:
  assumes "v_is_int u" "v_is_int v" "w = NullV \<or> v_is_int w"
  shows "range_contains (range_closed u v) w \<longleftrightarrow>
    w \<noteq> NullV \<and> int_of_value u \<le> int_of_value w \<and> int_of_value w \<le> int_of_value v"
proof -
  have tag: "x \<noteq> NullV \<and> tag_of (vtype x) = kTagInt64" if "v_is_int x" for x
    using that by (rule v_is_intE) simp
  have "tag_of BIGINT = kTagInt64" by (simp add: tag_of_def type_family_defs)
  then show ?thesis
    using closed_contains[of u BIGINT v w] tag[OF assms(1)] tag[OF assms(2)] assms(3) tag[of w]
      int_values(2)[OF assms(1), of w] int_values(2)[of w v] assms(1,2)
    by (auto simp: in_family_def tag_defs)
qed

lemma split_runs_contains:
  assumes "list_all v_is_int (start # current # ps)" "sorted (map int_of_value (current # ps))"
    and "int_of_value start \<le> int_of_value current" "w = NullV \<or> v_is_int w"
  shows "list_ex (\<lambda>r. range_contains r w) (split_runs start current ps) \<longleftrightarrow>
    w \<noteq> NullV \<and> (int_of_value start \<le> int_of_value w \<and> int_of_value w \<le> int_of_value current \<or>
      int_of_value w \<in> int_of_value ` set ps)"
  using assms(1-3)
proof (induction ps arbitrary: start current)
  case Nil
  then show ?case using assms(4) by (simp add: closed_int)
next
  case (Cons p ps)
  show ?case
  proof (cases "get_int 0 p - get_int 0 current = 1")
    case True
    then have "int_of_value p = int_of_value current + 1" using Cons(2,3) by (intro int_step) auto
    then show ?thesis using Cons True by auto
  next
    case False
    then show ?thesis using Cons assms(4) by (auto simp: closed_int)
  qed
qed

lemma int_points:
  assumes "ks_all_int s" "ks_inv s"
  shows "sorted (map int_of_value (points_const s))"
proof -
  have "list_all v_is_int xs \<Longrightarrow> sorted (map to_key xs) \<Longrightarrow> sorted (map int_of_value xs)" for xs
    by (induction xs) (auto simp: list_all_iff int_values)
  then show ?thesis using sorted_points[OF assms(2)] assms(1) by (simp add: ks_all_int_def)
qed

lemma to_ranges_contains:
  assumes "ks_inv s" "ks_all_int s" "w = NullV \<or> v_is_int w"
  shows "list_ex (\<lambda>r. range_contains r w) (ks_to_ranges s) \<longleftrightarrow> w \<noteq> NullV \<and> to_key w \<in># ks_keys s"
proof (cases "points_const s")
  case Nil
  then show ?thesis by (simp add: ks_to_ranges_def ks_keys_def)
next
  case (Cons p ps)
  have i: "list_all v_is_int (p # ps)" using assms(2) by (simp add: ks_all_int_def Cons)
  have "list_ex (\<lambda>r. range_contains r w) (ks_to_ranges s) \<longleftrightarrow> w \<noteq> NullV \<and> int_of_value w \<in> int_of_value ` set (p # ps)"
    using split_runs_contains[of p p ps w] i int_points[OF assms(2,1)] assms(2,3) Cons points_const_Nil[of s]
    by (auto simp: ks_to_ranges_def)
  moreover have "w \<noteq> NullV \<Longrightarrow> int_of_value w \<in> int_of_value ` set (p # ps) \<longleftrightarrow> to_key w \<in> to_key ` set (p # ps)"
    using i assms(3) by (auto simp: image_iff list_all_iff int_values)
  moreover have "set_mset (ks_keys s) = to_key ` set (p # ps)" using Cons by (simp flip: points_const_keys)
  ultimately show ?thesis by auto
qed

lemma contiguous_runs:
  "list_all v_is_int (x # xs) \<Longrightarrow> contiguous (x # xs) \<Longrightarrow> split_runs start x xs = [range_closed start (last (x # xs))]"
  by (induction xs arbitrary: x) auto

lemma to_range_contains:
  assumes "ks_inv s" "ks_all_int s" "w = NullV \<or> v_is_int w" "ks_to_range s = Some r"
  shows "range_contains r w \<longleftrightarrow> w \<noteq> NullV \<and> to_key w \<in># ks_keys s"
proof (cases "points_const s")
  case Nil
  then show ?thesis using assms(4) by (auto simp: ks_to_range_def ks_keys_def)
next
  case (Cons p ps)
  then have "ks_to_ranges s = [r]" using assms(2,4) contiguous_runs[of p ps p] points_const_Nil[of s]
    by (auto simp: ks_to_range_def ks_to_ranges_def ks_all_int_def Let_def split: if_splits)
  then show ?thesis using to_ranges_contains[OF assms(1-3)] by simp
qed

section \<open>Properties\<close>

text \<open>
  C17: point sets refine multisets of keys. While the sorted flag tells the truth, the set operations are
  the multiset operations on the keys and keep the flag true; the binary search, the
  inclusion test, the overlap test and the equality test decide membership, inclusion, overlap and equality;
  adding inserts a key once and removing takes one occurrence away.
\<close>

theorem key_set_refines_multiset:
  assumes "ks_inv a" and "ks_inv b"
  shows "ks_keys (ks_unite a b) = ks_keys a \<union># ks_keys b \<and> ks_inv (ks_unite a b) \<and>
    ks_keys (ks_intersect a b) = ks_keys a \<inter># ks_keys b \<and> ks_inv (ks_intersect a b) \<and>
    ks_keys (ks_subtract a b) = ks_keys a - ks_keys b \<and> ks_inv (ks_subtract a b) \<and>
    ks_keys (ks_symmetric_difference a b) = (ks_keys a - ks_keys b) + (ks_keys b - ks_keys a) \<and>
    (ks_contains a v \<longleftrightarrow> to_key v \<in># ks_keys a) \<and>
    (ks_contains_all a b \<longleftrightarrow> ks_keys b \<subseteq># ks_keys a) \<and>
    (ks_contains_any a b \<longleftrightarrow> ks_keys a \<inter># ks_keys b \<noteq> {#}) \<and>
    (ks_equals a b \<longleftrightarrow> ks_keys a = ks_keys b) \<and>
    ks_keys (ks_add v a) = (if to_key v \<in># ks_keys a then ks_keys a else add_mset (to_key v) (ks_keys a)) \<and>
    ks_inv (ks_add v a) \<and>
    ks_keys (snd (ks_remove v a)) = ks_keys a - {#to_key v#} \<and> ks_inv (snd (ks_remove v a))"
  using set_algebra[OF assms] contains_keys[OF assms(1)] contains_all_keys[OF assms] contains_any_keys[OF assms]
    equals_keys[OF assms] add_keys(1)[of v a] add_keys(2)[of a v] remove_keys(2)[of v a] remove_keys(3)[of a v] assms
  by simp

theorem key_set_refines_multiset_witness:
  "ks_contains (key_set [IntV K_INT 3, IntV K_INT 1, IntV K_INT 2]) (IntV K_BIGINT 1)"
proof -
  have "ks_inv (key_set xs)" for xs by (simp add: ks_inv_def key_set_def)
  from key_set_refines_multiset[OF this this, where v = "IntV K_BIGINT 1"] show ?thesis
    by (simp add: ks_keys_def key_set_def)
qed

text \<open>
  Splitting a set of integer points into ranges of consecutive integers keeps exactly its points, and so
  does the single range of a contiguous set. The difference of neighbours is taken in 64 bits; on a sorted
  set a wrapped difference is never 1.
\<close>

theorem key_set_to_ranges_exact:
  assumes "ks_inv s" and "ks_all_int s" and "w = NullV \<or> v_is_int w"
  shows "(list_ex (\<lambda>r. range_contains r w) (ks_to_ranges s) \<longleftrightarrow> w \<noteq> NullV \<and> to_key w \<in># ks_keys s) \<and>
    (\<forall>r. ks_to_range s = Some r \<longrightarrow> (range_contains r w \<longleftrightarrow> w \<noteq> NullV \<and> to_key w \<in># ks_keys s))"
  using to_ranges_contains[OF assms] to_range_contains[OF assms] by blast

theorem key_set_to_ranges_exact_witness:
  "\<not> list_ex (\<lambda>r. range_contains r (IntV K_INT 4)) (ks_to_ranges (key_set [IntV K_INT 5, IntV K_INT 3, IntV K_INT 2]))"
proof -
  let ?s = "key_set [IntV K_INT 5, IntV K_INT 3, IntV K_INT 2]"
  have int: "v_is_int (IntV K_INT i)" for i by (simp add: v_is_int_def is_integer_def)
  have "ks_inv ?s" "ks_all_int ?s" using int by (simp_all add: ks_inv_def key_set_def ks_all_int_def list_all_iff)
  from key_set_to_ranges_exact[OF this, of "IntV K_INT 4"] int[of 4] show ?thesis
    by (simp add: ks_keys_def key_set_def)
qed

text \<open>
  A point set that was built from a list with a repeated point keeps both copies, and subtracting the
  point removes only one of them, so the difference still contains it; a set built by adding the
  point twice holds it once.
\<close>

theorem key_set_keeps_duplicates:
  "ks_contains (ks_subtract (key_set [v, v]) (key_set [v])) v \<and>
   \<not> ks_contains (ks_subtract (ks_add_all [v, v] (key_set [])) (key_set [v])) v"
proof -
  have i: "ks_inv (key_set xs)" for xs by (simp add: ks_inv_def key_set_def)
  have j: "ks_inv (ks_add_all [v, v] (key_set []))" using i add_keys(2) by (simp add: ks_add_all_def)
  have "ks_keys (ks_add_all [v, v] (key_set [])) = {#to_key v#}"
    by (simp add: ks_add_all_def add_keys) (simp add: ks_keys_def key_set_def)
  then show ?thesis
    using contains_keys[OF set_algebra(6)[OF i i]] contains_keys[OF set_algebra(6)[OF j i]] set_algebra(5)[OF i i]
      set_algebra(5)[OF j i] by (simp add: ks_keys_def[of "key_set _"]) (simp add: key_set_def)
qed

end
