(* ===== verification/Ordered_Map.thy ===== *)
theory Ordered_Map imports Prelude begin

text \<open>
  \<^verbatim>\<open>std::map\<close> with byte-string keys: the list of its entries in ascending order of keys. The invariant
  \<open>om_inv\<close> determines the list from the finite map it represents, so that equality of states is
  equality of maps.
\<close>

type_synonym 'v omap = "(bytes \<times> 'v) list"

definition om_inv :: "'v omap \<Rightarrow> bool" where
  "om_inv m \<longleftrightarrow> sorted_wrt (<) (map fst m)"

definition om_find :: "'v omap \<Rightarrow> bytes \<Rightarrow> 'v option" where
  "om_find m k = map_of m k"

fun om_insert :: "bytes \<Rightarrow> 'v \<Rightarrow> 'v omap \<Rightarrow> 'v omap" where
  "om_insert k v [] = [(k, v)]"
| "om_insert k v ((k', v') # m) =
     (if k < k' then (k, v) # (k', v') # m
      else if k = k' then (k, v) # m
      else (k', v') # om_insert k v m)"

definition om_erase :: "bytes \<Rightarrow> 'v omap \<Rightarrow> 'v omap" where
  "om_erase k m = filter (\<lambda>p. fst p \<noteq> k) m"

text \<open>The entries from \<^verbatim>\<open>lower_bound(k)\<close> on, and erasing from there while the key is below a bound.\<close>

definition om_from :: "bytes \<Rightarrow> 'v omap \<Rightarrow> 'v omap" where
  "om_from k m = dropWhile (\<lambda>p. fst p < k) m"

definition om_erase_range :: "bytes \<Rightarrow> bytes \<Rightarrow> 'v omap \<Rightarrow> 'v omap" where
  "om_erase_range b e m = takeWhile (\<lambda>p. fst p < b) m @ dropWhile (\<lambda>p. fst p < e) (om_from b m)"

definition om_lower_bound :: "bytes \<Rightarrow> 'v omap \<Rightarrow> nat" where
  "om_lower_bound k m = length (takeWhile (\<lambda>p. fst p < k) m)"

definition om_upper_bound :: "bytes \<Rightarrow> 'v omap \<Rightarrow> nat" where
  "om_upper_bound k m = length (takeWhile (\<lambda>p. fst p \<le> k) m)"

lemma om_inv_Nil [simp]: "om_inv []"
  by (simp add: om_inv_def)

lemma om_inv_Cons [simp]: "om_inv (p # m) \<longleftrightarrow> (\<forall>q \<in> set m. fst p < fst q) \<and> om_inv m"
  by (auto simp: om_inv_def)

lemma om_inv_append: "om_inv (a @ b) \<longleftrightarrow> om_inv a \<and> om_inv b \<and> (\<forall>p \<in> set a. \<forall>q \<in> set b. fst p < fst q)"
  by (auto simp: om_inv_def sorted_wrt_append)

lemma om_inv_filter: "om_inv m \<Longrightarrow> om_inv (filter P m)"
  by (induction m) auto

lemma om_inv_distinct: "om_inv m \<Longrightarrow> distinct (map fst m)"
  by (simp add: om_inv_def strict_sorted_iff)

lemma om_find_Nil [simp]: "om_find [] = Map.empty"
  by (rule ext) (simp add: om_find_def)

lemma om_find_not_in: "\<forall>q \<in> set m. k < fst q \<Longrightarrow> om_find m k = None"
  by (induction m) (auto simp: om_find_def)

lemma om_insert_keys: "fst ` set (om_insert k v m) = insert k (fst ` set m)"
  by (induction k v m rule: om_insert.induct) auto

lemma om_inv_insert [simp]: "om_inv m \<Longrightarrow> om_inv (om_insert k v m)"
proof (induction k v m rule: om_insert.induct)
  case (2 k v k' v' m)
  have "\<forall>j \<in> fst ` set (om_insert k v m). k' < j" if "k' < k"
    unfolding om_insert_keys using 2(2) that by auto
  with 2 show ?case by (auto dest: order.strict_trans)
qed simp

lemma om_find_insert [simp]: "om_inv m \<Longrightarrow> om_find (om_insert k v m) = (om_find m)(k \<mapsto> v)"
  by (induction k v m rule: om_insert.induct) (auto simp: om_find_def fun_eq_iff)

lemma om_inv_erase [simp]: "om_inv m \<Longrightarrow> om_inv (om_erase k m)"
  by (simp add: om_erase_def om_inv_filter)

lemma om_find_filter: "om_find (filter (\<lambda>p. P (fst p)) m) k = (if P k then om_find m k else None)"
  by (induction m) (auto simp: om_find_def)

lemma om_find_erase [simp]: "om_find (om_erase k m) = (om_find m)(k := None)"
  by (rule ext) (simp add: om_erase_def om_find_filter[of "\<lambda>j. j \<noteq> k"])

lemma takeWhile_filter: "om_inv m \<Longrightarrow> takeWhile (\<lambda>p. fst p < k) m = filter (\<lambda>p. fst p < k) m"
proof (induction m)
  case (Cons p m)
  have "filter (\<lambda>q. fst q < k) m = []" if "\<not> fst p < k"
    using Cons(2) that by (auto simp: filter_empty_conv)
  with Cons show ?case by auto
qed simp

lemma dropWhile_filter: "om_inv m \<Longrightarrow> dropWhile (\<lambda>p. fst p < k) m = filter (\<lambda>p. k \<le> fst p) m"
proof (induction m)
  case (Cons p m)
  have "filter (\<lambda>q. k \<le> fst q) m = m" if "\<not> fst p < k"
    using Cons(2) that by (auto simp: filter_id_conv)
  with Cons show ?case by auto
qed simp

lemma om_from_filter: "om_inv m \<Longrightarrow> om_from k m = filter (\<lambda>p. k \<le> fst p) m"
  by (simp add: om_from_def dropWhile_filter)

lemma split_filter: "om_inv m \<Longrightarrow> b < e \<Longrightarrow>
  filter (\<lambda>p. fst p < b) m @ filter (\<lambda>p. e \<le> fst p) (filter (\<lambda>p. b \<le> fst p) m) = filter (\<lambda>p. \<not> (b \<le> fst p \<and> fst p < e)) m"
proof (induction m)
  case (Cons p m)
  show ?case
  proof (cases "fst p < b")
    case False
    then have "\<forall>q \<in> set m. b \<le> fst q" using Cons(2) by auto
    then have "filter (\<lambda>q. fst q < b) m = []" by (auto simp: filter_empty_conv)
    then show ?thesis using Cons False by auto
  qed (use Cons in auto)
qed simp

lemma om_erase_range_filter: "om_inv m \<Longrightarrow> b < e \<Longrightarrow> om_erase_range b e m = filter (\<lambda>p. \<not> (b \<le> fst p \<and> fst p < e)) m"
  by (simp only: om_erase_range_def om_from_filter takeWhile_filter dropWhile_filter om_inv_filter split_filter)

lemma om_ext:
  assumes "om_inv a" "om_inv b" "om_find a = om_find b"
  shows "a = b"
proof -
  have d: "distinct (map fst a)" "distinct (map fst b)" using assms om_inv_distinct by blast+
  have "map_of a = map_of b" using assms(3) by (simp add: om_find_def fun_eq_iff)
  then have "set a = set b" using d by (simp add: map_of_inject_set)
  moreover have "sorted (map fst a)" "sorted (map fst b)" using assms by (simp_all add: om_inv_def strict_sorted_iff)
  ultimately show ?thesis using d by (intro map_sorted_distinct_set_unique[of fst a b]) (simp_all add: distinct_map)
qed

end
