(* ===== verification/Kv_Engine.thy ===== *)
theory Kv_Engine imports Ordered_Map begin

text \<open>
  The vocabulary of the key-value layer (\<^verbatim>\<open>storage/kv_engine/kv_engine.h\<close>): status codes, write batches and
  scan ranges. The meaning of a batch is \<open>replay\<close>: its operations applied to a map in order. The engines
  and the transaction buffer are related to it.
\<close>

section \<open>Status codes\<close>

datatype Status = S_OK | S_NotFound | S_AlreadyExists | S_InvalidArgument | S_NotSupported | S_IOError
  | S_InternalError | S_TransactionConflict | S_Busy | S_Timeout | S_NotLeader | S_CrossGroupTransaction

fun status_to_string :: "Status \<Rightarrow> string" where
  "status_to_string S_OK = ''OK''"
| "status_to_string S_NotFound = ''NotFound''"
| "status_to_string S_AlreadyExists = ''AlreadyExists''"
| "status_to_string S_InvalidArgument = ''InvalidArgument''"
| "status_to_string S_NotSupported = ''NotSupported''"
| "status_to_string S_IOError = ''IOError''"
| "status_to_string S_InternalError = ''InternalError''"
| "status_to_string S_TransactionConflict = ''TransactionConflict''"
| "status_to_string S_Busy = ''Busy''"
| "status_to_string S_Timeout = ''Timeout''"
| "status_to_string S_NotLeader = ''NotLeader''"
| "status_to_string S_CrossGroupTransaction = ''CrossGroupTransaction''"

datatype MissingKeyPolicy = ReturnEmpty | ReturnError

section \<open>Write batches\<close>

datatype OpType = OpPut | OpRemove | OpRemoveRange

record Op =
  op_type :: OpType
  op_key :: bytes
  op_value :: "bytes option"
  op_range_end :: bytes

record WriteBatch =
  wb_ops :: "Op list"
  wb_sync :: bool

definition empty_batch :: WriteBatch where
  "empty_batch = \<lparr> wb_ops = [], wb_sync = False \<rparr>"

definition put_op :: "bytes \<Rightarrow> bytes \<Rightarrow> Op" where
  "put_op k v = \<lparr> op_type = OpPut, op_key = k, op_value = Some v, op_range_end = [] \<rparr>"

definition remove_op :: "bytes \<Rightarrow> Op" where
  "remove_op k = \<lparr> op_type = OpRemove, op_key = k, op_value = None, op_range_end = [] \<rparr>"

definition remove_range_op :: "bytes \<Rightarrow> bytes \<Rightarrow> Op" where
  "remove_range_op b e = \<lparr> op_type = OpRemoveRange, op_key = b, op_value = None, op_range_end = e \<rparr>"

definition wb_append :: "Op \<Rightarrow> WriteBatch \<Rightarrow> WriteBatch" where
  "wb_append op b = b\<lparr>wb_ops := wb_ops b @ [op]\<rparr>"

definition wb_put :: "bytes \<Rightarrow> bytes \<Rightarrow> WriteBatch \<Rightarrow> WriteBatch" where
  "wb_put k v = wb_append (put_op k v)"

definition wb_remove :: "bytes \<Rightarrow> WriteBatch \<Rightarrow> WriteBatch" where
  "wb_remove k = wb_append (remove_op k)"

definition wb_remove_range :: "bytes \<Rightarrow> bytes \<Rightarrow> WriteBatch \<Rightarrow> WriteBatch" where
  "wb_remove_range b e = wb_append (remove_range_op b e)"

definition wb_set_sync :: "bool \<Rightarrow> WriteBatch \<Rightarrow> WriteBatch" where
  "wb_set_sync s b = b\<lparr>wb_sync := s\<rparr>"

text \<open>A pair without a value ends the loop: the rest of the pairs is not added.\<close>

fun wb_put_all :: "(bytes \<times> bytes option) list \<Rightarrow> WriteBatch \<Rightarrow> WriteBatch" where
  "wb_put_all [] b = b"
| "wb_put_all ((k, Some v) # ps) b = wb_put_all ps (wb_put k v b)"
| "wb_put_all ((k, None) # ps) b = b"

fun wb_remove_all :: "bytes list \<Rightarrow> WriteBatch \<Rightarrow> WriteBatch" where
  "wb_remove_all [] b = b"
| "wb_remove_all (k # ks) b = wb_remove_all ks (wb_remove k b)"

definition wb_clear :: "WriteBatch \<Rightarrow> WriteBatch" where
  "wb_clear b = b\<lparr>wb_ops := []\<rparr>"

section \<open>Scan ranges\<close>

datatype ScanDirection = Forward | Reverse

record ScanRange =
  sr_start :: "bytes option"
  sr_end :: "bytes option"
  sr_limit :: nat
  sr_direction :: ScanDirection

definition sr_all :: ScanRange where
  "sr_all = \<lparr> sr_start = None, sr_end = None, sr_limit = 0, sr_direction = Forward \<rparr>"

definition sr_range :: "bytes \<Rightarrow> bytes \<Rightarrow> nat \<Rightarrow> ScanDirection \<Rightarrow> ScanRange" where
  "sr_range s e l d = \<lparr> sr_start = Some s, sr_end = Some e, sr_limit = l, sr_direction = d \<rparr>"

definition sr_reverse_range :: "bytes \<Rightarrow> bytes \<Rightarrow> nat \<Rightarrow> ScanRange" where
  "sr_reverse_range s e l = sr_range s e l Reverse"

definition sr_prefix :: "bytes \<Rightarrow> nat \<Rightarrow> ScanDirection \<Rightarrow> ScanRange" where
  "sr_prefix p l d = sr_range p (p @ [0xFF]) l d"

definition sr_from :: "bytes \<Rightarrow> nat \<Rightarrow> ScanDirection \<Rightarrow> ScanRange" where
  "sr_from s l d = \<lparr> sr_start = Some s, sr_end = None, sr_limit = l, sr_direction = d \<rparr>"

definition sr_to :: "bytes \<Rightarrow> nat \<Rightarrow> ScanDirection \<Rightarrow> ScanRange" where
  "sr_to e l d = \<lparr> sr_start = None, sr_end = Some e, sr_limit = l, sr_direction = d \<rparr>"

definition sr_is_all :: "ScanRange \<Rightarrow> bool" where
  "sr_is_all r \<longleftrightarrow> sr_start r = None \<and> sr_end r = None"

definition sr_has_limit :: "ScanRange \<Rightarrow> bool" where
  "sr_has_limit r \<longleftrightarrow> 0 < sr_limit r"

definition sr_contains :: "ScanRange \<Rightarrow> bytes \<Rightarrow> bool" where
  "sr_contains r k \<longleftrightarrow>
     (if (case sr_start r of Some s \<Rightarrow> k < s | None \<Rightarrow> False) then False
      else if (case sr_end r of Some e \<Rightarrow> e \<le> k | None \<Rightarrow> False) then False
      else True)"

section \<open>Meaning of a batch\<close>

definition replay_op :: "Op \<Rightarrow> (bytes \<rightharpoonup> bytes) \<Rightarrow> (bytes \<rightharpoonup> bytes)" where
  "replay_op op m =
     (case op_type op of
        OpPut \<Rightarrow> m(op_key op := op_value op)
      | OpRemove \<Rightarrow> m(op_key op := None)
      | OpRemoveRange \<Rightarrow> (\<lambda>k. if op_key op \<le> k \<and> k < op_range_end op then None else m k))"

definition replay :: "Op list \<Rightarrow> (bytes \<rightharpoonup> bytes) \<Rightarrow> (bytes \<rightharpoonup> bytes)" where
  "replay ops m = fold replay_op ops m"

text \<open>What an engine accepts: every put has a value and every range deletion a nonempty range.\<close>

definition op_valid :: "Op \<Rightarrow> bool" where
  "op_valid op \<longleftrightarrow>
     (case op_type op of OpPut \<Rightarrow> op_value op \<noteq> None | OpRemove \<Rightarrow> True | OpRemoveRange \<Rightarrow> op_key op < op_range_end op)"

lemma replay_simps [simp]:
  "replay [] m = m" "replay (op # ops) m = replay ops (replay_op op m)" "replay (a @ b) m = replay b (replay a m)"
  by (simp_all add: replay_def)

lemma replay_op_simps [simp]:
  "replay_op (put_op k v) m = m(k \<mapsto> v)" "replay_op (remove_op k) m = m(k := None)"
  "replay_op (remove_range_op b e) m = (\<lambda>k. if b \<le> k \<and> k < e then None else m k)"
  by (simp_all add: replay_op_def put_op_def remove_op_def remove_range_op_def)

lemma wb_ops_simps [simp]:
  "wb_ops empty_batch = []" "wb_ops (wb_put k v b) = wb_ops b @ [put_op k v]"
  "wb_ops (wb_remove k b) = wb_ops b @ [remove_op k]"
  "wb_ops (wb_remove_range s e b) = wb_ops b @ [remove_range_op s e]"
  "wb_ops (wb_set_sync f b) = wb_ops b" "wb_sync (wb_set_sync f b) = f"
  by (simp_all add: empty_batch_def wb_put_def wb_remove_def wb_remove_range_def wb_append_def wb_set_sync_def)

text \<open>
  The keys of a prefix range: \<^verbatim>\<open>prefix + 0xFF\<close> as the upper bound leaves out the keys in which the byte
  0xFF follows the prefix.
\<close>

lemma prefix_range_contains:
  "sr_contains (sr_prefix p l d) k \<longleftrightarrow> (\<exists>rest. k = p @ rest \<and> (rest = [] \<or> hd rest < 0xFF))"
proof
  assume "sr_contains (sr_prefix p l d) k"
  then have k: "p \<le> k" "k < p @ [0xFF]"
    by (auto simp: sr_contains_def sr_prefix_def sr_range_def split: if_splits)
  have "\<exists>rest. k = p @ rest"
    using k
  proof (induction p arbitrary: k)
    case (Cons a p)
    then obtain b k' where kk: "k = b # k'" by (cases k) auto
    with Cons(2,3) have "a = b" by auto
    then show ?case using Cons(1)[of k'] Cons(2,3) kk by auto
  qed simp
  then obtain rest where r: "k = p @ rest" by blast
  then have "rest < [0xFF]" using k(2) by (simp add: append_less_cancel)
  then show "\<exists>rest. k = p @ rest \<and> (rest = [] \<or> hd rest < 0xFF)" using r by (cases rest) auto
next
  assume "\<exists>rest. k = p @ rest \<and> (rest = [] \<or> hd rest < 0xFF)"
  then obtain rest where r: "k = p @ rest" "rest = [] \<or> hd rest < 0xFF" by blast
  then have "rest < [0xFF]" by (cases rest) auto
  then have "k < p @ [0xFF]" using r by (simp add: append_less_cancel)
  moreover have "p \<le> k" using r by (simp add: prefix_le)
  ultimately show "sr_contains (sr_prefix p l d) k"
    by (auto simp: sr_contains_def sr_prefix_def sr_range_def)
qed

end
