(* ===== verification/Kv_Iterator.thy ===== *)
theory Kv_Iterator imports Kv_Engine "HOL-Library.Monad_Syntax" begin

text \<open>
  Iterators of the key-value layer. The interface (\<^verbatim>\<open>Iterator\<close> in \<^verbatim>\<open>storage/kv_engine/kv_engine.h\<close>) with the two
  loops that run over it, \<^verbatim>\<open>Iterator::collect\<close> and \<^verbatim>\<open>KVEngine::scan\<close>, and the materialised iterator of the
  in-memory engine (\<^verbatim>\<open>storage/mock_engine/mock_engine.cpp\<close>).

  The loops are written over the interface and may in principle not end; the locale \<open>kv_iterator\<close> states
  the contract under which they do: the iterator stands before a finite list of rows and each step removes the first.
\<close>

section \<open>Loops over the interface\<close>

partial_function (option) collect ::
  "('it \<Rightarrow> bool) \<Rightarrow> ('it \<Rightarrow> 'it) \<Rightarrow> ('it \<Rightarrow> bytes \<times> bytes) \<Rightarrow> nat \<Rightarrow> nat \<Rightarrow> 'it \<Rightarrow> (bytes \<times> bytes) list option" where
  "collect valid next pair max_count count it =
     (if \<not> valid it then Some []
      else if 0 < max_count \<and> max_count \<le> count + 1 then Some [pair it]
      else do { rest \<leftarrow> collect valid next pair max_count (count + 1) (next it); Some (pair it # rest) })"

partial_function (option) scan_loop ::
  "('it \<Rightarrow> bool) \<Rightarrow> ('it \<Rightarrow> 'it) \<Rightarrow> ('it \<Rightarrow> bytes \<times> bytes) \<Rightarrow> nat \<Rightarrow> nat \<Rightarrow> 'it \<Rightarrow>
   ((bytes \<times> bytes) list \<times> bytes option \<times> 'it) option" where
  "scan_loop valid next pair limit count it =
     (if \<not> valid it then Some ([], None, it)
      else if 0 < limit \<and> limit \<le> count + 1 then
        (let it' = next it in Some ([pair it], if valid it' then Some (fst (pair it')) else None, it'))
      else do { r \<leftarrow> scan_loop valid next pair limit (count + 1) (next it); Some (pair it # fst r, snd r) })"

text \<open>\<^verbatim>\<open>KVEngine::scan\<close>: the rows and the key at which to go on, or the status of the iterator.\<close>

definition kv_scan ::
  "('it \<Rightarrow> bool) \<Rightarrow> ('it \<Rightarrow> 'it) \<Rightarrow> ('it \<Rightarrow> bytes \<times> bytes) \<Rightarrow> ('it \<Rightarrow> Status) \<Rightarrow> nat \<Rightarrow> 'it option \<Rightarrow>
   (Status \<times> (bytes \<times> bytes) list \<times> bytes option) option" where
  "kv_scan valid next pair status limit new_it =
     (case new_it of
        None \<Rightarrow> Some (S_InternalError, [], None)
      | Some it \<Rightarrow> do {
          (pairs, next_start_key, it') \<leftarrow> scan_loop valid next pair limit 0 it;
          Some (if status it' \<noteq> S_OK \<and> status it' \<noteq> S_NotFound then status it' else S_OK, pairs, next_start_key) })"

section \<open>The iterator of the in-memory engine\<close>

record MockIterator =
  mi_rows :: "(bytes \<times> bytes) list"
  mi_range :: ScanRange
  mi_index :: nat
  mi_status :: Status
  mi_error :: string

definition materialize :: "bytes omap \<Rightarrow> ScanRange \<Rightarrow> (bytes \<times> bytes) list" where
  "materialize data rg =
     takeWhile (\<lambda>p. \<not> (case sr_end rg of Some e \<Rightarrow> e \<le> fst p | None \<Rightarrow> False))
       (case sr_start rg of Some s \<Rightarrow> om_from s data | None \<Rightarrow> data)"

definition mi_in_range :: "MockIterator \<Rightarrow> nat \<Rightarrow> bool" where
  "mi_in_range it index \<longleftrightarrow>
     (if length (mi_rows it) \<le> index then False
      else let key = fst (mi_rows it ! index) in
        if (case sr_start (mi_range it) of Some s \<Rightarrow> key < s | None \<Rightarrow> False) then False
        else if (case sr_end (mi_range it) of Some e \<Rightarrow> e \<le> key | None \<Rightarrow> False) then False
        else True)"

definition mi_update_status :: "MockIterator \<Rightarrow> MockIterator" where
  "mi_update_status it =
     (if length (mi_rows it) \<le> mi_index it then it\<lparr>mi_status := S_NotFound, mi_error := ''No more data''\<rparr>
      else if mi_in_range it (mi_index it) then it\<lparr>mi_status := S_OK, mi_error := ''''\<rparr>
      else it\<lparr>mi_status := S_NotFound, mi_error := ''Out of range''\<rparr>)"

definition mi_valid :: "MockIterator \<Rightarrow> bool" where
  "mi_valid it \<longleftrightarrow> mi_status it = S_OK \<and> mi_in_range it (mi_index it)"

definition mi_seek :: "bytes \<Rightarrow> MockIterator \<Rightarrow> MockIterator" where
  "mi_seek key it =
     mi_update_status
       (case sr_direction (mi_range it) of
          Forward \<Rightarrow>
            (let target = (case sr_start (mi_range it) of Some s \<Rightarrow> if key < s then s else key | None \<Rightarrow> key)
             in it\<lparr>mi_index := om_lower_bound target (mi_rows it)\<rparr>)
        | Reverse \<Rightarrow>
            (let after = om_upper_bound key (mi_rows it)
             in it\<lparr>mi_index := (if after = 0 then length (mi_rows it) else after - 1)\<rparr>))"

definition mi_seek_to_first :: "MockIterator \<Rightarrow> MockIterator" where
  "mi_seek_to_first it =
     mi_update_status
       (if mi_rows it = [] then it\<lparr>mi_index := 0\<rparr>
        else it\<lparr>mi_index := (if sr_direction (mi_range it) = Forward then 0 else length (mi_rows it) - 1)\<rparr>)"

definition mi_seek_to_last :: "MockIterator \<Rightarrow> MockIterator" where
  "mi_seek_to_last it =
     mi_update_status
       (if mi_rows it = [] then it\<lparr>mi_index := 0\<rparr>
        else it\<lparr>mi_index := (if sr_direction (mi_range it) = Forward then length (mi_rows it) - 1 else 0)\<rparr>)"

definition mi_step_down :: "MockIterator \<Rightarrow> MockIterator" where
  "mi_step_down it = it\<lparr>mi_index := (if mi_index it = 0 then length (mi_rows it) else mi_index it - 1)\<rparr>"

definition mi_step_up :: "MockIterator \<Rightarrow> MockIterator" where
  "mi_step_up it = it\<lparr>mi_index := mi_index it + 1\<rparr>"

definition mi_next :: "MockIterator \<Rightarrow> MockIterator" where
  "mi_next it =
     (if \<not> mi_valid it then it
      else mi_update_status (if sr_direction (mi_range it) = Forward then mi_step_up it else mi_step_down it))"

definition mi_prev :: "MockIterator \<Rightarrow> MockIterator" where
  "mi_prev it =
     (if \<not> mi_valid it then it
      else mi_update_status (if sr_direction (mi_range it) = Forward then mi_step_down it else mi_step_up it))"

definition mi_key :: "MockIterator \<Rightarrow> bytes" where
  "mi_key it = (if mi_valid it then fst (mi_rows it ! mi_index it) else [])"

definition mi_value :: "MockIterator \<Rightarrow> bytes" where
  "mi_value it = (if mi_valid it then snd (mi_rows it ! mi_index it) else [])"

definition mi_kvpair :: "MockIterator \<Rightarrow> bytes \<times> bytes" where
  "mi_kvpair it = (mi_key it, mi_value it)"

definition mock_iterator :: "(bytes \<times> bytes) list \<Rightarrow> ScanRange \<Rightarrow> MockIterator" where
  "mock_iterator rows rg =
     mi_seek_to_first \<lparr> mi_rows = rows, mi_range = rg, mi_index = 0, mi_status = S_OK, mi_error = '''' \<rparr>"

section \<open>The contract\<close>

locale kv_iterator =
  fixes valid :: "'it \<Rightarrow> bool" and nxt :: "'it \<Rightarrow> 'it" and pair :: "'it \<Rightarrow> bytes \<times> bytes"
    and status :: "'it \<Rightarrow> Status" and inv :: "'it \<Rightarrow> bool" and rest :: "'it \<Rightarrow> (bytes \<times> bytes) list"
  assumes valid_rest: "inv it \<Longrightarrow> valid it \<longleftrightarrow> rest it \<noteq> []"
    and pair_rest: "inv it \<Longrightarrow> rest it \<noteq> [] \<Longrightarrow> pair it = hd (rest it)"
    and next_rest: "inv it \<Longrightarrow> rest it \<noteq> [] \<Longrightarrow> rest (nxt it) = tl (rest it)"
    and next_inv: "inv it \<Longrightarrow> inv (nxt it)"
    and status_ok: "inv it \<Longrightarrow> status it = S_OK \<or> status it = S_NotFound"
begin

text \<open>\<^verbatim>\<open>collect\<close> returns, with the rows that are left or as many of them as are asked for.\<close>

lemma collect_all: "inv it \<Longrightarrow> collect valid nxt pair 0 n it = Some (rest it)"
proof (induction "rest it" arbitrary: it n)
  case Nil
  then show ?case by (subst collect.simps) (simp add: valid_rest)
next
  case (Cons r rs)
  have ne: "rest it \<noteq> []" using Cons(2) by auto
  have "collect valid nxt pair 0 (n + 1) (nxt it) = Some rs"
    using Cons(1)[of "nxt it" "n + 1"] next_rest[OF Cons(3) ne] next_inv[OF Cons(3)] Cons(2) by (metis list.sel(3))
  then show ?case using Cons(2,3) ne by (subst collect.simps) (simp add: valid_rest pair_rest; metis list.sel(1))
qed

lemma scan_loop_rows:
  "inv it \<Longrightarrow> limit = 0 \<or> count < limit \<Longrightarrow> \<exists>it'. inv it' \<and> scan_loop valid nxt pair limit count it =
    Some (if limit = 0 then rest it else take (limit - count) (rest it),
      if limit = 0 \<or> length (rest it) \<le> limit - count then None else Some (fst (rest it ! (limit - count))), it')"
proof (induction "rest it" arbitrary: it count)
  case Nil
  then show ?case by (intro exI[of _ it], subst scan_loop.simps) (auto simp: valid_rest)
next
  case (Cons r rs)
  have ne: "rest it \<noteq> []" using Cons(2) by auto
  note facts = next_rest[OF Cons(3) ne] next_inv[OF Cons(3)] valid_rest[OF Cons(3)] pair_rest[OF Cons(3) ne] Cons(2)[symmetric]
  show ?case
  proof (cases "0 < limit \<and> limit \<le> count + 1")
    case True
    then have "limit - count = 1" using Cons(4) by auto
    then show ?thesis using facts True valid_rest[of "nxt it"] pair_rest[of "nxt it"]
      by (intro exI[of _ "nxt it"], subst scan_loop.simps) (cases rs; auto)
  next
    case False
    then have c: "limit = 0 \<or> count + 1 < limit" using Cons(4) by auto
    have d: "limit \<noteq> 0 \<Longrightarrow> limit - count = Suc (limit - (count + 1))" using c by auto
    from Cons(1)[of "nxt it" "count + 1"] facts c obtain it' where "inv it'"
      "scan_loop valid nxt pair limit (count + 1) (nxt it) = Some (if limit = 0 then rs else take (limit - (count + 1)) rs,
        if limit = 0 \<or> length rs \<le> limit - (count + 1) then None else Some (fst (rs ! (limit - (count + 1)))), it')"
      by auto
    then show ?thesis using facts False d by (intro exI[of _ it'], subst scan_loop.simps) auto
  qed
qed

lemma scan_rows:
  assumes "inv it"
  shows "kv_scan valid nxt pair status limit (Some it) =
    Some (S_OK, if limit = 0 then rest it else take limit (rest it),
      if limit = 0 \<or> length (rest it) \<le> limit then None else Some (fst (rest it ! limit)))"
  using scan_loop_rows[OF assms, of limit 0] status_ok by (fastforce simp: kv_scan_def)

end

section \<open>The in-memory iterator meets the contract\<close>

definition mi_inv :: "MockIterator \<Rightarrow> bool" where
  "mi_inv it \<longleftrightarrow>
     (\<forall>p \<in> set (mi_rows it). sr_contains (mi_range it) (fst p)) \<and>
     mi_status it = (if mi_index it < length (mi_rows it) then S_OK else S_NotFound)"

text \<open>The rows that a scan in the direction \<open>d\<close> meets from the index \<open>i\<close> on.\<close>

definition rows_from :: "ScanDirection \<Rightarrow> nat \<Rightarrow> 'a list \<Rightarrow> 'a list" where
  "rows_from d i rows =
     (if length rows \<le> i then [] else case d of Forward \<Rightarrow> drop i rows | Reverse \<Rightarrow> rev (take (Suc i) rows))"

definition mi_rest :: "MockIterator \<Rightarrow> (bytes \<times> bytes) list" where
  "mi_rest it = rows_from (sr_direction (mi_range it)) (mi_index it) (mi_rows it)"

lemma rows_from_Nil [simp]: "rows_from d i rows = [] \<longleftrightarrow> length rows \<le> i"
  by (cases d) (auto simp: rows_from_def)

lemma hd_rows_from: "i < length rows \<Longrightarrow> hd (rows_from d i rows) = rows ! i"
  by (cases d) (auto simp: rows_from_def hd_drop_conv_nth take_Suc_conv_app_nth)

lemma tl_rows_from:
  "i < length rows \<Longrightarrow> tl (rows_from Forward i rows) = rows_from Forward (Suc i) rows"
  "i < length rows \<Longrightarrow> tl (rows_from Reverse i rows) = rows_from Reverse (if i = 0 then length rows else i - 1) rows"
  by (auto simp: rows_from_def tl_drop drop_Suc take_Suc_conv_app_nth) (cases i; simp add: take_Suc_conv_app_nth)

lemma mi_in_range_contains: "mi_in_range it i \<longleftrightarrow> i < length (mi_rows it) \<and> sr_contains (mi_range it) (fst (mi_rows it ! i))"
  by (simp add: mi_in_range_def sr_contains_def Let_def not_le)

lemma mi_in_range_iff:
  "\<forall>p \<in> set (mi_rows it). sr_contains (mi_range it) (fst p) \<Longrightarrow> mi_in_range it i \<longleftrightarrow> i < length (mi_rows it)"
  by (auto simp: mi_in_range_contains)

lemma mi_update_status:
  assumes "\<forall>p \<in> set (mi_rows it). sr_contains (mi_range it) (fst p)"
  shows "mi_inv (mi_update_status it)" "mi_rest (mi_update_status it) = mi_rest it"
    "mi_rows (mi_update_status it) = mi_rows it" "mi_range (mi_update_status it) = mi_range it"
    "mi_index (mi_update_status it) = mi_index it"
  using assms mi_in_range_iff[OF assms] by (auto simp: mi_update_status_def mi_inv_def mi_rest_def)

lemma mi_valid_iff: "mi_inv it \<Longrightarrow> mi_valid it \<longleftrightarrow> mi_index it < length (mi_rows it)"
  using mi_in_range_iff[of it "mi_index it"] by (auto simp: mi_valid_def mi_inv_def)

lemma mi_rows_ok: "mi_inv it \<Longrightarrow> \<forall>p \<in> set (mi_rows it). sr_contains (mi_range it) (fst p)"
  by (simp add: mi_inv_def)

lemma mi_next_inv: "mi_inv it \<Longrightarrow> mi_inv (mi_next it)"
  using mi_rows_ok[of it] by (simp add: mi_next_def mi_step_up_def mi_step_down_def mi_update_status(1))

lemma mi_next_rest:
  assumes "mi_inv it" "mi_rest it \<noteq> []"
  shows "mi_rest (mi_next it) = tl (mi_rest it)"
proof -
  have i: "mi_index it < length (mi_rows it)" using assms(2) by (simp add: mi_rest_def)
  show ?thesis
  proof (cases "sr_direction (mi_range it)")
    case Forward
    then show ?thesis using assms i mi_rows_ok[OF assms(1)] tl_rows_from(1)[OF i]
      by (simp add: mi_next_def mi_valid_iff mi_update_status(2) mi_step_up_def) (simp add: mi_rest_def)
  next
    case Reverse
    then show ?thesis using assms i mi_rows_ok[OF assms(1)] tl_rows_from(2)[OF i]
      by (simp add: mi_next_def mi_valid_iff mi_update_status(2) mi_step_down_def) (auto simp: mi_rest_def)
  qed
qed

interpretation mock_it: kv_iterator mi_valid mi_next mi_kvpair mi_status mi_inv mi_rest
proof
  show "mi_inv it \<Longrightarrow> mi_rest it \<noteq> [] \<Longrightarrow> mi_kvpair it = hd (mi_rest it)" for it
    by (simp add: mi_kvpair_def mi_key_def mi_value_def mi_valid_iff) (simp add: mi_rest_def hd_rows_from)
  show "mi_inv it \<Longrightarrow> mi_valid it \<longleftrightarrow> mi_rest it \<noteq> []" for it
    by (simp add: mi_valid_iff) (simp add: mi_rest_def not_le)
  show "mi_inv it \<Longrightarrow> mi_status it = S_OK \<or> mi_status it = S_NotFound" for it
    by (simp add: mi_inv_def)
qed (simp_all add: mi_next_rest mi_next_inv)

lemma takeWhile_upto: "om_inv m \<Longrightarrow> takeWhile (\<lambda>p. \<not> e \<le> fst p) m = filter (\<lambda>p. \<not> e \<le> fst p) m"
  using takeWhile_filter[of m e] by (simp only: not_le)

lemma materialize_filter: "om_inv m \<Longrightarrow> materialize m rg = filter (\<lambda>p. sr_contains rg (fst p)) m"
proof -
  assume m: "om_inv m"
  have "materialize m rg = filter (\<lambda>p. \<not> (case sr_end rg of Some e \<Rightarrow> e \<le> fst p | None \<Rightarrow> False))
     (filter (\<lambda>p. \<not> (case sr_start rg of Some s \<Rightarrow> fst p < s | None \<Rightarrow> False)) m)"
    using m by (cases "sr_start rg"; cases "sr_end rg")
      (simp_all add: materialize_def om_from_filter not_less takeWhile_upto om_inv_filter)
  also have "\<dots> = filter (\<lambda>p. sr_contains rg (fst p)) m"
    unfolding filter_filter by (rule filter_cong) (auto simp: sr_contains_def)
  finally show ?thesis .
qed

definition in_direction :: "ScanDirection \<Rightarrow> 'a list \<Rightarrow> 'a list" where
  "in_direction d rows = (case d of Forward \<Rightarrow> rows | Reverse \<Rightarrow> rev rows)"

lemma mock_iterator_rest:
  assumes "\<forall>p \<in> set rows. sr_contains rg (fst p)"
  shows "mi_inv (mock_iterator rows rg)" "mi_rest (mock_iterator rows rg) = in_direction (sr_direction rg) rows"
proof -
  show "mi_inv (mock_iterator rows rg)"
    using assms by (simp add: mock_iterator_def mi_seek_to_first_def mi_update_status(1))
  show "mi_rest (mock_iterator rows rg) = in_direction (sr_direction rg) rows"
    using assms by (cases "sr_direction rg"; cases rows)
      (auto simp: mock_iterator_def mi_seek_to_first_def mi_update_status(2), auto simp: mi_rest_def rows_from_def in_direction_def)
qed

end
