(* ===== verification/Tx_Buffer.thy ===== *)
theory Tx_Buffer imports Kv_Engine begin

text \<open>
  The buffer of a write transaction (\<^verbatim>\<open>storage/kv_engine/tx_buffer.h\<close>, \<^verbatim>\<open>tx_buffer.cpp\<close>). It keeps the
  operations twice: as a log, for the batch of the commit, and as a view by key with sequence numbers
  beside the list of range deletions, for the reads of the transaction itself.

  The two representations agree (\<open>lookup_replay\<close>): for a buffer that was filled by its own
  operations, reading a key through the view is reading it after replaying the log.
\<close>

section \<open>Representation\<close>

datatype OverlayOp = NoOverlay | OverlayValue bytes | Tombstone

definition covered :: "OverlayOp \<Rightarrow> bool" where "covered op \<longleftrightarrow> op \<noteq> NoOverlay"

definition overlay_has_value :: "OverlayOp \<Rightarrow> bool" where
  "overlay_has_value op \<longleftrightarrow> (case op of OverlayValue _ \<Rightarrow> True | _ \<Rightarrow> False)"

definition is_tombstone :: "OverlayOp \<Rightarrow> bool" where "is_tombstone op \<longleftrightarrow> op = Tombstone"

record TxEntry =
  te_op :: OverlayOp
  te_seq :: nat

record TxRangeDelete =
  rd_begin :: bytes
  rd_end :: bytes
  rd_seq :: nat

record TxBuffer =
  tb_view :: "TxEntry omap"
  tb_range_deletes :: "TxRangeDelete list"
  tb_log :: "Op list"
  tb_bytes :: nat
  tb_next_seq :: nat

definition tx_buffer :: TxBuffer where
  "tx_buffer = \<lparr> tb_view = [], tb_range_deletes = [], tb_log = [], tb_bytes = 0, tb_next_seq = 1 \<rparr>"

section \<open>Operations\<close>

definition entry_cost :: "nat \<Rightarrow> nat \<Rightarrow> nat" where
  "entry_cost key_size value_size = key_size + value_size + 64"

definition tb_write :: "bytes \<Rightarrow> OverlayOp \<Rightarrow> Op \<Rightarrow> nat \<Rightarrow> TxBuffer \<Rightarrow> TxBuffer" where
  "tb_write k ov op value_size b =
     b\<lparr>tb_view := om_insert k \<lparr> te_op = ov, te_seq = tb_next_seq b \<rparr> (tb_view b),
       tb_next_seq := tb_next_seq b + 1,
       tb_log := tb_log b @ [op],
       tb_bytes := tb_bytes b + entry_cost (length k) value_size\<rparr>"

definition tb_put :: "bytes \<Rightarrow> bytes \<Rightarrow> TxBuffer \<Rightarrow> TxBuffer" where
  "tb_put k v = tb_write k (OverlayValue v) (put_op k v) (length v)"

definition tb_remove :: "bytes \<Rightarrow> TxBuffer \<Rightarrow> TxBuffer" where
  "tb_remove k = tb_write k Tombstone (remove_op k) 0"

definition tb_remove_range :: "bytes \<Rightarrow> bytes \<Rightarrow> TxBuffer \<Rightarrow> TxBuffer" where
  "tb_remove_range s e b =
     b\<lparr>tb_range_deletes := tb_range_deletes b @ [\<lparr> rd_begin = s, rd_end = e, rd_seq = tb_next_seq b \<rparr>],
       tb_next_seq := tb_next_seq b + 1,
       tb_log := tb_log b @ [remove_range_op s e],
       tb_bytes := tb_bytes b + entry_cost (length s) (length e)\<rparr>"

definition range_seq :: "bytes \<Rightarrow> TxRangeDelete list \<Rightarrow> nat" where
  "range_seq k rds =
     fold (\<lambda>r best. if rd_begin r \<le> k \<and> k < rd_end r \<and> best < rd_seq r then rd_seq r else best) rds 0"

definition tb_lookup :: "TxBuffer \<Rightarrow> bytes \<Rightarrow> OverlayOp" where
  "tb_lookup b k =
     (let entry = om_find (tb_view b) k;
          key_seq = (case entry of Some e \<Rightarrow> te_seq e | None \<Rightarrow> 0);
          rseq = range_seq k (tb_range_deletes b)
      in if key_seq < rseq then Tombstone
         else (case entry of None \<Rightarrow> NoOverlay | Some e \<Rightarrow> te_op e))"

fun batch_op :: "Op \<Rightarrow> WriteBatch \<Rightarrow> WriteBatch" where
  "batch_op op b =
     (case op_type op of
        OpPut \<Rightarrow> wb_put (op_key op) (case op_value op of Some v \<Rightarrow> v | None \<Rightarrow> []) b
      | OpRemove \<Rightarrow> wb_remove (op_key op) b
      | OpRemoveRange \<Rightarrow> wb_remove_range (op_key op) (op_range_end op) b)"

definition to_batch :: "TxBuffer \<Rightarrow> WriteBatch" where
  "to_batch b = fold batch_op (tb_log b) empty_batch"

text \<open>The loop body with which a connection routes a batch into its open transaction.\<close>

definition buffer_op :: "Op \<Rightarrow> TxBuffer \<Rightarrow> TxBuffer" where
  "buffer_op op b =
     (case op_type op of
        OpPut \<Rightarrow> (case op_value op of Some v \<Rightarrow> tb_put (op_key op) v b | None \<Rightarrow> b)
      | OpRemove \<Rightarrow> tb_remove (op_key op) b
      | OpRemoveRange \<Rightarrow> tb_remove_range (op_key op) (op_range_end op) b)"

definition tb_clear :: "TxBuffer \<Rightarrow> TxBuffer" where
  "tb_clear b = tx_buffer"

definition tb_empty :: "TxBuffer \<Rightarrow> bool" where "tb_empty b \<longleftrightarrow> tb_log b = []"

definition kDefaultLimit :: nat where "kDefaultLimit = 64 * 1024 * 1024"

definition tb_exceeds :: "TxBuffer \<Rightarrow> bool" where "tb_exceeds b \<longleftrightarrow> kDefaultLimit < tb_bytes b"

section \<open>The invariant\<close>

text \<open>The value a transaction reads for a key whose committed value is given.\<close>

definition overlay :: "OverlayOp \<Rightarrow> bytes option \<Rightarrow> bytes option" where
  "overlay op below = (case op of NoOverlay \<Rightarrow> below | OverlayValue v \<Rightarrow> Some v | Tombstone \<Rightarrow> None)"

definition log_op :: "Op \<Rightarrow> bool" where
  "log_op op \<longleftrightarrow> (\<exists>k v. op = put_op k v) \<or> (\<exists>k. op = remove_op k) \<or> (\<exists>s e. op = remove_range_op s e)"

definition tb_inv :: "TxBuffer \<Rightarrow> bool" where
  "tb_inv b \<longleftrightarrow>
     om_inv (tb_view b) \<and> 0 < tb_next_seq b \<and>
     (\<forall>p \<in> set (tb_view b). te_seq (snd p) < tb_next_seq b \<and> 0 < te_seq (snd p) \<and> te_op (snd p) \<noteq> NoOverlay) \<and>
     (\<forall>r \<in> set (tb_range_deletes b). rd_seq r < tb_next_seq b) \<and>
     (\<forall>op \<in> set (tb_log b). log_op op) \<and>
     (\<forall>m k. replay (tb_log b) m k = overlay (tb_lookup b k) (m k))"

lemma range_seq_snoc: "range_seq k (rds @ [r]) =
  (if rd_begin r \<le> k \<and> k < rd_end r \<and> range_seq k rds < rd_seq r then rd_seq r else range_seq k rds)"
  by (simp add: range_seq_def)

lemma range_seq_less: "\<forall>r \<in> set rds. rd_seq r < n \<Longrightarrow> 0 < n \<Longrightarrow> range_seq k rds < n"
  by (induction rds rule: rev_induct) (simp_all add: range_seq_def)

lemma tb_inv_empty [simp]: "tb_inv tx_buffer"
  by (simp add: tb_inv_def tx_buffer_def tb_lookup_def range_seq_def overlay_def)

lemma om_find_in: "om_find m k = Some v \<Longrightarrow> (k, v) \<in> set m"
  by (simp add: om_find_def map_of_SomeD)

lemma om_insert_subset: "set (om_insert k v m) \<subseteq> insert (k, v) (set m)"
  by (induction k v m rule: om_insert.induct) auto

lemma tb_write_inv:
  assumes inv: "tb_inv b" and ov: "ov \<noteq> NoOverlay" and log: "log_op op"
    and op: "\<And>m. replay_op op m = m(k := overlay ov None)"
  shows "tb_inv (tb_write k ov op n b)"
proof -
  let ?b = "tb_write k ov op n b"
  have look: "tb_lookup ?b j = (if j = k then ov else tb_lookup b j)" for j
    using inv range_seq_less[of "tb_range_deletes b" "tb_next_seq b" k]
    by (auto simp: tb_inv_def tb_lookup_def tb_write_def Let_def)
  have o: "overlay ov x = overlay ov None" for x using ov by (cases ov) (simp_all add: overlay_def)
  have "tb_log ?b = tb_log b @ [op]" by (simp add: tb_write_def)
  then have "replay (tb_log ?b) m j = overlay (tb_lookup ?b j) (m j)" for m j
    using inv o[of "m k"] by (auto simp: look op tb_inv_def)
  moreover have "\<forall>p \<in> set (tb_view ?b). te_seq (snd p) < tb_next_seq ?b \<and> 0 < te_seq (snd p) \<and> te_op (snd p) \<noteq> NoOverlay"
    using inv ov by (auto simp: tb_write_def tb_inv_def less_Suc_eq dest!: subsetD[OF om_insert_subset])
  ultimately show ?thesis using inv log unfolding tb_inv_def by (auto simp: tb_write_def less_Suc_eq)
qed

lemma tb_put_inv: "tb_inv b \<Longrightarrow> tb_inv (tb_put k v b)"
  unfolding tb_put_def by (rule tb_write_inv) (auto simp: log_op_def overlay_def)

lemma tb_remove_inv: "tb_inv b \<Longrightarrow> tb_inv (tb_remove k b)"
  unfolding tb_remove_def by (rule tb_write_inv) (auto simp: log_op_def overlay_def)

lemma tb_remove_range_inv:
  assumes inv: "tb_inv b"
  shows "tb_inv (tb_remove_range s e b)"
proof -
  let ?b = "tb_remove_range s e b"
  have less: "om_find (tb_view b) j = Some en \<Longrightarrow> te_seq en < tb_next_seq b" for j en
    using inv om_find_in[of "tb_view b" j en] by (force simp: tb_inv_def)
  have look: "tb_lookup ?b j = (if s \<le> j \<and> j < e then Tombstone else tb_lookup b j)" for j
    using inv range_seq_less[of "tb_range_deletes b" "tb_next_seq b" j] less[of j]
    by (auto simp: tb_inv_def tb_lookup_def tb_remove_range_def Let_def range_seq_snoc split: option.splits)
  have "tb_log ?b = tb_log b @ [remove_range_op s e]" by (simp add: tb_remove_range_def)
  then have "replay (tb_log ?b) m j = overlay (tb_lookup ?b j) (m j)" for m j
    using inv by (auto simp: look tb_inv_def overlay_def)
  then show ?thesis using inv by (auto simp: tb_inv_def tb_remove_range_def log_op_def less_Suc_eq)
qed

lemma to_batch_ops: "tb_inv b \<Longrightarrow> wb_ops (to_batch b) = tb_log b"
proof -
  have "\<forall>op \<in> set ops. log_op op \<Longrightarrow> wb_ops (fold batch_op ops wb) = wb_ops wb @ ops" for ops wb
  proof (induction ops arbitrary: wb)
    case (Cons op ops)
    have "wb_ops (batch_op op wb) = wb_ops wb @ [op]"
      using Cons(2) by (auto simp: log_op_def put_op_def remove_op_def remove_range_op_def)
    then show ?case using Cons by simp
  qed simp
  then show "tb_inv b \<Longrightarrow> ?thesis" by (simp add: to_batch_def tb_inv_def)
qed

lemma lookup_replay: "tb_inv b \<Longrightarrow> replay (wb_ops (to_batch b)) m k = overlay (tb_lookup b k) (m k)"
  by (simp add: to_batch_ops) (simp add: tb_inv_def)

lemma buffer_op_inv: "tb_inv b \<Longrightarrow> tb_inv (buffer_op op b)"
  by (auto simp: buffer_op_def tb_put_inv tb_remove_inv tb_remove_range_inv split: OpType.split option.split)

lemma buffer_ops_inv: "tb_inv b \<Longrightarrow> tb_inv (fold buffer_op ops b)"
  by (induction ops arbitrary: b) (simp_all add: buffer_op_inv)

lemma buffer_op_log: "tb_log (buffer_op op b) = tb_log b @ (if op_type op = OpPut \<and> op_value op = None then [] else
  [case op_type op of OpPut \<Rightarrow> put_op (op_key op) (the (op_value op)) | OpRemove \<Rightarrow> remove_op (op_key op)
   | OpRemoveRange \<Rightarrow> remove_range_op (op_key op) (op_range_end op)])"
  by (cases "op_type op") (auto simp: buffer_op_def tb_put_def tb_remove_def tb_remove_range_def tb_write_def split: option.split)

lemma buffer_op_replay:
  assumes "op_type op = OpPut \<longrightarrow> op_value op \<noteq> None"
  shows "replay (tb_log (buffer_op op b)) m = replay_op op (replay (tb_log b) m)"
  using assms by (cases "op_type op") (auto simp: buffer_op_log replay_op_def[of op])

section \<open>Properties\<close>

text \<open>
  C15: a transaction reads its own writes exactly. After any sequence of puts, removals and range deletions,
  reading a key through the buffer's view on top of the committed state gives what the state will hold for the key
  when the batch of the buffer has been written, and that is the sequence applied in its order.
\<close>

theorem tx_view_is_replay:
  assumes "list_all (\<lambda>op. op_type op = OpPut \<longrightarrow> op_value op \<noteq> None) ops"
  shows "overlay (tb_lookup (fold buffer_op ops tx_buffer) k) (m k) = replay ops m k \<and>
    replay (wb_ops (to_batch (fold buffer_op ops tx_buffer))) m = replay ops m"
proof -
  have inv: "tb_inv (fold buffer_op ops tx_buffer)" by (intro buffer_ops_inv) simp
  have "list_all (\<lambda>op. op_type op = OpPut \<longrightarrow> op_value op \<noteq> None) ops \<Longrightarrow>
    replay (tb_log (fold buffer_op ops b)) m = replay ops (replay (tb_log b) m)" for ops b
    by (induction ops arbitrary: b) (auto simp: buffer_op_replay)
  from this[OF assms, of tx_buffer]
  have "replay (tb_log (fold buffer_op ops tx_buffer)) m = replay ops m" by (simp add: tx_buffer_def)
  then show ?thesis using lookup_replay[OF inv, of m k] by (simp add: to_batch_ops[OF inv])
qed

theorem tx_view_is_replay_witness:
  "overlay (tb_lookup (fold buffer_op [put_op [1] [7], remove_range_op [0] [2], put_op [1] [8]] tx_buffer) [1]) None = Some [8]"
proof -
  let ?ops = "[put_op [1] [7], remove_range_op [0] [2], put_op [1] [8]]"
  have "list_all (\<lambda>op. op_type op = OpPut \<longrightarrow> op_value op \<noteq> None) ?ops" by (simp add: put_op_def remove_range_op_def)
  from tx_view_is_replay[OF this, of "[1]" Map.empty] show ?thesis by simp
qed

end
