(* ===== verification/Merging_Iterator.thy ===== *)
theory Merging_Iterator imports Kv_Iterator Tx_Buffer begin

text \<open>
  Scans inside a transaction (\<^verbatim>\<open>storage/kv_engine/merging_iterator.cpp\<close> and the cursor of
  \<^verbatim>\<open>tx_buffer.cpp\<close>): the iterator of the committed rows is merged with a cursor over the keys that the
  transaction has written.

  A position of the cursor is an index into the ordered view; the past-the-end iterator is its length.
  The lemmas reduce the merge to a function on lists (\<open>merge_rows\<close>) and show what it lists.
\<close>

section \<open>Cursor over the transaction's own keys\<close>

record OverlayCursor =
  oc_buffer :: "TxBuffer option"
  oc_begin :: "bytes option"
  oc_end :: "bytes option"
  oc_direction :: ScanDirection
  oc_it :: nat

definition oc_view :: "OverlayCursor \<Rightarrow> TxEntry omap" where
  "oc_view c = (case oc_buffer c of Some b \<Rightarrow> tb_view b | None \<Rightarrow> [])"

definition oc_at_end :: "OverlayCursor \<Rightarrow> bool" where
  "oc_at_end c \<longleftrightarrow> length (oc_view c) \<le> oc_it c"

definition oc_key :: "OverlayCursor \<Rightarrow> bytes" where
  "oc_key c = fst (oc_view c ! oc_it c)"

definition oc_valid :: "OverlayCursor \<Rightarrow> bool" where
  "oc_valid c \<longleftrightarrow>
     (if oc_buffer c = None then False
      else if oc_at_end c then False
      else if (case oc_begin c of Some s \<Rightarrow> oc_key c < s | None \<Rightarrow> False) then False
      else if (case oc_end c of Some e \<Rightarrow> \<not> oc_key c < e | None \<Rightarrow> False) then False
      else True)"

definition oc_next :: "OverlayCursor \<Rightarrow> OverlayCursor" where
  "oc_next c =
     (if oc_buffer c = None \<or> oc_at_end c then c
      else if oc_direction c = Forward then c\<lparr>oc_it := oc_it c + 1\<rparr>
      else if oc_it c = 0 then c\<lparr>oc_it := length (oc_view c)\<rparr>
      else c\<lparr>oc_it := oc_it c - 1\<rparr>)"

text \<open>\<^verbatim>\<open>std::prev(end())\<close>, or the end itself for an empty map.\<close>

definition last_index :: "'a list \<Rightarrow> nat" where
  "last_index xs = (if xs = [] then 0 else length xs - 1)"

definition oc_prev :: "OverlayCursor \<Rightarrow> OverlayCursor" where
  "oc_prev c =
     (if oc_buffer c = None then c
      else if oc_at_end c then c\<lparr>oc_it := last_index (oc_view c)\<rparr>
      else if oc_direction c = Forward then
        c\<lparr>oc_it := (if oc_it c = 0 then length (oc_view c) else oc_it c - 1)\<rparr>
      else c\<lparr>oc_it := oc_it c + 1\<rparr>)"

definition oc_op :: "OverlayCursor \<Rightarrow> OverlayOp" where
  "oc_op c = (case oc_buffer c of Some b \<Rightarrow> tb_lookup b (oc_key c) | None \<Rightarrow> NoOverlay)"

definition before_index :: "nat \<Rightarrow> 'a list \<Rightarrow> nat" where
  "before_index i xs = (if i = 0 then length xs else i - 1)"

definition oc_seek :: "bytes \<Rightarrow> OverlayCursor \<Rightarrow> OverlayCursor" where
  "oc_seek k c =
     (if oc_buffer c = None then c
      else if oc_direction c = Forward then c\<lparr>oc_it := om_lower_bound k (oc_view c)\<rparr>
      else c\<lparr>oc_it := before_index (om_upper_bound k (oc_view c)) (oc_view c)\<rparr>)"

definition oc_lowest :: "OverlayCursor \<Rightarrow> nat" where
  "oc_lowest c = (case oc_begin c of Some s \<Rightarrow> om_lower_bound s (oc_view c) | None \<Rightarrow> 0)"

definition oc_highest :: "OverlayCursor \<Rightarrow> nat" where
  "oc_highest c =
     (case oc_end c of Some e \<Rightarrow> before_index (om_lower_bound e (oc_view c)) (oc_view c) | None \<Rightarrow> last_index (oc_view c))"

definition oc_seek_start :: "OverlayCursor \<Rightarrow> OverlayCursor" where
  "oc_seek_start c =
     (if oc_buffer c = None then c
      else if oc_direction c = Forward then c\<lparr>oc_it := oc_lowest c\<rparr>
      else c\<lparr>oc_it := oc_highest c\<rparr>)"

definition oc_seek_finish :: "OverlayCursor \<Rightarrow> OverlayCursor" where
  "oc_seek_finish c =
     (if oc_buffer c = None then c
      else if oc_direction c = Forward then c\<lparr>oc_it := oc_highest c\<rparr>
      else c\<lparr>oc_it := oc_lowest c\<rparr>)"

definition overlay_cursor :: "TxBuffer option \<Rightarrow> bytes option \<Rightarrow> bytes option \<Rightarrow> ScanDirection \<Rightarrow> OverlayCursor" where
  "overlay_cursor b s e d =
     (let c = \<lparr> oc_buffer = b, oc_begin = s, oc_end = e, oc_direction = d, oc_it = 0 \<rparr>
      in if b = None then c else oc_seek_start c)"

section \<open>The merging iterator\<close>

record MergingIterator =
  mg_db :: "MockIterator option"
  mg_buffer :: "TxBuffer option"
  mg_overlay :: OverlayCursor
  mg_direction :: ScanDirection
  mg_valid :: bool
  mg_key :: bytes
  mg_value :: bytes
  mg_from_db :: bool
  mg_from_overlay :: bool

definition db_valid :: "MockIterator option \<Rightarrow> bool" where
  "db_valid db \<longleftrightarrow> (case db of Some it \<Rightarrow> mi_valid it | None \<Rightarrow> False)"

definition db_key :: "MockIterator option \<Rightarrow> bytes" where
  "db_key db = (case db of Some it \<Rightarrow> mi_key it | None \<Rightarrow> [])"

definition db_value :: "MockIterator option \<Rightarrow> bytes" where
  "db_value db = (case db of Some it \<Rightarrow> mi_value it | None \<Rightarrow> [])"

text \<open>Whether a key comes strictly before another one in the direction of the scan.\<close>

definition scan_before :: "ScanDirection \<Rightarrow> bytes \<Rightarrow> bytes \<Rightarrow> bool" where
  "scan_before d a b = (case d of Forward \<Rightarrow> a < b | Reverse \<Rightarrow> b < a)"

definition overlay_first :: "ScanDirection \<Rightarrow> MockIterator option \<Rightarrow> OverlayCursor \<Rightarrow> bool" where
  "overlay_first d db ov \<longleftrightarrow>
     (if \<not> oc_valid ov then False
      else if \<not> db_valid db then True
      else scan_before d (oc_key ov) (db_key db))"

definition overlay_value :: "OverlayOp \<Rightarrow> bytes" where
  "overlay_value op = (case op of OverlayValue v \<Rightarrow> v | _ \<Rightarrow> [])"

definition oc_left :: "OverlayCursor \<Rightarrow> nat" where
  "oc_left c = length (rows_from (oc_direction c) (oc_it c) (oc_view c))"

definition db_left :: "MockIterator option \<Rightarrow> nat" where
  "db_left db = (case db of Some it \<Rightarrow> length (mi_rest it) | None \<Rightarrow> 0)"

text \<open>The loop of \<^verbatim>\<open>settle\<close>: it returns the two sources and the current row, if there is one.\<close>

function settle_loop :: "ScanDirection \<Rightarrow> MockIterator option \<Rightarrow> OverlayCursor \<Rightarrow>
    MockIterator option \<times> OverlayCursor \<times> (bytes \<times> bytes) option" where
  "settle_loop d db ov =
     (if \<not> db_valid db \<and> \<not> oc_valid ov then (db, ov, None)
      else if overlay_first d db ov then
        (if is_tombstone (oc_op ov) then settle_loop d db (oc_next ov)
         else (db, ov, Some (oc_key ov, overlay_value (oc_op ov))))
      else if \<not> db_valid db then (db, ov, None)
      else if oc_valid ov \<and> \<not> scan_before d (db_key db) (oc_key ov) then
        (if is_tombstone (oc_op ov) then settle_loop d (map_option mi_next db) (oc_next ov)
         else (db, ov, Some (db_key db, overlay_value (oc_op ov))))
      else (db, ov, Some (db_key db, db_value db)))"
  by pat_completeness auto

lemma oc_next_left: "oc_valid c \<Longrightarrow> oc_left (oc_next c) < oc_left c"
proof -
  assume v: "oc_valid c"
  then have i: "oc_it c < length (oc_view c)" "oc_buffer c \<noteq> None" by (auto simp: oc_valid_def oc_at_end_def split: if_splits)
  have "oc_view (c\<lparr>oc_it := n\<rparr>) = oc_view c" for n by (simp add: oc_view_def)
  then show ?thesis using i
    by (cases "oc_direction c") (auto simp: oc_left_def oc_next_def oc_at_end_def rows_from_def min_def)
qed

lemma mi_next_left: "mi_valid it \<Longrightarrow> length (mi_rest (mi_next it)) < length (mi_rest it)"
proof -
  assume v: "mi_valid it"
  then have i: "mi_index it < length (mi_rows it)" by (auto simp: mi_valid_def mi_in_range_contains)
  have "mi_rest (mi_update_status x) = mi_rest x" for x by (simp add: mi_update_status_def mi_rest_def)
  then show ?thesis using v i
    by (cases "sr_direction (mi_range it)")
      (auto simp: mi_next_def mi_step_up_def mi_step_down_def mi_rest_def rows_from_def min_def)
qed

termination settle_loop
proof (relation "measure (\<lambda>(d, db, ov). db_left db + oc_left ov)")
  show "((d, map_option mi_next db, oc_next ov), (d, db, ov)) \<in> measure (\<lambda>(d, db, ov). db_left db + oc_left ov)"
    if "\<not> \<not> db_valid db" "oc_valid ov \<and> \<not> scan_before d (db_key db) (oc_key ov)" for d db ov
    using that mi_next_left oc_next_left[of ov] by (auto simp: db_valid_def db_left_def split: option.splits) (metis add_less_mono)
qed (auto simp: overlay_first_def oc_next_left split: if_splits)

declare settle_loop.simps [simp del]

definition settle :: "MergingIterator \<Rightarrow> MergingIterator" where
  "settle m =
     (case settle_loop (mg_direction m) (mg_db m) (mg_overlay m) of
        (db, ov, None) \<Rightarrow> m\<lparr>mg_db := db, mg_overlay := ov, mg_valid := False\<rparr>
      | (db, ov, Some (k, v)) \<Rightarrow>
          m\<lparr>mg_db := db, mg_overlay := ov, mg_valid := True, mg_key := k, mg_value := v,
            mg_from_db := (db_valid db \<and> db_key db = k),
            mg_from_overlay := (oc_valid ov \<and> oc_key ov = k)\<rparr>)"

definition merging_iterator :: "MockIterator option \<Rightarrow> TxBuffer option \<Rightarrow> ScanRange \<Rightarrow> MergingIterator" where
  "merging_iterator db b rg =
     settle \<lparr> mg_db = db, mg_buffer = b,
       mg_overlay = (if b \<noteq> None then overlay_cursor b (sr_start rg) (sr_end rg) (sr_direction rg)
                     else overlay_cursor None None None (sr_direction rg)),
       mg_direction = sr_direction rg, mg_valid = False, mg_key = [], mg_value = [],
       mg_from_db = False, mg_from_overlay = False \<rparr>"

definition advance_sources :: "MergingIterator \<Rightarrow> MergingIterator" where
  "advance_sources m =
     m\<lparr>mg_db := (if mg_from_db m then map_option mi_next (mg_db m) else mg_db m),
       mg_overlay := (if mg_from_overlay m then oc_next (mg_overlay m) else mg_overlay m)\<rparr>"

definition mg_next :: "MergingIterator \<Rightarrow> MergingIterator" where
  "mg_next m = (if \<not> mg_valid m then m else settle (advance_sources m))"

definition mg_seek :: "bytes \<Rightarrow> MergingIterator \<Rightarrow> MergingIterator" where
  "mg_seek k m = settle (m\<lparr>mg_db := map_option (mi_seek k) (mg_db m), mg_overlay := oc_seek k (mg_overlay m)\<rparr>)"

definition mg_seek_to_first :: "MergingIterator \<Rightarrow> MergingIterator" where
  "mg_seek_to_first m =
     settle (m\<lparr>mg_db := map_option mi_seek_to_first (mg_db m), mg_overlay := oc_seek_start (mg_overlay m)\<rparr>)"

text \<open>The two loops that step back over deleted keys.\<close>

definition opposite :: "ScanDirection \<Rightarrow> ScanDirection" where
  "opposite d = (case d of Forward \<Rightarrow> Reverse | Reverse \<Rightarrow> Forward)"

definition mi_back :: "MockIterator \<Rightarrow> nat" where
  "mi_back it = length (rows_from (opposite (sr_direction (mi_range it))) (mi_index it) (mi_rows it))"

definition oc_back :: "OverlayCursor \<Rightarrow> nat" where
  "oc_back c = length (rows_from (opposite (oc_direction c)) (oc_it c) (oc_view c))"

lemma mi_prev_back: "mi_valid it \<Longrightarrow> mi_back (mi_prev it) < mi_back it"
proof -
  assume v: "mi_valid it"
  then have i: "mi_index it < length (mi_rows it)" by (auto simp: mi_valid_def mi_in_range_contains)
  have "mi_back (mi_update_status x) = mi_back x" for x by (simp add: mi_update_status_def mi_back_def)
  then show ?thesis using v i
    by (cases "sr_direction (mi_range it)")
      (auto simp: mi_prev_def mi_step_up_def mi_step_down_def mi_back_def rows_from_def min_def opposite_def)
qed

lemma oc_prev_back: "oc_valid c \<Longrightarrow> oc_back (oc_prev c) < oc_back c"
proof -
  assume v: "oc_valid c"
  then have i: "oc_it c < length (oc_view c)" "oc_buffer c \<noteq> None" by (auto simp: oc_valid_def oc_at_end_def split: if_splits)
  have "oc_view (c\<lparr>oc_it := n\<rparr>) = oc_view c" for n by (simp add: oc_view_def)
  then show ?thesis using i
    by (cases "oc_direction c") (auto simp: oc_back_def oc_prev_def oc_at_end_def rows_from_def min_def opposite_def)
qed

function db_skip_back :: "TxBuffer option \<Rightarrow> MockIterator \<Rightarrow> MockIterator" where
  "db_skip_back b it =
     (if mi_valid it \<and> (case b of Some tb \<Rightarrow> is_tombstone (tb_lookup tb (mi_key it)) | None \<Rightarrow> False)
      then db_skip_back b (mi_prev it) else it)"
  by pat_completeness auto
termination by (relation "measure (\<lambda>(b, it). mi_back it)") (auto simp: mi_prev_back)

function overlay_skip_back :: "OverlayCursor \<Rightarrow> OverlayCursor" where
  "overlay_skip_back c = (if oc_valid c \<and> is_tombstone (oc_op c) then overlay_skip_back (oc_prev c) else c)"
  by pat_completeness auto
termination by (relation "measure oc_back") (auto simp: oc_prev_back)

declare db_skip_back.simps [simp del] overlay_skip_back.simps [simp del]

text \<open>The later of the two candidates in the direction of the scan; \<^verbatim>\<open>later_in_scan(a, b)\<close> is that b is before a.\<close>

definition pick_later :: "ScanDirection \<Rightarrow> MockIterator option \<Rightarrow> OverlayCursor \<Rightarrow> (bytes \<times> bytes) option" where
  "pick_later d db ov =
     (let has_db = db_valid db; has_ov = oc_valid ov;
          take_overlay = (has_ov \<and> (\<not> has_db \<or> scan_before d (db_key db) (oc_key ov)))
      in if \<not> has_db \<and> \<not> has_ov then None
         else if take_overlay then Some (oc_key ov, overlay_value (oc_op ov))
         else Some (db_key db, db_value db))"

definition mi_before :: "bytes \<Rightarrow> MockIterator \<Rightarrow> MockIterator" where
  "mi_before k it = (let it = mi_seek k it in if \<not> mi_valid it then mi_seek_to_last it else mi_prev it)"

definition oc_before :: "bytes \<Rightarrow> OverlayCursor \<Rightarrow> OverlayCursor" where
  "oc_before k c = (let c = oc_seek k c in if \<not> oc_valid c then oc_seek_finish c else oc_prev c)"

definition predecessor_of :: "bytes \<Rightarrow> MergingIterator \<Rightarrow> MergingIterator \<times> (bytes \<times> bytes) option" where
  "predecessor_of k m =
     (let db = map_option (\<lambda>it. db_skip_back (mg_buffer m) (mi_before k it)) (mg_db m);
          ov = overlay_skip_back (oc_before k (mg_overlay m))
      in (m\<lparr>mg_db := db, mg_overlay := ov\<rparr>, pick_later (mg_direction m) db ov))"

definition last_item :: "MergingIterator \<Rightarrow> MergingIterator \<times> (bytes \<times> bytes) option" where
  "last_item m =
     (let db = map_option (\<lambda>it. db_skip_back (mg_buffer m) (mi_seek_to_last it)) (mg_db m);
          ov = overlay_skip_back (oc_seek_finish (mg_overlay m))
      in (m\<lparr>mg_db := db, mg_overlay := ov\<rparr>, pick_later (mg_direction m) db ov))"

definition mg_prev :: "MergingIterator \<Rightarrow> MergingIterator" where
  "mg_prev m =
     (if \<not> mg_valid m then m
      else case predecessor_of (mg_key m) m of
        (m', None) \<Rightarrow> m'\<lparr>mg_valid := False\<rparr>
      | (m', Some (k, _)) \<Rightarrow> mg_seek k m')"

definition mg_seek_to_last :: "MergingIterator \<Rightarrow> MergingIterator" where
  "mg_seek_to_last m =
     (case last_item m of
        (m', None) \<Rightarrow> m'\<lparr>mg_valid := False\<rparr>
      | (m', Some (k, _)) \<Rightarrow> mg_seek k m')"

definition mg_kvpair :: "MergingIterator \<Rightarrow> bytes \<times> bytes" where
  "mg_kvpair m = (if mg_valid m then (mg_key m, mg_value m) else ([], []))"

definition mg_status :: "MergingIterator \<Rightarrow> Status" where
  "mg_status m = (case mg_db m of Some it \<Rightarrow> mi_status it | None \<Rightarrow> S_InternalError)"

section \<open>The merge as a function on lists\<close>

lemma scan_before_order:
  "\<not> scan_before d a a" "scan_before d a b \<Longrightarrow> scan_before d b c \<Longrightarrow> scan_before d a c"
  "\<not> scan_before d a b \<Longrightarrow> \<not> scan_before d b a \<Longrightarrow> a = b" "scan_before d a b \<Longrightarrow> \<not> scan_before d b a"
  by (cases d; auto simp: scan_before_def)+

fun merge_rows :: "ScanDirection \<Rightarrow> (bytes \<times> bytes) list \<Rightarrow> (bytes \<times> OverlayOp) list \<Rightarrow> (bytes \<times> bytes) list" where
  "merge_rows d ds [] = ds"
| "merge_rows d [] ((k, op) # os) =
     (if is_tombstone op then merge_rows d [] os else (k, overlay_value op) # merge_rows d [] os)"
| "merge_rows d ((dk, dv) # ds) ((k, op) # os) =
     (if scan_before d k dk then
        (if is_tombstone op then merge_rows d ((dk, dv) # ds) os
         else (k, overlay_value op) # merge_rows d ((dk, dv) # ds) os)
      else if \<not> scan_before d dk k then
        (if is_tombstone op then merge_rows d ds os else (dk, overlay_value op) # merge_rows d ds os)
      else (dk, dv) # merge_rows d ds ((k, op) # os))"

definition oc_bounds :: "OverlayCursor \<Rightarrow> bytes \<Rightarrow> bool" where
  "oc_bounds c k \<longleftrightarrow>
     \<not> (case oc_begin c of Some s \<Rightarrow> k < s | None \<Rightarrow> False) \<and> \<not> (case oc_end c of Some e \<Rightarrow> \<not> k < e | None \<Rightarrow> False)"

definition oc_rest :: "OverlayCursor \<Rightarrow> (bytes \<times> OverlayOp) list" where
  "oc_rest c =
     (case oc_buffer c of None \<Rightarrow> []
      | Some b \<Rightarrow> map (\<lambda>p. (fst p, tb_lookup b (fst p)))
          (takeWhile (\<lambda>p. oc_bounds c (fst p)) (rows_from (oc_direction c) (oc_it c) (tb_view b))))"

lemma oc_valid_iff:
  "oc_buffer c = Some b \<Longrightarrow> oc_valid c \<longleftrightarrow> oc_it c < length (tb_view b) \<and> oc_bounds c (fst (tb_view b ! oc_it c))"
proof -
  assume b: "oc_buffer c = Some b"
  then have v: "oc_view c = tb_view b" by (simp add: oc_view_def)
  show ?thesis unfolding oc_valid_def oc_at_end_def oc_key_def v oc_bounds_def using b by auto
qed

lemma oc_rest_step:
  "oc_valid c \<longleftrightarrow> oc_rest c \<noteq> []"
  "oc_valid c \<Longrightarrow> oc_rest c = (oc_key c, oc_op c) # oc_rest (oc_next c)"
proof -
  show "oc_valid c \<longleftrightarrow> oc_rest c \<noteq> []"
  proof (cases "oc_buffer c")
    case (Some b)
    show ?thesis unfolding oc_valid_iff[OF Some]
      using hd_rows_from[of "oc_it c" "tb_view b" "oc_direction c"] by (auto simp: oc_rest_def Some takeWhile_eq_Nil_iff not_le)
  qed (simp add: oc_valid_def oc_rest_def)
  assume v: "oc_valid c"
  then obtain b where bb: "oc_buffer c = Some b" by (cases "oc_buffer c") (simp_all add: oc_valid_def)
  with v have b: "oc_buffer c = Some b" "oc_it c < length (tb_view b)" "oc_bounds c (fst (tb_view b ! oc_it c))"
    by (simp_all add: oc_valid_iff)
  let ?rows = "rows_from (oc_direction c) (oc_it c) (tb_view b)"
  have r: "?rows = tb_view b ! oc_it c # tl ?rows" using b(2) hd_rows_from[OF b(2)] by (metis list.exhaust_sel rows_from_Nil not_less)
  have t: "tl ?rows = rows_from (oc_direction c) (oc_it (oc_next c)) (tb_view b)"
    using b tl_rows_from[OF b(2)] by (cases "oc_direction c") (auto simp: oc_next_def oc_at_end_def oc_view_def)
  have n: "oc_buffer (oc_next c) = Some b" "oc_direction (oc_next c) = oc_direction c" "oc_bounds (oc_next c) = oc_bounds c"
    using b by (auto simp: oc_next_def oc_bounds_def)
  have "oc_rest c = map (\<lambda>p. (fst p, tb_lookup b (fst p))) (takeWhile (\<lambda>p. oc_bounds c (fst p)) (tb_view b ! oc_it c # tl ?rows))"
    unfolding r[symmetric] using b(1) by (simp add: oc_rest_def)
  also have "\<dots> = (oc_key c, oc_op c) # oc_rest (oc_next c)"
    using b n t by (simp add: oc_rest_def oc_key_def oc_op_def oc_view_def)
  finally show "oc_rest c = (oc_key c, oc_op c) # oc_rest (oc_next c)" .
qed

definition db_rest :: "MockIterator option \<Rightarrow> (bytes \<times> bytes) list" where
  "db_rest db = (case db of Some it \<Rightarrow> mi_rest it | None \<Rightarrow> [])"

definition db_inv :: "MockIterator option \<Rightarrow> bool" where
  "db_inv db \<longleftrightarrow> (case db of Some it \<Rightarrow> mi_inv it | None \<Rightarrow> True)"

lemma db_rest_step:
  assumes "db_inv db"
  shows "db_valid db \<longleftrightarrow> db_rest db \<noteq> []"
    and "db_valid db \<Longrightarrow> db_rest db = (db_key db, db_value db) # db_rest (map_option mi_next db)"
    and "db_inv (map_option mi_next db)"
proof -
  show *: "db_valid db \<longleftrightarrow> db_rest db \<noteq> []"
    using assms mock_it.valid_rest by (auto simp: db_inv_def db_valid_def db_rest_def split: option.splits)
  show "db_inv (map_option mi_next db)"
    using assms mock_it.next_inv by (auto simp: db_inv_def split: option.splits)
  assume "db_valid db"
  then obtain it where it: "db = Some it" "mi_inv it" "mi_rest it \<noteq> []"
    using * assms by (cases db) (auto simp: db_inv_def db_rest_def)
  then show "db_rest db = (db_key db, db_value db) # db_rest (map_option mi_next db)"
    using mock_it.pair_rest[OF it(2,3)] mock_it.next_rest[OF it(2,3)]
    by (simp add: db_rest_def db_key_def db_value_def mi_kvpair_def)
qed

definition advanced :: "bytes \<Rightarrow> MockIterator option \<times> OverlayCursor \<Rightarrow> MockIterator option \<times> OverlayCursor" where
  "advanced k s =
     (if db_valid (fst s) \<and> db_key (fst s) = k then map_option mi_next (fst s) else fst s,
      if oc_valid (snd s) \<and> oc_key (snd s) = k then oc_next (snd s) else snd s)"

definition sources :: "ScanDirection \<Rightarrow> MockIterator option \<times> OverlayCursor \<Rightarrow> (bytes \<times> bytes) list" where
  "sources d s = merge_rows d (db_rest (fst s)) (oc_rest (snd s))"

text \<open>The three ways in which \<^verbatim>\<open>settle\<close> finds the next row.\<close>

lemma sources_both:
  assumes "db_inv db" "db_valid db" "oc_valid ov"
  shows "sources d (db, ov) = merge_rows d ((db_key db, db_value db) # db_rest (map_option mi_next db))
      ((oc_key ov, oc_op ov) # oc_rest (oc_next ov))"
  using db_rest_step(2)[OF assms(1,2)] oc_rest_step(2)[OF assms(3)] by (simp add: sources_def)

lemma sources_overlay:
  assumes "db_inv db" "overlay_first d db ov"
  shows "sources d (db, ov) = (if is_tombstone (oc_op ov) then sources d (db, oc_next ov)
        else (oc_key ov, overlay_value (oc_op ov)) # sources d (db, oc_next ov))"
    and "advanced (oc_key ov) (db, ov) = (db, oc_next ov)"
proof -
  have v: "oc_valid ov" using assms(2) by (simp add: overlay_first_def split: if_splits)
  show "sources d (db, ov) = (if is_tombstone (oc_op ov) then sources d (db, oc_next ov)
        else (oc_key ov, overlay_value (oc_op ov)) # sources d (db, oc_next ov))"
  proof (cases "db_valid db")
    case True
    then show ?thesis using assms v sources_both[OF assms(1) True v] db_rest_step(2)[OF assms(1) True]
      by (simp add: overlay_first_def sources_def)
  next
    case False
    then show ?thesis using db_rest_step(1)[OF assms(1)] oc_rest_step(2)[OF v] by (simp add: sources_def)
  qed
  show "advanced (oc_key ov) (db, ov) = (db, oc_next ov)"
    using assms v scan_before_order(1)[of d "oc_key ov"] by (auto simp: advanced_def overlay_first_def)
qed

lemma sources_same:
  assumes "db_inv db" "db_valid db" "\<not> overlay_first d db ov" "oc_valid ov" "\<not> scan_before d (db_key db) (oc_key ov)"
  shows "sources d (db, ov) = (if is_tombstone (oc_op ov) then sources d (map_option mi_next db, oc_next ov)
          else (db_key db, overlay_value (oc_op ov)) # sources d (map_option mi_next db, oc_next ov))"
    and "advanced (db_key db) (db, ov) = (map_option mi_next db, oc_next ov)"
proof -
  have eq: "oc_key ov = db_key db"
    using assms scan_before_order(3)[of d "oc_key ov" "db_key db"] by (simp add: overlay_first_def)
  show "sources d (db, ov) = (if is_tombstone (oc_op ov) then sources d (map_option mi_next db, oc_next ov)
          else (db_key db, overlay_value (oc_op ov)) # sources d (map_option mi_next db, oc_next ov))"
    using assms sources_both[OF assms(1,2,4)] eq by (simp add: sources_def scan_before_order(1))
  show "advanced (db_key db) (db, ov) = (map_option mi_next db, oc_next ov)"
    using assms eq by (simp add: advanced_def)
qed

lemma sources_db:
  assumes "db_inv db" "db_valid db" "\<not> overlay_first d db ov" "\<not> (oc_valid ov \<and> \<not> scan_before d (db_key db) (oc_key ov))"
  shows "sources d (db, ov) = (db_key db, db_value db) # sources d (map_option mi_next db, ov)"
    and "advanced (db_key db) (db, ov) = (map_option mi_next db, ov)"
proof -
  show "sources d (db, ov) = (db_key db, db_value db) # sources d (map_option mi_next db, ov)"
  proof (cases "oc_valid ov")
    case True
    then show ?thesis using assms sources_both[OF assms(1,2) True] oc_rest_step(2)[OF True]
      by (simp add: sources_def overlay_first_def)
  next
    case False
    then show ?thesis using db_rest_step(2)[OF assms(1,2)] oc_rest_step(1)[of ov] by (simp add: sources_def)
  qed
  show "advanced (db_key db) (db, ov) = (map_option mi_next db, ov)"
    using assms scan_before_order(1)[of d "db_key db"] by (auto simp: advanced_def)
qed

lemma settled:
  "db_inv db \<Longrightarrow> settle_loop d db ov = (db', ov', r) \<Longrightarrow>
   db_inv db' \<and> sources d (db', ov') = sources d (db, ov) \<and>
   (case r of None \<Rightarrow> sources d (db', ov') = []
    | Some kv \<Rightarrow> sources d (db', ov') = kv # sources d (advanced (fst kv) (db', ov')))"
proof (induction d db ov rule: settle_loop.induct)
  case (1 d db ov)
  note loop = 1(4)[unfolded settle_loop.simps[of d db ov]]
  consider (stop) "\<not> db_valid db" "\<not> oc_valid ov"
    | (overlay) "oc_valid ov" "overlay_first d db ov"
    | (db) "db_valid db" "\<not> overlay_first d db ov"
    by (metis overlay_first_def)
  then show ?case
  proof cases
    case stop
    then show ?thesis using loop 1(3) db_rest_step(1)[OF 1(3)] oc_rest_step(1)[of ov] by (auto simp: sources_def)
  next
    case overlay
    note src = sources_overlay[OF 1(3) overlay(2)]
    show ?thesis
    proof (cases "is_tombstone (oc_op ov)")
      case True
      then show ?thesis using 1(1)[OF _ overlay(2) True 1(3)] loop overlay src by auto
    qed (use loop overlay src 1(3) in auto)
  next
    case db
    show ?thesis
    proof (cases "oc_valid ov \<and> \<not> scan_before d (db_key db) (oc_key ov)")
      case True
      then have src: "oc_valid ov" "\<not> scan_before d (db_key db) (oc_key ov)" by auto
      note src = src sources_same[OF 1(3) db src]
      show ?thesis
      proof (cases "is_tombstone (oc_op ov)")
        case tomb: True
        then show ?thesis using 1(2)[OF _ db(2) _ True tomb db_rest_step(3)[OF 1(3)]] loop db src by auto
      qed (use loop db src 1(3) in auto)
    next
      case False
      then show ?thesis using loop db 1(3) sources_db[OF 1(3) db False] by auto
    qed
  qed
qed

definition mg_rest :: "MergingIterator \<Rightarrow> (bytes \<times> bytes) list" where
  "mg_rest m = sources (mg_direction m) (mg_db m, mg_overlay m)"

definition mg_inv :: "MergingIterator \<Rightarrow> bool" where
  "mg_inv m \<longleftrightarrow>
     (\<exists>it. mg_db m = Some it \<and> mi_inv it) \<and> (mg_valid m \<longleftrightarrow> mg_rest m \<noteq> []) \<and>
     (mg_valid m \<longrightarrow>
       mg_rest m = (mg_key m, mg_value m) # sources (mg_direction m) (advanced (mg_key m) (mg_db m, mg_overlay m)) \<and>
       mg_from_db m = (db_valid (mg_db m) \<and> db_key (mg_db m) = mg_key m) \<and>
       mg_from_overlay m = (oc_valid (mg_overlay m) \<and> oc_key (mg_overlay m) = mg_key m))"

lemma settle_loop_db: "settle_loop d db ov = (db', ov', r) \<Longrightarrow> db' = None \<longleftrightarrow> db = None"
proof (induction d db ov rule: settle_loop.induct)
  case (1 d db ov)
  then show ?case by (subst (asm) (3) settle_loop.simps) (auto split: if_splits)
qed

lemma settle_spec:
  assumes "mg_db m = Some it" "mi_inv it"
  shows "mg_inv (settle m)" "mg_rest (settle m) = sources (mg_direction m) (mg_db m, mg_overlay m)"
proof -
  obtain db ov r where l: "settle_loop (mg_direction m) (mg_db m) (mg_overlay m) = (db, ov, r)" by (cases "settle_loop (mg_direction m) (mg_db m) (mg_overlay m)")
  have i: "db_inv (mg_db m)" using assms by (simp add: db_inv_def)
  obtain it' where db: "db = Some it'" using settle_loop_db[OF l] assms by (cases db) auto
  note s = settled[OF i l]
  show "mg_inv (settle m)" "mg_rest (settle m) = sources (mg_direction m) (mg_db m, mg_overlay m)"
    using s db l by (auto simp: settle_def mg_inv_def mg_rest_def db_inv_def split: option.splits)
qed

lemma mg_next_spec:
  assumes "mg_inv m"
  shows "mg_inv (mg_next m)" "mg_rest m \<noteq> [] \<Longrightarrow> mg_rest (mg_next m) = tl (mg_rest m)"
proof -
  obtain it where it: "mg_db m = Some it" "mi_inv it" using assms by (auto simp: mg_inv_def)
  have "\<exists>it'. mg_db (advance_sources m) = Some it' \<and> mi_inv it'"
    using it mock_it.next_inv by (auto simp: advance_sources_def)
  then obtain it' where a: "mg_db (advance_sources m) = Some it'" "mi_inv it'" by blast
  have adv: "(mg_db (advance_sources m), mg_overlay (advance_sources m)) = advanced (mg_key m) (mg_db m, mg_overlay m)"
    "mg_direction (advance_sources m) = mg_direction m" if "mg_valid m"
    using assms that by (auto simp: advance_sources_def advanced_def mg_inv_def)
  show "mg_inv (mg_next m)" using assms settle_spec(1)[OF a] by (auto simp: mg_next_def)
  show "mg_rest m \<noteq> [] \<Longrightarrow> mg_rest (mg_next m) = tl (mg_rest m)"
    using assms settle_spec(2)[OF a] adv by (auto simp: mg_next_def mg_inv_def)
qed

interpretation merging_it: kv_iterator mg_valid mg_next mg_kvpair mg_status mg_inv mg_rest
proof
  show "mg_inv m \<Longrightarrow> mg_valid m \<longleftrightarrow> mg_rest m \<noteq> []" for m unfolding mg_inv_def by blast
  show "mg_inv m \<Longrightarrow> mg_rest m \<noteq> [] \<Longrightarrow> mg_kvpair m = hd (mg_rest m)" for m
    by (auto simp: mg_inv_def mg_kvpair_def)
  show "mg_status m = S_OK \<or> mg_status m = S_NotFound" if "mg_inv m" for m
  proof -
    obtain it where "mg_db m = Some it" "mi_inv it" using \<open>mg_inv m\<close> unfolding mg_inv_def by blast
    then show ?thesis using mock_it.status_ok by (simp add: mg_status_def)
  qed
qed (fact mg_next_spec)+

section \<open>What a scan inside a transaction lists\<close>

lemma before_all_None:
  "sorted_wrt (scan_before d) (map fst ((j, x) # xs)) \<Longrightarrow> k = j \<or> scan_before d k j \<Longrightarrow> map_of xs k = None"
  using scan_before_order(1,2) by (fastforce simp: map_of_eq_None_iff)

lemma merge_rows_find:
  assumes "sorted_wrt (scan_before d) (map fst ds)" "sorted_wrt (scan_before d) (map fst os)"
  shows "map_of (merge_rows d ds os) k =
    (case map_of os k of None \<Rightarrow> map_of ds k | Some op \<Rightarrow> if is_tombstone op then None else Some (overlay_value op))"
  using assms
proof (induction d ds os rule: merge_rows.induct)
  case (2 d j op os)
  then show ?case using before_all_None[of d j op os j] by (auto split: option.splits)
next
  case (3 d dk dv ds j op os)
  consider (ov) "scan_before d j dk" | (same) "j = dk" | (db) "scan_before d dk j"
    using scan_before_order(3) by blast
  then show ?case
  proof cases
    case ov
    have n: "map_of os j = None" "map_of ds j = None" "j \<noteq> dk"
      using before_all_None[of d j op os j] before_all_None[of d dk dv ds j] ov 3(6,7) scan_before_order(1) by auto
    have "map_of (merge_rows d ((dk, dv) # ds) os) k =
      (case map_of os k of None \<Rightarrow> map_of ((dk, dv) # ds) k | Some op \<Rightarrow> if is_tombstone op then None else Some (overlay_value op))"
      using 3 ov by (cases "is_tombstone op") auto
    then show ?thesis using ov n by auto
  next
    case same
    have n: "map_of os j = None" "map_of ds j = None"
      using before_all_None[of d j op os j] before_all_None[of d dk dv ds j] same 3(6,7) by auto
    have "map_of (merge_rows d ds os) k =
      (case map_of os k of None \<Rightarrow> map_of ds k | Some op \<Rightarrow> if is_tombstone op then None else Some (overlay_value op))"
      using 3 same scan_before_order(1) by (cases "is_tombstone op") auto
    then show ?thesis using same n by (auto simp: scan_before_order(1) split: option.splits)
  next
    case db
    have n: "map_of os dk = None" "j \<noteq> dk" "\<not> scan_before d j dk"
      using before_all_None[of d j op os dk] db 3(7) scan_before_order(1,4) by auto
    have "map_of (merge_rows d ds ((j, op) # os)) k = (case map_of ((j, op) # os) k of None \<Rightarrow> map_of ds k
      | Some op \<Rightarrow> if is_tombstone op then None else Some (overlay_value op))"
      using 3 db n by auto
    then show ?thesis using db n by (auto split: option.splits)
  qed
qed simp

lemma merge_rows_keys: "p \<in> set (merge_rows d ds os) \<Longrightarrow> fst p \<in> fst ` set ds \<or> fst p \<in> fst ` set os"
  by (induction d ds os rule: merge_rows.induct) (auto split: if_splits)

lemma merge_rows_sorted:
  assumes "sorted_wrt (scan_before d) (map fst ds)" "sorted_wrt (scan_before d) (map fst os)"
  shows "sorted_wrt (scan_before d) (map fst (merge_rows d ds os))"
  using assms
proof (induction d ds os rule: merge_rows.induct)
  case (2 d j op os)
  then show ?case using merge_rows_keys[of _ d "[]" os] by (fastforce split: if_splits)
next
  case (3 d dk dv ds j op os)
  have o: "k \<in> fst ` set os \<Longrightarrow> scan_before d j k" and e: "k \<in> fst ` set ds \<Longrightarrow> scan_before d dk k" for k
    using 3(7,6) by auto
  consider (ov) "scan_before d j dk" | (same) "j = dk" | (db) "scan_before d dk j"
    using scan_before_order(3) by blast
  then show ?case
  proof cases
    case ov
    have "\<forall>p \<in> set (merge_rows d ((dk, dv) # ds) os). scan_before d j (fst p)"
    proof
      fix p assume "p \<in> set (merge_rows d ((dk, dv) # ds) os)"
      then have "fst p = dk \<or> fst p \<in> fst ` set ds \<or> fst p \<in> fst ` set os"
        using merge_rows_keys[of p d "(dk, dv) # ds" os] unfolding list.set image_insert fst_conv insert_iff by metis
      then show "scan_before d j (fst p)" using ov e o scan_before_order(2)[of d j dk "fst p"] by metis
    qed
    moreover have "sorted_wrt (scan_before d) (map fst (merge_rows d ((dk, dv) # ds) os))"
      using 3(1,2)[OF ov] 3(6,7) by (cases "is_tombstone op") simp_all
    ultimately show ?thesis using ov by simp
  next
    case same
    then have ns: "\<not> scan_before d j dk" "\<not> scan_before d dk j" by (simp_all add: scan_before_order(1))
    have "\<forall>p \<in> set (merge_rows d ds os). scan_before d dk (fst p)"
      using same e o merge_rows_keys[of _ d ds os] by metis
    moreover have "sorted_wrt (scan_before d) (map fst (merge_rows d ds os))"
      using 3(3,4)[OF ns(1)] ns 3(6,7) by (cases "is_tombstone op") simp_all
    ultimately show ?thesis using ns by simp
  next
    case db
    then have nd: "\<not> scan_before d j dk" using scan_before_order(4) by blast
    have "\<forall>p \<in> set (merge_rows d ds ((j, op) # os)). scan_before d dk (fst p)"
    proof
      fix p assume "p \<in> set (merge_rows d ds ((j, op) # os))"
      then have "fst p = j \<or> fst p \<in> fst ` set ds \<or> fst p \<in> fst ` set os"
        using merge_rows_keys[of p d ds "(j, op) # os"] unfolding list.set image_insert fst_conv insert_iff by metis
      then show "scan_before d dk (fst p)" using db e o scan_before_order(2)[of d dk j "fst p"] by metis
    qed
    moreover have "sorted_wrt (scan_before d) (map fst (merge_rows d ds ((j, op) # os)))"
      using 3(5)[OF nd] db 3(6,7) by simp
    ultimately show ?thesis using db nd by simp
  qed
qed simp

lemma map_of_rev: "distinct (map fst xs) \<Longrightarrow> map_of (rev xs) = map_of xs"
  by (simp add: map_of_inject_set rev_map[symmetric])

lemma direction_find:
  assumes "om_inv m"
  shows "map_of (in_direction d m) = om_find m" "sorted_wrt (scan_before d) (map fst (in_direction d m))"
proof -
  show "map_of (in_direction d m) = om_find m"
    using map_of_rev[OF om_inv_distinct[OF assms]] by (cases d) (simp_all add: in_direction_def om_find_def fun_eq_iff)
  show "sorted_wrt (scan_before d) (map fst (in_direction d m))"
    using assms by (cases d) (simp_all add: in_direction_def om_inv_def scan_before_def[abs_def] rev_map[symmetric] sorted_wrt_rev)
qed

lemma direction_ext:
  assumes "sorted_wrt (scan_before d) (map fst a)" "om_inv b" "map_of a = om_find b"
  shows "a = in_direction d b"
proof (cases d)
  case Forward
  then have "om_inv a" using assms(1) by (simp add: om_inv_def scan_before_def[abs_def])
  from om_ext[OF this assms(2)] show ?thesis using assms(3) Forward by (simp add: in_direction_def om_find_def fun_eq_iff)
next
  case Reverse
  then have i: "om_inv (rev a)" using assms(1) by (simp add: om_inv_def scan_before_def[abs_def] rev_map[symmetric] sorted_wrt_rev)
  from om_inv_distinct[OF this] have "distinct (map fst a)" by (simp add: rev_map[symmetric])
  then have "rev a = b" using om_ext[OF i assms(2)] assms(3) by (simp add: om_find_def fun_eq_iff map_of_rev)
  then show ?thesis using Reverse by (auto simp: in_direction_def)
qed

lemma takeWhile_rev:
  assumes "om_inv m"
  shows "takeWhile (\<lambda>p. s \<le> fst p) (rev m) = rev (filter (\<lambda>p. s \<le> fst p) m)"
proof (rule takeWhile_eq_filter[THEN trans])
  show "filter (\<lambda>p. s \<le> fst p) (rev m) = rev (filter (\<lambda>p. s \<le> fst p) m)" by (simp add: rev_filter)
  have m: "rev m = rev (filter (\<lambda>p. s \<le> fst p) m) @ rev (filter (\<lambda>p. fst p < s) m)"
    using takeWhile_filter[OF assms, of s] dropWhile_filter[OF assms, of s] by (metis rev_append takeWhile_dropWhile_id)
  show "x \<in> set (dropWhile (\<lambda>p. s \<le> fst p) (rev m)) \<Longrightarrow> \<not> s \<le> fst x" for x
    unfolding m by (subst (asm) dropWhile_append2) (auto dest!: set_dropWhileD)
qed

lemma rows_from_take: "rows_from Reverse (before_index (length (takeWhile P xs)) xs) xs = rev (takeWhile P xs)"
proof (cases "takeWhile P xs")
  case (Cons a list)
  have "length (takeWhile P xs) \<le> length xs" by (rule length_takeWhile_le)
  moreover have "take (length (takeWhile P xs)) xs = takeWhile P xs" by (metis takeWhile_eq_take)
  ultimately show ?thesis using Cons by (auto simp: rows_from_def before_index_def)
qed (simp add: rows_from_def before_index_def)

lemma rows_from_last: "rows_from Reverse (last_index xs) xs = rev xs"
  by (cases xs) (auto simp: rows_from_def last_index_def)

lemma rows_from_drop: "rows_from Forward (length (takeWhile P xs)) xs = dropWhile P xs"
  by (metis (no_types, lifting) ScanDirection.simps(3) drop_all dropWhile_eq_drop nat_le_linear not_le rows_from_def)

lemma oc_bounds_simp: "oc_bounds c k \<longleftrightarrow> (\<forall>s. oc_begin c = Some s \<longrightarrow> s \<le> k) \<and> (\<forall>e. oc_end c = Some e \<longrightarrow> k < e)"
  by (auto simp: oc_bounds_def not_less split: option.splits)

lemma cursor_rest:
  assumes "om_inv (tb_view b)"
  shows "oc_rest (overlay_cursor (Some b) (sr_start rg) (sr_end rg) (sr_direction rg)) =
    map (\<lambda>p. (fst p, tb_lookup b (fst p))) (in_direction (sr_direction rg) (filter (\<lambda>p. sr_contains rg (fst p)) (tb_view b)))"
proof -
  let ?c = "overlay_cursor (Some b) (sr_start rg) (sr_end rg) (sr_direction rg)"
  let ?v = "tb_view b"
  have c: "oc_buffer ?c = Some b" "oc_direction ?c = sr_direction rg" "oc_begin ?c = sr_start rg" "oc_end ?c = sr_end rg"
    by (simp_all add: overlay_cursor_def oc_seek_start_def Let_def)
  define st where "st k \<longleftrightarrow> (\<forall>s. sr_start rg = Some s \<longrightarrow> s \<le> k)" for k
  define en where "en k \<longleftrightarrow> (\<forall>e. sr_end rg = Some e \<longrightarrow> k < e)" for k
  have bnd: "oc_bounds ?c k \<longleftrightarrow> st k \<and> en k" for k using c by (simp add: oc_bounds_simp st_def en_def)
  have con: "sr_contains rg k \<longleftrightarrow> st k \<and> en k" for k by (auto simp: st_def en_def sr_contains_def split: option.splits)
  have "takeWhile (\<lambda>p. st (fst p) \<and> en (fst p)) (rows_from (sr_direction rg) (oc_it ?c) ?v) =
    in_direction (sr_direction rg) (filter (\<lambda>p. st (fst p) \<and> en (fst p)) ?v)"
  proof (cases "sr_direction rg")
    case Forward
    have "rows_from Forward (oc_it ?c) ?v = filter (\<lambda>p. st (fst p)) ?v"
      using Forward rows_from_drop[of "\<lambda>p. fst p < _" ?v] dropWhile_filter[OF assms]
      by (cases "sr_start rg") (auto simp: st_def Let_def overlay_cursor_def oc_seek_start_def oc_lowest_def oc_view_def om_lower_bound_def rows_from_def)
    moreover have "takeWhile (\<lambda>p. st (fst p) \<and> en (fst p)) (filter (\<lambda>p. st (fst p)) ?v) = takeWhile (\<lambda>p. en (fst p)) (filter (\<lambda>p. st (fst p)) ?v)"
      by (rule takeWhile_cong) auto
    moreover have "om_inv m \<Longrightarrow> takeWhile (\<lambda>p. en (fst p)) m = filter (\<lambda>p. en (fst p)) m" for m :: "TxEntry omap"
      using takeWhile_filter by (cases "sr_end rg") (auto simp: en_def)
    ultimately show ?thesis using Forward om_inv_filter[OF assms] by (simp add: in_direction_def conj_commute)
  next
    case Reverse
    have "rows_from Reverse (oc_it ?c) ?v = rev (filter (\<lambda>p. en (fst p)) ?v)"
      using Reverse rows_from_take[of "\<lambda>p. fst p < _" ?v] takeWhile_filter[OF assms]
      by (cases "sr_end rg") (auto simp: en_def Let_def overlay_cursor_def oc_seek_start_def oc_highest_def oc_view_def om_lower_bound_def rows_from_last)
    moreover have "takeWhile (\<lambda>p. st (fst p) \<and> en (fst p)) (rev (filter (\<lambda>p. en (fst p)) ?v)) = takeWhile (\<lambda>p. st (fst p)) (rev (filter (\<lambda>p. en (fst p)) ?v))"
      by (rule takeWhile_cong) auto
    moreover have "om_inv m \<Longrightarrow> takeWhile (\<lambda>p. st (fst p)) (rev m) = rev (filter (\<lambda>p. st (fst p)) m)" for m :: "TxEntry omap"
      using takeWhile_rev by (cases "sr_start rg") (auto simp: st_def)
    ultimately show ?thesis using Reverse om_inv_filter[OF assms] by (simp add: in_direction_def conj_commute)
  qed
  then show ?thesis using c by (simp add: oc_rest_def bnd con)
qed


text \<open>What the transaction's own keys say; a range deletion shows only at keys that were also written singly.\<close>

definition view_op :: "TxBuffer \<Rightarrow> bytes \<Rightarrow> OverlayOp" where
  "view_op b k = (if om_find (tb_view b) k = None then NoOverlay else tb_lookup b k)"

lemma lookup_not_none: "tb_inv b \<Longrightarrow> om_find (tb_view b) k \<noteq> None \<Longrightarrow> tb_lookup b k \<noteq> NoOverlay"
proof -
  assume b: "tb_inv b" and "om_find (tb_view b) k \<noteq> None"
  then obtain e where e: "om_find (tb_view b) k = Some e" by blast
  have "\<forall>p \<in> set (tb_view b). te_op (snd p) \<noteq> NoOverlay" using b by (simp add: tb_inv_def)
  with om_find_in[OF e] have "te_op e \<noteq> NoOverlay" by (metis snd_conv)
  with e show "tb_lookup b k \<noteq> NoOverlay" by (simp add: tb_lookup_def Let_def)
qed

lemma map_of_lookup: "map_of (map (\<lambda>p. (fst p, f (fst p))) xs) k = (if map_of xs k = None then None else Some (f k))"
  by (induction xs) auto

lemma merged_scan:
  assumes "om_inv data" "tb_inv b" "om_inv data'" "om_find data' = (\<lambda>k. overlay (view_op b k) (om_find data k))"
  shows "mg_inv (merging_iterator (Some (mock_iterator (materialize data rg) rg)) (Some b) rg)"
    "mg_rest (merging_iterator (Some (mock_iterator (materialize data rg) rg)) (Some b) rg) =
      in_direction (sr_direction rg) (materialize data' rg)"
proof -
  let ?d = "sr_direction rg" and ?it = "mock_iterator (materialize data rg) rg"
  let ?in = "\<lambda>p. sr_contains rg (fst p)"
  have v: "om_inv (tb_view b)" using assms(2) by (simp add: tb_inv_def)
  note mat = materialize_filter[OF assms(1)] materialize_filter[OF assms(3)]
  have it: "mi_inv ?it" "mi_rest ?it = in_direction ?d (materialize data rg)"
    by (rule mock_iterator_rest; simp add: mat)+
  note m = settle_spec[of _ ?it, OF _ it(1)]
  show "mg_inv (merging_iterator (Some ?it) (Some b) rg)" unfolding merging_iterator_def by (rule m(1)) simp
  let ?os = "map (\<lambda>p. (fst p, tb_lookup b (fst p))) (in_direction ?d (filter ?in (tb_view b)))"
  have rest: "mg_rest (merging_iterator (Some ?it) (Some b) rg) = merge_rows ?d (in_direction ?d (materialize data rg)) ?os"
    unfolding merging_iterator_def by (subst m(2)) (simp_all add: sources_def db_rest_def it(2) cursor_rest[OF v])
  have so: "sorted_wrt (scan_before ?d) (map fst ?os)"
    using direction_find(2)[OF om_inv_filter[OF v]] by (simp add: comp_def)
  have sd: "sorted_wrt (scan_before ?d) (map fst (in_direction ?d (materialize data rg)))"
    using direction_find(2)[OF om_inv_filter[OF assms(1)]] by (simp add: mat)
  have fo: "map_of ?os k = (if sr_contains rg k \<and> om_find (tb_view b) k \<noteq> None then Some (tb_lookup b k) else None)" for k
    unfolding map_of_lookup direction_find(1)[OF om_inv_filter[OF v]] om_find_filter by simp
  have "map_of (merge_rows ?d (in_direction ?d (materialize data rg)) ?os) = om_find (materialize data' rg)"
  proof
    fix k
    have "map_of (in_direction ?d (materialize data rg)) k = (if sr_contains rg k then om_find data k else None)"
      unfolding mat direction_find(1)[OF om_inv_filter[OF assms(1)]] om_find_filter by simp
    moreover have "om_find (materialize data' rg) k = (if sr_contains rg k then overlay (view_op b k) (om_find data k) else None)"
      unfolding mat om_find_filter assms(4) by simp
    ultimately show "map_of (merge_rows ?d (in_direction ?d (materialize data rg)) ?os) k = om_find (materialize data' rg) k"
      unfolding merge_rows_find[OF sd so] fo using lookup_not_none[OF assms(2), of k]
      by (cases "tb_lookup b k") (auto simp: view_op_def overlay_def is_tombstone_def overlay_value_def)
  qed
  moreover have "om_inv (materialize data' rg)" by (simp add: mat om_inv_filter assms(3))
  ultimately show "mg_rest (merging_iterator (Some ?it) (Some b) rg) = in_direction ?d (materialize data' rg)"
    using direction_ext[OF merge_rows_sorted[OF sd so]] rest by simp
qed

end
