(* ===== verification/Mock_Engine.thy ===== *)
theory Mock_Engine imports Merging_Iterator begin

text \<open>
  The in-memory engine (\<^verbatim>\<open>storage/mock_engine/mock_engine.cpp\<close>): one store shared by all connections, with the
  committed data and the single write slot, and per connection the transaction buffer, the snapshot and
  the flag that says the connection holds the slot.

  A connection is named by a number, in place of its address. An operation of a connection is a function on the
  store and the connection's own state; every call of the store runs under its mutex, and the step relation at
  the end interleaves whole operations of the connections.
\<close>

section \<open>The store\<close>

record DatabaseOptions =
  opt_path :: bytes
  opt_create_if_missing :: bool
  opt_error_if_exists :: bool
  opt_cache_size_mb :: nat
  opt_compression :: bool

record MockStore =
  ms_data :: "bytes omap"
  ms_fail_writes :: bool
  ms_is_open :: bool
  ms_options :: DatabaseOptions
  ms_write_owner :: "nat option"

definition ms_open :: "DatabaseOptions \<Rightarrow> MockStore \<Rightarrow> Status \<times> MockStore" where
  "ms_open opts s =
     (if ms_is_open s then (S_AlreadyExists, s) else (S_OK, s\<lparr>ms_options := opts, ms_is_open := True\<rparr>))"

definition ms_close :: "MockStore \<Rightarrow> Status \<times> MockStore" where
  "ms_close s =
     (if \<not> ms_is_open s then (S_NotFound, s) else (S_OK, s\<lparr>ms_is_open := False, ms_write_owner := None\<rparr>))"

definition ms_acquire_write_slot :: "nat \<Rightarrow> MockStore \<Rightarrow> Status \<times> MockStore" where
  "ms_acquire_write_slot i s =
     (if \<not> ms_is_open s then (S_InternalError, s)
      else if ms_write_owner s \<noteq> None \<and> ms_write_owner s \<noteq> Some i then (S_Busy, s)
      else (S_OK, s\<lparr>ms_write_owner := Some i\<rparr>))"

definition ms_release_write_slot :: "nat \<Rightarrow> MockStore \<Rightarrow> Status \<times> MockStore" where
  "ms_release_write_slot i s =
     (if ms_write_owner s \<noteq> Some i then (S_NotFound, s) else (S_OK, s\<lparr>ms_write_owner := None\<rparr>))"

definition ms_write_slot_held :: "MockStore \<Rightarrow> bool" where
  "ms_write_slot_held s \<longleftrightarrow> ms_write_owner s \<noteq> None"

definition ms_get :: "bytes \<Rightarrow> MockStore \<Rightarrow> Status \<times> bytes option" where
  "ms_get k s =
     (if \<not> ms_is_open s then (S_InternalError, None)
      else case om_find (ms_data s) k of None \<Rightarrow> (S_NotFound, None) | Some v \<Rightarrow> (S_OK, Some v))"

definition ms_put :: "bytes \<Rightarrow> bytes \<Rightarrow> MockStore \<Rightarrow> Status \<times> MockStore" where
  "ms_put k v s =
     (if \<not> ms_is_open s then (S_InternalError, s) else (S_OK, s\<lparr>ms_data := om_insert k v (ms_data s)\<rparr>))"

definition ms_remove :: "bytes \<Rightarrow> MockStore \<Rightarrow> Status \<times> MockStore" where
  "ms_remove k s =
     (if \<not> ms_is_open s then (S_InternalError, s)
      else if om_find (ms_data s) k = None then (S_NotFound, s)
      else (S_OK, s\<lparr>ms_data := om_erase k (ms_data s)\<rparr>))"

definition ms_exists :: "bytes \<Rightarrow> MockStore \<Rightarrow> bool" where
  "ms_exists k s \<longleftrightarrow> (if \<not> ms_is_open s then False else om_find (ms_data s) k \<noteq> None)"

fun get_each :: "(bytes \<Rightarrow> Status \<times> bytes option) \<Rightarrow> MissingKeyPolicy \<Rightarrow> bytes list \<Rightarrow> Status \<times> bytes option list" where
  "get_each get policy [] = (S_OK, [])"
| "get_each get policy (k # ks) =
     (case get k of (st, v) \<Rightarrow>
        if st = S_OK then (case get_each get policy ks of (st', vs) \<Rightarrow> (st', v # vs))
        else if st = S_NotFound then
          (if policy = ReturnError then (S_NotFound, [])
           else (case get_each get policy ks of (st', vs) \<Rightarrow> (st', None # vs)))
        else (st, []))"

definition ms_get_batch :: "bytes list \<Rightarrow> MissingKeyPolicy \<Rightarrow> MockStore \<Rightarrow> Status \<times> bytes option list" where
  "ms_get_batch ks policy s =
     (if \<not> ms_is_open s then (S_InternalError, []) else get_each (\<lambda>k. ms_get k s) policy ks)"

definition apply_op :: "Op \<Rightarrow> bytes omap \<Rightarrow> bytes omap" where
  "apply_op op data =
     (case op_type op of
        OpPut \<Rightarrow> om_insert (op_key op) (the (op_value op)) data
      | OpRemoveRange \<Rightarrow> om_erase_range (op_key op) (op_range_end op) data
      | OpRemove \<Rightarrow> om_erase (op_key op) data)"

definition op_rejected :: "Op \<Rightarrow> bool" where
  "op_rejected op \<longleftrightarrow>
     op_type op = OpPut \<and> op_value op = None \<or> op_type op = OpRemoveRange \<and> op_range_end op \<le> op_key op"

definition apply_batch_locked :: "WriteBatch \<Rightarrow> MockStore \<Rightarrow> Status \<times> MockStore" where
  "apply_batch_locked b s =
     (if ms_fail_writes s then (S_IOError, s)
      else if list_ex op_rejected (wb_ops b) then (S_InvalidArgument, s)
      else (S_OK, s\<lparr>ms_data := fold apply_op (wb_ops b) (ms_data s)\<rparr>))"

definition ms_write_batch :: "WriteBatch \<Rightarrow> MockStore \<Rightarrow> Status \<times> MockStore" where
  "ms_write_batch b s = (if \<not> ms_is_open s then (S_InternalError, s) else apply_batch_locked b s)"

definition ms_new_iterator :: "ScanRange \<Rightarrow> MockStore \<Rightarrow> MockIterator option" where
  "ms_new_iterator rg s =
     (if \<not> ms_is_open s then None else Some (mock_iterator (materialize (ms_data s) rg) rg))"

definition ms_clear :: "MockStore \<Rightarrow> MockStore" where
  "ms_clear s = s\<lparr>ms_data := []\<rparr>"

definition ms_size :: "MockStore \<Rightarrow> nat" where
  "ms_size s = length (ms_data s)"

section \<open>A connection\<close>

record MockEngine =
  me_tx :: "TxBuffer option"
  me_snapshot :: "bytes omap option"
  me_write_slot :: bool

type_synonym conn_state = "MockStore \<times> MockEngine"

definition mock_engine :: MockEngine where
  "mock_engine = \<lparr> me_tx = None, me_snapshot = None, me_write_slot = False \<rparr>"

definition me_get :: "bytes \<Rightarrow> conn_state \<Rightarrow> Status \<times> bytes option" where
  "me_get k sc = (case sc of (s, c) \<Rightarrow>
     if \<not> ms_is_open s then (S_InternalError, None)
     else
       let op = (case me_tx c of Some tb \<Rightarrow> tb_lookup tb k | None \<Rightarrow> NoOverlay) in
       case op of
         Tombstone \<Rightarrow> (S_NotFound, None)
       | OverlayValue v \<Rightarrow> (S_OK, Some v)
       | NoOverlay \<Rightarrow>
           (case me_snapshot c of
              Some snap \<Rightarrow> (case om_find snap k of None \<Rightarrow> (S_NotFound, None) | Some v \<Rightarrow> (S_OK, Some v))
            | None \<Rightarrow> ms_get k s))"

definition me_exists :: "bytes \<Rightarrow> conn_state \<Rightarrow> bool" where
  "me_exists k sc = (case sc of (s, c) \<Rightarrow>
     if \<not> ms_is_open s then False
     else
       let op = (case me_tx c of Some tb \<Rightarrow> tb_lookup tb k | None \<Rightarrow> NoOverlay) in
       if covered op then overlay_has_value op
       else case me_snapshot c of
              Some snap \<Rightarrow> om_find snap k \<noteq> None
            | None \<Rightarrow> ms_exists k s)"

definition me_get_batch :: "bytes list \<Rightarrow> MissingKeyPolicy \<Rightarrow> conn_state \<Rightarrow> Status \<times> bytes option list" where
  "me_get_batch ks policy sc = (case sc of (s, c) \<Rightarrow>
     if \<not> ms_is_open s then (S_InternalError, [])
     else if me_tx c = None then ms_get_batch ks policy s
     else get_each (\<lambda>k. me_get k sc) policy ks)"

definition me_acquire_write_slot :: "nat \<Rightarrow> conn_state \<Rightarrow> Status \<times> conn_state" where
  "me_acquire_write_slot i sc = (case sc of (s, c) \<Rightarrow>
     if me_write_slot c then (S_OK, sc)
     else if \<not> ms_is_open s then (S_InternalError, sc)
     else case ms_acquire_write_slot i s of (st, s') \<Rightarrow>
       if st \<noteq> S_OK then (st, s', c)
       else (S_OK, s', c\<lparr>me_snapshot := None, me_write_slot := True\<rparr>))"

definition me_release_write_slot :: "nat \<Rightarrow> conn_state \<Rightarrow> conn_state" where
  "me_release_write_slot i sc = (case sc of (s, c) \<Rightarrow>
     if \<not> me_write_slot c then sc
     else (snd (ms_release_write_slot i s), c\<lparr>me_write_slot := False\<rparr>))"

definition me_ensure_write_slot :: "nat \<Rightarrow> conn_state \<Rightarrow> Status \<times> conn_state" where
  "me_ensure_write_slot i sc = (if me_write_slot (snd sc) then (S_OK, sc) else me_acquire_write_slot i sc)"

text \<open>
  The two forms of a write: into the buffer of the open transaction, or straight to the store with the slot
  held for the duration of the call.
\<close>

definition buffered :: "nat \<Rightarrow> (TxBuffer \<Rightarrow> TxBuffer) \<Rightarrow> TxBuffer \<Rightarrow> conn_state \<Rightarrow> Status \<times> conn_state" where
  "buffered i f tb sc =
     (case me_ensure_write_slot i sc of (st, s', c') \<Rightarrow>
        if st \<noteq> S_OK then (st, s', c') else (S_OK, s', c'\<lparr>me_tx := Some (f tb)\<rparr>))"

definition autocommit :: "nat \<Rightarrow> (MockStore \<Rightarrow> Status \<times> MockStore) \<Rightarrow> conn_state \<Rightarrow> Status \<times> conn_state" where
  "autocommit i write sc = (case sc of (s, c) \<Rightarrow>
     case ms_acquire_write_slot i s of (st, s1) \<Rightarrow>
       if st \<noteq> S_OK then (st, s1, c)
       else case write s1 of (st', s2) \<Rightarrow> (st', snd (ms_release_write_slot i s2), c))"

definition me_put :: "nat \<Rightarrow> bytes \<Rightarrow> bytes \<Rightarrow> conn_state \<Rightarrow> Status \<times> conn_state" where
  "me_put i k v sc =
     (if \<not> ms_is_open (fst sc) then (S_InternalError, sc)
      else case me_tx (snd sc) of
        Some tb \<Rightarrow> buffered i (tb_put k v) tb sc
      | None \<Rightarrow> autocommit i (ms_put k v) sc)"

definition me_remove :: "nat \<Rightarrow> bytes \<Rightarrow> conn_state \<Rightarrow> Status \<times> conn_state" where
  "me_remove i k sc =
     (if \<not> ms_is_open (fst sc) then (S_InternalError, sc)
      else case me_tx (snd sc) of
        Some tb \<Rightarrow> buffered i (tb_remove k) tb sc
      | None \<Rightarrow> autocommit i (ms_remove k) sc)"

definition me_write_batch :: "nat \<Rightarrow> WriteBatch \<Rightarrow> conn_state \<Rightarrow> Status \<times> conn_state" where
  "me_write_batch i b sc =
     (if \<not> ms_is_open (fst sc) then (S_InternalError, sc)
      else case me_tx (snd sc) of
        None \<Rightarrow> if wb_ops b = [] then (S_OK, sc) else autocommit i (ms_write_batch b) sc
      | Some tb \<Rightarrow> buffered i (fold buffer_op (wb_ops b)) tb sc)"

datatype EngineIterator = PlainIterator MockIterator | TxIterator MergingIterator

definition me_new_iterator :: "ScanRange \<Rightarrow> conn_state \<Rightarrow> EngineIterator option" where
  "me_new_iterator rg sc = (case sc of (s, c) \<Rightarrow>
     if \<not> ms_is_open s then None
     else
       let inner = (case me_snapshot c of
             Some snap \<Rightarrow> Some (mock_iterator (materialize snap rg) rg)
           | None \<Rightarrow> ms_new_iterator rg s)
       in if inner = None then None
          else case me_tx c of
            None \<Rightarrow> map_option PlainIterator inner
          | Some tb \<Rightarrow> Some (TxIterator (merging_iterator inner (Some tb) rg)))"

definition me_begin_transaction :: "conn_state \<Rightarrow> Status \<times> conn_state" where
  "me_begin_transaction sc = (case sc of (s, c) \<Rightarrow>
     if \<not> ms_is_open s then (S_InternalError, sc)
     else if me_tx c \<noteq> None then (S_Busy, sc)
     else (S_OK, s, c\<lparr>me_snapshot := Some (ms_data s), me_tx := Some tx_buffer\<rparr>))"

definition end_transaction :: "nat \<Rightarrow> conn_state \<Rightarrow> conn_state" where
  "end_transaction i sc = (case sc of (s, c) \<Rightarrow>
     let c' = c\<lparr>me_tx := None, me_snapshot := None\<rparr> in
     if me_write_slot c then (snd (ms_release_write_slot i s), c'\<lparr>me_write_slot := False\<rparr>) else (s, c'))"

definition me_commit_transaction :: "nat \<Rightarrow> conn_state \<Rightarrow> Status \<times> conn_state" where
  "me_commit_transaction i sc = (case sc of (s, c) \<Rightarrow>
     if \<not> ms_is_open s then (S_InternalError, sc)
     else case me_tx c of
       None \<Rightarrow> (S_NotFound, sc)
     | Some tb \<Rightarrow>
         if tb_exceeds tb then (S_InvalidArgument, sc)
         else case ms_write_batch (wb_set_sync True (to_batch tb)) s of (st, s') \<Rightarrow>
           if st \<noteq> S_OK then (st, s', c) else (S_OK, end_transaction i (s', c)))"

definition me_rollback_transaction :: "nat \<Rightarrow> conn_state \<Rightarrow> Status \<times> conn_state" where
  "me_rollback_transaction i sc = (case sc of (s, c) \<Rightarrow>
     if \<not> ms_is_open s then (S_InternalError, sc)
     else if me_tx c = None then (S_NotFound, sc)
     else (S_OK, end_transaction i sc))"

text \<open>The destructor of a connection.\<close>

definition me_destroy :: "nat \<Rightarrow> conn_state \<Rightarrow> MockStore" where
  "me_destroy i sc = (case sc of (s, c) \<Rightarrow> if me_write_slot c then snd (ms_release_write_slot i s) else s)"

end
