(* ===== verification/Kv_Transactions.thy ===== *)
theory Kv_Transactions imports Mock_Engine begin

text \<open>
  Transactions of the in-memory engine: atomic commit, and the interleaving of connections as a step relation
  with its invariant. The invariant needs the discipline the session layer keeps (\<open>allowed\<close>): the slot is
  not given back inside a transaction, no write runs in autocommit mode while the slot is held, and the store is
  not closed under its connections. The last properties show what happens without it.
\<close>

section \<open>Interleaved connections\<close>

datatype Request = ReqPut bytes bytes | ReqRemove bytes | ReqBatch WriteBatch | ReqAcquire | ReqRelease
  | ReqBegin | ReqCommit | ReqRollback

fun perform :: "nat \<Rightarrow> Request \<Rightarrow> conn_state \<Rightarrow> conn_state" where
  "perform i (ReqPut k v) sc = snd (me_put i k v sc)"
| "perform i (ReqRemove k) sc = snd (me_remove i k sc)"
| "perform i (ReqBatch b) sc = snd (me_write_batch i b sc)"
| "perform i ReqAcquire sc = snd (me_acquire_write_slot i sc)"
| "perform i ReqRelease sc = me_release_write_slot i sc"
| "perform i ReqBegin sc = snd (me_begin_transaction sc)"
| "perform i ReqCommit sc = snd (me_commit_transaction i sc)"
| "perform i ReqRollback sc = snd (me_rollback_transaction i sc)"

record World =
  w_store :: MockStore
  w_conns :: "nat \<Rightarrow> MockEngine"

definition conn :: "World \<Rightarrow> nat \<Rightarrow> conn_state" where
  "conn w i = (w_store w, w_conns w i)"

definition set_conn :: "nat \<Rightarrow> conn_state \<Rightarrow> World \<Rightarrow> World" where
  "set_conn i sc w = w\<lparr>w_store := fst sc, w_conns := (w_conns w)(i := snd sc)\<rparr>"

fun allowed :: "Request \<Rightarrow> MockEngine \<Rightarrow> bool" where
  "allowed (ReqPut _ _) c \<longleftrightarrow> me_tx c \<noteq> None \<or> \<not> me_write_slot c"
| "allowed (ReqRemove _) c \<longleftrightarrow> me_tx c \<noteq> None \<or> \<not> me_write_slot c"
| "allowed (ReqBatch _) c \<longleftrightarrow> me_tx c \<noteq> None \<or> \<not> me_write_slot c"
| "allowed ReqRelease c \<longleftrightarrow> me_tx c = None"
| "allowed _ c \<longleftrightarrow> True"

inductive world_step :: "World \<Rightarrow> nat \<Rightarrow> Request \<Rightarrow> World \<Rightarrow> bool" where
  "allowed r (w_conns w i) \<Longrightarrow> world_step w i r (set_conn i (perform i r (conn w i)) w)"

definition initial_world :: "MockStore \<Rightarrow> World" where
  "initial_world s = \<lparr> w_store = s, w_conns = (\<lambda>_. mock_engine) \<rparr>"

inductive reachable :: "MockStore \<Rightarrow> World \<Rightarrow> bool" for s where
  reach_init: "reachable s (initial_world s)"
| reach_step: "reachable s w \<Longrightarrow> world_step w i r w' \<Longrightarrow> reachable s w'"

inductive_cases world_stepE: "world_step w i r w'"

text \<open>A schedule of operations, allowed or not.\<close>

definition run :: "(nat \<times> Request) list \<Rightarrow> World \<Rightarrow> World" where
  "run rs w = fold (\<lambda>(i, r) w. set_conn i (perform i r (conn w i)) w) rs w"

text \<open>An empty open store.\<close>

definition store0 :: MockStore where
  "store0 = \<lparr> ms_data = [], ms_fail_writes = False, ms_is_open = True,
     ms_options = \<lparr> opt_path = [], opt_create_if_missing = True, opt_error_if_exists = False, opt_cache_size_mb = 0,
       opt_compression = True \<rparr>, ms_write_owner = None \<rparr>"

section \<open>Writing to the store\<close>

lemma apply_op_replay:
  assumes "om_inv data" "\<not> op_rejected op"
  shows "om_inv (apply_op op data)" "om_find (apply_op op data) = replay_op op (om_find data)"
proof -
  have r: "om_find (om_erase_range b e data) k = (if b \<le> k \<and> k < e then None else om_find data k)" if "b < e" for b e k
    using that om_find_filter[of "\<lambda>k. \<not> (b \<le> k \<and> k < e)" data k] by (simp add: om_erase_range_filter[OF assms(1)])
  show "om_inv (apply_op op data)"
    using assms by (cases "op_type op") (auto simp: apply_op_def op_rejected_def om_erase_range_filter om_inv_filter not_le)
  show "om_find (apply_op op data) = replay_op op (om_find data)"
    using assms r by (cases "op_type op") (auto simp: apply_op_def replay_op_def op_rejected_def not_le fun_eq_iff)
qed

lemma apply_ops_replay:
  "om_inv data \<Longrightarrow> \<not> list_ex op_rejected ops \<Longrightarrow>
   om_inv (fold apply_op ops data) \<and> om_find (fold apply_op ops data) = replay ops (om_find data)"
  by (induction ops arbitrary: data) (simp_all add: apply_op_replay)

lemma write_batch_cases:
  assumes "ms_write_batch b s = (st, s')" "om_inv (ms_data s)"
  shows "st \<noteq> S_OK \<and> s' = s \<or>
    st = S_OK \<and> om_inv (ms_data s') \<and> om_find (ms_data s') = replay (wb_ops b) (om_find (ms_data s)) \<and>
    ms_is_open s' = ms_is_open s \<and> ms_write_owner s' = ms_write_owner s \<and> (wb_ops b = [] \<longrightarrow> s' = s)"
  using assms apply_ops_replay[OF assms(2), of "wb_ops b"]
  by (auto simp: ms_write_batch_def apply_batch_locked_def split: if_splits)

section \<open>The invariant\<close>

definition conn_inv :: "MockStore \<Rightarrow> nat \<Rightarrow> MockEngine \<Rightarrow> bool" where
  "conn_inv s i c \<longleftrightarrow>
     (me_write_slot c \<longleftrightarrow> ms_write_owner s = Some i) \<and>
     (\<forall>tb. me_tx c = Some tb \<longrightarrow> tb_inv tb \<and> (tb_log tb \<noteq> [] \<longrightarrow> me_write_slot c) \<and> (me_snapshot c \<noteq> None \<or> me_write_slot c)) \<and>
     (me_tx c = None \<longrightarrow> me_snapshot c = None) \<and>
     (\<forall>m. me_snapshot c = Some m \<longrightarrow> om_inv m)"

definition world_inv :: "World \<Rightarrow> bool" where
  "world_inv w \<longleftrightarrow> ms_is_open (w_store w) \<and> om_inv (ms_data (w_store w)) \<and> (\<forall>i. conn_inv (w_store w) i (w_conns w i))"

text \<open>What one operation of connection \<open>i\<close> may do to the store.\<close>

definition good_step :: "nat \<Rightarrow> conn_state \<Rightarrow> conn_state \<Rightarrow> bool" where
  "good_step i sc sc' \<longleftrightarrow>
     ms_is_open (fst sc') \<and> om_inv (ms_data (fst sc')) \<and> conn_inv (fst sc') i (snd sc') \<and>
     (ms_write_owner (fst sc) = None \<or> ms_write_owner (fst sc) = Some i \<or> fst sc' = fst sc) \<and>
     (ms_write_owner (fst sc') = ms_write_owner (fst sc) \<or> ms_write_owner (fst sc') = None \<or> ms_write_owner (fst sc') = Some i)"

definition ready :: "nat \<Rightarrow> conn_state \<Rightarrow> bool" where
  "ready i sc \<longleftrightarrow> ms_is_open (fst sc) \<and> om_inv (ms_data (fst sc)) \<and> conn_inv (fst sc) i (snd sc)"

lemma acquire_good:
  assumes "ready i sc"
  shows "good_step i sc (snd (me_acquire_write_slot i sc))"
    "fst (me_acquire_write_slot i sc) = S_OK \<longleftrightarrow> me_write_slot (snd (snd (me_acquire_write_slot i sc)))"
    "me_tx (snd (snd (me_acquire_write_slot i sc))) = me_tx (snd sc)"
    "ms_data (fst (snd (me_acquire_write_slot i sc))) = ms_data (fst sc)"
  using assms by (auto simp: ready_def good_step_def conn_inv_def me_acquire_write_slot_def ms_acquire_write_slot_def split: prod.splits if_splits)

lemma good_step_refl: "ready i sc \<Longrightarrow> good_step i sc sc"
  by (simp add: ready_def good_step_def)

lemma buffered_good:
  assumes "ready i sc" "me_tx (snd sc) = Some tb" "\<And>b. tb_inv b \<Longrightarrow> tb_inv (f b)"
  shows "good_step i sc (snd (buffered i f tb sc))" "ms_data (fst (snd (buffered i f tb sc))) = ms_data (fst sc)"
proof -
  obtain st s' c' where e: "me_ensure_write_slot i sc = (st, s', c')" by (cases "me_ensure_write_slot i sc")
  have g: "good_step i sc (s', c')" "st = S_OK \<longleftrightarrow> me_write_slot c'" "me_tx c' = Some tb" "ms_data s' = ms_data (fst sc)"
    using acquire_good[OF assms(1)] e assms(1,2) good_step_refl[OF assms(1)]
    by (auto simp: me_ensure_write_slot_def split: if_splits)
  have "good_step i sc (s', c'\<lparr>me_tx := Some (f tb)\<rparr>)" if "me_write_slot c'"
    using g that assms(3)[of tb] by (auto simp: good_step_def conn_inv_def)
  then show "good_step i sc (snd (buffered i f tb sc))" "ms_data (fst (snd (buffered i f tb sc))) = ms_data (fst sc)"
    using g e by (auto simp: buffered_def)
qed

lemma autocommit_good:
  assumes "ready i sc" "\<not> me_write_slot (snd sc)" "me_tx (snd sc) = None"
    and wr: "\<And>s st s'. ms_is_open s \<Longrightarrow> om_inv (ms_data s) \<Longrightarrow> write s = (st, s') \<Longrightarrow>
      om_inv (ms_data s') \<and> ms_is_open s' = ms_is_open s \<and> ms_write_owner s' = ms_write_owner s"
  shows "good_step i sc (snd (autocommit i write sc))"
proof (cases "ms_write_owner (fst sc) = None")
  case True
  let ?s1 = "(fst sc)\<lparr>ms_write_owner := Some i\<rparr>"
  obtain st s2 where w: "write ?s1 = (st, s2)" by (cases "write ?s1")
  have s2: "om_inv (ms_data s2)" "ms_write_owner s2 = Some i" "ms_is_open s2"
    using wr[OF _ _ w] assms(1) by (auto simp: ready_def)
  have "snd (autocommit i write sc) = (s2\<lparr>ms_write_owner := None\<rparr>, snd sc)"
    using True w s2 assms(1) by (cases sc) (simp add: autocommit_def ms_acquire_write_slot_def ready_def ms_release_write_slot_def)
  then show ?thesis using assms(1,2,3) True s2 by (auto simp: good_step_def ready_def conn_inv_def)
next
  case False
  then have "snd (autocommit i write sc) = sc"
    using assms(1,2) by (cases sc) (auto simp: autocommit_def ms_acquire_write_slot_def ready_def conn_inv_def)
  then show ?thesis using good_step_refl[OF assms(1)] by simp
qed

lemma end_good:
  assumes "ready i sc"
  shows "good_step i sc (end_transaction i sc)" "ms_data (fst (end_transaction i sc)) = ms_data (fst sc)"
  using assms by (auto simp: good_step_def ready_def conn_inv_def end_transaction_def ms_release_write_slot_def Let_def split: prod.splits)

lemma commit_good:
  assumes "ready i sc"
  shows "good_step i sc (snd (me_commit_transaction i sc))"
proof (cases "me_tx (snd sc)")
  case None
  then show ?thesis using assms good_step_refl[OF assms] by (cases sc) (simp add: me_commit_transaction_def)
next
  case (Some tb)
  obtain s c where sc: "sc = (s, c)" by (cases sc)
  have tb: "tb_inv tb" "tb_log tb \<noteq> [] \<Longrightarrow> ms_write_owner s = Some i"
    using assms Some by (auto simp: ready_def conn_inv_def sc)
  obtain st s' where w: "ms_write_batch (wb_set_sync True (to_batch tb)) s = (st, s')"
    by (cases "ms_write_batch (wb_set_sync True (to_batch tb)) s")
  have inv: "om_inv (ms_data s)" using assms by (simp add: ready_def sc)
  show ?thesis
  proof (cases "st = S_OK \<and> \<not> tb_exceeds tb")
    case True
    then have s': "om_inv (ms_data s')" "ms_is_open s' = ms_is_open s" "ms_write_owner s' = ms_write_owner s"
      "wb_ops (to_batch tb) = [] \<Longrightarrow> s' = s"
      using write_batch_cases[OF w inv] by auto
    have r: "ready i (s', c)" using assms s' unfolding ready_def sc conn_inv_def fst_conv snd_conv by metis
    have "good_step i sc (end_transaction i (s', c))"
    proof (cases "tb_log tb = []")
      case True
      then have "s' = s" using s'(4) to_batch_ops[OF tb(1)] by simp
      then show ?thesis using end_good(1)[OF r] by (simp add: sc)
    next
      case False
      then have "ms_write_owner s = Some i" "ms_write_owner s' = Some i" using tb(2) s'(3) by simp_all
      then show ?thesis using end_good(1)[OF r] by (simp add: good_step_def sc)
    qed
    then show ?thesis using True w Some assms by (simp add: me_commit_transaction_def sc ready_def)
  next
    case False
    then have "snd (me_commit_transaction i sc) = sc"
      using write_batch_cases[OF w inv] w Some by (auto simp: me_commit_transaction_def sc)
    then show ?thesis using good_step_refl[OF assms] by simp
  qed
qed

lemma tb_log_empty [simp]: "tb_log tx_buffer = []"
  by (simp add: tx_buffer_def)

lemma perform_good:
  assumes "ready i sc" "allowed r (snd sc)"
  shows "good_step i sc (perform i r sc)"
proof -
  have open': "ms_is_open (fst sc)" using assms(1) by (simp add: ready_def)
  have wr: "good_step i sc (snd (case me_tx (snd sc) of Some tb \<Rightarrow> buffered i f tb sc | None \<Rightarrow> autocommit i upd sc))"
    if "me_tx (snd sc) \<noteq> None \<or> \<not> me_write_slot (snd sc)" "\<And>b. tb_inv b \<Longrightarrow> tb_inv (f b)"
      "\<And>s st s'. ms_is_open s \<Longrightarrow> om_inv (ms_data s) \<Longrightarrow> upd s = (st, s') \<Longrightarrow>
        om_inv (ms_data s') \<and> ms_is_open s' = ms_is_open s \<and> ms_write_owner s' = ms_write_owner s" for f upd
    using buffered_good(1)[OF assms(1) _ that(2)] autocommit_good[OF assms(1) _ _ that(3)] that(1) by (cases "me_tx (snd sc)") auto
  show ?thesis
  proof (cases r)
    case (ReqPut k v)
    then have "good_step i sc (snd (case me_tx (snd sc) of Some tb \<Rightarrow> buffered i (tb_put k v) tb sc
        | None \<Rightarrow> autocommit i (ms_put k v) sc))"
      using assms(2) by (intro wr tb_put_inv) (auto simp: ms_put_def)
    then show ?thesis using ReqPut open' by (simp add: me_put_def)
  next
    case (ReqRemove k)
    then have "good_step i sc (snd (case me_tx (snd sc) of Some tb \<Rightarrow> buffered i (tb_remove k) tb sc
        | None \<Rightarrow> autocommit i (ms_remove k) sc))"
      using assms(2) by (intro wr tb_remove_inv) (auto simp: ms_remove_def split: if_splits)
    then show ?thesis using ReqRemove open' by (simp add: me_remove_def)
  next
    case (ReqBatch b)
    have f: "om_inv (ms_data s') \<and> ms_is_open s' = ms_is_open s \<and> ms_write_owner s' = ms_write_owner s"
      if "ms_is_open s" "om_inv (ms_data s)" "ms_write_batch b s = (st, s')" for s st s'
      using write_batch_cases[OF that(3,2)] that(2) by metis
    have "me_tx (snd sc) \<noteq> None \<or> \<not> me_write_slot (snd sc)" using ReqBatch assms(2) by simp
    from wr[OF this buffer_ops_inv f] have "good_step i sc (snd (case me_tx (snd sc) of Some tb \<Rightarrow> buffered i (fold buffer_op (wb_ops b)) tb sc
        | None \<Rightarrow> autocommit i (ms_write_batch b) sc))"
      by simp
    then show ?thesis using ReqBatch open' good_step_refl[OF assms(1)]
      by (cases "me_tx (snd sc)") (auto simp: me_write_batch_def)
  next
    case ReqBegin
    then show ?thesis using assms by (auto simp: me_begin_transaction_def ready_def good_step_def conn_inv_def split: prod.splits)
  next
    case ReqRelease
    then show ?thesis using assms by (auto simp: me_release_write_slot_def ms_release_write_slot_def ready_def good_step_def conn_inv_def split: prod.splits)
  next
    case ReqRollback
    then show ?thesis using end_good(1)[OF assms(1)] good_step_refl[OF assms(1)]
      by (auto simp: me_rollback_transaction_def split: prod.splits)
  qed (use assms acquire_good(1) commit_good in simp_all)
qed

lemma good_step_others:
  assumes "good_step i (s, c) (s', c')" "conn_inv s j d" "i \<noteq> j"
  shows "conn_inv s' j d"
  using assms by (auto simp: good_step_def conn_inv_def)

lemma world_step_inv:
  assumes "world_inv w" "world_step w i r w'"
  shows "world_inv w'"
proof -
  have r: "ready i (conn w i)" using assms(1) by (simp add: ready_def world_inv_def conn_def)
  from assms(2) have a: "allowed r (w_conns w i)" and w': "w' = set_conn i (perform i r (conn w i)) w"
    by (auto elim: world_stepE)
  have g: "good_step i (conn w i) (perform i r (conn w i))" using perform_good[OF r] a by (simp add: conn_def)
  obtain s' c' where p: "perform i r (conn w i) = (s', c')" by (cases "perform i r (conn w i)")
  have g': "good_step i (w_store w, w_conns w i) (s', c')" using g p by (simp add: conn_def)
  have "conn_inv s' j (if j = i then c' else w_conns w j)" for j
  proof (cases "j = i")
    case True
    then show ?thesis using g' by (simp add: good_step_def)
  next
    case False
    then show ?thesis using good_step_others[OF g', of j "w_conns w j"] assms(1) by (simp add: world_inv_def)
  qed
  moreover have "ms_is_open s'" "om_inv (ms_data s')" using g' by (simp_all add: good_step_def)
  ultimately show ?thesis by (simp add: world_inv_def w' p set_conn_def)
qed

lemma reachable_inv:
  assumes "ms_is_open s" "om_inv (ms_data s)" "ms_write_owner s = None" "reachable s w"
  shows "world_inv w"
  using assms(4)
proof (induction rule: reachable.induct)
  case reach_init
  then show ?case using assms by (simp add: world_inv_def initial_world_def conn_inv_def mock_engine_def)
qed (rule world_step_inv)

lemma writer_frozen:
  assumes "world_inv w" "world_step w i r w'" "me_write_slot (w_conns w j)" "i \<noteq> j"
  shows "w_store w' = w_store w"
proof -
  have r: "ready i (conn w i)" using assms(1) by (simp add: ready_def world_inv_def conn_def)
  have "ms_write_owner (w_store w) = Some j" using assms(1,3) by (simp add: world_inv_def conn_inv_def)
  then show ?thesis using assms(2,4) perform_good[OF r, of r] by (auto elim!: world_stepE simp: good_step_def conn_def set_conn_def)
qed

lemma commit_outcome:
  assumes "om_inv (ms_data s)" "me_tx c = Some tb" "tb_inv tb" "me_commit_transaction i (s, c) = (st, s', c')"
  shows "if st = S_OK then om_find (ms_data s') = replay (tb_log tb) (om_find (ms_data s)) \<and>
      me_tx c' = None \<and> me_snapshot c' = None \<and> \<not> me_write_slot c'
    else s' = s \<and> c' = c"
proof -
  obtain st' t where w: "ms_write_batch (wb_set_sync True (to_batch tb)) s = (st', t)"
    by (cases "ms_write_batch (wb_set_sync True (to_batch tb)) s")
  have e: "ms_data (fst (end_transaction i (t, c))) = ms_data t" "me_tx (snd (end_transaction i (t, c))) = None"
    "me_snapshot (snd (end_transaction i (t, c))) = None" "\<not> me_write_slot (snd (end_transaction i (t, c)))"
    by (auto simp: end_transaction_def Let_def ms_release_write_slot_def)
  show ?thesis using assms(2,4) w e write_batch_cases[OF w assms(1)] to_batch_ops[OF assms(3)]
    by (auto simp: me_commit_transaction_def split: if_splits)
qed

lemma view_op_no_ranges: "tb_range_deletes b = [] \<Longrightarrow> view_op b = tb_lookup b"
  by (rule ext) (auto simp: view_op_def tb_lookup_def range_seq_def Let_def)

text \<open>What happens between two operations of connection \<open>i\<close>: any number of operations of the others, each allowed by the discipline.\<close>

inductive others_act :: "nat \<Rightarrow> World \<Rightarrow> World \<Rightarrow> bool" for i w where
  others_none: "others_act i w w"
| others_step: "others_act i w w' \<Longrightarrow> world_step w' j r w'' \<Longrightarrow> j \<noteq> i \<Longrightarrow> others_act i w w''"

lemma others_step_reads:
  assumes inv: "world_inv w" and tx: "me_tx (w_conns w i) = Some tb" and step: "world_step w j r w'" "j \<noteq> i"
  shows "w_conns w' i = w_conns w i \<and> me_get k (conn w' i) = me_get k (conn w i) \<and>
    me_new_iterator rg (conn w' i) = me_new_iterator rg (conn w i)"
proof -
  have inv': "world_inv w'" using world_step_inv[OF inv step(1)] .
  have c: "w_conns w' i = w_conns w i" using step by (auto elim!: world_stepE simp: set_conn_def)
  have o: "ms_is_open (w_store w)" "ms_is_open (w_store w')" using inv inv' by (simp_all add: world_inv_def)
  have "me_snapshot (w_conns w i) \<noteq> None \<or> me_write_slot (w_conns w i)"
    using inv tx by (auto simp: world_inv_def conn_inv_def)
  then consider snap where "me_snapshot (w_conns w i) = Some snap" | "w_store w' = w_store w"
    using writer_frozen[OF inv step(1)] step(2) by auto
  then show ?thesis
  proof cases
    case 1
    then show ?thesis using c o tx by (simp add: me_get_def me_new_iterator_def conn_def split: OverlayOp.split)
  next
    case 2
    then show ?thesis using c by (simp add: conn_def)
  qed
qed

lemma others_act_reads:
  assumes "others_act i w w'" "world_inv w" "me_tx (w_conns w i) = Some tb"
  shows "world_inv w' \<and> w_conns w' i = w_conns w i \<and> me_get k (conn w' i) = me_get k (conn w i) \<and>
    me_new_iterator rg (conn w' i) = me_new_iterator rg (conn w i)"
  using assms(1)
proof induction
  case (others_step w' j r w'')
  then show ?case using others_step_reads[of w' i tb j r w'' k rg] world_step_inv[of w' j r w''] assms(3) by simp
qed (use assms in simp)

section \<open>Properties\<close>

text \<open>
  C14: commit is atomic. When it reports success, the committed data is the old data with the transaction's
  operations applied in their order, and the transaction, its snapshot and the write slot are gone; when it reports anything
  else, neither the store nor the connection has changed.
\<close>

theorem commit_is_atomic:
  assumes "om_inv (ms_data s)" and "me_tx c = Some tb" and "tb_inv tb"
  shows "case me_commit_transaction i (s, c) of (st, s', c') \<Rightarrow>
    if st = S_OK then om_find (ms_data s') = replay (tb_log tb) (om_find (ms_data s)) \<and>
      me_tx c' = None \<and> me_snapshot c' = None \<and> \<not> me_write_slot c'
    else s' = s \<and> c' = c"
  using commit_outcome[OF assms] by (auto split: prod.splits)

theorem commit_is_atomic_witness:
  "om_find (ms_data (fst (snd (me_commit_transaction 1
     (store0, mock_engine\<lparr>me_tx := Some (tb_put [1] [2] tx_buffer)\<rparr>))))) [1] = Some [2]"
proof -
  let ?c = "mock_engine\<lparr>me_tx := Some (tb_put [1] [2] tx_buffer)\<rparr>"
  have inv: "tb_inv (tb_put [1] [2] tx_buffer)" by (simp add: tb_put_inv)
  have log: "tb_log (tb_put [1] [2] tx_buffer) = [put_op [1] [2]]" by (simp add: tb_put_def tb_write_def)
  have "fst (me_commit_transaction 1 (store0, ?c)) = S_OK"
    by (simp add: me_commit_transaction_def store0_def tb_exceeds_def kDefaultLimit_def tb_put_def tb_write_def tx_buffer_def
        entry_cost_def ms_write_batch_def apply_batch_locked_def to_batch_def put_op_def op_rejected_def wb_put_def wb_append_def
        empty_batch_def wb_set_sync_def)
  then show ?thesis using commit_is_atomic[of store0 ?c "tb_put [1] [2] tx_buffer" 1] inv log
    by (auto simp: store0_def split: prod.splits)
qed

text \<open>
  C12: there is at most one writer. In every state that disciplined connections reach from an open store, at most one
  connection holds the write slot, and while it does, no operation of another connection changes the
  store.
\<close>

theorem single_writer:
  assumes "ms_is_open s" and "om_inv (ms_data s)" and "ms_write_owner s = None" and "reachable s w"
    and "me_write_slot (w_conns w i)"
  shows "(me_write_slot (w_conns w j) \<longrightarrow> j = i) \<and> (world_step w j r w' \<longrightarrow> j \<noteq> i \<longrightarrow> w_store w' = w_store w)"
proof -
  have inv: "world_inv w" using reachable_inv[OF assms(1-4)] .
  then have "me_write_slot (w_conns w j) \<longrightarrow> j = i" using assms(5) by (auto simp: world_inv_def conn_inv_def)
  then show ?thesis using writer_frozen[OF inv _ assms(5)] by blast
qed

lemma reachable_act:
  "reachable s w \<Longrightarrow> allowed r (w_conns w i) \<Longrightarrow> reachable s (set_conn i (perform i r (conn w i)) w)"
  using reach_step[of s w i r] world_step.intros[of r w i] by blast

lemma run_Cons: "run ((i, r) # rs) w = run rs (set_conn i (perform i r (conn w i)) w)"
  by (simp add: run_def)

lemma run_Nil: "run [] w = w"
  by (simp add: run_def)

lemmas run_eval = run_Cons run_Nil conn_def set_conn_def initial_world_def mock_engine_def me_acquire_write_slot_def
  ms_acquire_write_slot_def me_begin_transaction_def me_put_def autocommit_def ms_put_def ms_release_write_slot_def

theorem single_writer_witness:
  "\<not> me_write_slot (w_conns (run [(1, ReqAcquire), (2, ReqAcquire)] (initial_world store0)) 2)"
proof -
  let ?w = "run [(1, ReqAcquire), (2, ReqAcquire)] (initial_world store0)"
  have s: "ms_is_open store0" "om_inv (ms_data store0)" "ms_write_owner store0 = None" by (simp_all add: store0_def)
  have "reachable store0 ?w"
    unfolding run_Cons run_Nil by (intro reachable_act reach_init) simp_all
  moreover have "me_write_slot (w_conns ?w 1)" by (simp add: run_eval store0_def)
  ultimately show ?thesis using single_writer[OF s, of ?w 1 2] by simp
qed

text \<open>
  C13: reads inside a transaction are stable between its own operations. From any state that disciplined connections reach, whatever
  sequence of operations other disciplined connections perform, a connection inside a transaction reads the same values of
  keys and lists the same rows as before. (Its own first write may change what it reads: taking the write slot drops
  the snapshot.)
\<close>

theorem transaction_reads_stable:
  assumes "ms_is_open s" and "om_inv (ms_data s)" and "ms_write_owner s = None" and "reachable s w"
    and "me_tx (w_conns w i) = Some tb" and "others_act i w w'"
  shows "me_get k (conn w' i) = me_get k (conn w i) \<and> me_new_iterator rg (conn w' i) = me_new_iterator rg (conn w i)"
  using others_act_reads[OF assms(6) reachable_inv[OF assms(1-4)] assms(5), of k rg] by simp

theorem transaction_reads_stable_witness:
  "me_get [1] (conn (run [(1, ReqBegin), (2, ReqPut [1] [2])] (initial_world store0)) 1) = (S_NotFound, None)"
proof -
  let ?w = "run [(1, ReqBegin)] (initial_world store0)"
  let ?w' = "set_conn 2 (perform 2 (ReqPut [1] [2]) (conn ?w 2)) ?w"
  have s: "ms_is_open store0" "om_inv (ms_data store0)" "ms_write_owner store0 = None" by (simp_all add: store0_def)
  have r: "reachable store0 ?w" unfolding run_Cons run_Nil by (intro reachable_act reach_init) simp_all
  have t: "me_tx (w_conns ?w 1) = Some tx_buffer" by (simp add: run_eval store0_def)
  have "world_step ?w 2 (ReqPut [1] [2]) ?w'" by (rule world_step.intros) (simp add: run_eval store0_def)
  then have st: "others_act 1 ?w ?w'" using others_step[OF others_none] by simp
  have "me_get [1] (conn ?w 1) = (S_NotFound, None)"
    by (simp add: run_eval store0_def me_get_def tb_lookup_def tx_buffer_def range_seq_def)
  moreover have "run [(1, ReqBegin), (2, ReqPut [1] [2])] (initial_world store0) = ?w'" by (simp add: run_def)
  ultimately show ?thesis using transaction_reads_stable[OF s r t st, of "[1]" sr_all] by simp
qed

text \<open>
  C16: a scan inside a writing transaction lists what a scan after its commit will list, in both directions, as long as the
  transaction has deleted no range: the merging iterator returns the rows of the range in the state that the commit
  will write.
\<close>

theorem tx_scan_previews_commit:
  assumes "ms_is_open s" and "om_inv (ms_data s)" and "me_snapshot c = None" and "me_tx c = Some tb" and "tb_inv tb"
    and "tb_range_deletes tb = []" and "me_commit_transaction i (s, c) = (S_OK, s', c')"
  shows "\<exists>m it. me_new_iterator rg (s, c) = Some (TxIterator m) \<and> ms_new_iterator rg s' = Some it \<and>
    collect mg_valid mg_next mg_kvpair 0 0 m = Some (in_direction (sr_direction rg) (materialize (ms_data s') rg)) \<and>
    collect mi_valid mi_next mi_kvpair 0 0 it = Some (in_direction (sr_direction rg) (materialize (ms_data s') rg))"
proof -
  obtain t where w: "ms_write_batch (wb_set_sync True (to_batch tb)) s = (S_OK, t)" and s': "s' = fst (end_transaction i (t, c))"
    using assms(4,7) by (auto simp: me_commit_transaction_def split: if_splits prod.splits)
  have t: "om_inv (ms_data t)" "ms_is_open t" "om_find (ms_data t) = replay (tb_log tb) (om_find (ms_data s))"
    using write_batch_cases[OF w assms(2)] assms(1) to_batch_ops[OF assms(5)] by auto
  have d: "ms_data s' = ms_data t" "ms_is_open s'"
    using t(2) by (auto simp: s' end_transaction_def Let_def ms_release_write_slot_def)
  have "om_find (ms_data t) = (\<lambda>k. overlay (view_op tb k) (om_find (ms_data s) k))"
    using assms(5) t(3) by (simp add: view_op_no_ranges[OF assms(6)] tb_inv_def fun_eq_iff)
  note m = merged_scan[OF assms(2,5) t(1) this, of rg]
  have it: "mi_inv (mock_iterator (materialize (ms_data t) rg) rg)"
    "mi_rest (mock_iterator (materialize (ms_data t) rg) rg) = in_direction (sr_direction rg) (materialize (ms_data t) rg)"
    by (rule mock_iterator_rest; simp add: materialize_filter[OF t(1)])+
  have "me_new_iterator rg (s, c) =
      Some (TxIterator (merging_iterator (Some (mock_iterator (materialize (ms_data s) rg) rg)) (Some tb) rg))"
    using assms(1,3,4) by (simp add: me_new_iterator_def ms_new_iterator_def)
  moreover have "ms_new_iterator rg s' = Some (mock_iterator (materialize (ms_data t) rg) rg)" using d by (simp add: ms_new_iterator_def)
  ultimately show ?thesis using merging_it.collect_all[OF m(1)] mock_it.collect_all[OF it(1)] m(2) it(2) d by simp
qed

theorem tx_scan_previews_commit_witness:
  "\<exists>m. me_new_iterator sr_all (store0, mock_engine\<lparr>me_tx := Some (tb_put [1] [2] tx_buffer)\<rparr>) = Some (TxIterator m) \<and>
     collect mg_valid mg_next mg_kvpair 0 0 m = Some [([1], [2])]"
proof -
  let ?c = "mock_engine\<lparr>me_tx := Some (tb_put [1] [2] tx_buffer)\<rparr>"
  have inv: "tb_inv (tb_put [1] [2] tx_buffer)" by (simp add: tb_put_inv)
  have cm: "me_commit_transaction 1 (store0, ?c) = (S_OK, store0\<lparr>ms_data := [([1], [2])]\<rparr>, mock_engine)"
    by (simp add: me_commit_transaction_def store0_def tb_exceeds_def kDefaultLimit_def tb_put_def tb_write_def tx_buffer_def
        entry_cost_def ms_write_batch_def apply_batch_locked_def to_batch_def put_op_def op_rejected_def wb_put_def wb_append_def
        empty_batch_def wb_set_sync_def end_transaction_def mock_engine_def apply_op_def)
  have "tb_range_deletes (tb_put [1] [2] tx_buffer) = []" by (simp add: tb_put_def tb_write_def tx_buffer_def)
  from tx_scan_previews_commit[OF _ _ _ _ inv this cm, of sr_all] show ?thesis
    by (auto simp: store0_def mock_engine_def materialize_def sr_all_def in_direction_def)
qed

text \<open>
  C21: a deleted range still shows in the scans of its own transaction. After a transaction has deleted a range and written
  nothing else, reading a key of the range reports that it does not exist, but a scan still
  lists every committed row of the range: the merging iterator asks the buffer only about keys that were written
  singly.
\<close>

theorem deleted_range_shows_in_scan:
  assumes "ms_is_open s" and "om_inv (ms_data s)" and "me_snapshot c = None" and "me_tx c = Some (tb_remove_range a e tx_buffer)"
  shows "(a \<le> k \<and> k < e \<longrightarrow> me_get k (s, c) = (S_NotFound, None)) \<and>
    (\<exists>m. me_new_iterator rg (s, c) = Some (TxIterator m) \<and>
      collect mg_valid mg_next mg_kvpair 0 0 m = Some (in_direction (sr_direction rg) (materialize (ms_data s) rg)))"
proof -
  let ?tb = "tb_remove_range a e tx_buffer"
  have v: "tb_view ?tb = []" by (simp add: tb_remove_range_def tx_buffer_def)
  have look: "a \<le> k \<and> k < e \<longrightarrow> tb_lookup ?tb k = Tombstone"
    by (simp add: tb_lookup_def v Let_def) (simp add: tb_remove_range_def tx_buffer_def range_seq_def)
  have "om_find (ms_data s) = (\<lambda>k. overlay (view_op ?tb k) (om_find (ms_data s) k))"
    by (simp add: view_op_def v overlay_def)
  note m = merged_scan[OF assms(2) tb_remove_range_inv[OF tb_inv_empty] assms(2) this, of rg]
  have "me_new_iterator rg (s, c) =
      Some (TxIterator (merging_iterator (Some (mock_iterator (materialize (ms_data s) rg) rg)) (Some ?tb) rg))"
    using assms(1,3,4) by (simp add: me_new_iterator_def ms_new_iterator_def)
  then show ?thesis using merging_it.collect_all[OF m(1)] m(2) look assms(1,4) by (simp add: me_get_def)
qed

theorem deleted_range_shows_in_scan_witness:
  "me_get [1] (store0\<lparr>ms_data := [([1], [7])]\<rparr>, mock_engine\<lparr>me_tx := Some (tb_remove_range [0] [2] tx_buffer)\<rparr>) = (S_NotFound, None)"
  using deleted_range_shows_in_scan[of "store0\<lparr>ms_data := [([1], [7])]\<rparr>"
      "mock_engine\<lparr>me_tx := Some (tb_remove_range [0] [2] tx_buffer)\<rparr>" "[0]" "[2]" "[1]" sr_all]
  by (simp add: store0_def mock_engine_def)

text \<open>
  C22: without the discipline two connections can hold the write slot. A write in autocommit mode by a connection that already holds the
  slot gives the store's slot back while the connection's own flag stays set, so that another connection can
  take the slot too.
\<close>

theorem autocommit_loses_slot:
  assumes "ms_is_open s" and "ms_write_owner s = None"
  shows "let w = run [(1, ReqAcquire), (1, ReqPut k v), (2, ReqAcquire)] (initial_world s) in
    me_write_slot (w_conns w 1) \<and> me_write_slot (w_conns w 2)"
  using assms by (simp add: run_eval Let_def)

theorem autocommit_loses_slot_witness:
  "me_write_slot (w_conns (run [(1, ReqAcquire), (1, ReqPut [1] [2]), (2, ReqAcquire)] (initial_world store0)) 1)"
  using autocommit_loses_slot[of store0 "[1]" "[2]"] by (simp add: store0_def Let_def)

text \<open>
  Taking the write slot can change what a transaction reads. A transaction that has begun reads its snapshot; when another
  connection commits a value and the transaction then takes the slot, the snapshot is dropped and the same
  read returns the new value.
\<close>

theorem slot_drops_snapshot:
  assumes "ms_is_open s" and "ms_write_owner s = None" and "om_inv (ms_data s)" and "om_find (ms_data s) k = Some old"
  shows "let w = run [(1, ReqBegin), (2, ReqPut k new)] (initial_world s) in
    me_get k (conn w 1) = (S_OK, Some old) \<and> me_get k (conn (run [(1, ReqAcquire)] w) 1) = (S_OK, Some new)"
  using assms by (simp add: run_eval me_get_def ms_get_def tb_lookup_def tx_buffer_def range_seq_def Let_def)

theorem slot_drops_snapshot_witness:
  "me_get [1] (conn (run [(1, ReqBegin), (2, ReqPut [1] [9]), (1, ReqAcquire)]
     (initial_world (store0\<lparr>ms_data := [([1], [7])]\<rparr>))) 1) = (S_OK, Some [9])"
  using slot_drops_snapshot[of "store0\<lparr>ms_data := [([1], [7])]\<rparr>" "[1]" "[7]" "[9]"]
  by (simp add: store0_def om_find_def Let_def run_def)

end
