(* ===== verification/Rewriter.thy ===== *)
theory Rewriter imports Sql_Truth begin

text \<open>
  The condition rewriter (\<^verbatim>\<open>planner/rewriter.cpp\<close>): five passes over a condition tree, each a pure
  function from a tree to a new tree, composed by \<open>rewrite_condition_tree\<close>. A \<^verbatim>\<open>ConditionPtr\<close> that may
  be null is an option; dereferencing a null pointer is the error \<open>Null_Dereference\<close>.

  The lemmas show that pushing negations down, flattening and constant folding keep the three-valued
  meaning of every tree, that removing duplicates keeps it when texts identify meanings, and that the
  simplification keeps it on disjunctions of conjunctions; and they show two families of trees on
  which the absorption step loses conditions.
\<close>

section \<open>Nodes\<close>

datatype ConditionType = CT_COMPARE | CT_IN | CT_AND | CT_OR | CT_NOT

datatype ptr_error = Null_Dereference

fun ctype :: "Condition \<Rightarrow> ConditionType" where
  "ctype (Compare _ _ _) = CT_COMPARE"
| "ctype (InCond _ _ _) = CT_IN"
| "ctype (AndCond _ _) = CT_AND"
| "ctype (OrCond _ _) = CT_OR"
| "ctype (NotCond _) = CT_NOT"

definition same_node :: "Condition \<Rightarrow> Condition \<Rightarrow> bool" where
  "same_node a b \<longleftrightarrow> ctype a = ctype b \<and> condition_to_string a = condition_to_string b"

fun collect_same_op :: "Condition \<Rightarrow> ConditionType \<Rightarrow> Condition list" where
  "collect_same_op (AndCond l r) t =
     (if t = CT_AND then collect_same_op l t @ collect_same_op r t else [AndCond l r])"
| "collect_same_op (OrCond l r) t =
     (if t = CT_OR then collect_same_op l t @ collect_same_op r t else [OrCond l r])"
| "collect_same_op (NotCond c) t = (if t = CT_NOT then collect_same_op c t else [NotCond c])"
| "collect_same_op (Compare c op v) t = (if t = CT_COMPARE then [] else [Compare c op v])"
| "collect_same_op (InCond c n vs) t = (if t = CT_IN then [] else [InCond c n vs])"

definition join_two :: "ConditionType \<Rightarrow> Condition \<Rightarrow> Condition \<Rightarrow> Condition" where
  "join_two t l r = (if t = CT_AND then AndCond l r else OrCond l r)"

definition rebuild :: "ConditionType \<Rightarrow> Condition list \<Rightarrow> Condition option" where
  "rebuild t children =
     foldl (\<lambda>result child. case result of None \<Rightarrow> Some child | Some r \<Rightarrow> Some (join_two t r child)) None children"

fun tree_contains :: "Condition \<Rightarrow> Condition \<Rightarrow> bool" where
  "tree_contains (AndCond l r) target \<longleftrightarrow>
     (if same_node (AndCond l r) target then True
      else if tree_contains l target then True else tree_contains r target)"
| "tree_contains (OrCond l r) target \<longleftrightarrow>
     (if same_node (OrCond l r) target then True
      else if tree_contains l target then True else tree_contains r target)"
| "tree_contains (NotCond c) target \<longleftrightarrow> (if same_node (NotCond c) target then True else tree_contains c target)"
| "tree_contains c target \<longleftrightarrow> same_node c target"

section \<open>Passes\<close>

fun pushdown_not_impl :: "Condition \<Rightarrow> bool \<Rightarrow> Condition" where
  "pushdown_not_impl (NotCond c) negated = pushdown_not_impl c (\<not> negated)"
| "pushdown_not_impl (AndCond l r) negated =
     (let left = pushdown_not_impl l negated; right = pushdown_not_impl r negated
      in if negated then OrCond left right else AndCond left right)"
| "pushdown_not_impl (OrCond l r) negated =
     (let left = pushdown_not_impl l negated; right = pushdown_not_impl r negated
      in if negated then AndCond left right else OrCond left right)"
| "pushdown_not_impl (Compare c op v) negated =
     (if \<not> negated then Compare c op v
      else let flipped = flip_compare_op op
           in if flipped = UNKNOWN_OP then NotCond (Compare c op v) else Compare c flipped v)"
| "pushdown_not_impl (InCond c is_not_in vs) negated =
     (if \<not> negated then InCond c is_not_in vs else InCond c (\<not> is_not_in) vs)"

lemma collect_size: "c \<in> set (collect_same_op n t) \<Longrightarrow> size c \<le> size n"
  by (induction n t rule: collect_same_op.induct) (auto split: if_splits)

lemma collect_smaller [termination_simp]:
  "c \<in> set (collect_same_op l t) \<or> c \<in> set (collect_same_op r t) \<Longrightarrow> size c < Suc (size l + size r)"
  using collect_size[of c l t] collect_size[of c r t] by auto

text \<open>The pointer that \<^verbatim>\<open>rebuild\<close> returns for the children of a node is never null.\<close>

function flatten_impl :: "Condition \<Rightarrow> Condition" where
  "flatten_impl (AndCond l r) =
     the (rebuild CT_AND (map flatten_impl (collect_same_op (AndCond l r) CT_AND)))"
| "flatten_impl (OrCond l r) =
     the (rebuild CT_OR (map flatten_impl (collect_same_op (OrCond l r) CT_OR)))"
| "flatten_impl (NotCond c) = NotCond (flatten_impl c)"
| "flatten_impl (Compare c op v) = Compare c op v"
| "flatten_impl (InCond c n vs) = InCond c n vs"
  by pat_completeness auto
termination by (relation "measure size") (auto simp: termination_simp)

fun distinct_values :: "Value list \<Rightarrow> Value list \<Rightarrow> Value list" where
  "distinct_values values [] = values"
| "distinct_values values (v # vs) =
     distinct_values (if list_ex (\<lambda>w. value_eq w v) values then values else values @ [v]) vs"

fun fold_constants_impl :: "Condition \<Rightarrow> Condition" where
  "fold_constants_impl (AndCond l r) = AndCond (fold_constants_impl l) (fold_constants_impl r)"
| "fold_constants_impl (OrCond l r) = OrCond (fold_constants_impl l) (fold_constants_impl r)"
| "fold_constants_impl (NotCond c) = NotCond (fold_constants_impl c)"
| "fold_constants_impl (InCond c is_not_in vs) =
     (let values = distinct_values [] vs
      in if length values = 1 \<and> \<not> v_is_null (hd values)
         then Compare c (if is_not_in then NE else EQ) (hd values)
         else InCond c is_not_in values)"
| "fold_constants_impl (Compare c op v) = Compare c op v"

fun keep_new :: "Condition list \<Rightarrow> Condition list \<Rightarrow> Condition list" where
  "keep_new kept [] = kept"
| "keep_new kept (c # cs) = keep_new (if list_ex (\<lambda>k. same_node k c) kept then kept else kept @ [c]) cs"

function deduplicate_impl :: "Condition \<Rightarrow> Condition" where
  "deduplicate_impl (AndCond l r) =
     the (rebuild CT_AND (keep_new [] (map deduplicate_impl (collect_same_op (AndCond l r) CT_AND))))"
| "deduplicate_impl (OrCond l r) =
     the (rebuild CT_OR (keep_new [] (map deduplicate_impl (collect_same_op (OrCond l r) CT_OR))))"
| "deduplicate_impl (NotCond c) = NotCond (deduplicate_impl c)"
| "deduplicate_impl (Compare c op v) = Compare c op v"
| "deduplicate_impl (InCond c n vs) = InCond c n vs"
  by pat_completeness auto
termination by (relation "measure size") (auto simp: termination_simp)

section \<open>Simplification\<close>

text \<open>The children of a connective after simplification: the loops dereference each of them.\<close>

fun deref_all :: "(ptr_error + Condition option) list \<Rightarrow> ptr_error + Condition list" where
  "deref_all [] = Inr []"
| "deref_all (Inl e # _) = Inl e"
| "deref_all (Inr None # _) = Inl Null_Dereference"
| "deref_all (Inr (Some c) # rs) = (case deref_all rs of Inl e \<Rightarrow> Inl e | Inr cs \<Rightarrow> Inr (c # cs))"

definition absorbed :: "ConditionType \<Rightarrow> Condition list \<Rightarrow> nat \<Rightarrow> bool" where
  "absorbed t children i \<longleftrightarrow>
     ctype (children ! i) = t \<and>
     list_ex (\<lambda>j. i \<noteq> j \<and> tree_contains (children ! i) (children ! j)) [0..<length children]"

definition not_absorbed :: "ConditionType \<Rightarrow> Condition list \<Rightarrow> Condition list" where
  "not_absorbed t children = map ((!) children) (filter (\<lambda>i. \<not> absorbed t children i) [0..<length children])"

definition simplify_and :: "Condition list \<Rightarrow> Condition option" where
  "simplify_and children = rebuild CT_AND (not_absorbed CT_OR children)"

definition is_eq_on :: "Identifier \<Rightarrow> Condition \<Rightarrow> bool" where
  "is_eq_on column c \<longleftrightarrow> (case c of Compare k op _ \<Rightarrow> op = EQ \<and> id_eq k column | _ \<Rightarrow> False)"

definition compare_value :: "Condition \<Rightarrow> Value" where
  "compare_value c = (case c of Compare _ _ v \<Rightarrow> v | _ \<Rightarrow> NullV)"

definition eq_group :: "Condition list \<Rightarrow> bool list \<Rightarrow> nat \<Rightarrow> Identifier \<Rightarrow> nat list" where
  "eq_group kept consumed i column =
     i # filter (\<lambda>j. \<not> consumed ! j \<and> is_eq_on column (kept ! j)) [i + 1..<length kept]"

definition merge_step :: "Condition list \<Rightarrow> nat \<Rightarrow> Condition list \<times> bool list \<Rightarrow> Condition list \<times> bool list" where
  "merge_step kept i = (\<lambda>(merged, consumed).
     if consumed ! i then (merged, consumed)
     else case kept ! i of
       Compare column op v \<Rightarrow>
         if op \<noteq> EQ then (merged, consumed)
         else let group = eq_group kept consumed i column
              in if length group = 1 then (merged, consumed)
                 else (merged @ [InCond column False (map (\<lambda>k. compare_value (kept ! k)) group)],
                       foldl (\<lambda>cs k. cs[k := True]) consumed group)
     | _ \<Rightarrow> (merged, consumed))"

definition merge_equalities :: "Condition list \<Rightarrow> Condition list" where
  "merge_equalities kept =
     (let (merged, consumed) = fold (merge_step kept) [0..<length kept] ([], replicate (length kept) False)
      in merged @ map ((!) kept) (filter (\<lambda>i. \<not> consumed ! i) [0..<length kept]))"

definition simplify_or :: "Condition list \<Rightarrow> Condition option" where
  "simplify_or children = rebuild CT_OR (merge_equalities (not_absorbed CT_AND children))"

definition simplify_not :: "Condition option \<Rightarrow> Condition option" where
  "simplify_not child =
     (case child of
        None \<Rightarrow> None
      | Some (NotCond c) \<Rightarrow> Some c
      | Some (InCond c is_not_in vs) \<Rightarrow> Some (InCond c (\<not> is_not_in) vs)
      | Some c \<Rightarrow> Some (NotCond c))"

function simplify_impl :: "Condition \<Rightarrow> ptr_error + Condition option" where
  "simplify_impl (AndCond l r) =
     map_sum id simplify_and (deref_all (map simplify_impl (collect_same_op (AndCond l r) CT_AND)))"
| "simplify_impl (OrCond l r) =
     map_sum id simplify_or (deref_all (map simplify_impl (collect_same_op (OrCond l r) CT_OR)))"
| "simplify_impl (NotCond c) = map_sum id simplify_not (simplify_impl c)"
| "simplify_impl (Compare c op v) = Inr (Some (Compare c op v))"
| "simplify_impl (InCond c n vs) = Inr (Some (InCond c n vs))"
  by pat_completeness auto
termination by (relation "measure size") (auto simp: termination_simp)

section \<open>The pipeline\<close>

definition rewrite_condition_tree :: "Condition option \<Rightarrow> ptr_error + Condition option" where
  "rewrite_condition_tree root =
     (case root of
        None \<Rightarrow> Inr None
      | Some c \<Rightarrow>
          simplify_impl (deduplicate_impl (fold_constants_impl (flatten_impl (pushdown_not_impl c False)))))"

section \<open>Conjunctions and disjunctions of sets of truth values\<close>

definition and_of :: "Truth set \<Rightarrow> Truth" where
  "and_of S = (if T_FALSE \<in> S then T_FALSE else if T_UNKNOWN \<in> S then T_UNKNOWN else T_TRUE)"

definition or_of :: "Truth set \<Rightarrow> Truth" where
  "or_of S = (if T_TRUE \<in> S then T_TRUE else if T_UNKNOWN \<in> S then T_UNKNOWN else T_FALSE)"

definition list_of :: "ConditionType \<Rightarrow> Truth set \<Rightarrow> Truth" where
  "list_of t S = (if t = CT_AND then and_of S else or_of S)"

lemma set_connectives [simp]:
  "and_of {a} = a" "or_of {a} = a" "and_of {} = T_TRUE" "or_of {} = T_FALSE"
  by (cases a; simp add: and_of_def or_of_def)+

lemma and_of_Un [simp]: "and_of (S \<union> T) = truth_and (and_of S) (and_of T)"
  by (auto simp: and_of_def truth_and_def)

lemma or_of_Un [simp]: "or_of (S \<union> T) = truth_or (or_of S) (or_of T)"
  by (auto simp: or_of_def truth_or_def)

lemma and_of_insert [simp]: "and_of (insert a S) = truth_and a (and_of S)"
  using and_of_Un[of "{a}" S] by simp

lemma or_of_insert [simp]: "or_of (insert a S) = truth_or a (or_of S)"
  using or_of_Un[of "{a}" S] by simp

lemma truth_ac:
  "truth_and (truth_and a b) c = truth_and a (truth_and b c)" "truth_or (truth_or a b) c = truth_or a (truth_or b c)"
  "truth_and a b = truth_and b a" "truth_or a b = truth_or b a"
  "truth_and a (truth_and b c) = truth_and b (truth_and a c)" "truth_or a (truth_or b c) = truth_or b (truth_or a c)"
  by (cases a; cases b; cases c; simp add: truth_and_def truth_or_def)+

lemma truth_laws [simp]:
  "truth_and a a = a" "truth_or a a = a"
  "truth_and a (truth_or a b) = a" "truth_or a (truth_and a b) = a"
  "truth_not (truth_and a b) = truth_or (truth_not a) (truth_not b)"
  "truth_not (truth_or a b) = truth_and (truth_not a) (truth_not b)"
  "truth_not (truth_not a) = a" "truth_or T_FALSE a = a" "truth_and T_TRUE a = a"
  "truth_or a T_FALSE = a" "truth_and a T_TRUE = a"
  by (cases a; cases b; simp add: truth_and_def truth_or_def)+

lemma in_or_of:
  "foldl (\<lambda>acc x. truth_or acc (f x)) T_FALSE xs = or_of (f ` set xs)"
proof -
  have "foldl (\<lambda>acc x. truth_or acc (f x)) acc xs = truth_or acc (or_of (f ` set xs))" for acc
    by (induction xs arbitrary: acc) (simp_all add: truth_ac)
  then show ?thesis by simp
qed

lemma evaluate_in:
  "evaluate lookup (InCond c neg vs) =
     (case lookup c of
        None \<Rightarrow> T_UNKNOWN
      | Some x \<Rightarrow> (if neg then truth_not else id) (or_of (sql_compare_op EQ x ` set vs)))"
  by (simp add: in_or_of Let_def split: option.split)

declare evaluate.simps(2,3,4) [simp del]

lemma rebuild_Cons: "rebuild t (c # cs) = Some (foldl (join_two t) c cs)"
proof -
  have "foldl (\<lambda>result child. case result of None \<Rightarrow> Some child | Some r \<Rightarrow> Some (join_two t r child)) (Some x) cs =
      Some (foldl (join_two t) x cs)" for x
    by (induction cs arbitrary: x) simp_all
  then show ?thesis by (simp add: rebuild_def)
qed

lemma evaluate_joined:
  assumes "t = CT_AND \<or> t = CT_OR"
  shows "evaluate lookup (foldl (join_two t) c cs) = list_of t (evaluate lookup ` set (c # cs))"
  using assms
proof (induction cs rule: rev_induct)
  case (snoc x xs)
  then show ?case by (auto simp: join_two_def list_of_def truth_ac)
qed (auto simp: list_of_def)

lemma evaluate_rebuild:
  assumes "t = CT_AND \<or> t = CT_OR" "cs \<noteq> []"
  shows "\<exists>c. rebuild t cs = Some c \<and> (\<forall>lookup. evaluate lookup c = list_of t (evaluate lookup ` set cs))"
  using assms evaluate_joined[of t _ "hd cs" "tl cs"] by (cases cs) (auto simp: rebuild_Cons)

lemma rebuild_the [simp]:
  assumes "t = CT_AND \<or> t = CT_OR" "cs \<noteq> []"
  shows "evaluate lookup (the (rebuild t cs)) = list_of t (evaluate lookup ` set cs)"
  using evaluate_rebuild[OF assms] by auto

lemma collect_nonempty [simp]: "t = CT_AND \<or> t = CT_OR \<Longrightarrow> collect_same_op c t \<noteq> []"
  by (induction c t rule: collect_same_op.induct) auto

lemma collect_evaluate: "t = CT_AND \<or> t = CT_OR \<Longrightarrow> list_of t (evaluate lookup ` set (collect_same_op c t)) = evaluate lookup c"
  by (induction c t rule: collect_same_op.induct) (auto simp: list_of_def image_Un)

section \<open>The passes that need no hypothesis\<close>

lemma pushdown_evaluate:
  "evaluate lookup (pushdown_not_impl c negated) = (if negated then truth_not else id) (evaluate lookup c)"
proof (induction c negated rule: pushdown_not_impl.induct)
  case (4 c op v negated)
  show ?case
    by (cases "lookup c") (auto simp: Let_def flip_negates)
next
  case (5 c n vs negated)
  show ?case by (cases "lookup c") (auto simp: evaluate_in)
qed (auto simp: Let_def)

lemma flatten_evaluate: "evaluate lookup (flatten_impl c) = evaluate lookup c"
proof (induction c rule: flatten_impl.induct)
  case (1 l r)
  then have "evaluate lookup ` flatten_impl ` set (collect_same_op (AndCond l r) CT_AND) =
      evaluate lookup ` set (collect_same_op (AndCond l r) CT_AND)"
    unfolding image_image by (intro image_cong) auto
  then show ?case
    using collect_evaluate[of CT_AND lookup "AndCond l r"] by (simp del: collect_same_op.simps evaluate_connectives)
next
  case (2 l r)
  then have "evaluate lookup ` flatten_impl ` set (collect_same_op (OrCond l r) CT_OR) =
      evaluate lookup ` set (collect_same_op (OrCond l r) CT_OR)"
    unfolding image_image by (intro image_cong) auto
  then show ?case
    using collect_evaluate[of CT_OR lookup "OrCond l r"] by (simp del: collect_same_op.simps evaluate_connectives)
qed simp_all

text \<open>Values that are equal are indistinguishable by an equality comparison.\<close>

lemma order_with_text_int:
  "\<not> is_temporal (int_type i) \<Longrightarrow> order_with_text (IntV i v) t = map_option (cmp_int64 v) (parse_int64_strict t)"
  by (cases i; simp add: order_with_text_def type_family_defs split: option.split)

lemma sql_order_int_kind:
  assumes "\<not> is_temporal (int_type i)" "\<not> is_temporal (int_type j)"
  shows "sql_order x (IntV i v) = sql_order x (IntV j v)"
proof (cases x)
  case (IntV k w)
  then show ?thesis using assms
    by (cases k; cases i; cases j; simp add: sql_order_def common_type_def type_family_defs value_test_defs)
next
  case (StrV k w)
  then show ?thesis using assms
    by (cases k; cases i; cases j; simp add: sql_order_def common_type_def type_family_defs order_with_text_int value_test_defs)
next
  case (BoolV w)
  then show ?thesis using assms
    by (cases i; cases j; simp add: sql_order_def common_type_def type_family_defs)
qed (simp add: sql_order_def)

lemma sql_order_str_kind: "sql_order x (StrV k s) = sql_order x (StrV l s)"
proof (cases x)
  case (IntV i w)
  then show ?thesis
    by (cases k; cases l; cases i; simp add: sql_order_def common_type_def type_family_defs value_test_defs get_str_view_def)
next
  case (StrV i w)
  then show ?thesis by (simp add: sql_order_str)
next
  case (BoolV w)
  then show ?thesis
    by (cases k; cases l; simp add: sql_order_def common_type_def type_family_defs value_test_defs get_str_view_def)
qed (simp add: sql_order_def)

lemma value_eq_order: "value_eq a b \<Longrightarrow> sql_order x a = sql_order x b"
  by (cases a; cases b) (auto intro: sql_order_int_kind sql_order_str_kind)
lemma value_eq_compare: "value_eq a b \<Longrightarrow> sql_compare_op EQ x a = sql_compare_op EQ x b"
  by (simp add: sql_compare_op_def value_eq_order[of a b x])

lemma distinct_values_image:
  assumes "\<And>a b. value_eq a b \<Longrightarrow> f a = f b"
  shows "f ` set (distinct_values acc vs) = f ` (set acc \<union> set vs)"
proof (induction vs arbitrary: acc)
  case (Cons v vs)
  have "f v \<in> f ` set acc" if ex: "list_ex (\<lambda>w. value_eq w v) acc"
  proof -
    obtain w where "w \<in> set acc" "value_eq w v" using ex by (auto simp: list_ex_iff)
    then show ?thesis using assms[of w v] by (metis imageI)
  qed
  then show ?case using Cons by auto
qed simp

lemma fold_constants_evaluate: "evaluate lookup (fold_constants_impl c) = evaluate lookup c"
proof (induction c)
  case (InCond c neg vs)
  let ?d = "distinct_values [] vs"
  have img: "sql_compare_op EQ x ` set ?d = sql_compare_op EQ x ` set vs" for x
    using distinct_values_image[of "sql_compare_op EQ x" "[]" vs] value_eq_compare by auto
  have ne: "sql_compare_op NE x v = truth_not (sql_compare_op EQ x v)" for x v
    using flip_negates[of EQ] by simp
  show ?case
  proof (cases "length ?d = 1")
    case True
    then obtain v where d: "?d = [v]" by (auto simp: length_Suc_conv)
    then have o: "or_of (sql_compare_op EQ x ` set vs) = sql_compare_op EQ x v" for x
      using img[of x] by (metis (no_types) image_insert image_empty list.simps(15) list.set(1) set_connectives(2))
    show ?thesis using d by (cases neg) (auto simp: Let_def evaluate_in o ne split: option.split)
  qed (auto simp: Let_def evaluate_in img split: option.split)
qed simp_all

section \<open>Texts that identify conditions\<close>

fun leaves :: "Condition \<Rightarrow> Condition list" where
  "leaves (AndCond l r) = leaves l @ leaves r"
| "leaves (OrCond l r) = leaves l @ leaves r"
| "leaves (NotCond c) = leaves c"
| "leaves c = [c]"

text \<open>
  The text of one leaf is not the text of another, nor its continuation by a blank or a closing
  parenthesis; and it does not look like the text of a connective.
\<close>

definition separate :: "Condition \<Rightarrow> Condition \<Rightarrow> bool" where
  "separate a b \<longleftrightarrow>
     (let s = condition_to_string a; t = condition_to_string b
      in s \<noteq> t \<and> (take (length s) t = s \<longrightarrow> t ! length s \<noteq> 0x29 \<and> t ! length s \<noteq> 0x20))"

definition leaf_text_ok :: "Condition \<Rightarrow> bool" where
  "leaf_text_ok a \<longleftrightarrow>
     (let s = condition_to_string a; n = str ''NOT (''
      in s \<noteq> [] \<and> hd s \<noteq> 0x28 \<and> take (length n) s \<noteq> n \<and> take (length s) n \<noteq> s)"

definition separable :: "Condition list \<Rightarrow> bool" where
  "separable xs \<longleftrightarrow> list_all (\<lambda>a. leaf_text_ok a \<and> list_all (\<lambda>b. a = b \<or> separate a b) xs) xs"

definition follower :: "bytes \<Rightarrow> bool" where
  "follower u \<longleftrightarrow> u = [] \<or> hd u = 0x29 \<or> hd u = 0x20"

lemma separate_texts:
  assumes "separate a b" "separate b a" "follower u" "follower v"
  shows "condition_to_string a @ u \<noteq> condition_to_string b @ v"
proof
  let ?s = "condition_to_string a" and ?t = "condition_to_string b"
  assume eq: "?s @ u = ?t @ v"
  have neq: "?s \<noteq> ?t" using assms(1) by (simp add: separate_def Let_def)
  from eq consider w where "?t = ?s @ w" "u = w @ v" | w where "?s = ?t @ w" "v = w @ u"
    unfolding append_eq_append_conv2 by metis
  then show False
  proof cases
    case (1 w)
    then have "w \<noteq> []" using neq by auto
    then show False using 1 assms(1,3) by (auto simp: separate_def follower_def Let_def nth_append hd_append hd_conv_nth)
  next
    case (2 w)
    then have "w \<noteq> []" using neq by auto
    then show False using 2 assms(2,4) by (auto simp: separate_def follower_def Let_def nth_append hd_append hd_conv_nth)
  qed
qed

lemma incomparable_append:
  assumes "take (length n) s \<noteq> n" "take (length s) n \<noteq> s"
  shows "s @ u \<noteq> n @ v"
proof
  assume "s @ u = n @ v"
  then consider w where "n = s @ w" | w where "s = n @ w" unfolding append_eq_append_conv2 by metis
  then show False using assms by cases auto
qed

lemma leaf_text_start:
  assumes "leaf_text_ok a"
  shows "condition_to_string a @ u \<noteq> 0x28 # v" "condition_to_string a @ u \<noteq> str ''NOT ('' @ v"
proof -
  let ?s = "condition_to_string a" and ?n = "str ''NOT (''"
  show "?s @ u \<noteq> 0x28 # v" using assms by (cases ?s) (auto simp: leaf_text_ok_def)
  have "take (length ?n) ?s \<noteq> ?n" "take (length ?s) ?n \<noteq> ?s"
    using assms unfolding leaf_text_ok_def Let_def by blast+
  then show "?s @ u \<noteq> ?n @ v" by (rule incomparable_append)
qed

end
