(* ===== verification/Query.thy ===== *)
theory Query imports Schema Rewriter begin

text \<open>
  Statements (\<^verbatim>\<open>sql_types/query.h\<close>, \<^verbatim>\<open>query_clause.h\<close>) and the rewriting of a whole statement
  (\<^verbatim>\<open>QueryRewriter::rewrite\<close> in \<^verbatim>\<open>planner/rewriter.cpp\<close>). The variant of statement structs is one
  datatype over records; a null WHERE pointer is \<open>None\<close>. The source positions that INSERT and UPDATE
  carry for diagnostics are left out. A \<^verbatim>\<open>size_t\<close> is a 64-bit word.
\<close>

section \<open>Clauses\<close>

datatype OrderDirection = ORD_ASC | ORD_DESC

record OrderByItem =
  ob_column :: Identifier
  ob_direction :: OrderDirection

definition is_ascending :: "OrderByItem \<Rightarrow> bool" where
  "is_ascending item \<longleftrightarrow> ob_direction item = ORD_ASC"

record LimitClause =
  lc_row_count :: "uint64 option"
  lc_offset :: "uint64 option"

definition no_limit :: LimitClause where
  "no_limit = \<lparr> lc_row_count = None, lc_offset = None \<rparr>"

definition lc_limit :: "uint64 \<Rightarrow> LimitClause" where
  "lc_limit n = no_limit\<lparr>lc_row_count := Some n\<rparr>"

definition lc_limit_offset :: "uint64 \<Rightarrow> uint64 \<Rightarrow> LimitClause" where
  "lc_limit_offset n m = no_limit\<lparr>lc_row_count := Some n, lc_offset := Some m\<rparr>"

definition lc_offset_only :: "uint64 \<Rightarrow> LimitClause" where
  "lc_offset_only m = no_limit\<lparr>lc_offset := Some m\<rparr>"

definition has_limit :: "LimitClause \<Rightarrow> bool" where
  "has_limit c \<longleftrightarrow> lc_row_count c \<noteq> None"

definition has_offset :: "LimitClause \<Rightarrow> bool" where
  "has_offset c \<longleftrightarrow> lc_offset c \<noteq> None"

definition limit_value :: "LimitClause \<Rightarrow> uint64" where
  "limit_value c = (case lc_row_count c of Some n \<Rightarrow> n | None \<Rightarrow> 0)"

definition offset_value :: "LimitClause \<Rightarrow> uint64" where
  "offset_value c = (case lc_offset c of Some n \<Rightarrow> n | None \<Rightarrow> 0)"

definition id_empty :: "Identifier \<Rightarrow> bool" where
  "id_empty i \<longleftrightarrow> id_name i = []"

record ColumnRef =
  cr_column :: Identifier
  cr_table :: Identifier
  cr_alias :: "Identifier option"

definition is_wildcard :: "ColumnRef \<Rightarrow> bool" where
  "is_wildcard r \<longleftrightarrow> id_empty (cr_column r) \<or> id_eq_str (cr_column r) (str ''*'')"

definition is_qualified :: "ColumnRef \<Rightarrow> bool" where
  "is_qualified r \<longleftrightarrow> \<not> id_empty (cr_table r)"

definition ref_display_name :: "ColumnRef \<Rightarrow> bytes" where
  "ref_display_name r = (case cr_alias r of Some a \<Rightarrow> display_name a | None \<Rightarrow> display_name (cr_column r))"

section \<open>Statements\<close>

record SelectQuery =
  sq_table :: Identifier
  sq_alias :: "Identifier option"
  sq_columns :: "ColumnRef list"
  sq_where :: "Condition option"
  sq_group_by :: "Identifier list"
  sq_order_by :: "OrderByItem list"
  sq_limit :: LimitClause

definition select_all :: "SelectQuery \<Rightarrow> bool" where
  "select_all q \<longleftrightarrow> sq_columns q = [] \<or> is_wildcard (hd (sq_columns q))"

record InsertQuery =
  iq_table :: Identifier
  iq_columns :: "Identifier list"
  iq_values :: "Value list list"

record Assignment =
  as_column :: Identifier
  as_value :: Value

record UpdateQuery =
  uq_table :: Identifier
  uq_assignments :: "Assignment list"
  uq_where :: "Condition option"

record DeleteQuery =
  dq_table :: Identifier
  dq_where :: "Condition option"

record CreateTableQuery =
  ct_database :: Identifier
  ct_table :: Identifier
  ct_columns :: "ColumnDef list"

record DropTableQuery =
  dt_database :: Identifier
  dt_table :: Identifier

datatype TransactionKind = TX_BEGIN | TX_COMMIT | TX_ROLLBACK

datatype Query =
    Select SelectQuery
  | Insert InsertQuery
  | Update UpdateQuery
  | Delete DeleteQuery
  | CreateTable CreateTableQuery
  | DropTable DropTableQuery
  | CreateDatabase Identifier
  | DropDatabase Identifier
  | UseDatabase Identifier
  | Transaction TransactionKind

datatype QueryType = Q_SELECT | Q_INSERT | Q_UPDATE | Q_DELETE | Q_CREATE_TABLE | Q_DROP_TABLE
  | Q_CREATE_DATABASE | Q_DROP_DATABASE | Q_USE_DATABASE | Q_TRANSACTION | Q_UNKNOWN

fun query_type :: "Query \<Rightarrow> QueryType" where
  "query_type (Select _) = Q_SELECT"
| "query_type (Insert _) = Q_INSERT"
| "query_type (Update _) = Q_UPDATE"
| "query_type (Delete _) = Q_DELETE"
| "query_type (CreateTable _) = Q_CREATE_TABLE"
| "query_type (DropTable _) = Q_DROP_TABLE"
| "query_type (CreateDatabase _) = Q_CREATE_DATABASE"
| "query_type (DropDatabase _) = Q_DROP_DATABASE"
| "query_type (UseDatabase _) = Q_USE_DATABASE"
| "query_type (Transaction _) = Q_TRANSACTION"

definition is_ddl :: "Query \<Rightarrow> bool" where
  "is_ddl q \<longleftrightarrow> query_type q \<in> {Q_CREATE_TABLE, Q_DROP_TABLE, Q_CREATE_DATABASE, Q_DROP_DATABASE}"

definition is_dml :: "Query \<Rightarrow> bool" where
  "is_dml q \<longleftrightarrow> query_type q \<in> {Q_SELECT, Q_INSERT, Q_UPDATE, Q_DELETE}"

definition is_ctrl :: "Query \<Rightarrow> bool" where
  "is_ctrl q \<longleftrightarrow> query_type q = Q_USE_DATABASE"

fun target_table :: "Query \<Rightarrow> Identifier option" where
  "target_table (Select q) = Some (sq_table q)"
| "target_table (Insert q) = Some (iq_table q)"
| "target_table (Update q) = Some (uq_table q)"
| "target_table (Delete q) = Some (dq_table q)"
| "target_table (CreateTable q) = Some (ct_table q)"
| "target_table (DropTable q) = Some (dt_table q)"
| "target_table _ = None"

section \<open>Texts\<close>

definition uint_to_string :: "uint64 \<Rightarrow> bytes" where
  "uint_to_string n = decimal_digits (unat n)"

definition ref_to_string :: "ColumnRef \<Rightarrow> bytes" where
  "ref_to_string r =
     (if is_qualified r then id_name (cr_table r) @ str ''.'' else []) @ display_name (cr_column r) @
     (case cr_alias r of Some a \<Rightarrow> str '' AS '' @ display_name a | None \<Rightarrow> [])"

definition where_to_string :: "Condition option \<Rightarrow> bytes" where
  "where_to_string w = (case w of Some c \<Rightarrow> str '' WHERE '' @ condition_to_string c | None \<Rightarrow> [])"

definition select_to_string :: "SelectQuery \<Rightarrow> bytes" where
  "select_to_string q =
     str ''SELECT '' @ (if select_all q then str ''*'' else join_comma (map ref_to_string (sq_columns q))) @
     str '' FROM '' @ display_name (sq_table q) @
     (case sq_alias q of Some a \<Rightarrow> str '' AS '' @ display_name a | None \<Rightarrow> []) @
     where_to_string (sq_where q) @
     (if sq_group_by q \<noteq> [] then str '' GROUP BY '' @ join_comma (map display_name (sq_group_by q)) else []) @
     (if sq_order_by q \<noteq> [] then str '' ORDER BY '' @
        join_comma (map (\<lambda>item. display_name (ob_column item) @
          (if ob_direction item = ORD_ASC then str '' ASC'' else str '' DESC'')) (sq_order_by q)) else []) @
     (if has_limit (sq_limit q) then str '' LIMIT '' @ uint_to_string (limit_value (sq_limit q)) else []) @
     (if has_offset (sq_limit q) then str '' OFFSET '' @ uint_to_string (offset_value (sq_limit q)) else [])"

definition insert_to_string :: "InsertQuery \<Rightarrow> bytes" where
  "insert_to_string q =
     str ''INSERT INTO '' @ display_name (iq_table q) @
     (if iq_columns q \<noteq> [] then str '' ('' @ join_comma (map display_name (iq_columns q)) @ str '')'' else []) @
     str '' VALUES '' @
     join_comma (map (\<lambda>row. str ''('' @ join_comma (map value_to_string row) @ str '')'') (iq_values q))"

definition update_to_string :: "UpdateQuery \<Rightarrow> bytes" where
  "update_to_string q =
     str ''UPDATE '' @ display_name (uq_table q) @ str '' SET '' @
     join_comma (map (\<lambda>a. display_name (as_column a) @ str '' = '' @ value_to_string (as_value a)) (uq_assignments q)) @
     where_to_string (uq_where q)"

definition delete_to_string :: "DeleteQuery \<Rightarrow> bytes" where
  "delete_to_string q = str ''DELETE FROM '' @ display_name (dq_table q) @ where_to_string (dq_where q)"

definition qualified_name :: "Identifier \<Rightarrow> Identifier \<Rightarrow> bytes" where
  "qualified_name db table = (if \<not> id_empty db then display_name db @ str ''.'' else []) @ display_name table"

fun transaction_kind_to_string :: "TransactionKind \<Rightarrow> bytes" where
  "transaction_kind_to_string TX_BEGIN = str ''BEGIN''"
| "transaction_kind_to_string TX_COMMIT = str ''COMMIT''"
| "transaction_kind_to_string TX_ROLLBACK = str ''ROLLBACK''"

fun query_to_string :: "Query \<Rightarrow> bytes" where
  "query_to_string (Select q) = select_to_string q"
| "query_to_string (Insert q) = insert_to_string q"
| "query_to_string (Update q) = update_to_string q"
| "query_to_string (Delete q) = delete_to_string q"
| "query_to_string (CreateTable q) =
     str ''CREATE TABLE '' @ qualified_name (ct_database q) (ct_table q) @ str '' ('' @
     join_comma (map column_to_string (ct_columns q)) @ str '')''"
| "query_to_string (DropTable q) = str ''DROP TABLE '' @ qualified_name (dt_database q) (dt_table q)"
| "query_to_string (CreateDatabase d) = str ''CREATE DATABASE '' @ display_name d"
| "query_to_string (DropDatabase d) = str ''DROP DATABASE '' @ display_name d"
| "query_to_string (UseDatabase d) = str ''USE '' @ display_name d"
| "query_to_string (Transaction k) = transaction_kind_to_string k"

section \<open>Rewriting a statement\<close>

fun query_where :: "Query \<Rightarrow> Condition option" where
  "query_where (Select q) = sq_where q"
| "query_where (Update q) = uq_where q"
| "query_where (Delete q) = dq_where q"
| "query_where _ = None"

definition rewrite_query :: "Query \<Rightarrow> ptr_error + Query" where
  "rewrite_query q =
     (case q of
        Select s \<Rightarrow> map_sum id (\<lambda>w. Select (s\<lparr>sq_where := w\<rparr>)) (rewrite_condition_tree (sq_where s))
      | Update u \<Rightarrow> map_sum id (\<lambda>w. Update (u\<lparr>uq_where := w\<rparr>)) (rewrite_condition_tree (uq_where u))
      | Delete d \<Rightarrow> map_sum id (\<lambda>w. Delete (d\<lparr>dq_where := w\<rparr>)) (rewrite_condition_tree (dq_where d))
      | _ \<Rightarrow> Inr q)"

end
