(* ===== verification/Cost.thy ===== *)
theory Cost imports Complex_Main Identifier begin

text \<open>
  The cost model (\<^verbatim>\<open>planner/cost.h\<close>). A \<^verbatim>\<open>double\<close> is a rational number; the rounding of \<^verbatim>\<open>double\<close>, which
  sets in above $2^{53}$ rows, is not modelled. \<^verbatim>\<open>std::log2\<close> is an argument.
\<close>

record Cost =
  cost_startup :: rat
  cost_total :: rat

record RelationStats =
  rs_rows :: int64
  rs_rows_known :: bool

definition no_stats :: RelationStats where
  "no_stats = \<lparr> rs_rows = 0, rs_rows_known = False \<rparr>"

type_synonym StatsProvider = "Identifier \<Rightarrow> Identifier \<Rightarrow> RelationStats"

record CostConstants =
  cc_seek :: rat
  cc_seq_row :: rat
  cc_point_row :: rat
  cc_filter_row :: rat
  cc_sort_row :: rat
  cc_output_row :: rat

definition cost_constants :: CostConstants where
  "cost_constants = \<lparr> cc_seek = 10, cc_seq_row = 1, cc_point_row = 1, cc_filter_row = 1, cc_sort_row = 1,
     cc_output_row = 1 / 2 \<rparr>"

definition full_scan_cost :: "CostConstants \<Rightarrow> RelationStats \<Rightarrow> Cost" where
  "full_scan_cost c stats = \<lparr> cost_startup = 0, cost_total = of_int (sint (rs_rows stats)) * cc_seq_row c \<rparr>"

definition point_lookups_cost :: "CostConstants \<Rightarrow> int \<Rightarrow> Cost" where
  "point_lookups_cost c points =
     (let k = of_int points in \<lparr> cost_startup = k * cc_seek c, cost_total = k * (cc_seek c + cc_point_row c) \<rparr>)"

definition index_scan_cost :: "CostConstants \<Rightarrow> rat \<Rightarrow> Cost" where
  "index_scan_cost c estimated_rows =
     \<lparr> cost_startup = cc_seek c, cost_total = cc_seek c + estimated_rows * cc_seq_row c \<rparr>"

definition filter_cost :: "CostConstants \<Rightarrow> Cost \<Rightarrow> rat \<Rightarrow> rat \<Rightarrow> Cost" where
  "filter_cost c child rows_in selectivity =
     \<lparr> cost_startup = cost_startup child, cost_total = cost_total child + rows_in * cc_filter_row c * selectivity \<rparr>"

definition sort_cost :: "CostConstants \<Rightarrow> (rat \<Rightarrow> rat) \<Rightarrow> Cost \<Rightarrow> rat \<Rightarrow> Cost" where
  "sort_cost c log2 child rows =
     (let comparisons = (if rows > 1 then rows * log2 rows else rows);
          sorted = cost_total child + comparisons * cc_sort_row c
      in \<lparr> cost_startup = sorted, cost_total = sorted + rows * cc_output_row c \<rparr>)"

definition top_n_cost :: "CostConstants \<Rightarrow> (rat \<Rightarrow> rat) \<Rightarrow> Cost \<Rightarrow> rat \<Rightarrow> rat \<Rightarrow> Cost" where
  "top_n_cost c log2 child rows keep =
     (let comparisons = (if keep > 0 then rows * log2 (keep + 1) else 0)
      in \<lparr> cost_startup = cost_total child + comparisons * cc_sort_row c,
           cost_total = cost_total child + comparisons * cc_sort_row c + keep * cc_output_row c \<rparr>)"

definition limit_cost :: "CostConstants \<Rightarrow> Cost \<Rightarrow> rat \<Rightarrow> Cost" where
  "limit_cost c child rows_out =
     \<lparr> cost_startup = cost_startup child, cost_total = cost_startup child + rows_out * cc_output_row c \<rparr>"

definition project_cost :: "CostConstants \<Rightarrow> Cost \<Rightarrow> rat \<Rightarrow> Cost" where
  "project_cost c child rows =
     \<lparr> cost_startup = cost_startup child, cost_total = cost_total child + rows * cc_output_row c \<rparr>"

end
