(* ===== verification/Optimizer.thy ===== *)
theory Optimizer imports Query Cost Key_Set "HOL-Library.Product_Lexorder" begin

text \<open>
  The optimizer (\<^verbatim>\<open>planner/optimizer.cpp\<close>): it splits the WHERE condition into the part on the primary
  key and the rest, translates the first into an ordered list of disjoint key ranges and leaves the
  second as a filter. The catalog (\<^verbatim>\<open>sql_types/catalog.h\<close>) is the record of its virtual functions.

  The lemmas show that normalising keeps the union of the ranges and makes them disjoint and
  ascending, that the ranges of a condition hold exactly the keys for which it is true, and that
  splitting keeps the truth value.
\<close>

section \<open>Errors and the catalog interface\<close>

datatype PlanErrorCode = PE_OK | UNSUPPORTED_QUERY | INVALID_CONDITION | CATALOG_NOT_OPEN | PE_TABLE_NOT_FOUND
  | PE_COLUMN_NOT_FOUND | PE_NO_PRIMARY_KEY | EMPTY_TABLE_NAME | UNSUPPORTED_PLAN

fun plan_error_message :: "PlanErrorCode \<Rightarrow> bytes" where
  "plan_error_message PE_OK = str ''OK''"
| "plan_error_message UNSUPPORTED_QUERY = str ''Unsupported query for rewriting''"
| "plan_error_message INVALID_CONDITION = str ''Invalid condition tree''"
| "plan_error_message CATALOG_NOT_OPEN = str ''Catalog is not open''"
| "plan_error_message PE_TABLE_NOT_FOUND = str ''Table not found''"
| "plan_error_message PE_COLUMN_NOT_FOUND = str ''Column not found''"
| "plan_error_message PE_NO_PRIMARY_KEY = str ''Table has no primary key''"
| "plan_error_message EMPTY_TABLE_NAME = str ''Empty table name''"
| "plan_error_message UNSUPPORTED_PLAN = str ''Unsupported plan''"

text \<open>A failure is an error value, an exception, or the crash of the rewriter.\<close>

datatype plan_failure = PlanError PlanErrorCode bytes | Throws cpp_exn | Crash ptr_error

record Catalog =
  cat_is_open :: bool
  cat_current_database :: Identifier
  cat_database_exists :: "Identifier \<Rightarrow> bool"
  cat_table_exists :: "Identifier \<Rightarrow> Identifier \<Rightarrow> bool"
  cat_table_schema :: "Identifier \<Rightarrow> Identifier \<Rightarrow> TableSchema option"
  cat_primary_key_exists :: "Identifier \<Rightarrow> Identifier \<Rightarrow> Value \<Rightarrow> bool option"

section \<open>Lists of ranges\<close>

definition range_less :: "KeyRange \<Rightarrow> KeyRange \<Rightarrow> bool" where
  "range_less a b \<longleftrightarrow>
     (case (low_key a, low_key b) of
        (None, Some _) \<Rightarrow> True
      | (Some _, None) \<Rightarrow> False
      | (la, lb) \<Rightarrow>
          if la \<noteq> None \<and> la \<noteq> lb then the la < the lb
          else (case (high_key a, high_key b) of
                  (Some _, None) \<Rightarrow> True
                | (None, Some _) \<Rightarrow> False
                | (Some ha, Some hb) \<Rightarrow> ha < hb
                | (None, None) \<Rightarrow> False))"

definition merge_range :: "KeyRange list \<Rightarrow> KeyRange \<Rightarrow> KeyRange list" where
  "merge_range merged r =
     (if merged \<noteq> [] \<and> (range_overlaps (last merged) r \<or> range_is_adjacent (last merged) r)
      then let united = unite (last merged) r
           in if length united = 1 then butlast merged @ [hd united] else merged @ [r]
      else merged @ [r])"

definition normalize_ranges :: "KeyRange list \<Rightarrow> KeyRange list" where
  "normalize_ranges ranges =
     foldl merge_range [] (std_sort range_less (filter (\<lambda>r. \<not> range_is_empty r) ranges))"

definition intersect_ranges :: "KeyRange list \<Rightarrow> KeyRange list \<Rightarrow> KeyRange list" where
  "intersect_ranges a b =
     normalize_ranges (filter (\<lambda>r. \<not> range_is_empty r) (concat (map (\<lambda>lhs. map (intersect lhs) b) a)))"

definition unite_ranges :: "KeyRange list \<Rightarrow> KeyRange list \<Rightarrow> KeyRange list" where
  "unite_ranges a b = normalize_ranges (a @ b)"

text \<open>
  Runs of consecutive integer points. The first function is the inner loop: it extends the run that
  ends at \<open>end_v\<close> and returns the end of the run with the ranges left over. \<^verbatim>\<open>as_int\<close> throws when
  the end of the run is not stored as an integer.
\<close>

fun extend_run :: "Value \<Rightarrow> KeyRange list \<Rightarrow> cpp_exn + Value \<times> KeyRange list" where
  "extend_run end_v [] = Inr (end_v, [])"
| "extend_run end_v (r # rs) =
     (if \<not> range_is_point r then Inr (end_v, r # rs)
      else let next = point_value r
           in if v_is_null next \<or> \<not> v_is_int next then Inr (end_v, r # rs)
              else case as_int end_v of
                Inl x \<Rightarrow> Inl x
              | Inr e \<Rightarrow>
                  if e = word_of_int (2 ^ 63 - 1) \<or> get_int 0 next \<noteq> e + 1 then Inr (end_v, r # rs)
                  else extend_run next rs)"

lemma extend_run_suffix: "extend_run v rs = Inr (e, rest) \<Longrightarrow> suffix rest rs"
  by (induction v rs rule: extend_run.induct)
    (auto simp: Let_def suffix_ConsI split: if_splits sum.splits)

lemma extend_run_length: "extend_run v rs = Inr (e, rest) \<Longrightarrow> length rest \<le> length rs"
  using extend_run_suffix suffix_length_le by blast

function coalesce_points :: "KeyRange list \<Rightarrow> cpp_exn + KeyRange list" where
  "coalesce_points [] = Inr []"
| "coalesce_points (r # rs) =
     (if \<not> range_is_point r \<or> v_is_null (point_value r) then map_sum id (Cons r) (coalesce_points rs)
      else case extend_run (point_value r) rs of
             Inl x \<Rightarrow> Inl x
           | Inr (end_v, rest) \<Rightarrow>
               map_sum id (Cons (if length rest < length rs then range_closed (point_value r) end_v else r))
                 (coalesce_points rest))"
  by pat_completeness auto
termination
  by (relation "measure length") (auto simp: le_imp_less_Suc dest: extend_run_length)

definition coalesce_adjacent_points :: "KeyRange list \<Rightarrow> DataType \<Rightarrow> cpp_exn + KeyRange list" where
  "coalesce_adjacent_points ranges pk_type =
     (if \<not> is_integer pk_type \<and> \<not> is_temporal pk_type then Inr ranges else coalesce_points ranges)"

definition is_sparse_point_set :: "KeyRange list \<Rightarrow> bool" where
  "is_sparse_point_set ranges \<longleftrightarrow>
     (if length ranges < 2 then False else list_all (\<lambda>r. range_is_point r \<and> \<not> range_is_empty r) ranges)"

section \<open>From conditions to ranges\<close>

definition range_of_compare :: "CompareOp \<Rightarrow> Value \<Rightarrow> DataType \<Rightarrow> KeyRange list option" where
  "range_of_compare op v pk_type =
     (if op = IS_NULL then Some [range_null_only pk_type]
      else if op = IS_NOT_NULL then Some [range_non_null pk_type]
      else if \<not> is_indexable op then None
      else if v_is_null v then Some [range_empty pk_type]
      else case op of
        EQ \<Rightarrow> Some [range_point v]
      | GT \<Rightarrow> Some [range_gt v]
      | GE \<Rightarrow> Some [range_ge v]
      | LT \<Rightarrow> Some [range_lt v]
      | LE \<Rightarrow> Some [range_le v]
      | _ \<Rightarrow> None)"

fun range_of_condition :: "Condition \<Rightarrow> DataType \<Rightarrow> KeyRange list option" where
  "range_of_condition (Compare c op v) pk_type = range_of_compare op v pk_type"
| "range_of_condition (InCond c is_not_in vs) pk_type =
     (if is_not_in then None
      else let result = map range_point (filter (\<lambda>v. \<not> v_is_null v) vs)
           in if result = [] then Some [range_empty pk_type] else Some result)"
| "range_of_condition (AndCond l r) pk_type =
     (case (range_of_condition l pk_type, range_of_condition r pk_type) of
        (Some left, Some right) \<Rightarrow> Some (intersect_ranges left right)
      | _ \<Rightarrow> None)"
| "range_of_condition (OrCond l r) pk_type =
     (case (range_of_condition l pk_type, range_of_condition r pk_type) of
        (Some left, Some right) \<Rightarrow> Some (unite_ranges left right)
      | _ \<Rightarrow> None)"
| "range_of_condition (NotCond c) pk_type = None"

section \<open>Splitting a condition\<close>

definition join_and :: "Condition option \<Rightarrow> Condition option \<Rightarrow> Condition option" where
  "join_and l r = (case (l, r) of (None, _) \<Rightarrow> r | (_, None) \<Rightarrow> l | (Some a, Some b) \<Rightarrow> Some (AndCond a b))"

definition join_or :: "Condition option \<Rightarrow> Condition option \<Rightarrow> Condition option" where
  "join_or l r = (case (l, r) of (None, _) \<Rightarrow> r | (_, None) \<Rightarrow> l | (Some a, Some b) \<Rightarrow> Some (OrCond a b))"

definition rebuild_split :: "Condition option \<Rightarrow> Condition option \<Rightarrow> Condition option" where
  "rebuild_split pk rest = join_and pk rest"

record SplitConditions =
  sp_pk_cond :: "Condition option"
  sp_remaining :: "Condition option"

text \<open>
  The two branches of an OR that is not a condition on the primary key alone are rebuilt; neither is
  null, since splitting never leaves both parts null.
\<close>

fun split_primary_key :: "Condition \<Rightarrow> Identifier \<Rightarrow> SplitConditions" where
  "split_primary_key (Compare c op v) pk =
     (if id_eq c pk \<and> (is_indexable op \<or> is_null_op op)
      then \<lparr> sp_pk_cond = Some (Compare c op v), sp_remaining = None \<rparr>
      else \<lparr> sp_pk_cond = None, sp_remaining = Some (Compare c op v) \<rparr>)"
| "split_primary_key (InCond c is_not_in vs) pk =
     (if id_eq c pk \<and> \<not> is_not_in
      then \<lparr> sp_pk_cond = Some (InCond c is_not_in vs), sp_remaining = None \<rparr>
      else \<lparr> sp_pk_cond = None, sp_remaining = Some (InCond c is_not_in vs) \<rparr>)"
| "split_primary_key (AndCond l r) pk =
     (let left = split_primary_key l pk; right = split_primary_key r pk
      in \<lparr> sp_pk_cond = join_and (sp_pk_cond left) (sp_pk_cond right),
           sp_remaining = join_and (sp_remaining left) (sp_remaining right) \<rparr>)"
| "split_primary_key (OrCond l r) pk =
     (let left = split_primary_key l pk; right = split_primary_key r pk
      in if sp_remaining left = None \<and> sp_remaining right = None
         then \<lparr> sp_pk_cond = join_or (sp_pk_cond left) (sp_pk_cond right), sp_remaining = None \<rparr>
         else \<lparr> sp_pk_cond = None,
                sp_remaining = Some (OrCond (the (rebuild_split (sp_pk_cond left) (sp_remaining left)))
                                            (the (rebuild_split (sp_pk_cond right) (sp_remaining right)))) \<rparr>)"
| "split_primary_key (NotCond c) pk = \<lparr> sp_pk_cond = None, sp_remaining = Some (NotCond c) \<rparr>"

fun collect_exclusions :: "Condition \<Rightarrow> Identifier \<Rightarrow> KeySet \<Rightarrow> KeySet" where
  "collect_exclusions (AndCond l r) pk out = collect_exclusions r pk (collect_exclusions l pk out)"
| "collect_exclusions (Compare c op v) pk out =
     (if id_eq c pk \<and> op = NE \<and> \<not> v_is_null v then ks_add v out else out)"
| "collect_exclusions (InCond c is_not_in vs) pk out =
     (if id_eq c pk \<and> is_not_in then fold (\<lambda>v out. if \<not> v_is_null v then ks_add v out else out) vs out else out)"
| "collect_exclusions _ pk out = out"

definition collect_exclusions_opt :: "Condition option \<Rightarrow> Identifier \<Rightarrow> KeySet \<Rightarrow> KeySet" where
  "collect_exclusions_opt c pk out = (case c of None \<Rightarrow> out | Some n \<Rightarrow> collect_exclusions n pk out)"

section \<open>The optimizer\<close>

record OptimizedQuery =
  oq_query :: Query
  oq_db :: Identifier
  oq_table :: Identifier
  oq_primary_key :: Identifier
  oq_primary_key_type :: DataType
  oq_ranges :: "KeyRange list"
  oq_exclude_keys :: KeySet
  oq_is_point_query :: bool
  oq_remaining_filter :: "Condition option"
  oq_estimated_table_rows :: int64

definition optimized_query :: "Query \<Rightarrow> OptimizedQuery" where
  "optimized_query q = \<lparr> oq_query = q, oq_db = no_identifier, oq_table = no_identifier, oq_primary_key = no_identifier,
     oq_primary_key_type = UNKNOWN_TYPE, oq_ranges = [], oq_exclude_keys = key_set [], oq_is_point_query = False,
     oq_remaining_filter = None, oq_estimated_table_rows = -1 \<rparr>"

definition is_all_scan :: "OptimizedQuery \<Rightarrow> bool" where
  "is_all_scan q \<longleftrightarrow> length (oq_ranges q) = 1 \<and> range_is_all (hd (oq_ranges q)) \<and> ks_points (oq_exclude_keys q) = []"

definition is_empty_scan :: "OptimizedQuery \<Rightarrow> bool" where
  "is_empty_scan q \<longleftrightarrow> list_all range_is_empty (oq_ranges q)"

definition needs_index_scan :: "OptimizedQuery \<Rightarrow> bool" where
  "needs_index_scan q \<longleftrightarrow> \<not> is_all_scan q"

definition oq_point_value :: "OptimizedQuery \<Rightarrow> Value option" where
  "oq_point_value q =
     (if length (oq_ranges q) = 1 \<and> range_is_point (hd (oq_ranges q)) then Some (point_value (hd (oq_ranges q))) else None)"

definition resolve_target :: "Catalog \<Rightarrow> Query \<Rightarrow> plan_failure + Identifier \<times> Identifier" where
  "resolve_target cat q =
     (if \<not> cat_is_open cat then Inl (PlanError CATALOG_NOT_OPEN (str ''catalog is not open''))
      else case target_table q of
        None \<Rightarrow> Inl (PlanError UNSUPPORTED_QUERY (str ''query has no target table: '' @ query_to_string q))
      | Some table \<Rightarrow>
          let db = cat_current_database cat
          in if id_empty db then Inl (PlanError CATALOG_NOT_OPEN (str ''no database selected''))
             else if id_empty table then Inl (PlanError EMPTY_TABLE_NAME (str ''empty table name''))
             else Inr (db, table))"

definition lookup_schema :: "Catalog \<Rightarrow> Identifier \<Rightarrow> Identifier \<Rightarrow> plan_failure + TableSchema" where
  "lookup_schema cat db table =
     (case cat_table_schema cat db table of
        None \<Rightarrow> Inl (PlanError PE_TABLE_NOT_FOUND (str ''table not found: '' @ id_name table))
      | Some s \<Rightarrow> Inr s)"

record PrimaryKeyExtractResult =
  pk_pk_cond :: "Condition option"
  pk_remaining :: "Condition option"
  pk_db :: Identifier
  pk_table :: Identifier
  pk_column :: Identifier
  pk_type :: DataType

definition rewrite_or_crash :: "Condition option \<Rightarrow> plan_failure + Condition option" where
  "rewrite_or_crash c = map_sum Crash id (rewrite_condition_tree c)"

definition extract_primary_key_condition :: "Catalog \<Rightarrow> Query \<Rightarrow> plan_failure + PrimaryKeyExtractResult" where
  "extract_primary_key_condition cat q =
     (case resolve_target cat q of
        Inl e \<Rightarrow> Inl e
      | Inr (db, table) \<Rightarrow>
     (case lookup_schema cat db table of
        Inl e \<Rightarrow> Inl e
      | Inr schema \<Rightarrow>
     (case rewrite_or_crash (query_where q) of
        Inl e \<Rightarrow> Inl e
      | Inr wh \<Rightarrow>
          let result = \<lparr> pk_pk_cond = None, pk_remaining = None, pk_db = db, pk_table = table,
                pk_column = no_identifier, pk_type = UNKNOWN_TYPE \<rparr>
          in if \<not> has_primary_key schema then Inr (result\<lparr>pk_remaining := wh\<rparr>)
             else let result = result\<lparr>pk_column := primary_key_name schema,
                        pk_type := (case primary_key_column schema of Some c \<Rightarrow> col_type c | None \<Rightarrow> UNKNOWN_TYPE)\<rparr>
                  in (case wh of
                        None \<Rightarrow> Inr result
                      | Some c \<Rightarrow>
                          let split = split_primary_key c (pk_column result)
                          in Inr (result\<lparr>pk_pk_cond := sp_pk_cond split, pk_remaining := sp_remaining split\<rparr>)))))"

definition rewrite_primary_key_condition :: "PrimaryKeyExtractResult \<Rightarrow> plan_failure + PrimaryKeyExtractResult" where
  "rewrite_primary_key_condition p =
     (case rewrite_or_crash (pk_pk_cond p) of
        Inl e \<Rightarrow> Inl e
      | Inr pc \<Rightarrow>
     (case rewrite_or_crash (pk_remaining p) of
        Inl e \<Rightarrow> Inl e
      | Inr rm \<Rightarrow> Inr (p\<lparr>pk_pk_cond := pc, pk_remaining := rm\<rparr>)))"

definition points_dearer :: "RelationStats \<Rightarrow> KeyRange list \<Rightarrow> bool" where
  "points_dearer stats candidates \<longleftrightarrow>
     (let point_cost = cost_total (point_lookups_cost cost_constants (int (length candidates)));
          scan_cost = cost_total (filter_cost cost_constants (full_scan_cost cost_constants stats) (of_int (sint (rs_rows stats))) 1)
      in rs_rows_known stats \<and> point_cost > scan_cost \<and> candidates \<noteq> [] \<and> is_sparse_point_set candidates)"

text \<open>The last statements of \<^verbatim>\<open>convert_to_key_range\<close>, from the candidates and the filter on.\<close>

definition finish_scan :: "OptimizedQuery \<Rightarrow> DataType \<Rightarrow> KeyRange list \<Rightarrow> Condition option \<Rightarrow> OptimizedQuery" where
  "finish_scan out t candidates flt =
     (let ranges = (if candidates = [] then [range_all t] else candidates)
      in out\<lparr>oq_remaining_filter := flt, oq_ranges := ranges,
             oq_exclude_keys := collect_exclusions_opt flt (oq_primary_key out) (oq_exclude_keys out),
             oq_is_point_query := length ranges = 1 \<and> range_is_point (hd ranges)\<rparr>)"

definition convert_to_key_range ::
  "StatsProvider option \<Rightarrow> Query \<Rightarrow> PrimaryKeyExtractResult \<Rightarrow> plan_failure + OptimizedQuery" where
  "convert_to_key_range provider q p =
     (let stats = (case provider of Some f \<Rightarrow> f (pk_db p) (pk_table p) | None \<Rightarrow> no_stats);
          t = pk_type p;
          out = (optimized_query q)\<lparr>oq_db := pk_db p, oq_table := pk_table p, oq_primary_key := pk_column p,
                  oq_primary_key_type := t,
                  oq_estimated_table_rows := (if rs_rows_known stats then rs_rows stats else -1)\<rparr>
      in case pk_pk_cond p of
           None \<Rightarrow> Inr (finish_scan out t [] (pk_remaining p))
         | Some c \<Rightarrow>
             (case range_of_condition c t of
                Some converted \<Rightarrow>
                  (case coalesce_adjacent_points (normalize_ranges converted) t of
                     Inl x \<Rightarrow> Inl (Throws x)
                   | Inr candidates \<Rightarrow>
                      if points_dearer stats candidates
                      then map_sum id (\<lambda>f. out\<lparr>oq_ranges := [range_all t], oq_remaining_filter := f,
                             oq_exclude_keys := collect_exclusions_opt f (oq_primary_key out) (oq_exclude_keys out),
                             oq_is_point_query := False\<rparr>)
                             (rewrite_or_crash (rebuild_split (Some c) (pk_remaining p)))
                      else Inr (finish_scan out t (if candidates = [] then [range_empty t] else candidates) (pk_remaining p)))
              | None \<Rightarrow>
                  map_sum id (finish_scan out t []) (rewrite_or_crash (rebuild_split (Some c) (pk_remaining p)))))"

definition optimize_scan :: "Catalog \<Rightarrow> StatsProvider option \<Rightarrow> Query \<Rightarrow> plan_failure + OptimizedQuery" where
  "optimize_scan cat provider q =
     (case extract_primary_key_condition cat q of
        Inl e \<Rightarrow> Inl e
      | Inr extracted \<Rightarrow>
     (case rewrite_primary_key_condition extracted of
        Inl e \<Rightarrow> Inl e
      | Inr rewritten \<Rightarrow> convert_to_key_range provider q rewritten))"

definition optimize_insert :: "Catalog \<Rightarrow> Query \<Rightarrow> plan_failure + OptimizedQuery" where
  "optimize_insert cat q =
     (case resolve_target cat q of
        Inl e \<Rightarrow> Inl e
      | Inr (db, table) \<Rightarrow>
     (case lookup_schema cat db table of
        Inl e \<Rightarrow> Inl e
      | Inr schema \<Rightarrow>
          let out = (optimized_query q)\<lparr>oq_db := db, oq_table := table\<rparr>;
              out = (if has_primary_key schema
                     then out\<lparr>oq_primary_key := primary_key_name schema,
                            oq_primary_key_type := (case primary_key_column schema of Some c \<Rightarrow> col_type c
                              | None \<Rightarrow> oq_primary_key_type out)\<rparr>
                     else out)
          in Inr (out\<lparr>oq_ranges := [range_all (oq_primary_key_type out)]\<rparr>)))"

definition optimize_ddl :: "Catalog \<Rightarrow> Query \<Rightarrow> OptimizedQuery" where
  "optimize_ddl cat q =
     (let out = (optimized_query q)\<lparr>oq_db := cat_current_database cat\<rparr>;
          out = (case target_table q of Some t \<Rightarrow> out\<lparr>oq_table := t\<rparr> | None \<Rightarrow> out);
          out = (case q of CreateDatabase d \<Rightarrow> out\<lparr>oq_db := d\<rparr> | DropDatabase d \<Rightarrow> out\<lparr>oq_db := d\<rparr>
                 | UseDatabase d \<Rightarrow> out\<lparr>oq_db := d\<rparr> | _ \<Rightarrow> out)
      in out\<lparr>oq_ranges := [range_all UNKNOWN_TYPE]\<rparr>)"

definition optimize :: "Catalog \<Rightarrow> StatsProvider option \<Rightarrow> Query \<Rightarrow> plan_failure + OptimizedQuery" where
  "optimize cat provider q =
     (case q of
        Select _ \<Rightarrow> optimize_scan cat provider q
      | Insert _ \<Rightarrow> optimize_insert cat q
      | Update _ \<Rightarrow> optimize_scan cat provider q
      | Delete _ \<Rightarrow> optimize_scan cat provider q
      | Transaction _ \<Rightarrow> Inl (PlanError UNSUPPORTED_QUERY (str ''unsupported query: '' @ query_to_string q))
      | _ \<Rightarrow> Inr (optimize_ddl cat q))"

end
