(* ===== verification/Rewriter_Laws.thy ===== *)
theory Rewriter_Laws imports Rewriter begin

text \<open>
  What the rewriting pipeline of \<open>Rewriter\<close> keeps of the meaning of a condition, and what it loses.
\<close>

section \<open>Removing duplicates\<close>

lemma separableD:
  assumes "separable xs" "a \<in> set xs"
  shows "leaf_text_ok a" "b \<in> set xs \<Longrightarrow> a = b \<or> separate a b"
  using assms by (auto simp: separable_def list_all_iff)

lemma follower_simps [simp]: "follower []" "follower (0x29 # u)" "follower (0x20 # u)"
  by (simp_all add: follower_def)

lemma leaf_text_inj:
  assumes "separable xs" "leaves a = [a]" "a \<in> set xs" "set (leaves b) \<subseteq> set xs" "follower u" "follower v"
    "condition_to_string a @ u = condition_to_string b @ v"
  shows "a = b \<and> u = v"
proof (cases "leaves b = [b]")
  case True
  then have "a = b \<or> separate a b \<and> separate b a"
    using assms separableD(2)[OF assms(1), of a b] separableD(2)[OF assms(1), of b a] by auto
  then show ?thesis using separate_texts[of a b u v] assms by auto
next
  case False
  then show ?thesis using assms separableD(1)[OF assms(1), of a] leaf_text_start[of a u] by (cases b) auto
qed

lemma compound_text:
  "condition_to_string (AndCond l r) @ u = 0x28 # condition_to_string l @ (str '' AND '' @ condition_to_string r @ 0x29 # u)"
  "condition_to_string (OrCond l r) @ u = 0x28 # condition_to_string l @ (str '' OR '' @ condition_to_string r @ 0x29 # u)"
  "condition_to_string (NotCond c) @ u = str ''NOT ('' @ condition_to_string c @ 0x29 # u"
  by simp_all

lemma text_inj:
  assumes "separable xs" "set (leaves a) \<subseteq> set xs" "set (leaves b) \<subseteq> set xs" "follower u" "follower v"
    "condition_to_string a @ u = condition_to_string b @ v"
  shows "a = b \<and> u = v"
  using assms(2-)
proof (induction a arbitrary: b u v)
  case (Compare c op w)
  then show ?case using leaf_text_inj[OF assms(1), of "Compare c op w" b u v] by simp
next
  case (InCond c n vs)
  then show ?case using leaf_text_inj[OF assms(1), of "InCond c n vs" b u v] by simp
next
  case (AndCond l r)
  show ?case
  proof (cases "leaves b = [b]")
    case True
    then show ?thesis using leaf_text_inj[OF assms(1) True, of "AndCond l r" v u] AndCond.prems by auto
  next
    case False
    let ?u = "str '' AND '' @ condition_to_string r @ 0x29 # u"
    note eq = AndCond.prems(5)[unfolded compound_text(1)]
    obtain l' r' w where b: "b = AndCond l' r' \<and> w = str '' AND '' \<or> b = OrCond l' r' \<and> w = str '' OR ''"
      using False eq by (cases b) auto
    let ?v = "w @ condition_to_string r' @ 0x29 # v"
    have "condition_to_string l @ ?u = condition_to_string l' @ ?v" using eq b by auto
    then have l: "l = l' \<and> ?u = ?v" using AndCond.IH(1)[of l' ?u ?v] AndCond.prems b by auto
    then have "w = str '' AND ''" using b by auto
    then have "condition_to_string r @ 0x29 # u = condition_to_string r' @ 0x29 # v" using l by simp
    then have "r = r' \<and> u = v" using AndCond.IH(2)[of r' "0x29 # u" "0x29 # v"] AndCond.prems b by auto
    then show ?thesis using l b \<open>w = str '' AND ''\<close> by auto
  qed
next
  case (OrCond l r)
  show ?case
  proof (cases "leaves b = [b]")
    case True
    then show ?thesis using leaf_text_inj[OF assms(1) True, of "OrCond l r" v u] OrCond.prems by auto
  next
    case False
    let ?u = "str '' OR '' @ condition_to_string r @ 0x29 # u"
    note eq = OrCond.prems(5)[unfolded compound_text(2)]
    obtain l' r' w where b: "b = AndCond l' r' \<and> w = str '' AND '' \<or> b = OrCond l' r' \<and> w = str '' OR ''"
      using False eq by (cases b) auto
    let ?v = "w @ condition_to_string r' @ 0x29 # v"
    have "condition_to_string l @ ?u = condition_to_string l' @ ?v" using eq b by auto
    then have l: "l = l' \<and> ?u = ?v" using OrCond.IH(1)[of l' ?u ?v] OrCond.prems b by auto
    then have "w = str '' OR ''" using b by auto
    then have "condition_to_string r @ 0x29 # u = condition_to_string r' @ 0x29 # v" using l by simp
    then have "r = r' \<and> u = v" using OrCond.IH(2)[of r' "0x29 # u" "0x29 # v"] OrCond.prems b by auto
    then show ?thesis using l b \<open>w = str '' OR ''\<close> by auto
  qed
next
  case (NotCond c)
  show ?case
  proof (cases "leaves b = [b]")
    case True
    then show ?thesis using leaf_text_inj[OF assms(1) True, of "NotCond c" v u] NotCond.prems by auto
  next
    case False
    then obtain c' where b: "b = NotCond c'" using NotCond.prems by (cases b) auto
    then show ?thesis using NotCond.IH[of c' "0x29 # u" "0x29 # v"] NotCond.prems by auto
  qed
qed

lemma same_node_eq:
  assumes "separable xs" "set (leaves a) \<subseteq> set xs" "set (leaves b) \<subseteq> set xs"
  shows "same_node a b \<longleftrightarrow> a = b"
  using text_inj[OF assms, of "[]" "[]"] by (auto simp: same_node_def)

lemma keep_new_remdups:
  assumes "separable xs" "\<forall>c \<in> set (kept @ cs). set (leaves c) \<subseteq> set xs" "distinct kept"
  shows "set (keep_new kept cs) = set kept \<union> set cs \<and> distinct (keep_new kept cs)"
  using assms(2,3)
proof (induction cs arbitrary: kept)
  case (Cons c cs)
  have ex: "list_ex (\<lambda>k. same_node k c) kept \<longleftrightarrow> c \<in> set kept"
    using same_node_eq[OF assms(1)] Cons.prems by (auto simp: list_ex_iff)
  show ?case
    using Cons.IH[of "if c \<in> set kept then kept else kept @ [c]"] Cons.prems by (auto simp: ex)
qed simp

lemma leaves_joined: "t = CT_AND \<or> t = CT_OR \<Longrightarrow> set (leaves (foldl (join_two t) c cs)) = (\<Union>d \<in> set (c # cs). set (leaves d))"
  by (induction cs arbitrary: c) (auto simp: join_two_def)

lemma leaves_rebuild:
  "t = CT_AND \<or> t = CT_OR \<Longrightarrow> cs \<noteq> [] \<Longrightarrow> set (leaves (the (rebuild t cs))) = (\<Union>d \<in> set cs. set (leaves d))"
  by (cases cs) (simp_all add: rebuild_Cons leaves_joined)

lemma leaves_collect: "t = CT_AND \<or> t = CT_OR \<Longrightarrow> (\<Union>d \<in> set (collect_same_op c t). set (leaves d)) = set (leaves c)"
  by (induction c t rule: collect_same_op.induct) auto

lemma deduplicate_children:
  assumes "separable xs" "t = CT_AND \<or> t = CT_OR" "set (leaves c) \<subseteq> set xs"
    and IH: "\<And>d. d \<in> set (collect_same_op c t) \<Longrightarrow> set (leaves d) \<subseteq> set xs \<Longrightarrow>
      set (leaves (deduplicate_impl d)) = set (leaves d) \<and> (\<forall>lookup. evaluate lookup (deduplicate_impl d) = evaluate lookup d)"
  defines "ds \<equiv> keep_new [] (map deduplicate_impl (collect_same_op c t))"
  shows "set ds = deduplicate_impl ` set (collect_same_op c t)" "distinct ds" "ds \<noteq> []"
    "set (leaves (the (rebuild t ds))) = set (leaves c)"
    "evaluate lookup (the (rebuild t ds)) = evaluate lookup c"
proof -
  let ?cs = "collect_same_op c t"
  have ok: "d \<in> set ?cs \<Longrightarrow> set (leaves d) \<subseteq> set xs" for d using leaves_collect[OF assms(2), of c] assms(3) by auto
  note kn = keep_new_remdups[OF assms(1), of "[]" "map deduplicate_impl ?cs"]
  have lv: "\<forall>d \<in> set (map deduplicate_impl ?cs). set (leaves d) \<subseteq> set xs" using IH ok by auto
  show ds: "set ds = deduplicate_impl ` set ?cs" "distinct ds" using kn lv by (auto simp: ds_def)
  then show ne: "ds \<noteq> []" using collect_nonempty[OF assms(2), of c] by auto
  have "(\<Union>d \<in> set ds. set (leaves d)) = (\<Union>d \<in> set ?cs. set (leaves d))" using IH ok by (simp add: ds(1))
  then show "set (leaves (the (rebuild t ds))) = set (leaves c)"
    using leaves_rebuild[OF assms(2) ne] leaves_collect[OF assms(2), of c] by simp
  have "evaluate lookup ` set ds = evaluate lookup ` set ?cs"
    unfolding ds(1) image_image using IH ok by (intro image_cong) auto
  then show "evaluate lookup (the (rebuild t ds)) = evaluate lookup c"
    using rebuild_the[OF assms(2) ne, of lookup] collect_evaluate[OF assms(2), of lookup c] by simp
qed

lemma deduplicate_correct:
  assumes "separable xs" "set (leaves c) \<subseteq> set xs"
  shows "set (leaves (deduplicate_impl c)) = set (leaves c) \<and> (\<forall>lookup. evaluate lookup (deduplicate_impl c) = evaluate lookup c)"
  using assms(2)
proof (induction c rule: deduplicate_impl.induct)
  case (1 l r)
  have t: "CT_AND = CT_AND \<or> CT_AND = CT_OR" by simp
  show ?case using deduplicate_children(4,5)[OF assms(1) t "1.prems" "1.IH"] by (simp del: collect_same_op.simps leaves.simps evaluate_connectives)
next
  case (2 l r)
  have t: "CT_OR = CT_AND \<or> CT_OR = CT_OR" by simp
  show ?case using deduplicate_children(4,5)[OF assms(1) t "2.prems" "2.IH"] by (simp del: collect_same_op.simps leaves.simps evaluate_connectives)
qed simp_all

section \<open>Disjunctions of conjunctions\<close>

fun is_conj :: "Condition \<Rightarrow> bool" where
  "is_conj (AndCond l r) \<longleftrightarrow> is_conj l \<and> is_conj r"
| "is_conj (OrCond _ _) \<longleftrightarrow> False"
| "is_conj (NotCond _) \<longleftrightarrow> False"
| "is_conj _ \<longleftrightarrow> True"

fun is_dnf :: "Condition \<Rightarrow> bool" where
  "is_dnf (OrCond l r) \<longleftrightarrow> is_dnf l \<and> is_dnf r"
| "is_dnf c \<longleftrightarrow> is_conj c"

text \<open>The form that the first four passes bring such a tree into: both connectives lean to the left.\<close>

definition conj_nf :: "Condition \<Rightarrow> bool" where
  "conj_nf c \<longleftrightarrow> (\<exists>x xs. c = foldl (join_two CT_AND) x xs \<and> list_all is_leaf (x # xs))"

lemma is_leaf_collect: "is_leaf c \<Longrightarrow> t = CT_AND \<or> t = CT_OR \<Longrightarrow> collect_same_op c t = [c]"
  by (cases c) (auto simp: is_leaf_def)

lemma leaf_deduplicate: "is_leaf c \<Longrightarrow> deduplicate_impl c = c" "is_leaf c \<Longrightarrow> simplify_impl c = Inr (Some c)"
  by (cases c; simp add: is_leaf_def)+

lemma conj_collect: "is_conj c \<Longrightarrow> list_all is_leaf (collect_same_op c CT_AND)"
  by (induction c) (simp_all add: is_leaf_def)

lemma collect_joined:
  assumes "t = CT_AND \<or> t = CT_OR" "\<forall>d \<in> set (c # cs). ctype d \<noteq> t"
  shows "collect_same_op (foldl (join_two t) c cs) t = c # cs"
  using assms
proof (induction cs rule: rev_induct)
  case Nil
  then show ?case by (cases c) auto
next
  case (snoc d ds)
  then have "collect_same_op d t = [d]" by (cases d) auto
  then show ?case using snoc by (auto simp: join_two_def)
qed

lemma dnf_collect: "is_dnf c \<Longrightarrow> list_all is_conj (collect_same_op c CT_OR)"
  by (induction c) simp_all

lemma is_leaf_ctype: "is_leaf c \<Longrightarrow> ctype c \<noteq> CT_AND" "is_leaf c \<Longrightarrow> ctype c \<noteq> CT_OR"
  by (cases c; simp add: is_leaf_def)+

lemma conj_nf_ctype: "conj_nf c \<Longrightarrow> ctype c \<noteq> CT_OR"
proof -
  have "is_leaf x \<Longrightarrow> ctype (foldl (join_two CT_AND) x xs) \<noteq> CT_OR" for x xs
    by (cases xs rule: rev_cases) (auto simp: join_two_def is_leaf_ctype)
  then show "conj_nf c \<Longrightarrow> ctype c \<noteq> CT_OR" by (auto simp: conj_nf_def)
qed

lemma deduplicate_conj:
  assumes "separable xs" "set (leaves c) \<subseteq> set xs" "is_conj c"
  shows "conj_nf (deduplicate_impl c)"
proof (cases c)
  case (AndCond l r)
  let ?cs = "collect_same_op c CT_AND"
  note dc = deduplicate_correct[OF assms(1)]
  have l: "list_all is_leaf ?cs" using assms(3) by (rule conj_collect)
  then have id: "map deduplicate_impl ?cs = ?cs" by (induction ?cs) (auto simp: leaf_deduplicate list_all_iff intro!: map_idI)
  note ds = deduplicate_children(1,3)[OF assms(1) _ assms(2) dc, of CT_AND, simplified]
  obtain y ys where k: "keep_new [] (map deduplicate_impl ?cs) = y # ys" using ds(2) by (cases "keep_new [] (map deduplicate_impl ?cs)") auto
  then have "deduplicate_impl c = foldl (join_two CT_AND) y ys" using AndCond by (simp add: rebuild_Cons del: collect_same_op.simps)
  moreover have "list_all is_leaf (y # ys)" using ds(1) l id k by (metis list_all_iff set_map)
  ultimately show ?thesis by (auto simp: conj_nf_def)
qed (use assms(3) in \<open>auto simp: conj_nf_def is_leaf_def intro!: exI[of _ "[]"]\<close>)

lemma deduplicate_dnf:
  assumes "separable xs" "set (leaves c) \<subseteq> set xs" "is_dnf c"
  shows "\<exists>y ys. deduplicate_impl c = foldl (join_two CT_OR) y ys \<and> list_all conj_nf (y # ys) \<and> distinct (y # ys)"
proof (cases "ctype c = CT_OR")
  case True
  let ?cs = "collect_same_op c CT_OR"
  note dc = deduplicate_correct[OF assms(1)]
  have l: "set (leaves d) \<subseteq> set xs" if "d \<in> set ?cs" for d using that leaves_collect[of CT_OR c] assms(2) by auto
  have "list_all conj_nf (map deduplicate_impl ?cs)"
    using dnf_collect[OF assms(3)] deduplicate_conj[OF assms(1) l] by (auto simp: list_all_iff)
  note ds = deduplicate_children(1,2,3)[OF assms(1) _ assms(2) dc, of CT_OR, simplified]
  obtain y ys where k: "keep_new [] (map deduplicate_impl ?cs) = y # ys" using ds(3) by (cases "keep_new [] (map deduplicate_impl ?cs)") auto
  have "deduplicate_impl c = foldl (join_two CT_OR) y ys" using True k by (cases c) (simp_all add: rebuild_Cons del: collect_same_op.simps)
  then show ?thesis using ds k \<open>list_all conj_nf (map deduplicate_impl ?cs)\<close> by (metis list_all_iff set_map)
next
  case False
  then have "is_conj c" using assms(3) by (cases c) auto
  then show ?thesis using deduplicate_conj[OF assms(1,2)] by (intro exI[of _ "deduplicate_impl c"] exI[of _ "[]"]) auto
qed

section \<open>Absorption\<close>

lemma contains_conj:
  assumes "separable xs" "set (leaves c) \<subseteq> set xs" "set (leaves d) \<subseteq> set xs" "is_conj c" "tree_contains c d"
  shows "truth_rank (evaluate lookup c) \<le> truth_rank (evaluate lookup d) \<and> (c = d \<or> size d < size c)"
  using assms(2,4,5)
proof (induction c)
  case (AndCond l r)
  consider "AndCond l r = d" | "tree_contains l d" | "tree_contains r d"
    using AndCond.prems same_node_eq[OF assms(1) _ assms(3), of "AndCond l r"] by (auto split: if_splits)
  then show ?case using AndCond by cases (auto simp: truth_rank_ops)
qed (use same_node_eq[OF assms(1) _ assms(3)] in auto)

lemma conj_nf_is_conj: "conj_nf c \<Longrightarrow> is_conj c"
proof -
  have "list_all is_leaf (x # xs) \<Longrightarrow> is_conj (foldl (join_two CT_AND) x xs)" for x xs
    by (induction xs rule: rev_induct) (auto simp: join_two_def is_leaf_def split: Condition.splits)
  then show "conj_nf c \<Longrightarrow> is_conj c" by (auto simp: conj_nf_def)
qed

lemma deref_all_map:
  "\<forall>c \<in> set cs. f c = Inr (Some c) \<Longrightarrow> deref_all (map f cs) = Inr cs"
  by (induction cs) simp_all

lemma not_absorbed_all: "\<forall>c \<in> set cs. ctype c \<noteq> t \<Longrightarrow> not_absorbed t cs = cs"
proof -
  assume "\<forall>c \<in> set cs. ctype c \<noteq> t"
  then have "filter (\<lambda>i. \<not> absorbed t cs i) [0..<length cs] = [0..<length cs]"
    by (intro filter_True) (auto simp: absorbed_def)
  then show ?thesis by (simp add: not_absorbed_def map_nth)
qed

lemma simplify_conj_nf: "conj_nf c \<Longrightarrow> simplify_impl c = Inr (Some c)"
proof -
  assume "conj_nf c"
  then obtain x xs where c: "c = foldl (join_two CT_AND) x xs" and l: "list_all is_leaf (x # xs)" by (auto simp: conj_nf_def)
  show ?thesis
  proof (cases xs rule: rev_cases)
    case Nil
    then show ?thesis using c l by (simp add: leaf_deduplicate)
  next
    case (snoc ys y)
    then obtain a b where ab: "c = AndCond a b" using c by (auto simp: join_two_def)
    have ty: "\<forall>d \<in> set (x # xs). ctype d \<noteq> CT_AND \<and> ctype d \<noteq> CT_OR" using l by (simp add: list_all_iff is_leaf_ctype)
    have col: "collect_same_op c CT_AND = x # xs" using collect_joined[of CT_AND x xs] ty c by simp
    have "deref_all (map simplify_impl (x # xs)) = Inr (x # xs)"
      using l by (intro deref_all_map) (simp add: list_all_iff leaf_deduplicate)
    moreover have "simplify_and (x # xs) = Some c"
      using not_absorbed_all[of "x # xs" CT_OR] ty c by (simp add: simplify_and_def rebuild_Cons)
    ultimately show ?thesis using col ab by (simp del: collect_same_op.simps)
  qed
qed

lemma or_of_dominated:
  assumes "S \<subseteq> T" "\<forall>a \<in> T. \<exists>b \<in> S. truth_rank a \<le> truth_rank b"
  shows "or_of S = or_of T"
proof -
  have t: "T_TRUE \<in> S" if m: "T_TRUE \<in> T"
  proof -
    obtain b where "b \<in> S" "truth_rank T_TRUE \<le> truth_rank b" using assms(2) m by blast
    then show ?thesis by (cases b) auto
  qed
  have u: "T_TRUE \<in> S \<or> T_UNKNOWN \<in> S" if m: "T_UNKNOWN \<in> T"
  proof -
    obtain b where "b \<in> S" "truth_rank T_UNKNOWN \<le> truth_rank b" using assms(2) m by blast
    then show ?thesis by (cases b) auto
  qed
  show ?thesis using t u assms(1) by (auto simp: or_of_def)
qed

lemma absorption_correct:
  assumes "separable xs" "\<forall>c \<in> set cs. conj_nf c \<and> set (leaves c) \<subseteq> set xs" "distinct cs"
  shows "or_of (evaluate lookup ` set (not_absorbed CT_AND cs)) = or_of (evaluate lookup ` set cs)"
    "cs \<noteq> [] \<Longrightarrow> not_absorbed CT_AND cs \<noteq> []"
proof -
  let ?K = "set (not_absorbed CT_AND cs)"
  have sub: "?K \<subseteq> set cs" by (auto simp: not_absorbed_def)
  have dom: "\<exists>k \<in> ?K. truth_rank (evaluate lookup c) \<le> truth_rank (evaluate lookup k)" if "c \<in> set cs" for c
    using that
  proof (induction c rule: measure_induct_rule[of size])
    case (less c)
    then obtain i where i: "i < length cs" "c = cs ! i" by (auto simp: in_set_conv_nth)
    show ?case
    proof (cases "absorbed CT_AND cs i")
      case True
      then obtain j where j: "j < length cs" "i \<noteq> j" "tree_contains c (cs ! j)" using i by (auto simp: absorbed_def list_ex_iff)
      have n: "cs ! j \<in> set cs" "cs ! j \<noteq> c" using j i assms(3) by (auto simp: nth_eq_iff_index_eq)
      have "truth_rank (evaluate lookup c) \<le> truth_rank (evaluate lookup (cs ! j))" "size (cs ! j) < size c"
        using contains_conj[OF assms(1) _ _ _ j(3), of lookup] n less.prems assms(2) conj_nf_is_conj by auto
      then show ?thesis using less.IH[OF _ n(1)] order_trans by blast
    next
      case False
      then have "c \<in> ?K" using i by (auto simp: not_absorbed_def)
      then show ?thesis by blast
    qed
  qed
  show "or_of (evaluate lookup ` ?K) = or_of (evaluate lookup ` set cs)"
    using sub dom by (intro or_of_dominated) auto
  show "cs \<noteq> [] \<Longrightarrow> not_absorbed CT_AND cs \<noteq> []"
    using dom[of "hd cs"] by (cases cs) auto
qed

section \<open>Merging equalities\<close>

definition lookup_ok :: "ValueLookup \<Rightarrow> bool" where
  "lookup_ok lookup \<longleftrightarrow> (\<forall>a b. id_eq a b \<longrightarrow> lookup a = lookup b)"

definition live :: "Condition list \<Rightarrow> bool list \<Rightarrow> Condition set" where
  "live kept consumed = {kept ! i | i. i < length kept \<and> \<not> consumed ! i}"

lemma group_evaluate:
  assumes "lookup_ok lookup" "\<forall>k \<in> set g. is_eq_on column (kept ! k)" "g \<noteq> []"
  shows "evaluate lookup (InCond column False (map (\<lambda>k. compare_value (kept ! k)) g)) =
    or_of (evaluate lookup ` (!) kept ` set g)"
proof -
  have e: "evaluate lookup (kept ! k) =
      (case lookup column of None \<Rightarrow> T_UNKNOWN | Some x \<Rightarrow> sql_compare_op EQ x (compare_value (kept ! k)))"
    if "k \<in> set g" for k
  proof -
    have "is_eq_on column (kept ! k)" using assms(2) that by blast
    then show ?thesis using assms(1) by (cases "kept ! k") (auto simp: is_eq_on_def compare_value_def lookup_ok_def split: option.split)
  qed
  then have img: "evaluate lookup ` (!) kept ` set g =
      (\<lambda>k. case lookup column of None \<Rightarrow> T_UNKNOWN | Some x \<Rightarrow> sql_compare_op EQ x (compare_value (kept ! k))) ` set g"
    unfolding image_image by (intro image_cong) auto
  show ?thesis
  proof (cases "lookup column")
    case None
    then show ?thesis using assms(3) by (simp add: evaluate_in img image_constant_conv)
  next
    case (Some x)
    then show ?thesis unfolding img by (simp add: evaluate_in image_image)
  qed
qed

lemma consume_nth: "i < length cs \<Longrightarrow> foldl (\<lambda>cs k. cs[k := True]) cs g ! i \<longleftrightarrow> cs ! i \<or> i \<in> set g"
proof (induction g arbitrary: cs)
  case (Cons k g)
  then show ?case by (cases "i = k") simp_all
qed simp

lemma consume_length: "length (foldl (\<lambda>cs k. cs[k := True]) cs g) = length cs"
  by (induction g arbitrary: cs) simp_all

definition merge_inv :: "ValueLookup \<Rightarrow> Condition list \<Rightarrow> Condition list \<times> bool list \<Rightarrow> bool" where
  "merge_inv lookup kept = (\<lambda>(merged, consumed).
     length consumed = length kept \<and>
     or_of (evaluate lookup ` (set merged \<union> live kept consumed)) = or_of (evaluate lookup ` set kept))"

lemma merge_step_inv:
  assumes "lookup_ok lookup" "i < length kept" "merge_inv lookup kept st"
  shows "merge_inv lookup kept (merge_step kept i st)"
proof -
  obtain merged consumed where st: "st = (merged, consumed)" by force
  note inv = assms(3)[unfolded st merge_inv_def, simplified]
  show ?thesis
  proof (cases "\<exists>column v. \<not> consumed ! i \<and> kept ! i = Compare column EQ v \<and> length (eq_group kept consumed i column) \<noteq> 1")
    case True
    then obtain column v where c: "\<not> consumed ! i" "kept ! i = Compare column EQ v"
        "length (eq_group kept consumed i column) \<noteq> 1" by blast
    let ?g = "eq_group kept consumed i column"
    let ?cs = "foldl (\<lambda>cs k. cs[k := True]) consumed ?g"
    have g: "\<forall>k \<in> set ?g. is_eq_on column (kept ! k)" "?g \<noteq> []" "\<forall>k \<in> set ?g. k < length kept \<and> \<not> consumed ! k"
      using c assms(2) by (auto simp: eq_group_def is_eq_on_def)
    have "live kept consumed = live kept ?cs \<union> (!) kept ` set ?g"
      using g(3) inv by (auto simp: live_def consume_nth)
    then have "or_of (evaluate lookup ` (set merged \<union> live kept consumed)) =
        or_of (evaluate lookup ` (insert (InCond column False (map (\<lambda>k. compare_value (kept ! k)) ?g)) (set merged \<union> live kept ?cs)))"
      by (simp add: image_Un group_evaluate[OF assms(1) g(1,2)] truth_ac)
    then show ?thesis using c inv unfolding st by (simp add: merge_step_def merge_inv_def consume_length Let_def)
  next
    case False
    then have "merge_step kept i st = st" unfolding st by (auto simp: merge_step_def Let_def split: Condition.splits)
    then show ?thesis using assms(3) by simp
  qed
qed

lemma merge_fold_inv:
  assumes "lookup_ok lookup" "\<forall>i \<in> set is. i < length kept" "merge_inv lookup kept st"
  shows "merge_inv lookup kept (fold (merge_step kept) is st)"
  using assms(2,3)
proof (induction "is" arbitrary: st)
  case (Cons i "is")
  then show ?case using merge_step_inv[OF assms(1), of i kept st] by simp
qed simp

lemma merge_equalities_correct:
  assumes "lookup_ok lookup"
  shows "or_of (evaluate lookup ` set (merge_equalities kept)) = or_of (evaluate lookup ` set kept)"
proof -
  have "merge_inv lookup kept ([], replicate (length kept) False)"
    by (auto simp: merge_inv_def live_def set_conv_nth intro!: arg_cong[of _ _ "\<lambda>S. or_of (evaluate lookup ` S)"])
  then have inv: "merge_inv lookup kept (fold (merge_step kept) [0..<length kept] ([], replicate (length kept) False))"
    by (intro merge_fold_inv[OF assms]) auto
  obtain merged consumed where f: "fold (merge_step kept) [0..<length kept] ([], replicate (length kept) False) = (merged, consumed)"
    by force
  have "set (merge_equalities kept) = set merged \<union> live kept consumed"
    by (auto simp: merge_equalities_def f live_def)
  then show ?thesis using inv by (simp add: f merge_inv_def)
qed

section \<open>The pipeline\<close>

lemma flatten_leaves: "set (leaves (flatten_impl c)) = set (leaves c)"
proof (induction c rule: flatten_impl.induct)
  case (1 l r)
  then show ?case
    using leaves_collect[of CT_AND "AndCond l r"] leaves_rebuild[of CT_AND "map flatten_impl (collect_same_op (AndCond l r) CT_AND)"]
    by (simp del: collect_same_op.simps leaves.simps)
next
  case (2 l r)
  then show ?case
    using leaves_collect[of CT_OR "OrCond l r"] leaves_rebuild[of CT_OR "map flatten_impl (collect_same_op (OrCond l r) CT_OR)"]
    by (simp del: collect_same_op.simps leaves.simps)
qed simp_all

lemma conj_joined: "is_conj (foldl (join_two CT_AND) c cs) \<longleftrightarrow> list_all is_conj (c # cs)"
  by (induction cs arbitrary: c) (auto simp: join_two_def)

lemma dnf_joined: "is_dnf (foldl (join_two CT_OR) c cs) \<longleftrightarrow> list_all is_dnf (c # cs)"
  by (induction cs arbitrary: c) (auto simp: join_two_def)

lemma leaf_flatten: "is_leaf c \<Longrightarrow> flatten_impl c = c" by (cases c) (simp_all add: is_leaf_def)

lemma flatten_conj: "is_conj c \<Longrightarrow> is_conj (flatten_impl c)"
proof (cases c)
  case (AndCond l r)
  assume "is_conj c"
  then have l: "list_all is_leaf (collect_same_op c CT_AND)" by (rule conj_collect)
  then have m: "map flatten_impl (collect_same_op c CT_AND) = collect_same_op c CT_AND"
    by (intro map_idI) (auto simp: leaf_flatten list_all_iff)
  obtain y ys where k: "collect_same_op c CT_AND = y # ys" using collect_nonempty[of CT_AND c] by (cases "collect_same_op c CT_AND") auto
  have "flatten_impl c = foldl (join_two CT_AND) y ys" using AndCond m k by (simp add: rebuild_Cons del: collect_same_op.simps)
  moreover have "list_all is_conj (y # ys)" using l k by (auto simp: list_all_iff is_leaf_def split: Condition.splits)
  ultimately show ?thesis by (simp add: conj_joined)
qed auto

lemma conj_is_dnf: "is_conj c \<Longrightarrow> is_dnf c" by (cases c) auto

lemma flatten_dnf: "is_dnf c \<Longrightarrow> is_dnf (flatten_impl c)"
proof (cases "ctype c = CT_OR")
  case True
  assume "is_dnf c"
  then have l: "list_all is_dnf (map flatten_impl (collect_same_op c CT_OR))"
    using dnf_collect[of c] flatten_conj conj_is_dnf by (auto simp: list_all_iff)
  obtain y ys where k: "map flatten_impl (collect_same_op c CT_OR) = y # ys"
    using collect_nonempty[of CT_OR c] by (cases "collect_same_op c CT_OR") auto
  then have "flatten_impl c = foldl (join_two CT_OR) y ys"
    using True by (cases c) (simp_all add: rebuild_Cons del: collect_same_op.simps)
  then show ?thesis using l k by (simp add: dnf_joined)
next
  case False
  assume "is_dnf c"
  then have "is_conj c" using False by (cases c) auto
  then show ?thesis by (rule conj_is_dnf[OF flatten_conj])
qed

lemma fold_constants_shape:
  "is_conj c \<Longrightarrow> is_conj (fold_constants_impl c)" "is_dnf c \<Longrightarrow> is_dnf (fold_constants_impl c)"
proof -
  show c: "is_conj c \<Longrightarrow> is_conj (fold_constants_impl c)" for c by (induction c) (auto simp: Let_def)
  show "is_dnf c \<Longrightarrow> is_dnf (fold_constants_impl c)"
    by (induction c) (use c in \<open>auto simp: Let_def\<close>)
qed

lemma fold_constants_leaves: "leaves (fold_constants_impl c) = concat (map (leaves \<circ> fold_constants_impl) (leaves c))"
  by (induction c) simp_all

lemma evaluate_None: "evaluate (\<lambda>_. None) c = T_UNKNOWN"
  by (induction c) (simp_all add: evaluate_in)

lemma simplify_dnf_nf:
  assumes "separable xs" "list_all conj_nf (y # ys)" "distinct (y # ys)" "\<forall>c \<in> set (y # ys). set (leaves c) \<subseteq> set xs" "lookup_ok lookup"
  shows "\<exists>c'. simplify_impl (foldl (join_two CT_OR) y ys) = Inr (Some c') \<and>
    evaluate lookup c' = evaluate lookup (foldl (join_two CT_OR) y ys)"
proof (cases ys rule: rev_cases)
  case Nil
  then show ?thesis using assms(2) by (simp add: simplify_conj_nf)
next
  case (snoc zs z)
  let ?c = "foldl (join_two CT_OR) y ys" and ?k = "merge_equalities (not_absorbed CT_AND (y # ys))"
  have col: "collect_same_op ?c CT_OR = y # ys"
    using assms(2) conj_nf_ctype by (intro collect_joined) (auto simp: list_all_iff)
  have "deref_all (map simplify_impl (y # ys)) = Inr (y # ys)"
    using assms(2) simplify_conj_nf by (intro deref_all_map) (simp add: list_all_iff)
  moreover obtain a b where "?c = OrCond a b" using snoc by (auto simp: join_two_def)
  ultimately have s: "simplify_impl ?c = Inr (rebuild CT_OR ?k)"
    using col by (simp add: simplify_or_def del: collect_same_op.simps)
  have ev: "or_of (evaluate lk ` set ?k) = or_of (evaluate lk ` set (y # ys))" if "lookup_ok lk" for lk
    using merge_equalities_correct[OF that] absorption_correct(1)[OF assms(1) _ assms(3)] assms(2,4) by (auto simp: list_all_iff)
  have "lookup_ok (\<lambda>_. None)" by (simp add: lookup_ok_def)
  have "or_of (evaluate (\<lambda>_. None) ` set ?k) = T_UNKNOWN"
    unfolding ev[OF \<open>lookup_ok (\<lambda>_. None)\<close>] by (simp add: evaluate_None image_constant_conv)
  then have "?k \<noteq> []" by auto
  then obtain c' where "rebuild CT_OR ?k = Some c'" "evaluate lookup c' = or_of (evaluate lookup ` set ?k)"
    using evaluate_rebuild[of CT_OR ?k] by (auto simp: list_of_def)
  then show ?thesis using s ev[OF assms(5)] evaluate_joined[of CT_OR lookup y ys] by (simp add: list_of_def)
qed

abbreviation col_is :: "string \<Rightarrow> Value \<Rightarrow> Condition" where
  "col_is n v \<equiv> Compare (make_identifier (str n)) EQ v"

definition row_abc :: ValueLookup where
  "row_abc column =
     (if id_normalized column = str ''a'' then Some (IntV K_BIGINT 1)
      else if id_normalized column = str ''b'' then Some (IntV K_BIGINT 5)
      else if id_normalized column = str ''c'' then Some (IntV K_BIGINT 5)
      else if id_normalized column = str ''d'' then Some (StrV K_VARCHAR (str ''NULL''))
      else None)"

definition cond_a :: Condition where "cond_a = col_is ''a'' (IntV K_BIGINT 1)"
definition cond_b :: Condition where "cond_b = col_is ''b'' (IntV K_BIGINT 2)"
definition cond_c :: Condition where "cond_c = col_is ''c'' (IntV K_BIGINT 3)"

section \<open>Properties\<close>

text \<open>
  C23: rewriting keeps the meaning of a condition. Each of the first three passes keeps the three-valued truth value of every tree for
  every row: pushing negations down (under a negation it gives the negated truth value), flattening, and folding of constants. The whole
  pipeline, with the removal of duplicates and the simplification (absorption, merging of equalities into IN), returns a condition of
  the same truth value for every row when the tree is, after pushing negations down, a disjunction of conjunctions of predicates whose
  texts tell them apart; for the last two passes nothing is shown of other trees.
\<close>

theorem rewrite_sound:
  "evaluate lookup (pushdown_not_impl c negated) = (if negated then truth_not else id) (evaluate lookup c) \<and>
   evaluate lookup (flatten_impl c) = evaluate lookup c \<and>
   evaluate lookup (fold_constants_impl c) = evaluate lookup c \<and>
   (is_dnf (pushdown_not_impl c False) \<and> separable (leaves (fold_constants_impl (pushdown_not_impl c False))) \<longrightarrow>
     (\<exists>c'. rewrite_condition_tree (Some c) = Inr (Some c') \<and>
        (\<forall>lookup. lookup_ok lookup \<longrightarrow> evaluate lookup c' = evaluate lookup c)))"
proof (intro conjI impI)
  let ?f = "fold_constants_impl (flatten_impl (pushdown_not_impl c False))"
  let ?xs = "leaves (fold_constants_impl (pushdown_not_impl c False))"
  have ev: "evaluate lookup ?f = evaluate lookup c" for lookup
    by (simp add: fold_constants_evaluate flatten_evaluate pushdown_evaluate)
  show "evaluate lookup (pushdown_not_impl c negated) = (if negated then truth_not else id) (evaluate lookup c)"
    "evaluate lookup (flatten_impl c) = evaluate lookup c" "evaluate lookup (fold_constants_impl c) = evaluate lookup c"
    by (rule pushdown_evaluate flatten_evaluate fold_constants_evaluate)+
  assume "is_dnf (pushdown_not_impl c False) \<and> separable ?xs"
  then have d: "is_dnf ?f" and s: "separable ?xs" by (simp_all add: fold_constants_shape(2) flatten_dnf)
  have l: "set (leaves ?f) \<subseteq> set ?xs"
    unfolding fold_constants_leaves[of "flatten_impl (pushdown_not_impl c False)"]
      fold_constants_leaves[of "pushdown_not_impl c False"] by (simp add: flatten_leaves)
  obtain y ys where y: "deduplicate_impl ?f = foldl (join_two CT_OR) y ys" "list_all conj_nf (y # ys)" "distinct (y # ys)"
    using deduplicate_dnf[OF s l d] by blast
  note dd = deduplicate_correct[OF s l]
  have lv: "\<forall>c \<in> set (y # ys). set (leaves c) \<subseteq> set ?xs"
    using dd l y(1) leaves_joined[of CT_OR y ys] by auto
  have "\<exists>c'. simplify_impl (deduplicate_impl ?f) = Inr (Some c') \<and> evaluate lookup c' = evaluate lookup c" if "lookup_ok lookup" for lookup
    using simplify_dnf_nf[OF s y(2,3) lv that] dd ev y(1) by auto
  note ex = this
  obtain c' where c': "simplify_impl (deduplicate_impl ?f) = Inr (Some c')"
    using ex[of "\<lambda>_. None"] by (auto simp: lookup_ok_def)
  then have "\<forall>lookup. lookup_ok lookup \<longrightarrow> evaluate lookup c' = evaluate lookup c" using ex by auto
  then show "\<exists>c'. rewrite_condition_tree (Some c) = Inr (Some c') \<and>
      (\<forall>lookup. lookup_ok lookup \<longrightarrow> evaluate lookup c' = evaluate lookup c)"
    using c' by (auto simp: rewrite_condition_tree_def)
qed

theorem rewrite_sound_witness:
  "\<exists>c'. rewrite_condition_tree (Some (OrCond cond_a (OrCond (AndCond cond_b cond_a) (col_is ''a'' (IntV K_BIGINT 3))))) = Inr (Some c') \<and>
     evaluate row_abc c' = T_TRUE"
proof -
  let ?c = "OrCond cond_a (OrCond (AndCond cond_b cond_a) (col_is ''a'' (IntV K_BIGINT 3)))"
  have "is_dnf (pushdown_not_impl ?c False)" "separable (leaves (fold_constants_impl (pushdown_not_impl ?c False)))"
    "evaluate row_abc ?c = T_TRUE" by code_simp+
  moreover have "lookup_ok row_abc" by (simp add: lookup_ok_def row_abc_def id_eq_def)
  ultimately show ?thesis using rewrite_sound[of row_abc ?c False, THEN conjunct2, THEN conjunct2, THEN conjunct2] by metis
qed

text \<open>
  The absorption step loses conditions. It drops an operand of a connective when another operand
  occurs anywhere inside it, not only as a direct operand, so that \<^verbatim>\<open>a = 1 AND ((a = 1 AND b = 2) OR c = 3)\<close>
  becomes \<^verbatim>\<open>a = 1\<close>, which keeps a row that the original rejects. Two operands that become equal during
  the simplification absorb each other, so that \<^verbatim>\<open>(a = 1 OR (a = 1 AND b = 2) OR c = 3) AND (a = 1 OR c = 3)\<close>
  becomes no condition at all; and below another connective the null pointer is dereferenced. Removing
  duplicates compares texts, and the text of the string \<^verbatim>\<open>'NULL'\<close> is that of NULL: of
  \<^verbatim>\<open>d = NULL OR d = 'NULL'\<close> only the part that is never true is left.
\<close>

theorem rewrite_loses_conditions:
  "rewrite_condition_tree (Some (AndCond cond_a (OrCond (AndCond cond_a cond_b) cond_c))) = Inr (Some cond_a) \<and>
   evaluate row_abc (AndCond cond_a (OrCond (AndCond cond_a cond_b) cond_c)) = T_FALSE \<and>
   evaluate row_abc cond_a = T_TRUE \<and>
   rewrite_condition_tree
     (Some (AndCond (OrCond (OrCond cond_a (AndCond cond_a cond_b)) cond_c) (OrCond cond_a cond_c))) = Inr None \<and>
   rewrite_condition_tree
     (Some (OrCond cond_b (AndCond (OrCond (OrCond cond_a (AndCond cond_a cond_b)) cond_c) (OrCond cond_a cond_c)))) =
     Inl Null_Dereference \<and>
   rewrite_condition_tree (Some (OrCond (col_is ''d'' NullV) (col_is ''d'' (StrV K_VARCHAR (str ''NULL''))))) =
     Inr (Some (col_is ''d'' NullV)) \<and>
   evaluate row_abc (OrCond (col_is ''d'' NullV) (col_is ''d'' (StrV K_VARCHAR (str ''NULL'')))) = T_TRUE \<and>
   evaluate row_abc (col_is ''d'' NullV) = T_UNKNOWN"
  by (intro conjI; code_simp)

end
