(* ===== verification/Optimizer_Laws.thy ===== *)
theory Optimizer_Laws imports Optimizer Rewriter_Laws begin

text \<open>
  Correctness of the optimizer. Normalising a list of ranges keeps their union and leaves disjoint
  ranges in ascending order; merging runs of integer points keeps the union; the ranges of a condition on
  the primary key hold exactly the keys for which it is true; splitting keeps the truth value. Together:
  the scan and the remaining filter select the rows that WHERE selects.
\<close>

section \<open>Normalised lists of ranges\<close>

definition low_pos :: "KeyRange \<Rightarrow> nat \<times> Key" where
  "low_pos r = (case low_key r of None \<Rightarrow> (0, []) | Some k \<Rightarrow> (1, k))"

definition high_pos :: "KeyRange \<Rightarrow> nat \<times> Key" where
  "high_pos r = (case high_key r of None \<Rightarrow> (1, []) | Some k \<Rightarrow> (0, k))"

interpretation range_cmp: comparator range_less "\<lambda>r. (low_pos r, high_pos r)"
  by unfold_locales (auto simp: range_less_def low_pos_def high_pos_def split: option.splits)

text \<open>One range ends before the other starts, with a gap between them.\<close>

definition range_before :: "KeyRange \<Rightarrow> KeyRange \<Rightarrow> bool" where
  "range_before a b \<longleftrightarrow> (case (high_key a, low_key b) of (Some h, Some l) \<Rightarrow> h < l | _ \<Rightarrow> False)"

definition ranges_ascending :: "KeyRange list \<Rightarrow> bool" where
  "ranges_ascending rs = successively range_before rs"

abbreviation in_ranges :: "KeyRange list \<Rightarrow> Value \<Rightarrow> bool" where
  "in_ranges rs v \<equiv> list_ex (\<lambda>r. range_contains r v) rs"

definition ranges_ok :: "DataType \<Rightarrow> KeyRange list \<Rightarrow> bool" where
  "ranges_ok t rs \<longleftrightarrow> list_all (\<lambda>r. range_ok t r \<and> \<not> range_is_empty r) rs"

lemma ranges_ok_simps [simp]:
  "ranges_ok t []" "ranges_ok t (r # rs) \<longleftrightarrow> range_ok t r \<and> \<not> range_is_empty r \<and> ranges_ok t rs"
  "ranges_ok t (rs @ rs') \<longleftrightarrow> ranges_ok t rs \<and> ranges_ok t rs'"
  by (auto simp: ranges_ok_def)

lemma ranges_ok_append: "ranges_ok t merged \<Longrightarrow> merged \<noteq> [] \<Longrightarrow>
    ranges_ok t (butlast merged) \<and> range_ok t (last merged) \<and> \<not> range_is_empty (last merged)"
  by (cases merged rule: rev_cases) auto

lemma low_pos_above: "low_pos a \<le> low_pos b \<Longrightarrow> above (low_key b) k \<Longrightarrow> above (low_key a) k"
  by (auto simp: low_pos_def above_def split: option.splits)

lemma bound_key_nonempty [simp]: "bound_key t v after \<noteq> []"
  by (simp add: bound_key_def)

lemma above_inj: "(\<And>k. above x k \<longleftrightarrow> above y k) \<Longrightarrow> x \<noteq> Some [] \<Longrightarrow> y \<noteq> Some [] \<Longrightarrow> x = y"
proof -
  assume *: "\<And>k. above x k \<longleftrightarrow> above y k" "x \<noteq> Some []" "y \<noteq> Some []"
  show "x = y"
    using *(1)[of "[]"] *(1)[of "the x"] *(1)[of "the y"] *(2,3)
    by (cases x; cases y) (auto simp: above_def)
qed

lemma boundary_nonempty: "range_ok t r \<Longrightarrow> tag_of t \<noteq> kTagNull \<Longrightarrow> low_key r \<noteq> Some [] \<and> high_key r \<noteq> Some []"
  by (simp add: range_ok_keys)

text \<open>A range is not empty iff some key lies between its boundaries and NULL is not past its end.\<close>

lemma nonempty_bounds:
  assumes "range_ok t r" "tag_of t \<noteq> kTagNull"
  shows "\<not> range_is_empty r \<longleftrightarrow> below (high_key r) (to_key_col NullV t) \<and> (\<exists>k. above (low_key r) k \<and> below (high_key r) k)"
proof
  assume ne: "\<not> range_is_empty r"
  have "below (high_key r) (to_key_col NullV t)"
  proof (cases "kr_high r")
    case (Some v)
    then have "in_family t v" using assms(1) by (simp add: range_ok_def)
    then show ?thesis
      using Some nonempty_high_null[OF ne] null_key_least[OF assms(2), of v] null_key_less[OF assms(2), of v]
      by (cases "kr_high_inclusive r") (auto simp: below_def range_ok_keys[OF assms] bound_key_def less_snoc_zero
          simp del: to_key_col_simps)
  qed (simp add: below_def range_ok_keys[OF assms])
  moreover have "above (low_key r) (case low_key r of None \<Rightarrow> [] | Some l \<Rightarrow> l) \<and>
      below (high_key r) (case low_key r of None \<Rightarrow> [] | Some l \<Rightarrow> l)"
    using ne boundary_nonempty[OF assms]
    by (auto simp: above_def below_def range_is_empty_def le_neq_trans split: option.splits if_splits)
  ultimately show "below (high_key r) (to_key_col NullV t) \<and> (\<exists>k. above (low_key r) k \<and> below (high_key r) k)" by blast
next
  assume "below (high_key r) (to_key_col NullV t) \<and> (\<exists>k. above (low_key r) k \<and> below (high_key r) k)"
  then show "\<not> range_is_empty r" using assms
    by (auto simp: range_is_empty_def below_def above_def range_ok_keys bound_key_def simp del: to_key_col_simps(1)
        split: option.splits if_splits)
qed

text \<open>Merging two touching ranges, the first of which starts first, keeps the start of the first.\<close>

lemma unite_touching:
  assumes a: "range_ok t a" "\<not> range_is_empty a" and b: "range_ok t b" "\<not> range_is_empty b"
    and touch: "range_overlaps a b \<or> range_is_adjacent a b" and t: "tag_of t \<noteq> kTagNull" and le: "low_pos a \<le> low_pos b"
  obtains r where "unite a b = [r]" "range_ok t r" "\<not> range_is_empty r" "low_key r = low_key a"
    "\<And>v. in_family t v \<Longrightarrow> range_contains r v \<longleftrightarrow> range_contains a v \<or> range_contains b v"
proof -
  from unite_bounds[OF a b touch t] obtain r where r: "unite a b = [r]" "range_ok t r"
    "\<And>k. above (low_key r) k \<longleftrightarrow> above (low_key a) k \<or> above (low_key b) k"
    "\<And>k. below (high_key r) k \<longleftrightarrow> below (high_key a) k \<or> below (high_key b) k" by blast
  have ab: "above (low_key r) k \<longleftrightarrow> above (low_key a) k" for k using r(3) low_pos_above[OF le] by blast
  have lk: "low_key r = low_key a"
    using ab boundary_nonempty[OF r(2) t] boundary_nonempty[OF a(1) t] by (intro above_inj) auto
  have ne: "\<not> range_is_empty r"
    using a(2) r(3,4) unfolding nonempty_bounds[OF a(1) t] nonempty_bounds[OF r(2) t] by blast
  have "range_contains r v \<longleftrightarrow> range_contains a v \<or> range_contains b v" if v: "in_family t v" for v
    using unite_contains[of t a b v] a b t v r(1) by (simp add: range_wf_def)
  then show ?thesis using that[OF r(1,2) ne lk] by blast
qed

lemma not_touching_before:
  assumes "\<not> range_is_empty a" "\<not> range_is_empty b" "low_pos a \<le> low_pos b"
    "\<not> range_overlaps a b" "\<not> range_is_adjacent a b"
  shows "range_before a b"
  using assms
  by (auto simp: range_overlaps_def range_is_adjacent_def range_before_def low_pos_def range_is_empty_def
      split: option.splits if_splits)

lemma merge_range_step:
  assumes m: "ranges_ok t merged" "ranges_ascending merged" and r: "range_ok t r" "\<not> range_is_empty r"
    and t: "tag_of t \<noteq> kTagNull" and le: "merged \<noteq> [] \<Longrightarrow> low_pos (last merged) \<le> low_pos r"
  shows "ranges_ok t (merge_range merged r) \<and> ranges_ascending (merge_range merged r) \<and>
    merge_range merged r \<noteq> [] \<and> low_pos (last (merge_range merged r)) \<le> low_pos r \<and>
    (\<forall>v. in_family t v \<longrightarrow> (in_ranges (merge_range merged r) v \<longleftrightarrow> in_ranges merged v \<or> range_contains r v))"
proof (cases merged rule: rev_cases)
  case Nil
  then show ?thesis using r by (simp add: merge_range_def ranges_ascending_def)
next
  case (snoc ms m)
  then have m': "range_ok t m" "\<not> range_is_empty m" "low_pos m \<le> low_pos r" using assms by simp_all
  show ?thesis
  proof (cases "range_overlaps m r \<or> range_is_adjacent m r")
    case True
    from unite_touching[OF m'(1,2) r True t m'(3)] obtain u where u: "unite m r = [u]" "range_ok t u" "\<not> range_is_empty u"
      "low_key u = low_key m" "\<And>v. in_family t v \<Longrightarrow> range_contains u v \<longleftrightarrow> range_contains m v \<or> range_contains r v" by blast
    have "merge_range merged r = ms @ [u]" using snoc True u(1) by (simp add: merge_range_def)
    moreover have "range_before x u = range_before x m" for x by (simp add: range_before_def u(4))
    then have "ranges_ascending (ms @ [u])" using m(2) snoc by (auto simp: ranges_ascending_def successively_append_iff)
    ultimately show ?thesis using m(1) m'(3) u snoc by (auto simp: low_pos_def)
  next
    case False
    then have "merge_range merged r = merged @ [r]" using snoc by (simp add: merge_range_def)
    moreover have "range_before m r" using False m' r by (intro not_touching_before) auto
    ultimately show ?thesis using m r snoc by (auto simp: ranges_ascending_def successively_append_iff)
  qed
qed

lemma merge_ranges:
  assumes "ranges_ok t rs" "sorted (map low_pos rs)" "tag_of t \<noteq> kTagNull" "ranges_ok t merged" "ranges_ascending merged"
    "\<forall>r \<in> set rs. merged \<noteq> [] \<longrightarrow> low_pos (last merged) \<le> low_pos r"
  shows "ranges_ok t (foldl merge_range merged rs) \<and> ranges_ascending (foldl merge_range merged rs) \<and>
    (\<forall>v. in_family t v \<longrightarrow> (in_ranges (foldl merge_range merged rs) v \<longleftrightarrow> in_ranges merged v \<or> in_ranges rs v))"
  using assms
proof (induction rs arbitrary: merged)
  case (Cons r rs)
  note s = merge_range_step[of t merged r]
  have "\<forall>r' \<in> set rs. low_pos (last (merge_range merged r)) \<le> low_pos r'" using s Cons.prems by force
  then show ?case using Cons.IH[of "merge_range merged r"] s Cons.prems by auto
qed simp

lemma normalize_ranges_correct:
  assumes "list_all (range_wf t) rs" "tag_of t \<noteq> kTagNull"
  shows "ranges_ok t (normalize_ranges rs)" "ranges_ascending (normalize_ranges rs)"
    "in_family t v \<Longrightarrow> in_ranges (normalize_ranges rs) v \<longleftrightarrow> in_ranges rs v"
proof -
  let ?s = "std_sort range_less (filter (\<lambda>r. \<not> range_is_empty r) rs)"
  have ok: "ranges_ok t ?s" using assms(1) by (auto simp: ranges_ok_def list_all_iff range_wf_def)
  have "sorted (map (\<lambda>r. (low_pos r, high_pos r)) ?s)" by (rule range_cmp.sorted_std_sort)
  then have "sorted (map low_pos ?s)" by (auto simp: sorted_wrt_map elim!: sorted_wrt_mono_rel[rotated])
  from merge_ranges[OF ok this assms(2), of "[]"]
  have *: "ranges_ok t (normalize_ranges rs) \<and> ranges_ascending (normalize_ranges rs) \<and>
      (\<forall>v. in_family t v \<longrightarrow> (in_ranges (normalize_ranges rs) v \<longleftrightarrow> in_ranges ?s v))"
    by (simp add: normalize_ranges_def ranges_ascending_def)
  then show "ranges_ok t (normalize_ranges rs)" "ranges_ascending (normalize_ranges rs)" by simp_all
  have "in_ranges ?s v \<longleftrightarrow> in_ranges rs v" using contains_empty by (auto simp: list_ex_iff)
  then show "in_family t v \<Longrightarrow> in_ranges (normalize_ranges rs) v \<longleftrightarrow> in_ranges rs v" using * by simp
qed

section \<open>Runs of integer points\<close>

lemma high_above_low: "\<not> range_is_empty r \<Longrightarrow> low_key r = Some l \<Longrightarrow> high_key r = Some h \<Longrightarrow> l < h"
  by (auto simp: range_is_empty_def split: if_splits)

lemma point_bounds:
  assumes ok: "range_ok t r" and t: "tag_of t \<noteq> kTagNull" and p: "range_is_point r" and n: "point_value r \<noteq> NullV"
  shows "in_family t (point_value r)" "low_key r = Some (to_key (point_value r))"
    "\<exists>h. high_key r = Some h \<and> to_key (point_value r) @ [0] \<le> h"
proof -
  have ne: "\<not> range_is_empty r" using p by (auto simp: range_is_point_def)
  have fam: "kr_low r = Some x \<Longrightarrow> in_family t x" "kr_high r = Some x \<Longrightarrow> in_family t x" for x
    using ok by (auto simp: range_ok_def)
  obtain low high where lh: "kr_low r = Some low" "kr_high r = Some high" "\<not> kr_low_exclusive r"
    and or: "\<not> kr_high_inclusive r \<or> kr_high_inclusive r \<and> value_eq low high"
    using p n by (auto simp: range_is_point_def point_value_def split: if_splits option.splits)
  then have v: "point_value r = low" using p by (simp add: point_value_def)
  have h: "v_is_int high \<and> v_is_int low" if "\<not> kr_high_inclusive r"
    using that p lh by (auto simp: range_is_point_def split: if_splits)
  show "in_family t (point_value r)" using fam lh v by simp
  show l: "low_key r = Some (to_key (point_value r))"
    using range_ok_keys[OF ok t] lh v n by (simp add: bound_key_def)
  have "high \<noteq> NullV"
    using or h n v value_eq_same_content[of low high] by (cases low) (auto simp: v_is_int_def not_integer)
  then have hk: "high_key r = Some (if kr_high_inclusive r then to_key high @ [0] else to_key high)"
    using range_ok_keys[OF ok t] lh by (simp add: bound_key_def)
  show "\<exists>h. high_key r = Some h \<and> to_key (point_value r) @ [0] \<le> h"
  proof (cases "kr_high_inclusive r")
    case True
    then have "to_key high = to_key low" using or value_eq_same_content[of low high] to_key_eq_iff[of low high] by simp
    then show ?thesis using hk True v by simp
  next
    case False
    then show ?thesis using high_above_low[OF ne l hk] hk by (simp add: snoc_zero_le)
  qed
qed

definition int_between :: "int \<Rightarrow> int \<Rightarrow> Value \<Rightarrow> bool" where
  "int_between a b w \<longleftrightarrow> (case w of IntV _ j \<Rightarrow> a \<le> sint j \<and> sint j \<le> b | _ \<Rightarrow> False)"

lemma sint_plus_one: "i \<noteq> word_of_int (2 ^ 63 - 1) \<Longrightarrow> sint (i + 1) = sint i + 1" for i :: int64
proof -
  assume n: "i \<noteq> word_of_int (2 ^ 63 - 1)"
  have "sint i \<noteq> 2 ^ 63 - 1"
  proof
    assume "sint i = 2 ^ 63 - 1"
    then have "word_of_int (sint i) = (word_of_int (2 ^ 63 - 1) :: int64)" by simp
    then show False using n by simp
  qed
  moreover have "- (2 ^ 63) \<le> sint i" "sint i < 2 ^ 63" using sint_ge[of i] sint_lt[of i] by simp_all
  ultimately have "signed_take_bit 63 (sint i + 1) = sint i + 1" by (intro signed_take_bit_int_eq_self) auto
  then show ?thesis by (simp add: sint_word_ariths)
qed

text \<open>The next range starts after the end of the run.\<close>

definition after_value :: "Value \<Rightarrow> KeyRange list \<Rightarrow> bool" where
  "after_value e rs \<longleftrightarrow> (case rs of [] \<Rightarrow> True | r # _ \<Rightarrow> \<exists>l. low_key r = Some l \<and> to_key e @ [0] < l)"

lemma after_point:
  assumes "range_ok t r" "tag_of t \<noteq> kTagNull" "range_is_point r" "point_value r \<noteq> NullV" "ranges_ascending (r # rs)"
  shows "after_value (point_value r) rs"
  using point_bounds(3)[OF assms(1-4)] assms(5)
  by (cases rs) (auto simp: after_value_def ranges_ascending_def range_before_def split: option.splits)

lemma extend_run_correct:
  assumes "ranges_ok t rs" "tag_of t = kTagInt64" "e = IntV k i" "S \<le> sint i" "ranges_ascending rs" "after_value e rs"
  shows "\<exists>k' i' rest. extend_run e rs = Inr (IntV k' i', rest) \<and> S \<le> sint i' \<and> ranges_ok t rest \<and> ranges_ascending rest \<and>
    after_value (IntV k' i') rest \<and> (rest = rs \<longrightarrow> IntV k' i' = e) \<and>
    (\<forall>w. in_family t w \<longrightarrow> (int_between S (sint i) w \<or> in_ranges rs w \<longleftrightarrow> int_between S (sint i') w \<or> in_ranges rest w))"
  using assms
proof (induction rs arbitrary: e k i)
  case (Cons r rs)
  have ok: "range_ok t r" "tag_of t \<noteq> kTagNull" using Cons.prems by (simp_all add: tag_defs)
  let ?n = "point_value r"
  show ?case
  proof (cases "range_is_point r \<and> v_is_int ?n \<and> i \<noteq> word_of_int (2 ^ 63 - 1) \<and> get_int 0 ?n = i + 1")
    case True
    then obtain l j where n: "?n = IntV l j" "j = i + 1" by (auto elim: v_is_intE simp: get_int_def)
    have j: "sint j = sint i + 1" using True n sint_plus_one by simp
    have step: "extend_run e (r # rs) = extend_run ?n rs"
      using True Cons.prems(3) n by (simp only: extend_run.simps Let_def) (simp add: v_is_null_def get_int_def)
    have nn: "?n \<noteq> NullV" using n by simp
    have asc: "ranges_ascending rs" using Cons.prems(5) by (auto simp: ranges_ascending_def successively_Cons)
    obtain k' i' rest where r: "extend_run ?n rs = Inr (IntV k' i', rest)" "S \<le> sint i'" "ranges_ok t rest"
        "ranges_ascending rest" "after_value (IntV k' i') rest"
      and w: "\<And>w. in_family t w \<Longrightarrow> int_between S (sint j) w \<or> in_ranges rs w \<longleftrightarrow> int_between S (sint i') w \<or> in_ranges rest w"
      using Cons.IH[OF _ Cons.prems(2) n(1) _ asc after_point[OF ok _ nn Cons.prems(5)]] True Cons.prems(1,4) j by auto
    have "length rest \<le> length rs" using r(1) by (rule extend_run_length)
    moreover have "int_between S (sint j) w \<longleftrightarrow> int_between S (sint i) w \<or> range_contains r w" if "in_family t w" for w
    proof -
      have "range_contains r w \<longleftrightarrow> same_content w (IntV l j)" using point_contains[OF ok that] True n by simp
      moreover have "same_content w (IntV l j) \<longleftrightarrow> int_between (sint i + 1) (sint i + 1) w"
        using j sint_inject[of "get_int 0 w" j] by (cases w) (auto simp: int_between_def get_int_def)
      moreover have "int_between S (sint i + 1) w \<longleftrightarrow> int_between S (sint i) w \<or> int_between (sint i + 1) (sint i + 1) w"
        using Cons.prems(4) by (cases w) (auto simp: int_between_def)
      ultimately show ?thesis using j by simp
    qed
    ultimately show ?thesis using step r w by (intro exI[of _ k'] exI[of _ i'] exI[of _ rest]) auto
  next
    case False
    then have "extend_run e (r # rs) = Inr (e, r # rs)"
      using Cons.prems(3) by (auto simp: Let_def)
    then show ?thesis using Cons.prems by blast
  qed
qed (auto simp: after_value_def)

lemma int_key_le: "to_key (IntV k i) \<le> to_key (IntV l j) \<longleftrightarrow> sint i \<le> sint j"
  by (simp only: not_less[symmetric] to_key_less_iff value_before.simps)

lemma closed_between:
  assumes "tag_of t = kTagInt64" "in_family t w"
  shows "range_contains (range_closed (IntV k i) (IntV l j)) w \<longleftrightarrow> int_between (sint i) (sint j) w"
proof -
  have "range_contains (range_closed (IntV k i) (IntV l j)) w \<longleftrightarrow>
      w \<noteq> NullV \<and> to_key (IntV k i) \<le> to_key w \<and> to_key w \<le> to_key (IntV l j)"
    using assms by (intro closed_contains[of _ t]) (simp_all add: tag_defs)
  then show ?thesis using assms
    by (cases w) (simp_all only: int_key_le int_between_def Value.case, auto simp: in_family_def tag_defs)
qed

lemma closed_run:
  assumes "tag_of t = kTagInt64" "sint i \<le> sint j"
  shows "range_ok t (range_closed (IntV k i) (IntV l j))" "\<not> range_is_empty (range_closed (IntV k i) (IntV l j))"
    "low_key (range_closed (IntV k i) (IntV l j)) = Some (to_key (IntV k i))"
    "high_key (range_closed (IntV k i) (IntV l j)) = Some (to_key (IntV l j) @ [0])"
proof -
  let ?r = "range_closed (IntV k i) (IntV l j)"
  show ok: "range_ok t ?r" using assms by (simp add: range_ok_def in_family_def range_closed_def)
  have t: "tag_of t \<noteq> kTagNull" using assms by (simp add: tag_defs)
  show "low_key ?r = Some (to_key (IntV k i))" "high_key ?r = Some (to_key (IntV l j) @ [0])"
    using range_ok_keys[OF ok t] by (simp_all add: range_closed_def bound_key_def)
  have "range_contains ?r (IntV k i)" using closed_between[of t "IntV k i"] assms by (simp add: in_family_def int_between_def)
  then show "\<not> range_is_empty ?r" using contains_empty by blast
qed

lemma ascending_Cons: "ranges_ascending (r # rs) \<longleftrightarrow> ranges_ascending rs \<and> (rs \<noteq> [] \<longrightarrow> range_before r (hd rs))"
  by (cases rs) (auto simp: ranges_ascending_def)

lemma coalesce_points_correct:
  assumes "ranges_ok t rs" "tag_of t = kTagInt64" "ranges_ascending rs"
  shows "\<exists>cs. coalesce_points rs = Inr cs \<and> ranges_ok t cs \<and> ranges_ascending cs \<and>
    (rs \<noteq> [] \<longrightarrow> cs \<noteq> [] \<and> low_key (hd cs) = low_key (hd rs)) \<and> (rs = [] \<longrightarrow> cs = []) \<and>
    (\<forall>w. in_family t w \<longrightarrow> (in_ranges cs w \<longleftrightarrow> in_ranges rs w))"
  using assms
proof (induction rs rule: coalesce_points.induct)
  case (2 r rs)
  have ok: "range_ok t r" "tag_of t \<noteq> kTagNull" "\<not> range_is_empty r" using 2 by (simp_all add: tag_defs)
  have asc: "ranges_ascending rs" "rs \<noteq> [] \<Longrightarrow> range_before r (hd rs)" using 2 by (simp_all add: ascending_Cons)
  show ?case
  proof (cases "\<not> range_is_point r \<or> v_is_null (point_value r)")
    case True
    then obtain cs where cs: "coalesce_points rs = Inr cs" "ranges_ok t cs" "ranges_ascending cs"
      "rs \<noteq> [] \<longrightarrow> cs \<noteq> [] \<and> low_key (hd cs) = low_key (hd rs)" "rs = [] \<longrightarrow> cs = []"
      "\<forall>w. in_family t w \<longrightarrow> (in_ranges cs w \<longleftrightarrow> in_ranges rs w)"
      using 2(1)[OF True] 2(3-) asc by auto
    have "ranges_ascending (r # cs)" using cs asc by (cases "rs = []") (auto simp: ascending_Cons range_before_def)
    then show ?thesis using True ok cs by auto
  next
    case False
    then have p: "range_is_point r" "point_value r \<noteq> NullV" by (auto simp: v_is_null_def)
    note pb = point_bounds[OF ok(1,2) p]
    obtain k i where v: "point_value r = IntV k i"
      using pb(1) p(2) 2(4) by (cases "point_value r") (auto simp: in_family_def tag_defs)
    have S: "sint i \<le> sint i" by simp
    have pc: "range_contains r w \<longleftrightarrow> int_between (sint i) (sint i) w" if "in_family t w" for w
      using point_contains[OF ok(1,2) that p(1)] v sint_inject[of "get_int 0 w" i]
      by (cases w) (auto simp: int_between_def get_int_def)
    from extend_run_correct[OF _ 2(4) v S asc(1) after_point[OF ok(1,2) p 2(5)]] 2(3)
    obtain k' i' rest where e: "extend_run (point_value r) rs = Inr (IntV k' i', rest)" "sint i \<le> sint i'"
        "ranges_ok t rest" "ranges_ascending rest" "after_value (IntV k' i') rest" "rest = rs \<longrightarrow> IntV k' i' = point_value r"
      and w: "\<And>w. in_family t w \<Longrightarrow> int_between (sint i) (sint i) w \<or> in_ranges rs w \<longleftrightarrow>
        int_between (sint i) (sint i') w \<or> in_ranges rest w" by auto
    obtain cs where cs: "coalesce_points rest = Inr cs" "ranges_ok t cs" "ranges_ascending cs"
      "rest \<noteq> [] \<longrightarrow> cs \<noteq> [] \<and> low_key (hd cs) = low_key (hd rest)" "rest = [] \<longrightarrow> cs = []"
      "\<forall>w. in_family t w \<longrightarrow> (in_ranges cs w \<longleftrightarrow> in_ranges rest w)"
      using 2(2)[OF False e(1) refl e(3) 2(4) e(4)] by auto
    define c where "c = (if length rest < length rs then range_closed (point_value r) (IntV k' i') else r)"
    have c: "range_ok t c \<and> \<not> range_is_empty c \<and> low_key c = low_key r \<and>
        (\<forall>w. in_family t w \<longrightarrow> (range_contains c w \<or> in_ranges rest w \<longleftrightarrow> range_contains r w \<or> in_ranges rs w)) \<and>
        (rest \<noteq> [] \<longrightarrow> range_before c (hd rest))"
    proof (cases "length rest < length rs")
      case True
      then have "c = range_closed (IntV k i) (IntV k' i')" by (simp add: c_def v)
      then show ?thesis
        using closed_run[OF 2(4) e(2)] closed_between[OF 2(4)] pb(2) v w pc e(5)
        by (auto simp: range_before_def after_value_def simp del: to_key_simps split: list.splits)
    next
      case False
      then have "rest = rs" using extend_run_suffix[OF e(1)] by (auto simp: suffix_def)
      then show ?thesis using ok asc by (simp add: c_def)
    qed
    have "ranges_ascending (c # cs)" using cs c by (cases "rest = []") (auto simp: ascending_Cons range_before_def)
    moreover have "coalesce_points (r # rs) = Inr (c # cs)" using False e(1) cs(1) by (simp add: c_def)
    ultimately show ?thesis using c cs by auto
  qed
qed (simp add: ranges_ascending_def)

section \<open>The ranges of a condition\<close>

text \<open>
  The literals that a condition compares with the primary key are NULL or values of the key column's
  type; a row's key is NULL or such a value.
\<close>

definition key_literal :: "DataType \<Rightarrow> Value \<Rightarrow> bool" where
  "key_literal t v \<longleftrightarrow> v = NullV \<or> column_value t v"

fun typed_literals :: "DataType \<Rightarrow> Identifier \<Rightarrow> Condition \<Rightarrow> bool" where
  "typed_literals t pk (Compare c op v) \<longleftrightarrow> (id_eq c pk \<longrightarrow> key_literal t v)"
| "typed_literals t pk (InCond c is_not_in vs) \<longleftrightarrow> (id_eq c pk \<longrightarrow> list_all (key_literal t) vs)"
| "typed_literals t pk (AndCond l r) \<longleftrightarrow> typed_literals t pk l \<and> typed_literals t pk r"
| "typed_literals t pk (OrCond l r) \<longleftrightarrow> typed_literals t pk l \<and> typed_literals t pk r"
| "typed_literals t pk (NotCond c) \<longleftrightarrow> typed_literals t pk c"

fun only_on :: "Identifier \<Rightarrow> Condition \<Rightarrow> bool" where
  "only_on pk (Compare c op v) \<longleftrightarrow> id_eq c pk"
| "only_on pk (InCond c is_not_in vs) \<longleftrightarrow> id_eq c pk"
| "only_on pk (AndCond l r) \<longleftrightarrow> only_on pk l \<and> only_on pk r"
| "only_on pk (OrCond l r) \<longleftrightarrow> only_on pk l \<and> only_on pk r"
| "only_on pk (NotCond c) \<longleftrightarrow> only_on pk c"

lemma key_literal_family: "key_literal t v \<Longrightarrow> in_family t v"
  using same_family_tag[of t "vtype v"] by (auto simp: key_literal_def column_value_def in_family_def)

lemma key_type_known: "tag_of t \<noteq> kTagNull \<Longrightarrow> t \<noteq> UNKNOWN_TYPE"
  by (auto simp: tag_of_def type_family_defs)

lemma null_only_correct:
  assumes "tag_of t \<noteq> kTagNull" "in_family t v"
  shows "range_wf t (range_null_only t)" "range_contains (range_null_only t) v \<longleftrightarrow> v = NullV"
proof -
  have r: "range_null_only t = (range_all t)\<lparr>kr_high := Some NullV, kr_high_inclusive := True\<rparr>"
    by (simp add: range_null_only_def normalize_def)
  have ok: "range_ok t (range_null_only t)" using key_type_known[OF assms(1)] by (simp add: r range_ok_def in_family_def)
  then show "range_wf t (range_null_only t)" by (simp add: range_wf_def)
  have "range_contains (range_null_only t) v \<longleftrightarrow> to_key_col v t \<le> to_key_col NullV t"
    unfolding contains_iff[OF ok assms] range_ok_keys[OF ok assms(1)]
    by (simp add: r above_def below_def bound_key_def less_snoc_zero del: to_key_col_simps)
  then show "range_contains (range_null_only t) v \<longleftrightarrow> v = NullV" using null_key_less[OF assms] by (cases "v = NullV") auto
qed

lemma key_compare:
  assumes "column_value t v" "column_value t b"
  shows "sql_compare_op EQ v b = truth_from_bool (to_key v = to_key b)"
    "sql_compare_op GT v b = truth_from_bool (to_key b < to_key v)"
    "sql_compare_op GE v b = truth_from_bool (to_key b \<le> to_key v)"
    "sql_compare_op LT v b = truth_from_bool (to_key v < to_key b)"
    "sql_compare_op LE v b = truth_from_bool (to_key v \<le> to_key b)"
  using sql_order_column[OF assms]
  by (auto simp: sql_compare_op_def compare_values_def compare_keys_def truth_from_bool_def)

lemma compare_with_null: "op \<noteq> IS_NULL \<Longrightarrow> op \<noteq> IS_NOT_NULL \<Longrightarrow> sql_compare_op op v NullV = T_UNKNOWN \<and> sql_compare_op op NullV v = T_UNKNOWN"
  by (cases op) (simp_all add: sql_compare_op_def sql_order_def v_is_null_def)

lemma truth_from_bool_true [simp]: "truth_from_bool b = T_TRUE \<longleftrightarrow> b"
  by (simp add: truth_from_bool_def)

lemma range_of_compare_correct:
  assumes r: "range_of_compare op b t = Some rs" and b: "key_literal t b" and v: "key_literal t v" and t: "tag_of t \<noteq> kTagNull"
  shows "list_all (range_wf t) rs \<and> (in_ranges rs v \<longleftrightarrow> sql_compare_op op v b = T_TRUE)"
proof (cases "op = IS_NULL \<or> op = IS_NOT_NULL")
  case True
  have "range_ok t (range_non_null t)" using key_type_known[OF t] by (simp add: range_ok_def range_non_null_def in_family_def)
  then show ?thesis
    using r True null_only_correct[OF t key_literal_family[OF v]] null_factories[OF refl t key_literal_family[OF v] key_type_known[OF t]]
    by (auto simp: range_of_compare_def sql_compare_op_def v_is_null_def range_wf_def)
next
  case False
  then have i: "is_indexable op" using r by (auto simp: range_of_compare_def split: if_splits)
  show ?thesis
  proof (cases "b = NullV")
    case True
    then show ?thesis using r False i compare_with_null[of op v] by (auto simp: range_of_compare_def v_is_null_def)
  next
    case bn: False
    then have cb: "column_value t b" "tag_of (vtype b) = tag_of t"
      using b key_literal_family[OF b] by (auto simp: key_literal_def in_family_def)
    note fc = factory_contains[OF bn cb(2) t key_literal_family[OF v]] and fw = factory_wf[OF key_literal_family[OF b] t]
    show ?thesis
    proof (cases "v = NullV")
      case True
      then show ?thesis using r False i bn fc fw compare_with_null[of op b]
        by (cases op) (auto simp: range_of_compare_def v_is_null_def)
    next
      case False
      then have "column_value t v" using v by (simp add: key_literal_def)
      note kc = key_compare[OF this cb(1)]
      show ?thesis
        by (cases op) (use r i bn False in \<open>auto simp: range_of_compare_def v_is_null_def fc kc fw\<close>)
    qed
  qed
qed

lemma intersect_wf: "range_wf t a \<Longrightarrow> range_wf t b \<Longrightarrow> tag_of t \<noteq> kTagNull \<Longrightarrow> range_wf t (intersect a b)"
  using intersect_bounds(1)[of t a b] by (cases "range_is_empty a \<or> range_is_empty b") (auto simp: range_wf_def intersect_def)

lemma ranges_ok_wf: "ranges_ok t rs \<Longrightarrow> list_all (range_wf t) rs"
  by (simp add: ranges_ok_def list_all_iff range_wf_def)

lemma intersect_ranges_correct:
  assumes "list_all (range_wf t) a" "list_all (range_wf t) b" "tag_of t \<noteq> kTagNull"
  shows "list_all (range_wf t) (intersect_ranges a b)"
    "in_family t v \<Longrightarrow> in_ranges (intersect_ranges a b) v \<longleftrightarrow> in_ranges a v \<and> in_ranges b v"
proof -
  let ?p = "filter (\<lambda>r. \<not> range_is_empty r) (concat (map (\<lambda>lhs. map (intersect lhs) b) a))"
  have p: "list_all (range_wf t) ?p" using assms intersect_wf by (auto simp: list_all_iff)
  show "list_all (range_wf t) (intersect_ranges a b)"
    unfolding intersect_ranges_def by (rule ranges_ok_wf[OF normalize_ranges_correct(1)[OF p assms(3)]])
  assume v: "in_family t v"
  have "in_ranges ?p v \<longleftrightarrow> (\<exists>x \<in> set a. \<exists>y \<in> set b. range_contains (intersect x y) v)"
    using contains_empty by (fastforce simp: list_ex_iff)
  also have "\<dots> \<longleftrightarrow> in_ranges a v \<and> in_ranges b v"
    using intersect_contains[OF _ _ assms(3) v] assms(1,2) by (auto simp: list_ex_iff list_all_iff)
  finally show "in_ranges (intersect_ranges a b) v \<longleftrightarrow> in_ranges a v \<and> in_ranges b v"
    unfolding intersect_ranges_def using normalize_ranges_correct(3)[OF p assms(3) v] by simp
qed

lemma unite_ranges_correct:
  assumes "list_all (range_wf t) a" "list_all (range_wf t) b" "tag_of t \<noteq> kTagNull"
  shows "list_all (range_wf t) (unite_ranges a b)"
    "in_family t v \<Longrightarrow> in_ranges (unite_ranges a b) v \<longleftrightarrow> in_ranges a v \<or> in_ranges b v"
  using normalize_ranges_correct[of t "a @ b"] ranges_ok_wf assms by (auto simp: unite_ranges_def)

lemma truth_true_iff:
  "truth_and a b = T_TRUE \<longleftrightarrow> a = T_TRUE \<and> b = T_TRUE" "truth_or a b = T_TRUE \<longleftrightarrow> a = T_TRUE \<or> b = T_TRUE"
  by (cases a; cases b; simp add: truth_and_def truth_or_def)+

lemma range_of_condition_correct:
  assumes "range_of_condition c t = Some rs" "only_on pk c" "typed_literals t pk c" "tag_of t \<noteq> kTagNull"
    "lookup_ok lookup" "lookup pk = Some v" "key_literal t v"
  shows "list_all (range_wf t) rs \<and> (in_ranges rs v \<longleftrightarrow> evaluate lookup c = T_TRUE)"
  using assms(1-3)
proof (induction c arbitrary: rs)
  case (Compare c op b)
  then have "lookup c = Some v" using assms(5,6) by (auto simp: lookup_ok_def)
  then show ?case using Compare range_of_compare_correct[OF _ _ assms(7,4), of op b rs] by simp
next
  case (InCond c neg vs)
  then have l: "lookup c = Some v" "\<not> neg" using assms(5,6) by (auto simp: lookup_ok_def split: if_splits)
  have lit: "x \<in> set vs \<Longrightarrow> key_literal t x" for x using InCond by (auto simp: list_all_iff)
  have c: "range_wf t (range_point x) \<and> (range_contains (range_point x) v \<longleftrightarrow> sql_compare_op EQ v x = T_TRUE)"
    if "x \<in> set vs" "x \<noteq> NullV" for x
    using range_of_compare_correct[OF _ lit[OF that(1)] assms(7,4), of EQ "[range_point x]"] that(2)
    by (simp add: range_of_compare_def v_is_null_def)
  have n: "sql_compare_op EQ v NullV \<noteq> T_TRUE" using compare_with_null[of EQ v] by simp
  have ev: "evaluate lookup (InCond c neg vs) = T_TRUE \<longleftrightarrow> (\<exists>x \<in> set vs. x \<noteq> NullV \<and> range_contains (range_point x) v)"
    using l c n by (auto simp: evaluate_in or_of_def) (metis image_iff)+
  have e: "in_ranges (map range_point (filter (\<lambda>v. \<not> v_is_null v) vs)) v \<longleftrightarrow> evaluate lookup (InCond c neg vs) = T_TRUE"
    unfolding ev by (auto simp: list_ex_iff v_is_null_def)
  show ?case
  proof (cases "filter (\<lambda>v. \<not> v_is_null v) vs = []")
    case True
    then have "rs = [range_empty t]" using InCond.prems(1) l by (simp add: Let_def)
    then show ?thesis using e True by simp
  next
    case False
    then have "rs = map range_point (filter (\<lambda>v. \<not> v_is_null v) vs)" using InCond.prems(1) l
      by (simp add: Let_def del: filter_empty_conv)
    then show ?thesis using e c by (auto simp: list_all_iff v_is_null_def)
  qed
next
  case (AndCond l r)
  then obtain a b where ab: "range_of_condition l t = Some a" "range_of_condition r t = Some b" "rs = intersect_ranges a b"
    by (auto split: option.splits)
  show ?case
    using AndCond.IH(1)[OF ab(1)] AndCond.IH(2)[OF ab(2)] AndCond.prems intersect_ranges_correct(1)[OF _ _ assms(4), of a b] intersect_ranges_correct(2)[OF _ _ assms(4), of a b v]
      ab(3) key_literal_family[OF assms(7)] by (simp add: truth_true_iff)
next
  case (OrCond l r)
  then obtain a b where ab: "range_of_condition l t = Some a" "range_of_condition r t = Some b" "rs = unite_ranges a b"
    by (auto split: option.splits)
  show ?case
    using OrCond.IH(1)[OF ab(1)] OrCond.IH(2)[OF ab(2)] OrCond.prems unite_ranges_correct(1)[OF _ _ assms(4), of a b] unite_ranges_correct(2)[OF _ _ assms(4), of a b v]
      ab(3) key_literal_family[OF assms(7)] by (simp add: truth_true_iff)
qed simp

section \<open>Splitting\<close>

definition evaluate_opt :: "ValueLookup \<Rightarrow> Condition option \<Rightarrow> Truth" where
  "evaluate_opt lookup c = (case c of None \<Rightarrow> T_TRUE | Some n \<Rightarrow> evaluate lookup n)"

lemma evaluate_opt_simps [simp]: "evaluate_opt lookup None = T_TRUE" "evaluate_opt lookup (Some c) = evaluate lookup c"
  by (simp_all add: evaluate_opt_def)

lemma join_and_evaluate: "evaluate_opt lookup (join_and a b) = truth_and (evaluate_opt lookup a) (evaluate_opt lookup b)"
  by (cases a; cases b) (simp_all add: join_and_def)

lemma split_some: "sp_pk_cond (split_primary_key c pk) \<noteq> None \<or> sp_remaining (split_primary_key c pk) \<noteq> None"
  by (induction c) (auto simp: join_and_def join_or_def Let_def split: option.splits)

lemma rebuild_split_evaluate:
  "a \<noteq> None \<or> b \<noteq> None \<Longrightarrow> evaluate lookup (the (rebuild_split a b)) = truth_and (evaluate_opt lookup a) (evaluate_opt lookup b)"
  using join_and_evaluate[of lookup a b] by (cases a; cases b) (simp_all add: rebuild_split_def join_and_def)

lemma split_evaluate:
  "evaluate lookup c = truth_and (evaluate_opt lookup (sp_pk_cond (split_primary_key c pk)))
     (evaluate_opt lookup (sp_remaining (split_primary_key c pk)))"
proof (induction c)
  case (AndCond l r)
  then show ?case by (simp add: Let_def join_and_evaluate truth_ac)
next
  case (OrCond l r)
  let ?l = "split_primary_key l pk" and ?r = "split_primary_key r pk"
  show ?case
  proof (cases "sp_remaining ?l = None \<and> sp_remaining ?r = None")
    case True
    then obtain a b where "sp_pk_cond ?l = Some a" "sp_pk_cond ?r = Some b" using split_some by blast
    then show ?thesis using True OrCond by (simp add: join_or_def)
  next
    case False
    then have "split_primary_key (OrCond l r) pk = \<lparr> sp_pk_cond = None,
        sp_remaining = Some (OrCond (the (rebuild_split (sp_pk_cond ?l) (sp_remaining ?l)))
          (the (rebuild_split (sp_pk_cond ?r) (sp_remaining ?r)))) \<rparr>"
      by (simp only: split_primary_key.simps Let_def if_False)
    then show ?thesis
      using OrCond rebuild_split_evaluate[OF split_some[of l pk], of lookup] rebuild_split_evaluate[OF split_some[of r pk], of lookup]
      by simp
  qed
qed (simp_all add: truth_ac)

lemma join_and_only: "(\<forall>c. a = Some c \<longrightarrow> only_on pk c) \<Longrightarrow> (\<forall>c. b = Some c \<longrightarrow> only_on pk c) \<Longrightarrow> join_and a b = Some c \<Longrightarrow> only_on pk c"
  by (auto simp: join_and_def split: option.splits)

lemma split_only: "sp_pk_cond (split_primary_key c pk) = Some d \<Longrightarrow> only_on pk d"
  by (induction c arbitrary: d) (auto simp: join_and_def join_or_def Let_def split: option.splits if_splits)


section \<open>Rewriting conjunctions\<close>

lemma distinct_values_fixed: "sorted_wrt (\<lambda>w v. \<not> value_eq w v) (acc @ vs) \<Longrightarrow> distinct_values acc vs = acc @ vs"
proof (induction vs arbitrary: acc)
  case (Cons v vs)
  have "\<not> list_ex (\<lambda>w. value_eq w v) acc" using Cons.prems by (auto simp: list_ex_iff sorted_wrt_append)
  then show ?case using Cons.IH[of "acc @ [v]"] Cons.prems by simp
qed simp

lemma distinct_values_sorted:
  "sorted_wrt (\<lambda>w v. \<not> value_eq w v) acc \<Longrightarrow> sorted_wrt (\<lambda>w v. \<not> value_eq w v) (distinct_values acc vs)"
  by (induction vs arbitrary: acc) (auto simp: list_ex_iff sorted_wrt_append)

lemma fold_constants_idem: "fold_constants_impl (fold_constants_impl c) = fold_constants_impl c"
proof (induction c)
  case (InCond c neg vs)
  have "distinct_values [] (distinct_values [] vs) = distinct_values [] vs"
    using distinct_values_fixed[of "[]"] distinct_values_sorted[of "[]" vs] by simp
  then show ?case by (auto simp: Let_def)
qed simp_all

text \<open>A conjunction whose predicates are folded and have texts that tell them apart.\<close>

definition plain_conj :: "Condition list \<Rightarrow> Condition \<Rightarrow> bool" where
  "plain_conj xs c \<longleftrightarrow> is_conj c \<and> set (leaves c) \<subseteq> set xs"

lemma conj_pushdown: "is_conj c \<Longrightarrow> pushdown_not_impl c False = c"
  by (induction c) auto

lemma leaves_leaf: "x \<in> set (leaves c) \<Longrightarrow> leaves x = [x]"
  by (induction c) auto

lemma rewrite_conj:
  assumes s: "separable xs" and c: "is_conj (pushdown_not_impl c False)"
    and l: "set (leaves (fold_constants_impl (pushdown_not_impl c False))) \<subseteq> set xs"
  shows "\<exists>c'. rewrite_condition_tree (Some c) = Inr (Some c') \<and> is_conj c' \<and>
    set (leaves c') = set (leaves (fold_constants_impl (pushdown_not_impl c False))) \<and>
    (\<forall>lookup. evaluate lookup c' = evaluate lookup c)"
proof -
  let ?f = "fold_constants_impl (flatten_impl (pushdown_not_impl c False))"
  have lf: "set (leaves ?f) = set (leaves (fold_constants_impl (pushdown_not_impl c False)))"
    unfolding fold_constants_leaves[of "flatten_impl _"] fold_constants_leaves[of "pushdown_not_impl c False"]
    by (simp add: flatten_leaves)
  then have sub: "set (leaves ?f) \<subseteq> set xs" and cf: "is_conj ?f"
    using c l by (simp_all add: flatten_conj fold_constants_shape(1))
  note dd = deduplicate_correct[OF s sub] and nf = deduplicate_conj[OF s sub cf]
  have "rewrite_condition_tree (Some c) = Inr (Some (deduplicate_impl ?f))"
    using simplify_conj_nf[OF nf] by (simp add: rewrite_condition_tree_def)
  then show ?thesis using dd lf conj_nf_is_conj[OF nf]
    by (auto simp: fold_constants_evaluate flatten_evaluate pushdown_evaluate)
qed

definition folded :: "Condition list \<Rightarrow> bool" where
  "folded xs \<longleftrightarrow> (\<forall>x \<in> set xs. fold_constants_impl x = x)"

lemma folded_leaves: "folded (leaves (fold_constants_impl c))"
proof -
  have "fold_constants_impl x = x" if "x \<in> set (leaves c)" "fold_constants_impl c = c" for x c
    using that by (induction c) (auto split: if_splits)
  then show ?thesis using fold_constants_idem by (auto simp: folded_def)
qed

lemma plain_fold: "folded xs \<Longrightarrow> plain_conj xs c \<Longrightarrow> set (leaves (fold_constants_impl c)) = set (leaves c)"
  unfolding fold_constants_leaves[of c] using leaves_leaf by (auto simp: folded_def plain_conj_def subset_iff)

lemma rewrite_plain:
  assumes "separable xs" "folded xs" "\<forall>n. c = Some n \<longrightarrow> plain_conj xs n"
  shows "\<exists>c'. rewrite_or_crash c = Inr c' \<and> (c' = None \<longleftrightarrow> c = None) \<and>
    (\<forall>n n'. c = Some n \<longrightarrow> c' = Some n' \<longrightarrow> plain_conj xs n' \<and> set (leaves n') = set (leaves n)) \<and>
    (\<forall>lookup. evaluate_opt lookup c' = evaluate_opt lookup c)"
proof (cases c)
  case None
  then show ?thesis by (simp add: rewrite_or_crash_def rewrite_condition_tree_def)
next
  case (Some n)
  then have n: "is_conj n" "set (leaves n) \<subseteq> set xs" "plain_conj xs n" using assms(3) by (simp_all add: plain_conj_def)
  then show ?thesis
    using rewrite_conj[OF assms(1), of n] conj_pushdown[OF n(1)] plain_fold[OF assms(2) n(3)] Some
    by (auto simp: rewrite_or_crash_def plain_conj_def)
qed

lemma leaves_typed: "typed_literals t pk c \<longleftrightarrow> (\<forall>x \<in> set (leaves c). typed_literals t pk x)"
  by (induction c) auto

lemma leaves_only: "only_on pk c \<longleftrightarrow> (\<forall>x \<in> set (leaves c). only_on pk x)"
  by (induction c) auto

lemma distinct_values_subset: "set (distinct_values acc vs) \<subseteq> set acc \<union> set vs"
proof (induction vs arbitrary: acc)
  case (Cons v vs)
  show ?case using Cons[of acc] Cons[of "acc @ [v]"] by auto
qed simp

lemma typed_fold: "typed_literals t pk c \<Longrightarrow> typed_literals t pk (fold_constants_impl c)"
proof (induction c)
  case (InCond c neg vs)
  from distinct_values_subset[of "[]" vs] InCond show ?case
    by (cases "distinct_values [] vs") (auto simp: Let_def list_all_iff)
qed auto

lemma split_plain:
  assumes "plain_conj xs c"
  shows "sp_pk_cond (split_primary_key c pk) = Some d \<Longrightarrow> plain_conj xs d"
    "sp_remaining (split_primary_key c pk) = Some d \<Longrightarrow> plain_conj xs d"
  using assms
  by (induction c arbitrary: d) (auto simp: plain_conj_def join_and_def Let_def split: option.splits if_splits)


section \<open>The scan\<close>

definition scan_keeps :: "OptimizedQuery \<Rightarrow> ValueLookup \<Rightarrow> Value \<Rightarrow> bool" where
  "scan_keeps oq lookup v \<longleftrightarrow> in_ranges (oq_ranges oq) v \<and> evaluate_opt lookup (oq_remaining_filter oq) = T_TRUE"

definition row_for :: "DataType \<Rightarrow> Identifier \<Rightarrow> ValueLookup \<Rightarrow> Value \<Rightarrow> bool" where
  "row_for t pk lookup v \<longleftrightarrow> lookup_ok lookup \<and> lookup pk = Some v \<and> key_literal t v"

lemma candidates_correct:
  assumes "range_of_condition c t = Some rs" "only_on pk c" "typed_literals t pk c" "tag_of t \<noteq> kTagNull"
    "list_all (range_wf t) rs"
  shows "\<exists>cs. coalesce_adjacent_points (normalize_ranges rs) t = Inr cs \<and> ranges_ok t cs \<and> ranges_ascending cs \<and>
    (\<forall>lookup v. row_for t pk lookup v \<longrightarrow> (in_ranges cs v \<longleftrightarrow> evaluate lookup c = T_TRUE))"
proof -
  note n = normalize_ranges_correct[OF assms(5,4)]
  have "\<exists>cs. coalesce_adjacent_points (normalize_ranges rs) t = Inr cs \<and> ranges_ok t cs \<and> ranges_ascending cs \<and>
      (\<forall>v. in_family t v \<longrightarrow> (in_ranges cs v \<longleftrightarrow> in_ranges (normalize_ranges rs) v))"
  proof (cases "is_integer t \<or> is_temporal t")
    case True
    then have "tag_of t = kTagInt64" by (simp add: tag_of_def)
    from coalesce_points_correct[OF n(1) this n(2)] show ?thesis using True by (auto simp: coalesce_adjacent_points_def)
  qed (use n in \<open>auto simp: coalesce_adjacent_points_def\<close>)
  then show ?thesis using n(3) range_of_condition_correct[OF assms(1-4)] key_literal_family by (auto simp: row_for_def)
qed

lemma list_wf_of_condition:
  "range_of_condition c t = Some rs \<Longrightarrow> only_on pk c \<Longrightarrow> typed_literals t pk c \<Longrightarrow> tag_of t \<noteq> kTagNull \<Longrightarrow> list_all (range_wf t) rs"
  using range_of_condition_correct[of c t rs pk "\<lambda>_. Some NullV" NullV] by (simp add: lookup_ok_def key_literal_def)

lemma single_range:
  "tag_of t \<noteq> kTagNull \<Longrightarrow> list_all (range_wf t) [range_all t] \<and> ranges_ascending [range_all t] \<and> in_ranges [range_all t] v"
  "list_all (range_wf t) [range_empty t] \<and> ranges_ascending [range_empty t] \<and> \<not> in_ranges [range_empty t] v"
  by (simp_all add: ranges_ascending_def range_wf_def range_ok_def)

lemma convert_exact:
  assumes xs: "separable xs" "folded xs" and t: "tag_of (pk_type p) \<noteq> kTagNull"
    and pc: "\<forall>c. pk_pk_cond p = Some c \<longrightarrow> plain_conj xs c \<and> only_on (pk_column p) c \<and> typed_literals (pk_type p) (pk_column p) c"
    and rm: "\<forall>c. pk_remaining p = Some c \<longrightarrow> plain_conj xs c"
  shows "\<exists>oq. convert_to_key_range provider q p = Inr oq \<and> list_all (range_wf (pk_type p)) (oq_ranges oq) \<and>
    ranges_ascending (oq_ranges oq) \<and>
    (\<forall>lookup v. row_for (pk_type p) (pk_column p) lookup v \<longrightarrow>
      (scan_keeps oq lookup v \<longleftrightarrow>
        evaluate_opt lookup (pk_pk_cond p) = T_TRUE \<and> evaluate_opt lookup (pk_remaining p) = T_TRUE))"
proof (cases "pk_pk_cond p")
  case None
  then show ?thesis using single_range(1)[OF t]
    by (simp add: convert_to_key_range_def Let_def finish_scan_def scan_keeps_def)
next
  case (Some c)
  have "plain_conj xs n" if "rebuild_split (Some c) (pk_remaining p) = Some n" for n
    using that pc rm Some by (auto simp: rebuild_split_def join_and_def plain_conj_def split: option.splits)
  from rewrite_plain[OF xs, of "rebuild_split (Some c) (pk_remaining p)"] this
  obtain m where m: "rewrite_or_crash (rebuild_split (Some c) (pk_remaining p)) = Inr m"
    "\<And>lookup. evaluate_opt lookup m = truth_and (evaluate lookup c) (evaluate_opt lookup (pk_remaining p))"
    by (auto simp: rebuild_split_def join_and_evaluate)
  show ?thesis
  proof (cases "range_of_condition c (pk_type p)")
    case None
    then show ?thesis using Some m single_range(1)[OF t]
      by (simp add: convert_to_key_range_def Let_def finish_scan_def scan_keeps_def truth_true_iff)
  next
    case rs: (Some rs)
    have c: "only_on (pk_column p) c" "typed_literals (pk_type p) (pk_column p) c" using pc Some by simp_all
    from candidates_correct[OF rs c t list_wf_of_condition[OF rs c t]] obtain cs
      where cs: "coalesce_adjacent_points (normalize_ranges rs) (pk_type p) = Inr cs" "ranges_ok (pk_type p) cs" "ranges_ascending cs"
        "\<And>lookup v. row_for (pk_type p) (pk_column p) lookup v \<Longrightarrow> in_ranges cs v \<longleftrightarrow> evaluate lookup c = T_TRUE" by blast
    show ?thesis
      using Some rs cs m single_range(1)[OF t] single_range(2)[of "pk_type p"] ranges_ok_wf[OF cs(2)]
      by (auto simp: convert_to_key_range_def Let_def finish_scan_def scan_keeps_def truth_true_iff)
  qed
qed


lemma typed_pushdown: "typed_literals t pk (pushdown_not_impl c neg) \<longleftrightarrow> typed_literals t pk c"
  by (induction c arbitrary: neg) (auto simp: Let_def)

text \<open>A catalog with one table, \<^verbatim>\<open>items(id INT PRIMARY KEY)\<close>, and the query \<^verbatim>\<open>SELECT * FROM items WHERE ...\<close>.\<close>

definition items_schema :: TableSchema where
  "items_schema = primary_key (make_identifier (str ''id'')) INT_TYPE (table_schema (make_identifier (str ''items'')))"

definition items_catalog :: Catalog where
  "items_catalog = \<lparr> cat_is_open = True, cat_current_database = make_identifier (str ''shop''),
     cat_database_exists = (\<lambda>_. True), cat_table_exists = (\<lambda>_ _. True), cat_table_schema = (\<lambda>_ _. Some items_schema),
     cat_primary_key_exists = (\<lambda>_ _ _. Some False) \<rparr>"

definition select_items :: "Condition option \<Rightarrow> Query" where
  "select_items wh = Select \<lparr> sq_table = make_identifier (str ''items''), sq_alias = None, sq_columns = [],
     sq_where = wh, sq_group_by = [], sq_order_by = [], sq_limit = no_limit \<rparr>"

definition items_row :: "Value \<Rightarrow> ValueLookup" where
  "items_row v c = (if id_normalized c = str ''id'' then Some v else None)"

section \<open>Properties\<close>

text \<open>
  C24: the scan of the optimizer selects the rows that WHERE selects. For a table with a primary key and a
  WHERE that is, after pushing negations down, a conjunction of predicates whose texts tell
  them apart and whose literals on the primary key are NULL or of the column's type, optimising returns a scan;
  its ranges are well formed, ascending and disjoint; and the key of a row lies in one of them while the
  remaining filter is true of the row iff WHERE is true of the row. This holds whatever
  the statistics are, that is for the point lookups and for the full scan with the condition put back.
\<close>

theorem optimizer_scan_exact:
  assumes "resolve_target cat q = Inr (db, table)" and "cat_table_schema cat db table = Some s"
    and "has_primary_key s" and "primary_key_column s = Some col" and "tag_of (col_type col) \<noteq> kTagNull"
    and "query_where q = Some c" and "is_conj (pushdown_not_impl c False)"
    and "separable (leaves (fold_constants_impl (pushdown_not_impl c False)))"
    and "typed_literals (col_type col) (primary_key_name s) c"
  shows "\<exists>oq. optimize_scan cat provider q = Inr oq \<and> list_all (range_wf (col_type col)) (oq_ranges oq) \<and>
    ranges_ascending (oq_ranges oq) \<and>
    (\<forall>lookup v. row_for (col_type col) (primary_key_name s) lookup v \<longrightarrow>
       (scan_keeps oq lookup v \<longleftrightarrow> where_keeps (evaluate lookup c)))"
proof -
  let ?t = "col_type col" and ?pk = "primary_key_name s" and ?xs = "leaves (fold_constants_impl (pushdown_not_impl c False))"
  have fo: "folded ?xs" by (rule folded_leaves)
  obtain c' where c': "rewrite_condition_tree (Some c) = Inr (Some c')" "is_conj c'" "set (leaves c') = set ?xs"
    "\<And>lookup. evaluate lookup c' = evaluate lookup c" using rewrite_conj[OF assms(8,7) subset_refl] by blast
  have pl: "plain_conj ?xs c'" using c' by (simp add: plain_conj_def)
  have ty: "typed_literals ?t ?pk x" if "x \<in> set ?xs" for x
    using that typed_fold[of ?t ?pk "pushdown_not_impl c False"] assms(9) typed_pushdown leaves_typed by blast
  define p where "p = \<lparr> pk_pk_cond = sp_pk_cond (split_primary_key c' ?pk), pk_remaining = sp_remaining (split_primary_key c' ?pk),
    pk_db = db, pk_table = table, pk_column = ?pk, pk_type = ?t \<rparr>"
  have ex: "extract_primary_key_condition cat q = Inr p"
    using assms c'(1) by (simp add: extract_primary_key_condition_def lookup_schema_def rewrite_or_crash_def Let_def p_def)
  obtain pc where pc: "rewrite_or_crash (pk_pk_cond p) = Inr pc"
    "\<And>n. pc = Some n \<Longrightarrow> \<exists>d. pk_pk_cond p = Some d \<and> plain_conj ?xs n \<and> set (leaves n) = set (leaves d)"
    "\<And>lookup. evaluate_opt lookup pc = evaluate_opt lookup (pk_pk_cond p)"
    using rewrite_plain[OF assms(8) fo, of "pk_pk_cond p"] split_plain(1)[OF pl, of ?pk] by (auto simp: p_def)
  obtain rm where rm: "rewrite_or_crash (pk_remaining p) = Inr rm" "\<And>n. rm = Some n \<Longrightarrow> plain_conj ?xs n"
    "\<And>lookup. evaluate_opt lookup rm = evaluate_opt lookup (pk_remaining p)"
    using rewrite_plain[OF assms(8) fo, of "pk_remaining p"] split_plain(2)[OF pl, of ?pk] by (auto simp: p_def)
  have only: "only_on ?pk n \<and> typed_literals ?t ?pk n" if n: "pc = Some n" for n
  proof -
    obtain d where "pk_pk_cond p = Some d" "plain_conj ?xs n" "set (leaves n) = set (leaves d)" using pc(2)[OF n] by blast
    moreover have "only_on ?pk d" using \<open>pk_pk_cond p = Some d\<close> split_only[of c' ?pk d] by (simp add: p_def)
    ultimately show ?thesis using ty leaves_only[of ?pk n] leaves_only[of ?pk d] leaves_typed[of ?t ?pk n]
      by (auto simp: plain_conj_def)
  qed
  let ?p = "p\<lparr>pk_pk_cond := pc, pk_remaining := rm\<rparr>"
  have "optimize_scan cat provider q = convert_to_key_range provider q ?p"
    by (simp add: optimize_scan_def ex rewrite_primary_key_condition_def pc(1) rm(1))
  moreover have "evaluate lookup c = T_TRUE \<longleftrightarrow> evaluate_opt lookup pc = T_TRUE \<and> evaluate_opt lookup rm = T_TRUE" for lookup
    using split_evaluate[of lookup c' ?pk] c'(4) by (simp add: pc(3) rm(3) p_def truth_true_iff)
  ultimately show ?thesis
    using convert_exact[OF assms(8) fo, of ?p provider q] only pc(2) rm(2) assms(5) by (auto simp: p_def where_keeps_def)
qed


theorem optimizer_scan_exact_witness:
  "\<exists>oq. optimize_scan items_catalog None (select_items (Some (AndCond (Compare (make_identifier (str ''id'')) GE (IntV K_BIGINT 3))
      (NotCond (Compare (make_identifier (str ''ID'')) EQ (IntV K_BIGINT 7)))))) = Inr oq \<and>
    scan_keeps oq (items_row (IntV K_BIGINT 4)) (IntV K_BIGINT 4) \<and> \<not> scan_keeps oq (items_row (IntV K_BIGINT 7)) (IntV K_BIGINT 7)"
proof -
  let ?c = "AndCond (Compare (make_identifier (str ''id'')) GE (IntV K_BIGINT 3))
      (NotCond (Compare (make_identifier (str ''ID'')) EQ (IntV K_BIGINT 7)))"
  let ?col = "the (primary_key_column items_schema)"
  have 1: "resolve_target items_catalog (select_items (Some ?c)) = Inr (make_identifier (str ''shop''), make_identifier (str ''items''))"
    by code_simp
  have 2: "has_primary_key items_schema" "primary_key_column items_schema = Some ?col" "tag_of (col_type ?col) \<noteq> kTagNull"
    "is_conj (pushdown_not_impl ?c False)" "separable (leaves (fold_constants_impl (pushdown_not_impl ?c False)))"
    "typed_literals (col_type ?col) (primary_key_name items_schema) ?c"
    "where_keeps (evaluate (items_row (IntV K_BIGINT 4)) ?c)" "\<not> where_keeps (evaluate (items_row (IntV K_BIGINT 7)) ?c)"
    by code_simp+
  have 3: "row_for (col_type ?col) (primary_key_name items_schema) (items_row (IntV K_BIGINT i)) (IntV K_BIGINT i)" for i
  proof -
    have "id_normalized (primary_key_name items_schema) = str ''id''" "is_same_family (col_type ?col) BIGINT" "\<not> is_temporal (col_type ?col)"
      by code_simp+
    then show ?thesis
      by (simp add: row_for_def lookup_ok_def items_row_def id_eq_def key_literal_def column_value_def)
  qed
  from optimizer_scan_exact[OF 1 _ 2(1,2,3) _ 2(4,5,6), of None] show ?thesis
    using 2(7,8) 3 by (simp add: items_catalog_def select_items_def) blast
qed

text \<open>
  A literal of another type family on the primary key loses rows. \<^verbatim>\<open>id = '5'\<close> is true of the row with the
  integer key 5, since the evaluator parses the text; but the optimizer turns it into the range of the
  string key \<^verbatim>\<open>'5'\<close>, leaves no filter, and the row's key is not in the range.
\<close>

theorem text_literal_loses_row:
  "where_keeps (evaluate (items_row (IntV K_BIGINT 5)) (Compare (make_identifier (str ''id'')) EQ (StrV K_VARCHAR (str ''5'')))) \<and>
   (case optimize items_catalog None (select_items (Some (Compare (make_identifier (str ''id'')) EQ (StrV K_VARCHAR (str ''5''))))) of
      Inl _ \<Rightarrow> False
    | Inr oq \<Rightarrow> oq_ranges oq = [range_point (StrV K_VARCHAR (str ''5''))] \<and> oq_remaining_filter oq = None \<and>
        \<not> scan_keeps oq (items_row (IntV K_BIGINT 5)) (IntV K_BIGINT 5))"
  by code_simp

end
