(* ===== verification/Raft_Log.thy ===== *)
theory Raft_Log imports Kv_Engine begin

text \<open>
  The data of a raft group (\<^verbatim>\<open>raft/types.h\<close>, \<^verbatim>\<open>raft/transport.h\<close>, \<^verbatim>\<open>raft/state_machine.h\<close>) and the log store in
  memory (\<^verbatim>\<open>raft/memory_log_store.h\<close>). Terms and indices are 64-bit words.

  The interfaces \<^verbatim>\<open>LogStore\<close> and \<^verbatim>\<open>StateMachine\<close> are the records of their virtual functions. What elections rely on
  of a log store is the locale \<open>persistent_votes\<close>, which the log store in memory satisfies.
\<close>

section \<open>Types\<close>

type_synonym NodeId = uint64

abbreviation kInvalidIndex :: uint64 where "kInvalidIndex \<equiv> 0"

datatype Role = Follower | Candidate | Leader

record LogEntry =
  le_index :: uint64
  le_term :: uint64
  le_data :: bytes

record HardState =
  hs_term :: uint64
  hs_voted_for :: "NodeId option"

datatype RaftErrorCode = RE_InvalidArgument | RE_NotLeader | RE_Busy | RE_Timeout | RE_InternalError | RE_IOError

fun error_code_to_string :: "RaftErrorCode \<Rightarrow> string" where
  "error_code_to_string RE_InvalidArgument = ''InvalidArgument''"
| "error_code_to_string RE_NotLeader = ''NotLeader''"
| "error_code_to_string RE_Busy = ''Busy''"
| "error_code_to_string RE_Timeout = ''Timeout''"
| "error_code_to_string RE_InternalError = ''InternalError''"
| "error_code_to_string RE_IOError = ''IOError''"

record RaftError =
  re_code :: RaftErrorCode
  re_message :: string

definition raft_error :: "RaftErrorCode \<Rightarrow> string \<Rightarrow> RaftError" where
  "raft_error code message = \<lparr> re_code = code, re_message = message \<rparr>"

record NodeConfig =
  nc_node_id :: NodeId
  nc_peers :: "NodeId list"
  nc_election_timeout_ms :: uint64
  nc_heartbeat_interval_ms :: uint64
  nc_group_range :: ScanRange
  nc_snapshot_entries_threshold :: uint64
  nc_group_id :: uint64

text \<open>A completion is shared by pointer; it is the address of a cell, which only the first call of \<^verbatim>\<open>finish\<close> writes.\<close>

record Completion =
  cp_done :: bool
  cp_error :: "RaftError option"
  cp_result :: bytes

definition new_completion :: Completion where
  "new_completion = \<lparr> cp_done = False, cp_error = None, cp_result = [] \<rparr>"

definition finish :: "RaftError option \<Rightarrow> bytes \<Rightarrow> Completion \<Rightarrow> Completion" where
  "finish error result c = (if cp_done c then c else \<lparr> cp_done = True, cp_error = error, cp_result = result \<rparr>)"

record Proposal =
  pr_index :: uint64
  pr_term :: uint64
  pr_data :: bytes
  pr_committed :: bool
  pr_apply_result :: bytes
  pr_completion :: nat

record ReadIndex =
  ri_index :: uint64
  ri_term :: uint64
  ri_completion :: nat

section \<open>Messages\<close>

record RequestVoteRequest =
  rv_term :: uint64
  rv_candidate_id :: NodeId
  rv_last_log_index :: uint64
  rv_last_log_term :: uint64

record RequestVoteResponse =
  rvr_term :: uint64
  rvr_vote_granted :: bool

record AppendEntriesRequest =
  ae_term :: uint64
  ae_leader_id :: NodeId
  ae_prev_log_index :: uint64
  ae_prev_log_term :: uint64
  ae_entries :: "LogEntry list"
  ae_leader_commit :: uint64
  ae_round :: uint64

record AppendEntriesResponse =
  aer_term :: uint64
  aer_success :: bool
  aer_match_index :: uint64
  aer_round :: uint64
  aer_hint_last_index :: uint64

record InstallSnapshotRequest =
  is_term :: uint64
  is_leader_id :: NodeId
  is_last_included_index :: uint64
  is_last_included_term :: uint64
  is_offset :: uint64
  is_done :: bool
  is_data :: bytes

record InstallSnapshotResponse =
  isr_term :: uint64
  isr_success :: bool

datatype Message =
    RequestVote RequestVoteRequest
  | RequestVoteReply RequestVoteResponse
  | AppendEntries AppendEntriesRequest
  | AppendEntriesReply AppendEntriesResponse
  | InstallSnapshot InstallSnapshotRequest
  | InstallSnapshotReply InstallSnapshotResponse

section \<open>Interfaces\<close>

record SnapshotMetadata =
  sm_last_included_index :: uint64
  sm_last_included_term :: uint64

text \<open>A call that can fail returns an error or nothing, with the new state.\<close>

record 's LogStore =
  ls_append :: "LogEntry \<Rightarrow> 's \<Rightarrow> RaftError option \<times> 's"
  ls_at :: "'s \<Rightarrow> uint64 \<Rightarrow> RaftError + LogEntry"
  ls_truncate_suffix :: "uint64 \<Rightarrow> 's \<Rightarrow> RaftError option \<times> 's"
  ls_save_hard_state :: "HardState \<Rightarrow> 's \<Rightarrow> RaftError option \<times> 's"
  ls_load_hard_state :: "'s \<Rightarrow> RaftError + HardState"
  ls_last_index :: "'s \<Rightarrow> RaftError + uint64"
  ls_snapshot_metadata :: "'s \<Rightarrow> RaftError + SnapshotMetadata"
  ls_install_snapshot :: "SnapshotMetadata \<Rightarrow> 's \<Rightarrow> RaftError option \<times> 's"

record 'm StateMachine =
  st_apply :: "LogEntry \<Rightarrow> 'm \<Rightarrow> (RaftError + bytes) \<times> 'm"
  st_snapshot :: "ScanRange \<Rightarrow> 'm \<Rightarrow> RaftError + bytes"
  st_restore :: "ScanRange \<Rightarrow> bytes \<Rightarrow> 'm \<Rightarrow> RaftError option \<times> 'm"

section \<open>The log store in memory\<close>

record MemoryLogStore =
  ms_entries :: "LogEntry list"
  ms_last_index :: uint64
  ms_snapshot_meta :: SnapshotMetadata
  ms_hard_state :: HardState
  ms_hard_state_writes :: nat

definition memory_log_store :: MemoryLogStore where
  "memory_log_store = \<lparr> ms_entries = [], ms_last_index = kInvalidIndex,
     ms_snapshot_meta = \<lparr> sm_last_included_index = 0, sm_last_included_term = 0 \<rparr>,
     ms_hard_state = \<lparr> hs_term = 0, hs_voted_for = None \<rparr>, ms_hard_state_writes = 0 \<rparr>"

abbreviation ms_included :: "MemoryLogStore \<Rightarrow> uint64" where
  "ms_included s \<equiv> sm_last_included_index (ms_snapshot_meta s)"

definition mem_append :: "LogEntry \<Rightarrow> MemoryLogStore \<Rightarrow> RaftError option \<times> MemoryLogStore" where
  "mem_append entry s =
     (if le_index entry = kInvalidIndex \<or> le_term entry = 0
      then (Some (raft_error RE_InvalidArgument ''invalid log entry''), s)
      else if le_index entry \<noteq> ms_last_index s + 1
      then (Some (raft_error RE_InvalidArgument ''append must extend the log by exactly one entry''), s)
      else (None, s\<lparr>ms_entries := ms_entries s @ [entry], ms_last_index := le_index entry\<rparr>))"

definition mem_at :: "MemoryLogStore \<Rightarrow> uint64 \<Rightarrow> RaftError + LogEntry" where
  "mem_at s index =
     (if index = kInvalidIndex \<or> index > ms_last_index s
      then Inl (raft_error RE_InvalidArgument ''log index out of range'')
      else if index < ms_included s
      then Inl (raft_error RE_InvalidArgument ''log index is inside the compacted snapshot prefix'')
      else if index = ms_included s
      then Inr \<lparr> le_index = index, le_term = sm_last_included_term (ms_snapshot_meta s), le_data = [] \<rparr>
      else Inr (ms_entries s ! unat (index - 1 - ms_included s)))"

definition mem_truncate_suffix :: "uint64 \<Rightarrow> MemoryLogStore \<Rightarrow> RaftError option \<times> MemoryLogStore" where
  "mem_truncate_suffix start s =
     (if start = kInvalidIndex \<or> start \<le> ms_included s \<or> start > ms_last_index s + 1
      then (Some (raft_error RE_InvalidArgument ''truncate suffix out of range''), s)
      else (None, s\<lparr>ms_entries := take (unat (start - 1 - ms_included s)) (ms_entries s), ms_last_index := start - 1\<rparr>))"

definition mem_save_hard_state :: "HardState \<Rightarrow> MemoryLogStore \<Rightarrow> RaftError option \<times> MemoryLogStore" where
  "mem_save_hard_state h s = (None, s\<lparr>ms_hard_state := h, ms_hard_state_writes := ms_hard_state_writes s + 1\<rparr>)"

definition mem_install_snapshot :: "SnapshotMetadata \<Rightarrow> MemoryLogStore \<Rightarrow> RaftError option \<times> MemoryLogStore" where
  "mem_install_snapshot meta s =
     (if sm_last_included_index meta = kInvalidIndex \<or> sm_last_included_term meta = 0
      then (Some (raft_error RE_InvalidArgument ''invalid snapshot metadata''), s)
      else (None, s\<lparr>ms_entries := dropWhile (\<lambda>e. le_index e \<le> sm_last_included_index meta) (ms_entries s),
              ms_snapshot_meta := meta,
              ms_last_index := (if ms_last_index s < sm_last_included_index meta then sm_last_included_index meta
                                else ms_last_index s)\<rparr>))"

definition memory_store :: "MemoryLogStore LogStore" where
  "memory_store = \<lparr> ls_append = mem_append, ls_at = mem_at, ls_truncate_suffix = mem_truncate_suffix,
     ls_save_hard_state = mem_save_hard_state, ls_load_hard_state = Inr \<circ> ms_hard_state,
     ls_last_index = Inr \<circ> ms_last_index, ls_snapshot_metadata = Inr \<circ> ms_snapshot_meta,
     ls_install_snapshot = mem_install_snapshot \<rparr>"

end
