(* ===== verification/Wire_Codec.thy ===== *)
theory Wire_Codec imports Prelude begin

text \<open>
  Readers of binary formats. The formats of the replication layer, of the log on disk and of the client protocol are
  read by functions that keep a position in a string. A reader is here a function of the unread bytes, which returns
  the value with the bytes left unread, or an error.

  The locale \<open>wire_field\<close> is the contract of a field that can be read back; \<open>wire_format\<close> adds that only written fields
  are read. The loop that reads a counted sequence of fields is verified inside them.
\<close>

named_theorems wire_simps

type_synonym ('e, 'a) reader = "bytes \<Rightarrow> 'e + 'a \<times> bytes"

definition rd_return :: "'a \<Rightarrow> ('e, 'a) reader" where
  "rd_return x bs = Inr (x, bs)"

definition rd_fail :: "'e \<Rightarrow> ('e, 'a) reader" where
  "rd_fail e bs = Inl e"

definition rd_bind :: "('e, 'a) reader \<Rightarrow> ('a \<Rightarrow> ('e, 'b) reader) \<Rightarrow> ('e, 'b) reader" where
  "rd_bind d f bs = (case d bs of Inl e \<Rightarrow> Inl e | Inr (x, bs') \<Rightarrow> f x bs')"

text \<open>A group of reads whose failures are all reported as one error.\<close>

definition rd_label :: "'e \<Rightarrow> ('e, 'a) reader \<Rightarrow> ('e, 'a) reader" where
  "rd_label e d bs = (case d bs of Inl _ \<Rightarrow> Inl e | Inr r \<Rightarrow> Inr r)"

definition rd_be :: "nat \<Rightarrow> 'e \<Rightarrow> ('e, 'w::len word) reader" where
  "rd_be n e bs = (if length bs < n then Inl e else Inr (be_word n bs, drop n bs))"

definition le_bytes :: "nat \<Rightarrow> 'w::len word \<Rightarrow> bytes" where
  "le_bytes n v = rev (be_bytes n v)"

definition rd_le :: "nat \<Rightarrow> 'e \<Rightarrow> ('e, 'w::len word) reader" where
  "rd_le n e bs = (if length bs < n then Inl e else Inr (be_word n (rev (take n bs)), drop n bs))"

definition rd_take :: "nat \<Rightarrow> 'e \<Rightarrow> ('e, bytes) reader" where
  "rd_take n e bs = (if length bs < n then Inl e else Inr (take n bs, drop n bs))"

definition rd_sized :: "('e, 'w::len word) reader \<Rightarrow> 'e \<Rightarrow> ('e, bytes) reader" where
  "rd_sized d e = rd_bind d (\<lambda>n. rd_take (unat n) e)"

fun rd_many :: "('e, 'a) reader \<Rightarrow> nat \<Rightarrow> ('e, 'a list) reader" where
  "rd_many d 0 = rd_return []"
| "rd_many d (Suc n) = rd_bind d (\<lambda>x. rd_bind (rd_many d n) (\<lambda>xs. rd_return (x # xs)))"

section \<open>What a successful read says about the bytes\<close>

lemma rd_return_Inr [wire_simps]: "rd_return x bs = Inr (y, rest) \<longleftrightarrow> x = y \<and> bs = rest"
  by (auto simp: rd_return_def)

lemma rd_fail_Inr [wire_simps]: "rd_fail e bs \<noteq> Inr r"
  by (simp add: rd_fail_def)

lemma rd_bind_Inr [wire_simps]:
  "rd_bind d f bs = Inr (y, rest) \<longleftrightarrow> (\<exists>x bs'. d bs = Inr (x, bs') \<and> f x bs' = Inr (y, rest))"
  by (auto simp: rd_bind_def split: sum.splits)

lemma rd_label_Inr [wire_simps]: "rd_label e d bs = Inr r \<longleftrightarrow> d bs = Inr r"
  by (auto simp: rd_label_def split: sum.splits)

lemma rd_be_Inr:
  assumes "8 * n = LENGTH('w)"
  shows "rd_be n e bs = Inr (v :: 'w::len word, rest) \<longleftrightarrow> bs = be_bytes n v @ rest"
proof
  assume r: "rd_be n e bs = Inr (v, rest)"
  then have "n \<le> length bs" "v = be_word n bs" "rest = drop n bs" by (auto simp: rd_be_def split: if_splits)
  moreover have "be_word n bs = (be_word n (take n bs) :: 'w word)"
    by (auto simp: be_word_def intro!: fold_cong)
  moreover have "be_bytes n (be_word n (take n bs) :: 'w word) = take n bs"
    using assms \<open>n \<le> length bs\<close> by (intro be_bytes_be_word) simp_all
  ultimately show "bs = be_bytes n v @ rest" by simp
qed (simp add: rd_be_def assms)

lemma rd_le_Inr:
  assumes "8 * n = LENGTH('w)"
  shows "rd_le n e bs = Inr (v :: 'w::len word, rest) \<longleftrightarrow> bs = le_bytes n v @ rest"
proof
  assume r: "rd_le n e bs = Inr (v, rest)"
  then have "n \<le> length bs" "v = be_word n (rev (take n bs))" "rest = drop n bs" by (auto simp: rd_le_def split: if_splits)
  moreover have "be_bytes n (be_word n (rev (take n bs)) :: 'w word) = rev (take n bs)"
    using assms \<open>n \<le> length bs\<close> by (intro be_bytes_be_word) simp_all
  ultimately show "bs = le_bytes n v @ rest" by (simp add: le_bytes_def)
next
  have "be_word n (be_bytes n v) = v" using be_word_be_bytes[of n v "[]"] assms by simp
  moreover assume "bs = le_bytes n v @ rest"
  ultimately show "rd_le n e bs = Inr (v, rest)" by (simp add: rd_le_def le_bytes_def)
qed

lemma rd_take_Inr [wire_simps]: "rd_take n e bs = Inr (s, rest) \<longleftrightarrow> length s = n \<and> bs = s @ rest"
  by (auto simp: rd_take_def)

lemma rd_words_Inr [wire_simps]:
  "rd_be 1 e bs = Inr (a :: 8 word, rest) \<longleftrightarrow> bs = a # rest"
  "rd_be 4 e bs = Inr (b :: 32 word, rest) \<longleftrightarrow> bs = be_bytes 4 b @ rest"
  "rd_be 8 e bs = Inr (c :: 64 word, rest) \<longleftrightarrow> bs = be_bytes 8 c @ rest"
  "rd_le 2 e bs = Inr (d :: 16 word, rest) \<longleftrightarrow> bs = le_bytes 2 d @ rest"
  "rd_le 4 e bs = Inr (b :: 32 word, rest) \<longleftrightarrow> bs = le_bytes 4 b @ rest"
  "rd_le 8 e bs = Inr (c :: 64 word, rest) \<longleftrightarrow> bs = le_bytes 8 c @ rest"
  by (simp_all add: rd_be_Inr rd_le_Inr, simp add: be_bytes_def)

lemmas rd_byte_Inr [wire_simps] = rd_words_Inr(1)[unfolded One_nat_def]

lemma rd_sized_Inr:
  assumes "\<And>v bs rest. d bs = Inr (v, rest) \<longleftrightarrow> bs = enc v @ rest"
  shows "rd_sized d e bs = Inr (s, rest) \<longleftrightarrow>
    length s < 2 ^ LENGTH('w) \<and> bs = enc (of_nat (length s) :: 'w::len word) @ s @ rest"
proof
  assume "rd_sized d e bs = Inr (s, rest)"
  then obtain v where v: "bs = enc v @ s @ rest" "length s = unat v"
    by (auto simp: rd_sized_def wire_simps assms)
  then show "length s < 2 ^ LENGTH('w) \<and> bs = enc (of_nat (length s) :: 'w word) @ s @ rest"
    by simp
next
  assume a: "length s < 2 ^ LENGTH('w) \<and> bs = enc (of_nat (length s) :: 'w word) @ s @ rest"
  then have "unat (of_nat (length s) :: 'w word) = length s" by (simp add: unsigned_of_nat take_bit_nat_eq_self)
  then show "rd_sized d e bs = Inr (s, rest)" using a by (auto simp: rd_sized_def wire_simps assms)
qed

lemma rd_bytes_Inr [wire_simps]:
  "rd_sized (rd_be 8 e :: ('e, 64 word) reader) e' bs = Inr (s, rest) \<longleftrightarrow>
     length s < 2 ^ 64 \<and> bs = be_bytes 8 (of_nat (length s) :: 64 word) @ s @ rest"
  "rd_sized (rd_le 4 e :: ('e, 32 word) reader) e' bs = Inr (s, rest) \<longleftrightarrow>
     length s < 2 ^ 32 \<and> bs = le_bytes 4 (of_nat (length s) :: 32 word) @ s @ rest"
  "rd_sized (rd_le 2 e :: ('e, 16 word) reader) e' bs = Inr (s, rest) \<longleftrightarrow>
     length s < 2 ^ 16 \<and> bs = le_bytes 2 (of_nat (length s) :: 16 word) @ s @ rest"
  by (subst rd_sized_Inr[where enc = "be_bytes 8"] rd_sized_Inr[where enc = "le_bytes 4"] rd_sized_Inr[where enc = "le_bytes 2"];
      simp add: wire_simps)+

section \<open>Fields\<close>

locale wire_field =
  fixes enc :: "'a \<Rightarrow> bytes" and dec :: "('e, 'a) reader" and fits :: "'a \<Rightarrow> bool"
  assumes dec_enc: "fits x \<Longrightarrow> dec (enc x @ rest) = Inr (x, rest)"
begin

lemma many_enc: "list_all fits xs \<Longrightarrow> rd_many dec (length xs) (concat (map enc xs) @ rest) = Inr (xs, rest)"
  by (induction xs) (auto simp: rd_bind_def rd_return_def dec_enc)

end

locale wire_format = wire_field +
  assumes enc_dec: "dec bs = Inr (x, rest) \<Longrightarrow> fits x \<and> bs = enc x @ rest"
begin

lemma many_iff: "rd_many dec n bs = Inr (xs, rest) \<longleftrightarrow> length xs = n \<and> list_all fits xs \<and> bs = concat (map enc xs) @ rest"
proof
  show "length xs = n \<and> list_all fits xs \<and> bs = concat (map enc xs) @ rest" if "rd_many dec n bs = Inr (xs, rest)"
    using that by (induction n arbitrary: bs xs) (auto simp: wire_simps dest!: enc_dec)
qed (auto simp: many_enc)

end

end
