(* ===== verification/Raft_Codec.thy ===== *)
theory Raft_Codec imports Raft_Log Wire_Codec Temporal begin

text \<open>
  The wire format of raft messages (\<^verbatim>\<open>raft/message_codec.cpp\<close>), the frames they travel in, and the receiving side of a
  connection between two nodes (\<^verbatim>\<open>raft/tcp_transport.cpp\<close>). The sockets and threads of the transport are left out: a
  connection is the list of the chunks that its reads return.
\<close>

section \<open>Fields\<close>

definition message_truncated :: "string \<Rightarrow> RaftError" where
  "message_truncated what = raft_error RE_InvalidArgument (''truncated raft message while reading '' @ what)"

definition message_malformed :: "string \<Rightarrow> RaftError" where
  "message_malformed what = raft_error RE_InvalidArgument (''malformed raft message: '' @ what)"

definition number_text :: "nat \<Rightarrow> string" where
  "number_text n = map (\<lambda>b. char_of (unat b)) (decimal_digits n)"

definition mc_put_bytes :: "bytes \<Rightarrow> bytes" where
  "mc_put_bytes value = be_bytes 8 (of_nat (length value) :: uint64) @ value"

definition mc_put_bool :: "bool \<Rightarrow> bytes" where
  "mc_put_bool b = [if b then 1 else 0]"

definition mc_read_u8 :: "(RaftError, byte) reader" where
  "mc_read_u8 = rd_be 1 (message_truncated ''u8'')"

definition mc_read_u64 :: "(RaftError, uint64) reader" where
  "mc_read_u64 = rd_be 8 (message_truncated ''u64'')"

definition mc_read_u32 :: "(RaftError, uint32) reader" where
  "mc_read_u32 = rd_be 4 (message_truncated ''u32'')"

definition mc_read_bytes :: "(RaftError, bytes) reader" where
  "mc_read_bytes = rd_sized mc_read_u64 (message_truncated ''byte string'')"

definition mc_read_bool :: "(RaftError, bool) reader" where
  "mc_read_bool = rd_bind mc_read_u8 (\<lambda>v.
     if v > 1 then rd_fail (message_malformed ''boolean must be 0 or 1'') else rd_return (v = 1))"

definition put_entry :: "LogEntry \<Rightarrow> bytes" where
  "put_entry e = be_bytes 8 (le_index e) @ be_bytes 8 (le_term e) @ mc_put_bytes (le_data e)"

definition read_entry :: "(RaftError, LogEntry) reader" where
  "read_entry = rd_label (message_truncated ''AppendEntriesRequest entry'')
     (rd_bind mc_read_u64 (\<lambda>i. rd_bind mc_read_u64 (\<lambda>t. rd_bind mc_read_bytes (\<lambda>d.
       rd_return \<lparr> le_index = i, le_term = t, le_data = d \<rparr>))))"

section \<open>Messages\<close>

definition kMessageVersion :: byte where "kMessageVersion = 3"
definition kMaxFrameBytes :: uint32 where "kMaxFrameBytes = 64 * 1024 * 1024"

fun encode_body :: "Message \<Rightarrow> bytes" where
  "encode_body (RequestVote r) =
     1 # be_bytes 8 (rv_term r) @ be_bytes 8 (rv_candidate_id r) @ be_bytes 8 (rv_last_log_index r) @ be_bytes 8 (rv_last_log_term r)"
| "encode_body (RequestVoteReply r) = 2 # be_bytes 8 (rvr_term r) @ mc_put_bool (rvr_vote_granted r)"
| "encode_body (AppendEntries r) =
     3 # be_bytes 8 (ae_term r) @ be_bytes 8 (ae_leader_id r) @ be_bytes 8 (ae_prev_log_index r) @ be_bytes 8 (ae_prev_log_term r) @
       be_bytes 8 (ae_leader_commit r) @ be_bytes 8 (ae_round r) @
       be_bytes 8 (of_nat (length (ae_entries r)) :: uint64) @ concat (map put_entry (ae_entries r))"
| "encode_body (AppendEntriesReply r) =
     4 # be_bytes 8 (aer_term r) @ mc_put_bool (aer_success r) @ be_bytes 8 (aer_match_index r) @ be_bytes 8 (aer_round r) @
       be_bytes 8 (aer_hint_last_index r)"
| "encode_body (InstallSnapshot r) =
     5 # be_bytes 8 (is_term r) @ be_bytes 8 (is_leader_id r) @ be_bytes 8 (is_last_included_index r) @
       be_bytes 8 (is_last_included_term r) @ be_bytes 8 (is_offset r) @ mc_put_bool (is_done r) @ mc_put_bytes (is_data r)"
| "encode_body (InstallSnapshotReply r) = 6 # be_bytes 8 (isr_term r) @ mc_put_bool (isr_success r)"

definition encode_message :: "uint64 \<Rightarrow> Message \<Rightarrow> bytes" where
  "encode_message group_id message = kMessageVersion # be_bytes 8 group_id @ encode_body message"

definition read_request_vote :: "(RaftError, Message) reader" where
  "read_request_vote = rd_label (message_truncated ''RequestVoteRequest'')
     (rd_bind mc_read_u64 (\<lambda>t. rd_bind mc_read_u64 (\<lambda>c. rd_bind mc_read_u64 (\<lambda>i. rd_bind mc_read_u64 (\<lambda>lt.
       rd_return (RequestVote \<lparr> rv_term = t, rv_candidate_id = c, rv_last_log_index = i, rv_last_log_term = lt \<rparr>))))))"

definition read_request_vote_reply :: "(RaftError, Message) reader" where
  "read_request_vote_reply = rd_label (message_truncated ''RequestVoteResponse'')
     (rd_bind mc_read_u64 (\<lambda>t. rd_bind mc_read_bool (\<lambda>g.
       rd_return (RequestVoteReply \<lparr> rvr_term = t, rvr_vote_granted = g \<rparr>))))"

text \<open>The count of entries is compared with the size of the whole payload.\<close>

definition read_append_header :: "(RaftError, uint64 \<times> uint64 \<times> uint64 \<times> uint64 \<times> uint64 \<times> uint64 \<times> uint64) reader" where
  "read_append_header = rd_label (message_truncated ''AppendEntriesRequest'')
     (rd_bind mc_read_u64 (\<lambda>t. rd_bind mc_read_u64 (\<lambda>l. rd_bind mc_read_u64 (\<lambda>pi. rd_bind mc_read_u64 (\<lambda>pt.
      rd_bind mc_read_u64 (\<lambda>c. rd_bind mc_read_u64 (\<lambda>r. rd_bind mc_read_u64 (\<lambda>n. rd_return (t, l, pi, pt, c, r, n)))))))))"

definition read_append_entries :: "nat \<Rightarrow> (RaftError, Message) reader" where
  "read_append_entries payload_size = rd_bind read_append_header (\<lambda>(t, l, pi, pt, c, r, n).
     if unat n > payload_size then rd_fail (message_malformed ''entry count exceeds payload size'')
     else rd_bind (rd_many read_entry (unat n)) (\<lambda>es.
       rd_return (AppendEntries \<lparr> ae_term = t, ae_leader_id = l, ae_prev_log_index = pi, ae_prev_log_term = pt,
         ae_entries = es, ae_leader_commit = c, ae_round = r \<rparr>)))"

definition read_append_entries_reply :: "(RaftError, Message) reader" where
  "read_append_entries_reply = rd_label (message_truncated ''AppendEntriesResponse'')
     (rd_bind mc_read_u64 (\<lambda>t. rd_bind mc_read_bool (\<lambda>s. rd_bind mc_read_u64 (\<lambda>m. rd_bind mc_read_u64 (\<lambda>r. rd_bind mc_read_u64 (\<lambda>h.
       rd_return (AppendEntriesReply \<lparr> aer_term = t, aer_success = s, aer_match_index = m, aer_round = r, aer_hint_last_index = h \<rparr>)))))))"

definition read_install_snapshot :: "(RaftError, Message) reader" where
  "read_install_snapshot = rd_label (message_truncated ''InstallSnapshotRequest'')
     (rd_bind mc_read_u64 (\<lambda>t. rd_bind mc_read_u64 (\<lambda>l. rd_bind mc_read_u64 (\<lambda>i. rd_bind mc_read_u64 (\<lambda>it. rd_bind mc_read_u64 (\<lambda>off.
      rd_bind mc_read_bool (\<lambda>d. rd_bind mc_read_bytes (\<lambda>data.
       rd_return (InstallSnapshot \<lparr> is_term = t, is_leader_id = l, is_last_included_index = i, is_last_included_term = it,
         is_offset = off, is_done = d, is_data = data \<rparr>)))))))))"

definition read_install_snapshot_reply :: "(RaftError, Message) reader" where
  "read_install_snapshot_reply = rd_label (message_truncated ''InstallSnapshotResponse'')
     (rd_bind mc_read_u64 (\<lambda>t. rd_bind mc_read_bool (\<lambda>s. rd_return (InstallSnapshotReply \<lparr> isr_term = t, isr_success = s \<rparr>))))"

definition read_body :: "nat \<Rightarrow> byte \<Rightarrow> (RaftError, Message) reader" where
  "read_body payload_size type =
     (if type = 1 then read_request_vote else if type = 2 then read_request_vote_reply
      else if type = 3 then read_append_entries payload_size else if type = 4 then read_append_entries_reply
      else if type = 5 then read_install_snapshot else if type = 6 then read_install_snapshot_reply
      else rd_fail (message_malformed (''unknown message type '' @ number_text (unat type))))"

definition decode_message :: "bytes \<Rightarrow> RaftError + uint64 \<times> Message" where
  "decode_message payload =
     (case rd_bind mc_read_u8 (\<lambda>version.
        if version \<noteq> kMessageVersion
        then rd_fail (message_malformed (''unsupported version '' @ number_text (unat version)))
        else rd_bind mc_read_u64 (\<lambda>group_id. rd_bind mc_read_u8 (\<lambda>type.
          rd_bind (read_body (length payload) type) (\<lambda>m. rd_return (group_id, m))))) payload of
        Inl e \<Rightarrow> Inl e
      | Inr (r, rest) \<Rightarrow> if rest \<noteq> [] then Inl (message_malformed ''trailing bytes'') else Inr r)"

section \<open>Frames\<close>

definition frame_payload :: "bytes \<Rightarrow> bytes" where
  "frame_payload payload = be_bytes 4 (of_nat (length payload) :: uint32) @ payload"

definition unframe_payload :: "bytes \<Rightarrow> RaftError + bytes" where
  "unframe_payload frame =
     (case mc_read_u32 frame of
        Inl e \<Rightarrow> Inl e
      | Inr (frame_size, rest) \<Rightarrow>
          if length rest \<noteq> unat frame_size
          then Inl (message_malformed (''frame size '' @ number_text (unat frame_size) @ '' does not match '' @
                 number_text (length rest) @ '' bytes of payload''))
          else Inr rest)"

definition encode_frame :: "uint64 \<Rightarrow> Message \<Rightarrow> bytes" where
  "encode_frame group_id message = frame_payload (encode_message group_id message)"

definition decode_frame :: "bytes \<Rightarrow> RaftError + uint64 \<times> Message" where
  "decode_frame frame = (case unframe_payload frame of Inl e \<Rightarrow> Inl e | Inr payload \<Rightarrow> decode_message payload)"

record FrameDecoder =
  fd_buffer :: bytes
  fd_consumed :: nat

definition frame_decoder :: FrameDecoder where
  "frame_decoder = \<lparr> fd_buffer = [], fd_consumed = 0 \<rparr>"

definition fd_append :: "bytes \<Rightarrow> FrameDecoder \<Rightarrow> FrameDecoder" where
  "fd_append bs d = d\<lparr>fd_buffer := fd_buffer d @ bs\<rparr>"

definition fd_next :: "FrameDecoder \<Rightarrow> RaftError + bytes option \<times> FrameDecoder" where
  "fd_next d =
     (let pending = drop (fd_consumed d) (fd_buffer d)
      in if length pending < 4 then Inr (None, d)
         else case mc_read_u32 pending of
           Inl e \<Rightarrow> Inl e
         | Inr (frame_size, rest) \<Rightarrow>
             if frame_size > kMaxFrameBytes
             then Inl (message_malformed (''frame size '' @ number_text (unat frame_size) @ '' exceeds the limit''))
             else if length rest < unat frame_size then Inr (None, d)
             else
               let d' = d\<lparr>fd_consumed := fd_consumed d + 4 + unat frame_size\<rparr>
               in Inr (Some (take (unat frame_size) rest),
                    if fd_consumed d' = length (fd_buffer d') then frame_decoder else d'))"

section \<open>The receiving side of a connection\<close>

definition encode_hello :: "NodeId \<Rightarrow> bytes" where
  "encode_hello node_id = 1 # be_bytes 8 node_id"

definition decode_hello :: "bytes \<Rightarrow> string + NodeId" where
  "decode_hello payload =
     (if length payload \<noteq> 9 \<or> hd payload \<noteq> 1 then Inl ''invalid raft handshake frame''
      else let node_id = be_word 8 (tl payload)
           in if node_id = 0 then Inl ''raft handshake carries node id 0'' else Inr node_id)"

text \<open>The variables of the receiving coroutine, and the calls of \<^verbatim>\<open>deliver\<close> and the counted errors.\<close>

record Inbound =
  in_decoder :: FrameDecoder
  in_peer :: "NodeId option"
  in_delivered :: "(uint64 \<times> NodeId \<times> Message) list"
  in_errors :: nat

definition inbound :: Inbound where
  "inbound = \<lparr> in_decoder = frame_decoder, in_peer = None, in_delivered = [], in_errors = 0 \<rparr>"

definition rejected :: "Inbound \<Rightarrow> bool \<times> Inbound" where
  "rejected c = (True, c\<lparr>in_errors := in_errors c + 1\<rparr>)"

text \<open>One frame: the handshake, or a message to deliver. The flag is \<^verbatim>\<open>fatal\<close>.\<close>

definition take_frame :: "NodeId \<Rightarrow> bytes \<Rightarrow> Inbound \<Rightarrow> bool \<times> Inbound" where
  "take_frame self frame c =
     (case in_peer c of
        None \<Rightarrow>
          (case decode_hello frame of
             Inl _ \<Rightarrow> rejected c
           | Inr hello \<Rightarrow> if hello = self then rejected c else (False, c\<lparr>in_peer := Some hello\<rparr>))
      | Some peer \<Rightarrow>
          (case decode_message frame of
             Inl _ \<Rightarrow> rejected c
           | Inr (group_id, message) \<Rightarrow> (False, c\<lparr>in_delivered := in_delivered c @ [(group_id, peer, message)]\<rparr>)))"

lemma fd_next_progress:
  assumes "fd_next d = Inr (Some frame, d')"
  shows "length (drop (fd_consumed d') (fd_buffer d')) < length (drop (fd_consumed d) (fd_buffer d))"
  using assms by (auto simp: fd_next_def Let_def frame_decoder_def split: if_splits sum.splits)

lemma take_frame_decoder: "take_frame self frame c = (b, c') \<Longrightarrow> in_decoder c' = in_decoder c"
  by (auto simp: take_frame_def rejected_def split: option.splits sum.splits if_splits)

function take_frames :: "NodeId \<Rightarrow> Inbound \<Rightarrow> bool \<times> Inbound" where
  "take_frames self c =
     (case fd_next (in_decoder c) of
        Inl _ \<Rightarrow> rejected c
      | Inr (None, d) \<Rightarrow> (False, c\<lparr>in_decoder := d\<rparr>)
      | Inr (Some frame, d) \<Rightarrow>
          (case take_frame self frame (c\<lparr>in_decoder := d\<rparr>) of
             (True, c) \<Rightarrow> (True, c)
           | (False, c) \<Rightarrow> take_frames self c))"
  by pat_completeness auto

termination
  by (relation "measure (\<lambda>(self, c). length (drop (fd_consumed (in_decoder c)) (fd_buffer (in_decoder c))))")
    (auto dest!: take_frame_decoder[OF sym] fd_next_progress)

declare take_frames.simps [simp del]

text \<open>
  The loop over reads. The chunks are those that the loop reads: it also ends when the peer closes the connection (an empty read) and
  when the transport or the connection is found stopping before a read, which is the end of the list. \<^term>\<open>in_delivered\<close> has the
  arguments of the calls of \<^verbatim>\<open>deliver\<close>; what that does with a message, to run the callback of its group on the group's executor, or
  to drop it when there is no callback or the executor takes no more work, is outside of the loop.
\<close>

fun handle_inbound :: "NodeId \<Rightarrow> bytes list \<Rightarrow> Inbound \<Rightarrow> Inbound" where
  "handle_inbound self [] c = c"
| "handle_inbound self (chunk # chunks) c =
     (if chunk = [] then c
      else case take_frames self (c\<lparr>in_decoder := fd_append chunk (in_decoder c)\<rparr>) of
        (True, c) \<Rightarrow> c
      | (False, c) \<Rightarrow> handle_inbound self chunks c)"

section \<open>Decoding is the inverse of encoding\<close>

lemma mc_words_Inr [wire_simps]:
  "mc_read_u8 bs = Inr (a, rest) \<longleftrightarrow> bs = a # rest"
  "mc_read_u32 bs = Inr (b, rest) \<longleftrightarrow> bs = be_bytes 4 b @ rest"
  "mc_read_u64 bs = Inr (c, rest) \<longleftrightarrow> bs = be_bytes 8 c @ rest"
  "mc_read_bytes bs = Inr (d, rest) \<longleftrightarrow> length d < 2 ^ 64 \<and> bs = mc_put_bytes d @ rest"
  by (simp_all add: mc_read_u8_def mc_read_u32_def mc_read_u64_def mc_read_bytes_def mc_put_bytes_def wire_simps
      rd_words_Inr(1)[unfolded One_nat_def])

lemma byte_bool: "\<not> (v :: byte) > 1 \<longleftrightarrow> v = 0 \<or> v = 1"
proof -
  have "\<not> v > 1 \<longleftrightarrow> unat v \<le> 1" by (simp add: word_less_nat_alt not_less)
  also have "\<dots> \<longleftrightarrow> unat v = unat (0 :: byte) \<or> unat v = unat (1 :: byte)" by auto
  finally show ?thesis by (simp only: word_unat_eq_iff)
qed

lemma mc_read_bool_Inr [wire_simps]: "mc_read_bool bs = Inr (b, rest) \<longleftrightarrow> bs = mc_put_bool b @ rest"
proof -
  have "mc_read_bool bs = Inr (b, rest) \<longleftrightarrow> (\<exists>v. bs = v # rest \<and> \<not> v > 1 \<and> b = (v = 1))"
    by (auto simp: mc_read_bool_def rd_bind_Inr mc_words_Inr rd_fail_Inr rd_return_Inr split: if_splits)
  also have "\<dots> \<longleftrightarrow> bs = mc_put_bool b @ rest" unfolding byte_bool by (auto simp: mc_put_bool_def)
  finally show ?thesis .
qed

lemma mc_put_bool_inj [simp]:
  "mc_put_bool b = mc_put_bool c \<longleftrightarrow> b = c" "mc_put_bool b @ r = mc_put_bool c @ r' \<longleftrightarrow> b = c \<and> r = r'"
  by (auto simp: mc_put_bool_def)

definition entry_fits :: "LogEntry \<Rightarrow> bool" where
  "entry_fits e \<longleftrightarrow> length (le_data e) < 2 ^ 64"

lemma read_entry_Inr: "read_entry bs = Inr (e, rest) \<longleftrightarrow> entry_fits e \<and> bs = put_entry e @ rest"
  by (cases e) (auto simp: read_entry_def wire_simps put_entry_def entry_fits_def)

interpretation entry_format: wire_format put_entry read_entry entry_fits
  by unfold_locales (simp_all add: read_entry_Inr)

lemmas read_entries_Inr [wire_simps] = entry_format.many_iff

fun body_fits :: "Message \<Rightarrow> bool" where
  "body_fits (AppendEntries r) \<longleftrightarrow> length (ae_entries r) < 2 ^ 64 \<and> list_all entry_fits (ae_entries r)"
| "body_fits (InstallSnapshot r) \<longleftrightarrow> length (is_data r) < 2 ^ 64"
| "body_fits m \<longleftrightarrow> True"

fun entry_count :: "Message \<Rightarrow> nat" where
  "entry_count (AppendEntries r) = length (ae_entries r)"
| "entry_count m = 0"

lemma count_word: "length xs = unat (n :: uint64) \<longleftrightarrow> length xs < 2 ^ 64 \<and> n = of_nat (length xs)"
proof
  assume a: "length xs < 2 ^ 64 \<and> n = of_nat (length xs)"
  then show "length xs = unat n" by (simp add: unsigned_of_nat take_bit_nat_eq_self)
next
  assume "length xs = unat n"
  then show "length xs < 2 ^ 64 \<and> n = of_nat (length xs)" using unsigned_less[of n, where 'a = nat] by simp
qed

lemma read_append_header_Inr:
  "read_append_header bs = Inr ((t, l, pi, pt, c, r, n), rest) \<longleftrightarrow>
     bs = be_bytes 8 t @ be_bytes 8 l @ be_bytes 8 pi @ be_bytes 8 pt @ be_bytes 8 c @ be_bytes 8 r @ be_bytes 8 n @ rest"
  by (simp add: read_append_header_def wire_simps)

lemma read_append_entries_Inr:
  "read_append_entries k bs = Inr (m, rest) \<longleftrightarrow>
     (\<exists>r. m = AppendEntries r \<and> body_fits m \<and> entry_count m \<le> k \<and> 3 # bs = encode_body m @ rest)" (is "?d \<longleftrightarrow> ?e")
proof
  assume ?d
  then obtain t l pi pt c r n es where h: "read_append_header bs = Inr ((t, l, pi, pt, c, r, n), concat (map put_entry es) @ rest)"
    "length es \<le> k" "length es = unat n" "list_all entry_fits es" "m = AppendEntries \<lparr> ae_term = t, ae_leader_id = l,
       ae_prev_log_index = pi, ae_prev_log_term = pt, ae_entries = es, ae_leader_commit = c, ae_round = r \<rparr>"
    by (auto simp: read_append_entries_def rd_bind_Inr rd_fail_Inr rd_return_Inr read_entries_Inr split: if_splits)
  have "length es < 2 ^ 64 \<and> n = of_nat (length es)" using h(3) by (simp only: count_word)
  then show ?e using h(1,2,4,5) by (auto simp: read_append_header_Inr)
next
  assume ?e
  then obtain r where r: "m = AppendEntries r" "body_fits m" "length (ae_entries r) \<le> k" "3 # bs = encode_body m @ rest" by auto
  then have "read_append_header bs = Inr ((ae_term r, ae_leader_id r, ae_prev_log_index r, ae_prev_log_term r, ae_leader_commit r,
      ae_round r, of_nat (length (ae_entries r))), concat (map put_entry (ae_entries r)) @ rest)"
    by (simp add: read_append_header_Inr)
  moreover have "unat (of_nat (length (ae_entries r)) :: uint64) = length (ae_entries r)"
    using r(1,2) count_word[of "ae_entries r" "of_nat (length (ae_entries r))"] by simp
  ultimately show ?d
    using r by (simp add: read_append_entries_def rd_bind_def entry_format.many_enc rd_return_def)
qed

lemma read_body_Inr:
  "read_body k t bs = Inr (m, rest) \<longleftrightarrow> body_fits m \<and> entry_count m \<le> k \<and> t # bs = encode_body m @ rest"
proof -
  have "read_request_vote bs = Inr (m, rest) \<longleftrightarrow> (\<exists>r. m = RequestVote r \<and> 1 # bs = encode_body m @ rest)"
    by (cases m) (auto simp: read_request_vote_def wire_simps intro: RequestVoteRequest.equality)
  moreover have "read_request_vote_reply bs = Inr (m, rest) \<longleftrightarrow> (\<exists>r. m = RequestVoteReply r \<and> 2 # bs = encode_body m @ rest)"
    by (cases m) (auto simp: read_request_vote_reply_def wire_simps intro: RequestVoteResponse.equality)
  moreover have "read_append_entries_reply bs = Inr (m, rest) \<longleftrightarrow> (\<exists>r. m = AppendEntriesReply r \<and> 4 # bs = encode_body m @ rest)"
    by (cases m) (auto simp: read_append_entries_reply_def wire_simps intro: AppendEntriesResponse.equality)
  moreover have "read_install_snapshot bs = Inr (m, rest) \<longleftrightarrow> (\<exists>r. m = InstallSnapshot r \<and> body_fits m \<and> 5 # bs = encode_body m @ rest)"
  proof (cases m)
    case (InstallSnapshot r)
    then show ?thesis by (cases r) (auto simp: read_install_snapshot_def wire_simps)
  qed (auto simp: read_install_snapshot_def wire_simps)
  moreover have "read_install_snapshot_reply bs = Inr (m, rest) \<longleftrightarrow> (\<exists>r. m = InstallSnapshotReply r \<and> 6 # bs = encode_body m @ rest)"
    by (cases m) (auto simp: read_install_snapshot_reply_def wire_simps intro: InstallSnapshotResponse.equality)
  ultimately show ?thesis
    by (cases m) (auto simp: read_body_def read_append_entries_Inr rd_fail_Inr)
qed

lemma entries_length: "length es \<le> length (concat (map put_entry es))"
  by (induction es) (auto simp: put_entry_def)

lemma whole_read:
  "(case r of Inl e \<Rightarrow> Inl e | Inr (x, rest) \<Rightarrow> if rest \<noteq> [] then Inl e' else Inr x) = Inr y \<longleftrightarrow> r = Inr (y, [])"
  by (auto split: sum.splits if_splits)

lemma decode_message_Inr: "decode_message p = Inr (g, m) \<longleftrightarrow> body_fits m \<and> p = encode_message g m"
proof -
  have "entry_count m \<le> length (encode_message g m)"
    using entries_length by (cases m) (auto simp: encode_message_def intro: order_trans[OF entries_length])
  moreover have "decode_message p = Inr (g, m) \<longleftrightarrow> (\<exists>t bs. p = kMessageVersion # be_bytes 8 g @ t # bs \<and> read_body (length p) t bs = Inr (m, []))"
    unfolding decode_message_def whole_read by (auto simp: wire_simps split: if_splits)
  moreover obtain t bs where "encode_body m = t # bs" by (cases m) auto
  ultimately show ?thesis
    by (auto simp: read_body_Inr encode_message_def)
qed

section \<open>Frames are found however the stream is cut\<close>

text \<open>The complete frames at the front of a stream, and the bytes after them.\<close>

function frames :: "bytes \<Rightarrow> bytes list \<times> bytes" where
  "frames bs =
     (let n = be_word 4 bs :: uint32
      in if length bs < 4 \<or> n > kMaxFrameBytes \<or> length bs - 4 < unat n then ([], bs)
         else case frames (drop (4 + unat n) bs) of (fs, rest) \<Rightarrow> (take (unat n) (drop 4 bs) # fs, rest))"
  by pat_completeness auto
termination by (relation "measure length") auto

declare frames.simps [simp del]

lemma be_word_append: "n \<le> length bs \<Longrightarrow> be_word n (bs @ cs) = be_word n bs"
  by (auto simp: be_word_def nth_append intro!: fold_cong)

lemma frames_append: "frames (xs @ ys) = (case frames xs of (fs, rest) \<Rightarrow> case frames (rest @ ys) of (gs, r) \<Rightarrow> (fs @ gs, r))"
proof (induction xs rule: frames.induct)
  case (1 xs)
  let ?n = "be_word 4 xs :: uint32"
  show ?case
  proof (cases "length xs < 4 \<or> ?n > kMaxFrameBytes \<or> length xs - 4 < unat ?n")
    case True
    then have "frames xs = ([], xs)" by (subst frames.simps) (simp add: Let_def)
    then show ?thesis by (simp split: prod.split)
  next
    case False
    then have w: "be_word 4 (xs @ ys) = ?n" by (simp add: be_word_append)
    have x: "frames xs = (case frames (drop (4 + unat ?n) xs) of (fs, rest) \<Rightarrow> (take (unat ?n) (drop 4 xs) # fs, rest))"
      using False by (subst frames.simps) (simp add: Let_def)
    have "frames (xs @ ys) = (case frames (drop (4 + unat ?n) xs @ ys) of (fs, rest) \<Rightarrow> (take (unat ?n) (drop 4 xs) # fs, rest))"
    proof -
      have "4 + unat ?n - length xs = 0" "\<not> length xs + length ys - 4 < unat ?n" using False by auto
      then show ?thesis using False by (subst frames.simps) (simp add: Let_def w del: diff_is_0_eq)
    qed
    then show ?thesis using 1[OF refl] False x by (simp split: prod.splits)
  qed
qed

lemma frames_payload:
  assumes "length p \<le> unat kMaxFrameBytes"
  shows "frames (frame_payload p @ rest) = (case frames rest of (fs, r) \<Rightarrow> (p # fs, r))"
proof -
  have lt: "length p < 2 ^ 32" using assms by (simp add: kMaxFrameBytes_def)
  then have u: "unat (of_nat (length p) :: uint32) = length p" by (simp add: unsigned_of_nat take_bit_nat_eq_self)
  then have "\<not> (of_nat (length p) :: uint32) > kMaxFrameBytes" using assms by (simp add: word_less_nat_alt not_less)
  then show ?thesis
    by (subst frames.simps) (simp add: frame_payload_def u Let_def)
qed

lemma frames_payloads:
  assumes "\<And>p. p \<in> set ps \<Longrightarrow> length p \<le> unat kMaxFrameBytes"
  shows "frames (concat (map frame_payload ps)) = (ps, [])"
  using assms by (induction ps) (simp_all add: frames_payload, subst frames.simps, simp)

section \<open>A connection delivers what was sent\<close>

definition pending :: "FrameDecoder \<Rightarrow> bytes" where
  "pending d = drop (fd_consumed d) (fd_buffer d)"

definition fd_ok :: "FrameDecoder \<Rightarrow> bool" where
  "fd_ok d \<longleftrightarrow> fd_consumed d \<le> length (fd_buffer d)"

definition starved :: "bytes \<Rightarrow> bool" where
  "starved bs \<longleftrightarrow> length bs < 4 \<or> (be_word 4 bs :: uint32) \<le> kMaxFrameBytes \<and> length bs - 4 < unat (be_word 4 bs :: uint32)"

lemma mc_read_u32_eq: "4 \<le> length bs \<Longrightarrow> mc_read_u32 bs = Inr (be_word 4 bs, drop 4 bs)"
  by (simp add: mc_read_u32_def rd_be_def)

lemma fd_next_starved: "starved (pending d) \<Longrightarrow> fd_next d = Inr (None, d)"
  by (auto simp: fd_next_def pending_def starved_def Let_def mc_read_u32_eq not_less split: sum.split)

lemma fd_next_frame:
  assumes "frames (pending d) = (f # fs, rest)"
  obtains d' where "fd_next d = Inr (Some f, d')" "frames (pending d') = (fs, rest)" "fd_ok d'"
proof -
  let ?n = "be_word 4 (pending d) :: uint32"
  have n: "4 \<le> length (pending d)" "?n \<le> kMaxFrameBytes" "unat ?n \<le> length (pending d) - 4"
    "f = take (unat ?n) (drop 4 (pending d))" "frames (drop (4 + unat ?n) (pending d)) = (fs, rest)"
    using assms by (subst (asm) frames.simps, auto simp: Let_def not_less split: if_splits prod.splits)+
  define d' where "d' = d\<lparr>fd_consumed := fd_consumed d + 4 + unat ?n\<rparr>"
  define d'' where "d'' = (if fd_consumed d' = length (fd_buffer d') then frame_decoder else d')"
  have "pending d' = drop (4 + unat ?n) (pending d)" by (simp add: pending_def d'_def add_ac)
  moreover have "pending d'' = pending d'" by (simp add: d''_def pending_def frame_decoder_def)
  moreover have "fd_consumed d' \<le> length (fd_buffer d')" using n(1,3) unfolding d'_def pending_def length_drop by simp
  then have "fd_ok d''" by (simp add: fd_ok_def d''_def frame_decoder_def)
  moreover have "fd_next d = Inr (Some f, d'')"
    using n(1-4) by (simp add: fd_next_def pending_def[symmetric] mc_read_u32_eq Let_def d''_def d'_def not_less[symmetric])
  ultimately show ?thesis using that n(5) by simp
qed

fun accept :: "NodeId \<Rightarrow> bytes list \<Rightarrow> Inbound \<Rightarrow> bool \<times> Inbound" where
  "accept self [] c = (False, c)"
| "accept self (f # fs) c = (case take_frame self f c of (True, c) \<Rightarrow> (True, c) | (False, c) \<Rightarrow> accept self fs c)"

lemma take_frame_any_decoder:
  "take_frame self f (c\<lparr>in_decoder := d\<rparr>) = (case take_frame self f c of (b, c') \<Rightarrow> (b, c'\<lparr>in_decoder := d\<rparr>))"
  by (auto simp: take_frame_def rejected_def split: option.split sum.split prod.split)

lemma accept_any_decoder:
  "accept self fs (c\<lparr>in_decoder := d\<rparr>) = (case accept self fs c of (b, c') \<Rightarrow> (b, c'\<lparr>in_decoder := d\<rparr>))"
  by (induction fs arbitrary: c) (auto simp: take_frame_any_decoder split: prod.split bool.split)

lemma accept_append: "accept self (fs @ gs) c = (case accept self fs c of (True, c) \<Rightarrow> (True, c) | (False, c) \<Rightarrow> accept self gs c)"
  by (induction fs arbitrary: c) (auto split: prod.split bool.split)

lemma take_frames_accept:
  assumes "frames (pending (in_decoder c)) = (fs, rest)" "starved rest" "accept self fs c = (False, c')"
    "fd_ok (in_decoder c)"
  shows "\<exists>d. take_frames self c = (False, c'\<lparr>in_decoder := d\<rparr>) \<and> pending d = rest \<and> fd_ok d"
  using assms
proof (induction fs arbitrary: c c')
  case Nil
  have "pending (in_decoder c) = rest"
    using Nil.prems(1) by (subst (asm) frames.simps) (auto simp: Let_def split: if_splits prod.splits)
  then have "take_frames self c = (False, c\<lparr>in_decoder := in_decoder c\<rparr>)"
    using fd_next_starved[of "in_decoder c"] Nil.prems(2) by (subst take_frames.simps) simp
  then show ?case using Nil.prems \<open>pending (in_decoder c) = rest\<close> by (intro exI[of _ "in_decoder c"]) simp
next
  case (Cons f fs)
  obtain d where d: "fd_next (in_decoder c) = Inr (Some f, d)" "frames (pending d) = (fs, rest)" "fd_ok d"
    using fd_next_frame[OF Cons.prems(1)] by blast
  obtain c1 where c1: "take_frame self f c = (False, c1)" "accept self fs c1 = (False, c')"
    using Cons.prems(3) by (auto split: prod.splits bool.splits)
  have "take_frames self c = take_frames self (c1\<lparr>in_decoder := d\<rparr>)"
    using d(1) c1(1) by (subst take_frames.simps) (simp add: take_frame_any_decoder)
  moreover have "accept self fs (c1\<lparr>in_decoder := d\<rparr>) = (False, c'\<lparr>in_decoder := d\<rparr>)"
    using c1(2) by (simp add: accept_any_decoder)
  ultimately show ?case
    using Cons.IH[of "c1\<lparr>in_decoder := d\<rparr>" "c'\<lparr>in_decoder := d\<rparr>"] d(2,3) Cons.prems(2) by simp
qed

lemma frames_rest: "frames xs = (fs, r) \<Longrightarrow> frames r = ([], r)"
proof (induction xs arbitrary: fs rule: frames.induct)
  case (1 xs)
  let ?n = "be_word 4 xs :: uint32"
  show ?case
  proof (cases "length xs < 4 \<or> ?n > kMaxFrameBytes \<or> length xs - 4 < unat ?n")
    case True
    then have "frames xs = ([], xs)" by (subst frames.simps) (simp add: Let_def)
    then show ?thesis using 1(2) by simp
  next
    case False
    then have "frames xs = (case frames (drop (4 + unat ?n) xs) of (fs, rest) \<Rightarrow> (take (unat ?n) (drop 4 xs) # fs, rest))"
      by (subst frames.simps) (simp add: Let_def)
    then show ?thesis using 1(1)[OF refl False] 1(2) by (auto split: prod.splits)
  qed
qed

lemma cut_starved:
  assumes "frames (xs @ ys) = (gs, [])" "frames xs = (fs, r)"
  shows "starved r"
proof (rule ccontr)
  assume n: "\<not> starved r"
  have "frames r = ([], r)" using assms(2) by (rule frames_rest)
  then have big: "4 \<le> length r" "(be_word 4 r :: uint32) > kMaxFrameBytes"
    using n by (subst (asm) frames.simps, auto simp: Let_def starved_def split: if_splits prod.splits)+
  then have "frames (r @ ys) = ([], r @ ys)" by (subst frames.simps) (simp add: be_word_append)
  then show False using assms big(1) by (auto simp: frames_append[of xs ys])
qed

lemma handle_inbound_accept:
  assumes "frames (pending (in_decoder c) @ concat chunks) = (fs, [])" "frames (pending (in_decoder c)) = ([], pending (in_decoder c))"
    "[] \<notin> set chunks" "accept self fs c = (False, c')" "fd_ok (in_decoder c)"
  shows "\<exists>d. handle_inbound self chunks c = c'\<lparr>in_decoder := d\<rparr>"
  using assms
proof (induction chunks arbitrary: c fs c')
  case Nil
  then show ?case by (intro exI[of _ "in_decoder c"]) simp
next
  case (Cons chunk chunks)
  let ?c = "c\<lparr>in_decoder := fd_append chunk (in_decoder c)\<rparr>"
  have app: "pending (in_decoder ?c) = pending (in_decoder c) @ chunk" "fd_ok (in_decoder ?c)"
    using Cons.prems(5) by (simp_all add: pending_def fd_append_def fd_ok_def)
  obtain gs r where g: "frames (pending (in_decoder c) @ chunk) = (gs, r)" by fastforce
  obtain hs where h: "frames (r @ concat chunks) = (hs, [])" "fs = gs @ hs"
    using Cons.prems(1) g frames_append[of "pending (in_decoder c) @ chunk" "concat chunks"] by (auto split: prod.splits)
  have st: "starved r" using cut_starved[OF _ g, of "concat chunks"] Cons.prems(1) by simp
  obtain c1 where c1: "accept self gs c = (False, c1)" "accept self hs c1 = (False, c')"
    using Cons.prems(4) h(2) by (auto simp: accept_append split: prod.splits bool.splits)
  have "accept self gs ?c = (False, c1\<lparr>in_decoder := in_decoder ?c\<rparr>)" using c1(1) by (simp add: accept_any_decoder)
  from take_frames_accept[OF g[folded app(1)] st this app(2)] obtain d where
    d: "take_frames self ?c = (False, c1\<lparr>in_decoder := d\<rparr>)" "pending d = r" "fd_ok d" by auto
  have "\<exists>e. handle_inbound self chunks (c1\<lparr>in_decoder := d\<rparr>) = c'\<lparr>in_decoder := d\<rparr>\<lparr>in_decoder := e\<rparr>"
    using Cons.prems(3) h(1) d(2,3) c1(2) frames_rest[OF g]
    by (intro Cons.IH[of "c1\<lparr>in_decoder := d\<rparr>" hs "c'\<lparr>in_decoder := d\<rparr>"]) (simp_all add: accept_any_decoder)
  then show ?case using Cons.prems(3) d(1) by auto
qed

lemma small_fits: "length (encode_body m) < 2 ^ 64 \<Longrightarrow> body_fits m"
proof (cases m)
  case (AppendEntries r)
  assume a: "length (encode_body m) < 2 ^ 64"
  have "length (le_data e) \<le> length (concat (map put_entry es))" if "e \<in> set es" for e es
    using that by (induction es) (auto simp: put_entry_def mc_put_bytes_def)
  then show ?thesis
    using a AppendEntries entries_length[of "ae_entries r"] by (fastforce simp: list_all_iff entry_fits_def)
qed (auto simp: mc_put_bytes_def)

lemma hello_roundtrip: "node_id \<noteq> 0 \<Longrightarrow> decode_hello (encode_hello node_id) = Inr node_id"
  using be_word_be_bytes[of 8 node_id "[]"] by (simp add: decode_hello_def encode_hello_def)

lemma accept_messages:
  assumes "in_peer c = Some sender" "\<And>g m. (g, m) \<in> set ms \<Longrightarrow> body_fits m"
  shows "accept self (map (\<lambda>(g, m). encode_message g m) ms) c =
    (False, c\<lparr>in_delivered := in_delivered c @ map (\<lambda>(g, m). (g, sender, m)) ms\<rparr>)"
  using assms
proof (induction ms arbitrary: c)
  case (Cons x ms)
  obtain g m where x: "x = (g, m)" by force
  have "decode_message (encode_message g m) = Inr (g, m)" using Cons.prems(2)[of g m] x by (simp add: decode_message_Inr)
  then have "take_frame self (encode_message g m) c = (False, c\<lparr>in_delivered := in_delivered c @ [(g, sender, m)]\<rparr>)"
    using Cons.prems(1) by (simp add: take_frame_def)
  moreover have "body_fits m'" if "(g', m') \<in> set ms" for g' m' using Cons.prems(2)[of g' m'] that by simp
  ultimately show ?case
    using Cons.IH[of "c\<lparr>in_delivered := in_delivered c @ [(g, sender, m)]\<rparr>"] Cons.prems(1) x by simp
qed simp

section \<open>Properties\<close>

text \<open>
  C34: the format of raft messages. A payload decodes to a group and a message exactly when it is their
  encoding; everything else, trailing bytes, a bad flag or a wrong count included, is an error. (A message fits when its byte strings and its entries number less
  than \<open>2\<^sup>6\<^sup>4\<close>.)
\<close>

theorem message_codec_exact: "decode_message payload = Inr (group_id, message) \<longleftrightarrow> body_fits message \<and> payload = encode_message group_id message"
  by (rule decode_message_Inr)

text \<open>
  C35: a connection delivers what was sent. The stream that a dialling node writes (its handshake, then frames of
  messages within the size limit) is handed to \<^verbatim>\<open>deliver\<close> in order, completely and under the name of the sender, however the
  network cuts it into chunks.
\<close>

theorem connection_delivers:
  assumes "sender \<noteq> 0" "sender \<noteq> self" "[] \<notin> set chunks"
    and "\<And>g m. (g, m) \<in> set ms \<Longrightarrow> length (encode_message g m) \<le> unat kMaxFrameBytes"
    and "concat chunks = frame_payload (encode_hello sender) @ concat (map (\<lambda>(g, m). encode_frame g m) ms)"
  shows "in_delivered (handle_inbound self chunks inbound) = map (\<lambda>(g, m). (g, sender, m)) ms \<and>
    in_peer (handle_inbound self chunks inbound) = Some sender \<and> in_errors (handle_inbound self chunks inbound) = 0"
proof -
  let ?fs = "encode_hello sender # map (\<lambda>(g, m). encode_message g m) ms"
  have "length p \<le> unat kMaxFrameBytes" if "p \<in> set ?fs" for p
    using that assms(4) by (auto simp: encode_hello_def kMaxFrameBytes_def)
  from frames_payloads[OF this] have "frames (concat (map frame_payload ?fs)) = (?fs, [])" by blast
  moreover have "concat (map frame_payload ?fs) = concat chunks"
    unfolding assms(5) by (simp add: encode_frame_def split_def comp_def)
  moreover have "frames [] = ([], [])" by (subst frames.simps) simp
  moreover have fits: "body_fits m" if "(g, m) \<in> set ms" for g m
    using assms(4)[OF that] by (intro small_fits) (simp add: encode_message_def kMaxFrameBytes_def)
  moreover have "take_frame self (encode_hello sender) inbound = (False, inbound\<lparr>in_peer := Some sender\<rparr>)"
    using assms(1,2) by (simp add: take_frame_def inbound_def hello_roundtrip)
  then have "accept self ?fs inbound = (False, inbound\<lparr>in_peer := Some sender, in_delivered := map (\<lambda>(g, m). (g, sender, m)) ms\<rparr>)"
    using accept_messages[of "inbound\<lparr>in_peer := Some sender\<rparr>" sender ms self] fits by (simp add: inbound_def)
  ultimately have "\<exists>d. handle_inbound self chunks inbound =
      inbound\<lparr>in_peer := Some sender, in_delivered := map (\<lambda>(g, m). (g, sender, m)) ms, in_decoder := d\<rparr>"
    using handle_inbound_accept[of inbound chunks ?fs self] assms(3)
    by (simp add: inbound_def frame_decoder_def pending_def fd_ok_def)
  then show ?thesis
    by (auto simp: inbound_def)
qed

definition example_message :: Message where
  "example_message = AppendEntries \<lparr> ae_term = 2, ae_leader_id = 2, ae_prev_log_index = 0, ae_prev_log_term = 0,
     ae_entries = [\<lparr> le_index = 1, le_term = 2, le_data = str ''x'' \<rparr>], ae_leader_commit = 0, ae_round = 1 \<rparr>"

definition example_stream :: bytes where
  "example_stream = frame_payload (encode_hello 2) @ encode_frame 7 example_message"

theorem connection_delivers_witness:
  "in_delivered (handle_inbound 1 [take 6 example_stream, drop 6 example_stream] inbound) = [(7, 2, example_message)]"
proof -
  have l: "length (encode_message 7 example_message) = 91"
    by (simp add: encode_message_def example_message_def put_entry_def mc_put_bytes_def)
  then have "length example_stream = 108" by (simp add: example_stream_def encode_frame_def frame_payload_def encode_hello_def)
  then have "take 6 example_stream \<noteq> []" "drop 6 example_stream \<noteq> []" by auto
  then have "[] \<notin> set [take 6 example_stream, drop 6 example_stream]" by auto
  moreover have "length (encode_message g m) \<le> unat kMaxFrameBytes" if "(g, m) \<in> set [(7, example_message)]" for g m
    using that l by (simp add: kMaxFrameBytes_def)
  moreover have "concat [take 6 example_stream, drop 6 example_stream] =
      frame_payload (encode_hello 2) @ concat (map (\<lambda>(g, m). encode_frame g m) [(7, example_message)])"
  proof -
    have "concat [take 6 example_stream, drop 6 example_stream] = example_stream" by simp
    then show ?thesis by (simp only:) (simp add: example_stream_def)
  qed
  ultimately have "in_delivered (handle_inbound 1 [take 6 example_stream, drop 6 example_stream] inbound) =
      map (\<lambda>(g, m). (g, 2, m)) [(7, example_message)]"
    by (intro connection_delivers[THEN conjunct1]) simp_all
  then show ?thesis by simp
qed

end
