(* ===== verification/Raft_Machine.thy ===== *)
theory Raft_Machine imports Raft_Codec Mock_Engine Kv_Transactions begin

text \<open>
  The replicated state machine of the database: the format of proposals (\<^verbatim>\<open>raft/proposal_payload.cpp\<close>), the table of the latest
  request of each client (\<^verbatim>\<open>raft/request_result_store.h\<close>), and the state machine that applies log entries to a local
  key-value store and takes and restores snapshots of it (\<^verbatim>\<open>raft/kv_state_machine.cpp\<close>).
\<close>

section \<open>Proposals\<close>

record ProposalPayload =
  pp_client_id :: uint64
  pp_request_id :: uint64
  pp_batch :: WriteBatch

definition pp_error :: "string \<Rightarrow> RaftError" where
  "pp_error m = raft_error RE_InvalidArgument m"

definition pp_u32 :: "(RaftError, uint32) reader" where
  "pp_u32 = rd_be 4 (pp_error ''truncated proposal payload'')"

definition pp_u64 :: "(RaftError, uint64) reader" where
  "pp_u64 = rd_be 8 (pp_error ''truncated proposal payload'')"

definition pp_u8 :: "(RaftError, byte) reader" where
  "pp_u8 = rd_be 1 (pp_error ''truncated proposal payload'')"

definition pp_bytes :: "(RaftError, bytes) reader" where
  "pp_bytes = rd_sized pp_u64 (pp_error ''truncated proposal payload'')"

definition append_bytes :: "bytes \<Rightarrow> bytes" where
  "append_bytes value = be_bytes 8 (of_nat (length value) :: uint64) @ value"

fun op_code :: "OpType \<Rightarrow> byte" where
  "op_code OpPut = 1"
| "op_code OpRemove = 2"
| "op_code OpRemoveRange = 3"

definition encode_op :: "Op \<Rightarrow> bytes" where
  "encode_op op = op_code (op_type op) # append_bytes (op_key op) @
     (case op_value op of Some v \<Rightarrow> 1 # append_bytes v | None \<Rightarrow> [0]) @ append_bytes (op_range_end op)"

definition kMagic :: bytes where "kMagic = str ''SQRA''"
definition kPayloadVersion :: uint32 where "kPayloadVersion = 1"

definition encode_proposal_payload :: "ProposalPayload \<Rightarrow> bytes" where
  "encode_proposal_payload p = kMagic @ be_bytes 4 kPayloadVersion @ be_bytes 8 (pp_client_id p) @ be_bytes 8 (pp_request_id p) @
     be_bytes 8 (of_nat (length (wb_ops (pp_batch p))) :: uint64) @ concat (map encode_op (wb_ops (pp_batch p)))"

definition read_value :: "(RaftError, bytes option) reader" where
  "read_value = rd_bind pp_u8 (\<lambda>flag.
     if flag \<noteq> 0 \<and> flag \<noteq> 1 then rd_fail (pp_error ''invalid value presence flag'')
     else if flag = 1 then rd_bind pp_bytes (\<lambda>v. rd_return (Some v)) else rd_return None)"

definition read_op :: "(RaftError, Op) reader" where
  "read_op = rd_bind pp_u8 (\<lambda>type. rd_bind pp_bytes (\<lambda>key. rd_bind read_value (\<lambda>value. rd_bind pp_bytes (\<lambda>range_end.
     if type = 1 then (case value of None \<Rightarrow> rd_fail (pp_error ''put operation has no value'') | Some v \<Rightarrow> rd_return (put_op key v))
     else if type = 2 then rd_return (remove_op key)
     else if type = 3 then
       if range_end \<le> key then rd_fail (pp_error ''invalid remove_range bounds'') else rd_return (remove_range_op key range_end)
     else rd_fail (pp_error ''unknown proposal operation type'')))))"

definition decode_proposal_payload :: "bytes \<Rightarrow> RaftError + ProposalPayload" where
  "decode_proposal_payload data =
     (if length data < 32 \<or> take 4 data \<noteq> kMagic then Inl (pp_error ''invalid proposal payload magic'')
      else case rd_bind pp_u32 (\<lambda>version.
        if version \<noteq> kPayloadVersion then rd_fail (pp_error ''unsupported proposal payload version'')
        else rd_bind pp_u64 (\<lambda>client_id. rd_bind pp_u64 (\<lambda>request_id. rd_bind pp_u64 (\<lambda>op_count.
          if unat op_count > length data then rd_fail (pp_error ''invalid proposal payload op count'')
          else rd_bind (rd_many read_op (unat op_count)) (\<lambda>ops.
            rd_return \<lparr> pp_client_id = client_id, pp_request_id = request_id, pp_batch = fold wb_append ops empty_batch \<rparr>)))))
        (drop 4 data) of
          Inl e \<Rightarrow> Inl e
        | Inr (payload, rest) \<Rightarrow> if rest \<noteq> [] then Inl (pp_error ''trailing bytes in proposal payload'') else Inr payload)"

section \<open>The results of requests\<close>

type_synonym RequestResults = "uint64 \<rightharpoonup> uint64 \<times> bytes"

definition rr_find :: "uint64 \<Rightarrow> uint64 \<Rightarrow> RequestResults \<Rightarrow> RaftError + bytes option" where
  "rr_find client_id request_id entries =
     (case entries client_id of
        None \<Rightarrow> Inr None
      | Some (latest, result) \<Rightarrow>
          if latest = request_id then Inr (Some result)
          else if latest > request_id
          then Inl (raft_error RE_InvalidArgument ''request id is older than the client's latest applied request'')
          else Inr None)"

definition rr_save :: "uint64 \<Rightarrow> uint64 \<Rightarrow> bytes \<Rightarrow> RequestResults \<Rightarrow> RequestResults" where
  "rr_save client_id request_id result entries = entries(client_id \<mapsto> (request_id, result))"

text \<open>The interface of such a store, which the state machine is given; a store on disk can fail in both operations.\<close>

record 'r RequestResultStore =
  rs_find :: "uint64 \<Rightarrow> uint64 \<Rightarrow> 'r \<Rightarrow> RaftError + bytes option"
  rs_save :: "uint64 \<Rightarrow> uint64 \<Rightarrow> bytes \<Rightarrow> 'r \<Rightarrow> RaftError option \<times> 'r"

definition memory_results :: "RequestResults RequestResultStore" where
  "memory_results = \<lparr> rs_find = rr_find, rs_save = (\<lambda>client_id request_id result entries.
     (None, rr_save client_id request_id result entries)) \<rparr>"

section \<open>The state machine\<close>

record 'r KVStateMachine =
  km_local :: MockStore
  km_results :: 'r

definition kv_status_to_error :: "Status \<Rightarrow> RaftError" where
  "kv_status_to_error st = raft_error
     (if st = S_InvalidArgument then RE_InvalidArgument else if st = S_IOError then RE_IOError else RE_InternalError)
     (''local kv write failed: '' @ status_to_string st)"

definition km_apply :: "'r RequestResultStore \<Rightarrow> LogEntry \<Rightarrow> 'r KVStateMachine \<Rightarrow> (RaftError + bytes) \<times> 'r KVStateMachine" where
  "km_apply R entry m =
     (if le_data entry = [] then (Inr (str ''noop''), m)
      else case decode_proposal_payload (le_data entry) of
        Inl e \<Rightarrow> (Inl e, m)
      | Inr payload \<Rightarrow>
          (case rs_find R (pp_client_id payload) (pp_request_id payload) (km_results m) of
             Inl e \<Rightarrow> (Inl e, m)
           | Inr (Some previous) \<Rightarrow> (Inr previous, m)
           | Inr None \<Rightarrow>
               (case ms_write_batch (pp_batch payload) (km_local m) of (st, s) \<Rightarrow>
                  if st \<noteq> S_OK then (Inl (kv_status_to_error st), m\<lparr>km_local := s\<rparr>)
                  else
                    let applied = str ''applied''
                    in case rs_save R (pp_client_id payload) (pp_request_id payload) applied (km_results m) of
                         (Some e, results) \<Rightarrow> (Inl e, m\<lparr>km_local := s, km_results := results\<rparr>)
                       | (None, results) \<Rightarrow> (Inr applied, m\<lparr>km_local := s, km_results := results\<rparr>))))"

text \<open>The loop over an iterator: the pairs it passes and the iterator after the loop.\<close>

definition steps_left :: "MockIterator \<Rightarrow> nat" where
  "steps_left it = (if sr_direction (mi_range it) = Forward then length (mi_rows it) - mi_index it
     else if mi_index it < length (mi_rows it) then mi_index it + 1 else 0)"

lemma update_status_place [simp]:
  "mi_rows (mi_update_status it) = mi_rows it" "mi_index (mi_update_status it) = mi_index it"
  "mi_range (mi_update_status it) = mi_range it"
  by (simp_all add: mi_update_status_def)

lemma steps_left_next: "mi_valid it \<Longrightarrow> steps_left (mi_next it) < steps_left it"
proof -
  assume v: "mi_valid it"
  then have "mi_index it < length (mi_rows it)" by (simp add: mi_valid_def mi_in_range_contains)
  then show ?thesis using v by (auto simp: steps_left_def mi_next_def mi_step_up_def mi_step_down_def)
qed

function mi_loop :: "MockIterator \<Rightarrow> (bytes \<times> bytes) list \<times> MockIterator" where
  "mi_loop it = (if mi_valid it then (case mi_loop (mi_next it) of (rows, it') \<Rightarrow> (mi_kvpair it # rows, it')) else ([], it))"
  by pat_completeness auto
termination by (relation "measure steps_left") (auto simp: steps_left_next)

declare mi_loop.simps [simp del]

definition kSnapshotMagic :: bytes where "kSnapshotMagic = str ''SQSN''"
definition kSnapshotVersion :: uint32 where "kSnapshotVersion = 1"

definition snapshot_bytes :: "(bytes \<times> bytes) list \<Rightarrow> bytes" where
  "snapshot_bytes rows = kSnapshotMagic @ be_bytes 4 kSnapshotVersion @ be_bytes 8 (of_nat (length rows) :: uint64) @
     concat (map (\<lambda>(k, v). append_bytes k @ append_bytes v) rows)"

definition range_refused :: "ScanRange \<Rightarrow> bool" where
  "range_refused rg \<longleftrightarrow> sr_start rg = None \<or> (case sr_end rg of None \<Rightarrow> False | Some e \<Rightarrow> e \<le> the (sr_start rg))"

definition km_snapshot :: "ScanRange \<Rightarrow> 'r KVStateMachine \<Rightarrow> RaftError + bytes" where
  "km_snapshot rg m =
     (if range_refused rg
      then Inl (raft_error RE_InvalidArgument ''raft snapshots require a start bound and a non-empty key range'')
      else if sr_direction rg \<noteq> Forward
      then Inl (raft_error RE_InvalidArgument ''P0 raft snapshots require a forward key range'')
      else case ms_new_iterator rg (km_local m) of
        None \<Rightarrow> Inl (raft_error RE_InternalError ''failed to create raft snapshot iterator'')
      | Some it \<Rightarrow>
          (case mi_loop (mi_seek_to_first it) of (rows, it') \<Rightarrow>
             if mi_status it' \<noteq> S_OK \<and> mi_status it' \<noteq> S_NotFound
             then Inl (raft_error RE_InternalError (''raft snapshot scan failed: '' @ status_to_string (mi_status it')))
             else Inr (snapshot_bytes rows)))"

definition sn_u32 :: "(RaftError, uint32) reader" where
  "sn_u32 = rd_be 4 (raft_error RE_InvalidArgument ''truncated raft snapshot'')"

definition sn_u64 :: "(RaftError, uint64) reader" where
  "sn_u64 = rd_be 8 (raft_error RE_InvalidArgument ''truncated raft snapshot'')"

definition sn_bytes :: "(RaftError, bytes) reader" where
  "sn_bytes = rd_sized sn_u64 (raft_error RE_InvalidArgument ''truncated raft snapshot'')"

definition sn_row :: "(RaftError, bytes \<times> bytes) reader" where
  "sn_row = rd_bind sn_bytes (\<lambda>k. rd_bind sn_bytes (\<lambda>v. rd_return (k, v)))"

definition clear_batch :: "ScanRange \<Rightarrow> MockStore \<Rightarrow> RaftError + WriteBatch" where
  "clear_batch rg s =
     (case sr_end rg of
        Some e \<Rightarrow> Inr (wb_remove_range (the (sr_start rg)) e (wb_set_sync True empty_batch))
      | None \<Rightarrow>
          (case ms_new_iterator \<lparr> sr_start = sr_start rg, sr_end = None, sr_limit = 0, sr_direction = Forward \<rparr> s of
             None \<Rightarrow> Inl (raft_error RE_InternalError ''failed to create raft snapshot clear iterator'')
           | Some it \<Rightarrow>
               (case mi_loop (mi_seek_to_first it) of (rows, it') \<Rightarrow>
                  if mi_status it' \<noteq> S_OK \<and> mi_status it' \<noteq> S_NotFound
                  then Inl (raft_error RE_InternalError (''raft snapshot clear scan failed: '' @ status_to_string (mi_status it')))
                  else Inr (wb_remove_all (map fst rows) (wb_set_sync True empty_batch)))))"

definition km_restore :: "ScanRange \<Rightarrow> bytes \<Rightarrow> 'r KVStateMachine \<Rightarrow> RaftError option \<times> 'r KVStateMachine" where
  "km_restore rg snapshot m =
     (if length snapshot < 16 \<or> take 4 snapshot \<noteq> kSnapshotMagic
      then (Some (raft_error RE_InvalidArgument ''invalid raft snapshot magic''), m)
      else case rd_bind sn_u32 (\<lambda>version.
        if version \<noteq> kSnapshotVersion then rd_fail (raft_error RE_InvalidArgument ''unsupported raft snapshot version'')
        else rd_bind sn_u64 (\<lambda>n.
          if unat n > length snapshot then rd_fail (raft_error RE_InvalidArgument ''invalid raft snapshot count'')
          else if range_refused rg
          then rd_fail (raft_error RE_InvalidArgument ''raft snapshot restore requires a start bound and a non-empty range'')
          else if sr_direction rg \<noteq> Forward
          then rd_fail (raft_error RE_InvalidArgument ''P0 raft snapshot restore requires a forward key range'')
          else (case clear_batch rg (km_local m) of
            Inl e \<Rightarrow> rd_fail e
          | Inr batch \<Rightarrow> rd_bind (rd_many sn_row (unat n)) (\<lambda>rows. rd_return (fold (\<lambda>(k, v). wb_put k v) rows batch)))))
        (drop 4 snapshot) of
          Inl e \<Rightarrow> (Some e, m)
        | Inr (batch, rest) \<Rightarrow>
            if rest \<noteq> [] then (Some (raft_error RE_InvalidArgument ''trailing bytes in raft snapshot''), m)
            else (case ms_write_batch batch (km_local m) of (st, s) \<Rightarrow>
              if st \<noteq> S_OK then (Some (kv_status_to_error st), m\<lparr>km_local := s\<rparr>) else (None, m\<lparr>km_local := s\<rparr>)))"

definition kv_state_machine :: "'r RequestResultStore \<Rightarrow> 'r KVStateMachine StateMachine" where
  "kv_state_machine R = \<lparr> st_apply = km_apply R, st_snapshot = km_snapshot, st_restore = km_restore \<rparr>"

section \<open>Proposals are read back\<close>

lemma pp_Inr [wire_simps]:
  "pp_u8 bs = Inr (a, rest) \<longleftrightarrow> bs = a # rest"
  "pp_u32 bs = Inr (b, rest) \<longleftrightarrow> bs = be_bytes 4 b @ rest"
  "pp_u64 bs = Inr (c, rest) \<longleftrightarrow> bs = be_bytes 8 c @ rest"
  "pp_bytes bs = Inr (d, rest) \<longleftrightarrow> length d < 2 ^ 64 \<and> bs = append_bytes d @ rest"
  by (simp_all add: pp_u8_def pp_u32_def pp_u64_def pp_bytes_def append_bytes_def wire_simps rd_words_Inr(1)[unfolded One_nat_def])

lemma pp_forward:
  "pp_u8 (a # rest) = Inr (a, rest)" "pp_u32 (be_bytes 4 b @ rest) = Inr (b, rest)" "pp_u64 (be_bytes 8 c @ rest) = Inr (c, rest)"
  "length d < 2 ^ 64 \<Longrightarrow> pp_bytes (append_bytes d @ rest) = Inr (d, rest)"
  by (simp_all add: wire_simps)

text \<open>Operations as the functions of \<^verbatim>\<open>WriteBatch\<close> build them, with lengths that fit their prefixes.\<close>

definition op_canonical :: "Op \<Rightarrow> bool" where
  "op_canonical op \<longleftrightarrow> length (op_key op) < 2 ^ 64 \<and> length (op_range_end op) < 2 ^ 64 \<and>
     (case op_type op of
        OpPut \<Rightarrow> (\<exists>v. op_value op = Some v \<and> length v < 2 ^ 64) \<and> op_range_end op = []
      | OpRemove \<Rightarrow> op_value op = None \<and> op_range_end op = []
      | OpRemoveRange \<Rightarrow> op_value op = None \<and> op_key op < op_range_end op)"

lemma read_value_put:
  "length v < 2 ^ 64 \<Longrightarrow> read_value (1 # append_bytes v @ rest) = Inr (Some v, rest)" "read_value (0 # rest) = Inr (None, rest)"
  by (simp_all add: read_value_def rd_bind_def pp_forward rd_return_def)

lemma read_op_encode:
  assumes "op_canonical op"
  shows "read_op (encode_op op @ rest) = Inr (op, rest)"
proof (cases "op_type op")
  case OpPut
  then obtain v where v: "op_value op = Some v" "length v < 2 ^ 64" "op_range_end op = []" "length (op_key op) < 2 ^ 64"
    using assms by (auto simp: op_canonical_def)
  have "op = put_op (op_key op) v" using OpPut v by (simp add: put_op_def)
  then show ?thesis
    using v OpPut by (simp add: read_op_def rd_bind_def pp_forward rd_return_def encode_op_def read_value_put)
next
  case OpRemove
  then have "op = remove_op (op_key op)" "length (op_key op) < 2 ^ 64" "op_value op = None" "op_range_end op = []"
    using assms by (auto simp: op_canonical_def remove_op_def)
  then show ?thesis
    using OpRemove by (simp add: read_op_def rd_bind_def pp_forward rd_return_def encode_op_def read_value_put)
next
  case OpRemoveRange
  then have "op = remove_range_op (op_key op) (op_range_end op)" "length (op_key op) < 2 ^ 64" "op_value op = None"
    "\<not> op_range_end op \<le> op_key op" "length (op_range_end op) < 2 ^ 64"
    using assms by (auto simp: op_canonical_def remove_range_op_def not_le)
  then show ?thesis
    using OpRemoveRange by (simp add: read_op_def rd_bind_def pp_forward rd_return_def encode_op_def read_value_put)
qed

interpretation op_field: wire_field encode_op read_op op_canonical
  by unfold_locales (rule read_op_encode)

lemma fold_append: "fold wb_append ops b = b\<lparr>wb_ops := wb_ops b @ ops\<rparr>"
  by (induction ops arbitrary: b) (simp_all add: wb_append_def)

lemma ops_length: "length ops \<le> length (concat (map encode_op ops))"
  by (induction ops) (auto simp: encode_op_def)

lemma payload_roundtrip:
  assumes "list_all op_canonical (wb_ops (pp_batch p))" "length (wb_ops (pp_batch p)) < 2 ^ 64"
  shows "decode_proposal_payload (encode_proposal_payload p) = Inr (p\<lparr>pp_batch := (pp_batch p)\<lparr>wb_sync := False\<rparr>\<rparr>)"
proof -
  let ?ops = "wb_ops (pp_batch p)" let ?n = "of_nat (length ?ops) :: uint64"
  have n: "unat ?n = length ?ops" using assms(2) by (simp add: unsigned_of_nat take_bit_nat_eq_self)
  have m: "length kMagic = 4" by (simp add: kMagic_def)
  have len: "\<not> length (encode_proposal_payload p) < 32" "\<not> length ?ops > length (encode_proposal_payload p)"
    using ops_length[of ?ops] by (simp_all add: encode_proposal_payload_def m)
  have "rd_many read_op (length ?ops) (concat (map encode_op ?ops)) = Inr (?ops, [])"
    using op_field.many_enc[OF assms(1), of "[]"] by simp
  then show ?thesis
    using len n m unfolding decode_proposal_payload_def
    by (simp add: encode_proposal_payload_def rd_bind_def pp_u32_def pp_u64_def rd_be_def rd_return_def fold_append empty_batch_def)
qed

section \<open>Requests are applied once\<close>

definition client_of :: "LogEntry \<Rightarrow> uint64 option" where
  "client_of e = (case decode_proposal_payload (le_data e) of Inl _ \<Rightarrow> None | Inr p \<Rightarrow> Some (pp_client_id p))"

lemma apply_other_client: "client_of e \<noteq> Some c \<Longrightarrow> km_results (snd (km_apply memory_results e m)) c = km_results m c"
  by (auto simp: km_apply_def memory_results_def Let_def client_of_def rr_save_def split: sum.split option.split prod.split)

lemma apply_other_clients:
  "\<forall>e \<in> set es. client_of e \<noteq> Some c \<Longrightarrow> km_results (fold (\<lambda>e m. snd (km_apply memory_results e m)) es m) c = km_results m c"
  by (induction es arbitrary: m) (auto simp: apply_other_client)

lemma apply_records:
  assumes "km_apply memory_results e m = (Inr r, m')" "le_data e \<noteq> []"
  obtains p where "decode_proposal_payload (le_data e) = Inr p" "km_results m' (pp_client_id p) = Some (pp_request_id p, r)"
  using assms
  by (auto simp: km_apply_def memory_results_def Let_def rr_find_def rr_save_def split: sum.splits option.splits prod.splits if_splits)

lemma apply_again:
  assumes "decode_proposal_payload (le_data e) = Inr p" "km_results m (pp_client_id p) = Some (pp_request_id p, r)" "le_data e \<noteq> []"
  shows "km_apply memory_results e m = (Inr r, m)"
  using assms by (simp add: km_apply_def memory_results_def Let_def rr_find_def)

text \<open>
  When the result of a request cannot be saved, the batch is in the store although applying the entry failed, and the request is not
  known, so that the same proposal in a later entry is written again.
\<close>

lemma apply_unsaved:
  assumes "decode_proposal_payload (le_data e) = Inr p" "le_data e \<noteq> []"
    and "rs_find R (pp_client_id p) (pp_request_id p) (km_results m) = Inr None"
    and "ms_write_batch (pp_batch p) (km_local m) = (S_OK, s)"
    and "rs_save R (pp_client_id p) (pp_request_id p) (str ''applied'') (km_results m) = (Some err, results)"
  shows "km_apply R e m = (Inl err, m\<lparr>km_local := s, km_results := results\<rparr>)"
  using assms by (simp add: km_apply_def Let_def)

section \<open>Snapshots\<close>

lemma mi_loop_rest: "mi_inv it \<Longrightarrow> \<exists>it'. mi_loop it = (mi_rest it, it') \<and> mi_inv it'"
proof (induction it rule: mi_loop.induct)
  case (1 it)
  show ?case
  proof (cases "mi_valid it")
    case True
    then have ne: "mi_rest it \<noteq> []" using 1(2) mock_it.valid_rest by blast
    from 1(1)[OF True mi_next_inv[OF 1(2)]] obtain it' where "mi_loop (mi_next it) = (mi_rest (mi_next it), it')" "mi_inv it'" by blast
    then show ?thesis
      using True ne 1(2) mock_it.pair_rest[OF 1(2) ne] mi_next_rest[OF 1(2) ne] by (subst mi_loop.simps) simp
  next
    case False
    then have "mi_rest it = []" using 1(2) mock_it.valid_rest by blast
    then show ?thesis using False 1(2) by (subst mi_loop.simps) simp
  qed
qed

lemma seek_to_first_rest:
  assumes "\<forall>p \<in> set (mi_rows it). sr_contains (mi_range it) (fst p)"
  shows "mi_inv (mi_seek_to_first it)" "mi_rest (mi_seek_to_first it) = in_direction (sr_direction (mi_range it)) (mi_rows it)"
proof -
  show "mi_inv (mi_seek_to_first it)"
    using assms by (simp add: mi_seek_to_first_def mi_update_status(1))
  show "mi_rest (mi_seek_to_first it) = in_direction (sr_direction (mi_range it)) (mi_rows it)"
    using assms by (cases "sr_direction (mi_range it)"; cases "mi_rows it")
      (auto simp: mi_seek_to_first_def mi_update_status(2), auto simp: mi_rest_def rows_from_def in_direction_def)
qed

lemma scan_loop_forward:
  assumes "om_inv (ms_data s)" "ms_is_open s" "sr_direction rg = Forward"
  obtains it it' where "ms_new_iterator rg s = Some it"
    "mi_loop (mi_seek_to_first it) = (filter (\<lambda>p. sr_contains rg (fst p)) (ms_data s), it')" "mi_status it' = S_OK \<or> mi_status it' = S_NotFound"
proof -
  let ?rows = "filter (\<lambda>p. sr_contains rg (fst p)) (ms_data s)" let ?it = "mock_iterator ?rows rg"
  have it: "ms_new_iterator rg s = Some ?it" using assms by (simp add: ms_new_iterator_def materialize_filter)
  have f: "mi_rows ?it = ?rows" "mi_range ?it = rg" by (simp_all add: mock_iterator_def mi_seek_to_first_def)
  have "mi_inv (mi_seek_to_first ?it)" "mi_rest (mi_seek_to_first ?it) = ?rows"
    using seek_to_first_rest[of ?it] assms(3) unfolding f by (simp_all add: in_direction_def)
  then obtain it' where "mi_loop (mi_seek_to_first ?it) = (?rows, it')" "mi_inv it'" using mi_loop_rest by metis
  then show ?thesis using that it mock_it.status_ok by blast
qed

lemma sn_forward:
  "sn_u32 (be_bytes 4 b @ rest) = Inr (b, rest)" "sn_u64 (be_bytes 8 c @ rest) = Inr (c, rest)"
  "length d < 2 ^ 64 \<Longrightarrow> sn_bytes (append_bytes d @ rest) = Inr (d, rest)"
  by (simp_all add: sn_u32_def sn_u64_def sn_bytes_def append_bytes_def wire_simps)

definition row_fits :: "bytes \<times> bytes \<Rightarrow> bool" where
  "row_fits r \<longleftrightarrow> length (fst r) < 2 ^ 64 \<and> length (snd r) < 2 ^ 64"

interpretation row_field: wire_field "\<lambda>(k, v). append_bytes k @ append_bytes v" sn_row row_fits
  by unfold_locales (auto simp: sn_row_def rd_bind_def rd_return_def sn_forward row_fits_def)

lemma replay_puts: "replay (map (\<lambda>(k, v). put_op k v) rows) m = m ++ map_of (rev rows)"
  by (induction rows arbitrary: m) (auto simp: replay_def replay_op_def put_op_def map_add_def fun_eq_iff split: option.split)

lemma replay_removes: "replay (map remove_op ks) m = (\<lambda>k. if k \<in> set ks then None else m k)"
  by (induction ks arbitrary: m) (auto simp: replay_def replay_op_def remove_op_def fun_eq_iff)

lemma fold_puts: "fold (\<lambda>(k, v). wb_put k v) rows b = b\<lparr>wb_ops := wb_ops b @ map (\<lambda>(k, v). put_op k v) rows\<rparr>"
  by (induction rows arbitrary: b) (auto simp: wb_put_def wb_append_def)

lemma remove_all: "wb_remove_all ks b = b\<lparr>wb_ops := wb_ops b @ map remove_op ks\<rparr>"
  by (induction ks arbitrary: b) (simp_all add: wb_remove_def wb_append_def)

lemma clear_batch_ops:
  assumes "om_inv (ms_data s)" "ms_is_open s" "\<not> range_refused rg"
  obtains b where "clear_batch rg s = Inr b" "\<not> list_ex op_rejected (wb_ops b)"
    "replay (wb_ops b) (om_find (ms_data s)) = (\<lambda>k. if sr_contains rg k then None else om_find (ms_data s) k)"
proof (cases "sr_end rg")
  case (Some e)
  obtain st where st: "sr_start rg = Some st" "st < e" using assms(3) Some by (auto simp: range_refused_def)
  show ?thesis
    using Some st by (intro that[of "wb_remove_range st e (wb_set_sync True empty_batch)"])
      (auto simp: clear_batch_def wb_remove_range_def wb_append_def remove_range_op_def wb_set_sync_def empty_batch_def op_rejected_def
        replay_def replay_op_def sr_contains_def fun_eq_iff not_le)
next
  case None
  let ?rg = "\<lparr> sr_start = sr_start rg, sr_end = None, sr_limit = 0, sr_direction = Forward \<rparr>"
  let ?rows = "filter (\<lambda>p. sr_contains ?rg (fst p)) (ms_data s)"
  obtain it it' where l: "ms_new_iterator ?rg s = Some it" "mi_loop (mi_seek_to_first it) = (?rows, it')"
    "mi_status it' = S_OK \<or> mi_status it' = S_NotFound"
    using scan_loop_forward[OF assms(1,2), of ?rg] by auto
  have c: "sr_contains ?rg = sr_contains rg" using None by (simp add: sr_contains_def fun_eq_iff)
  have dom: "k \<in> fst ` set (ms_data s) \<longleftrightarrow> om_find (ms_data s) k \<noteq> None" for k
    by (simp add: om_find_def map_of_eq_None_iff)
  have keys: "k \<in> set (map fst ?rows) \<longleftrightarrow> sr_contains rg k \<and> om_find (ms_data s) k \<noteq> None" for k
    unfolding dom[symmetric] c by auto
  have "replay (map remove_op (map fst ?rows)) (om_find (ms_data s)) = (\<lambda>k. if sr_contains rg k then None else om_find (ms_data s) k)"
    unfolding replay_removes keys by (rule ext) (simp split: if_split)
  moreover have "\<not> list_ex op_rejected (map remove_op ks)" for ks by (induction ks) (auto simp: op_rejected_def remove_op_def)
  ultimately show ?thesis
    using None l by (intro that[of "wb_remove_all (map fst ?rows) (wb_set_sync True empty_batch)"])
      (auto simp: clear_batch_def remove_all wb_set_sync_def empty_batch_def simp del: map_map list.map_comp)
qed

lemma restore_rows:
  assumes "\<not> range_refused rg" "sr_direction rg = Forward" "om_inv (ms_data (km_local m))" "ms_is_open (km_local m)"
    "\<not> ms_fail_writes (km_local m)" "list_all row_fits rows" "length rows < 2 ^ 64" "distinct (map fst rows)"
  obtains m' where "km_restore rg (snapshot_bytes rows) m = (None, m')" "km_results m' = km_results m"
    "\<And>k. om_find (ms_data (km_local m')) k = (if sr_contains rg k \<or> k \<in> fst ` set rows then map_of rows k else om_find (ms_data (km_local m)) k)"
proof -
  let ?s = "km_local m" let ?n = "of_nat (length rows) :: uint64"
  obtain b where b: "clear_batch rg ?s = Inr b" "\<not> list_ex op_rejected (wb_ops b)"
    "replay (wb_ops b) (om_find (ms_data ?s)) = (\<lambda>k. if sr_contains rg k then None else om_find (ms_data ?s) k)"
    using clear_batch_ops[OF assms(3,4,1)] by metis
  define batch where "batch = fold (\<lambda>(k, v). wb_put k v) rows b"
  have ops: "wb_ops batch = wb_ops b @ map (\<lambda>(k, v). put_op k v) rows" by (simp add: batch_def fold_puts)
  have "\<not> list_ex op_rejected (map (\<lambda>(k, v). put_op k v) rows)" by (induction rows) (auto simp: op_rejected_def put_op_def)
  then have ok: "\<not> list_ex op_rejected (wb_ops batch)" using b(2) by (simp add: ops)
  define s' where "s' = snd (ms_write_batch batch ?s)"
  have w: "ms_write_batch batch ?s = (S_OK, s')" using ok assms(4,5) by (simp add: s'_def ms_write_batch_def apply_batch_locked_def)
  have n: "unat ?n = length rows" using assms(7) by (simp add: unsigned_of_nat take_bit_nat_eq_self)
  have mg: "length kSnapshotMagic = 4" by (simp add: kSnapshotMagic_def)
  have rl: "length rows \<le> length (concat (map (\<lambda>(k, v). append_bytes k @ append_bytes v) rows))"
    by (induction rows) (auto simp: append_bytes_def)
  have len: "\<not> length (snapshot_bytes rows) < 16" "\<not> length rows > length (snapshot_bytes rows)"
    using rl by (simp_all add: snapshot_bytes_def mg)
  have many: "rd_many sn_row (length rows) (concat (map (\<lambda>(k, v). append_bytes k @ append_bytes v) rows)) = Inr (rows, [])"
    using row_field.many_enc[OF assms(6), of "[]"] by simp
  have "km_restore rg (snapshot_bytes rows) m = (None, m\<lparr>km_local := s'\<rparr>)"
    using len n mg many b(1) w assms(1,2) unfolding km_restore_def
    by (simp add: snapshot_bytes_def rd_bind_def sn_forward rd_return_def batch_def)
  moreover have "om_find (ms_data s') = replay (wb_ops batch) (om_find (ms_data ?s))"
    using write_batch_cases[OF w assms(3)] by simp
  then have fin: "om_find (ms_data s') k = (case map_of rows k of None \<Rightarrow> if sr_contains rg k then None else om_find (ms_data ?s) k
      | Some v \<Rightarrow> Some v)" for k
    using b(3) replay_puts[of rows "replay (wb_ops b) (om_find (ms_data ?s))"] map_of_rev[OF assms(8)]
    by (simp add: ops replay_def map_add_def)
  have "om_find (ms_data s') k = (if sr_contains rg k \<or> k \<in> fst ` set rows then map_of rows k else om_find (ms_data ?s) k)" for k
  proof (cases "map_of rows k")
    case None
    then have "k \<notin> fst ` set rows" by (simp add: map_of_eq_None_iff)
    then show ?thesis using None by (simp add: fin)
  next
    case (Some v)
    then have "k \<in> fst ` set rows" by (metis map_of_eq_None_iff option.distinct(1))
    then show ?thesis using Some by (simp add: fin)
  qed
  ultimately show ?thesis using that by simp
qed

section \<open>Properties\<close>

text \<open>
  The format of proposals. Decoding an encoded proposal gives the client, the request and the operations of its batch
  back; the flag for synchronous writes is not part of the format.
\<close>

theorem proposal_roundtrip:
  assumes "list_all op_canonical (wb_ops (pp_batch p))" "length (wb_ops (pp_batch p)) < 2 ^ 64"
  shows "decode_proposal_payload (encode_proposal_payload p) = Inr (p\<lparr>pp_batch := (pp_batch p)\<lparr>wb_sync := False\<rparr>\<rparr>)"
  using assms by (rule payload_roundtrip)

definition example_payload :: ProposalPayload where
  "example_payload = \<lparr> pp_client_id = 1, pp_request_id = 2, pp_batch = wb_remove (str ''b'') (wb_put (str ''a'') (str ''1'') empty_batch) \<rparr>"

theorem proposal_roundtrip_witness:
  "decode_proposal_payload (encode_proposal_payload example_payload) = Inr example_payload"
  using proposal_roundtrip[of example_payload]
  by (simp add: example_payload_def op_canonical_def wb_remove_def wb_put_def wb_append_def put_op_def remove_op_def empty_batch_def)

definition empty_machine :: "RequestResults KVStateMachine" where
  "empty_machine = \<lparr> km_local = store0, km_results = Map.empty \<rparr>"

definition write_entry :: "uint64 \<Rightarrow> uint64 \<Rightarrow> string \<Rightarrow> LogEntry" where
  "write_entry client index v = \<lparr> le_index = index, le_term = 1, le_data = encode_proposal_payload
     \<lparr> pp_client_id = client, pp_request_id = 1, pp_batch = wb_put (str ''k'') (str v) empty_batch \<rparr> \<rparr>"

text \<open>
  C36: a request is applied once. When an entry has been applied and only entries of other clients followed, a second entry
  with the same proposal returns the result of the first and changes nothing.
\<close>

theorem request_applied_once:
  assumes "km_apply memory_results e m = (Inr r, m1)" "le_data e \<noteq> []" "le_data e' = le_data e" "client_of e = Some c"
    and "\<forall>x \<in> set es. client_of x \<noteq> Some c" "m2 = fold (\<lambda>x m. snd (km_apply memory_results x m)) es m1"
  shows "km_apply memory_results e' m2 = (Inr r, m2)"
proof -
  obtain p where p: "decode_proposal_payload (le_data e) = Inr p" "km_results m1 (pp_client_id p) = Some (pp_request_id p, r)"
    using apply_records[OF assms(1,2)] by blast
  then have "pp_client_id p = c" using assms(4) by (simp add: client_of_def)
  then have "km_results m2 (pp_client_id p) = Some (pp_request_id p, r)"
    using apply_other_clients[OF assms(5), of m1] p(2) assms(6) by simp
  then show ?thesis using apply_again[of e' p m2 r] p(1) assms(2,3) by simp
qed

theorem request_applied_once_witness:
  "\<exists>m1 m2. km_apply memory_results (write_entry 1 1 ''x'') empty_machine = (Inr (str ''applied''), m1) \<and>
     m2 = snd (km_apply memory_results (write_entry 2 2 ''y'') m1) \<and> km_apply memory_results (write_entry 1 3 ''x'') m2 = (Inr (str ''applied''), m2)"
proof -
  define m1 where "m1 = snd (km_apply memory_results (write_entry 1 1 ''x'') empty_machine)"
  have "fst (km_apply memory_results (write_entry 1 1 ''x'') empty_machine) = Inr (str ''applied'')" "le_data (write_entry 1 1 ''x'') \<noteq> []"
    "client_of (write_entry 1 1 ''x'') = Some 1" "client_of (write_entry 2 2 ''y'') = Some 2"
    by code_simp+
  moreover have "le_data (write_entry 1 3 ''x'') = le_data (write_entry 1 1 ''x'')" by (simp add: write_entry_def)
  ultimately show ?thesis
    using request_applied_once[of "write_entry 1 1 ''x''" empty_machine "str ''applied''" m1 "write_entry 1 3 ''x''" 1 "[write_entry 2 2 ''y'']"]
    by (rule_tac exI[of _ m1], rule_tac exI[of _ "snd (km_apply memory_results (write_entry 2 2 ''y'') m1)"]) (simp add: m1_def prod_eq_iff)
qed

text \<open>
  C37: transfer of snapshots. The snapshot of the keys of a range, restored in another machine, replaces exactly the keys of
  the range there by those of the first machine. The table of requests is not part of the snapshot: the second machine keeps its own.
\<close>

theorem snapshot_transfer:
  assumes "\<not> range_refused rg" "sr_direction rg = Forward" "om_inv (ms_data (km_local m))" "ms_is_open (km_local m)"
    and "om_inv (ms_data (km_local m2))" "ms_is_open (km_local m2)" "\<not> ms_fail_writes (km_local m2)"
    and "list_all row_fits (ms_data (km_local m))" "length (ms_data (km_local m)) < 2 ^ 64"
  shows "\<exists>blob m2'. km_snapshot rg m = Inr blob \<and> km_restore rg blob m2 = (None, m2') \<and> km_results m2' = km_results m2 \<and>
    (\<forall>k. om_find (ms_data (km_local m2')) k =
      (if sr_contains rg k then om_find (ms_data (km_local m)) k else om_find (ms_data (km_local m2)) k))"
proof -
  let ?rows = "filter (\<lambda>p. sr_contains rg (fst p)) (ms_data (km_local m))"
  obtain it it' where "ms_new_iterator rg (km_local m) = Some it" "mi_loop (mi_seek_to_first it) = (?rows, it')"
    "mi_status it' = S_OK \<or> mi_status it' = S_NotFound"
    using scan_loop_forward[OF assms(3,4,2)] by metis
  then have snap: "km_snapshot rg m = Inr (snapshot_bytes ?rows)" using assms(1,2) by (auto simp: km_snapshot_def)
  have "list_all row_fits ?rows" "distinct (map fst ?rows)" "length ?rows < 2 ^ 64"
    using assms(8) om_inv_distinct[OF om_inv_filter[OF assms(3)]] le_less_trans[OF length_filter_le assms(9)] by (auto simp: list_all_iff)
  then obtain m2' where "km_restore rg (snapshot_bytes ?rows) m2 = (None, m2')" "km_results m2' = km_results m2"
    "\<And>k. om_find (ms_data (km_local m2')) k =
      (if sr_contains rg k \<or> k \<in> fst ` set ?rows then map_of ?rows k else om_find (ms_data (km_local m2)) k)"
    using restore_rows[OF assms(1,2,5,6,7)] by metis
  moreover have "map_of ?rows k = (if sr_contains rg k then om_find (ms_data (km_local m)) k else None)" for k
    using om_find_filter[of "sr_contains rg" "ms_data (km_local m)" k] by (simp add: om_find_def)
  ultimately show ?thesis using snap by auto
qed

definition one_key :: "RequestResults KVStateMachine" where
  "one_key = empty_machine\<lparr>km_local := store0\<lparr>ms_data := [(str ''k'', str ''v'')]\<rparr>\<rparr>"

theorem snapshot_transfer_witness:
  "\<exists>blob m2'. km_snapshot (sr_from [] 0 Forward) one_key = Inr blob \<and> km_restore (sr_from [] 0 Forward) blob empty_machine = (None, m2') \<and>
     om_find (ms_data (km_local m2')) (str ''k'') = Some (str ''v'')"
proof -
  have "\<exists>blob m2'. km_snapshot (sr_from [] 0 Forward) one_key = Inr blob \<and> km_restore (sr_from [] 0 Forward) blob empty_machine = (None, m2') \<and>
      km_results m2' = km_results empty_machine \<and> (\<forall>k. om_find (ms_data (km_local m2')) k = (if sr_contains (sr_from [] 0 Forward) k
        then om_find (ms_data (km_local one_key)) k else om_find (ms_data (km_local empty_machine)) k))"
    by (rule snapshot_transfer) (simp_all add: one_key_def empty_machine_def store0_def sr_from_def range_refused_def row_fits_def)
  moreover have "sr_contains (sr_from [] 0 Forward) (str ''k'')" "om_find (ms_data (km_local one_key)) (str ''k'') = Some (str ''v'')"
    by (simp_all add: sr_from_def sr_contains_def one_key_def om_find_def)
  ultimately show ?thesis by force
qed

text \<open>
  Replicas diverge when a request is retried after a snapshot. Two clients write a key in turn; the machine that applied both
  writes sends its snapshot to a new replica; then the first client's request is in the log a second time. The first machine
  recognises it and keeps the second value; the new replica, whose table of requests is empty, applies it again.
\<close>

theorem retry_after_snapshot_diverges:
  "let leader = snd (km_apply memory_results (write_entry 2 2 ''y'') (snd (km_apply memory_results (write_entry 1 1 ''x'') empty_machine)));
       blob = (case km_snapshot (sr_from [] 0 Forward) leader of Inr b \<Rightarrow> b);
       follower = snd (km_restore (sr_from [] 0 Forward) blob empty_machine);
       retry = write_entry 1 3 ''x''
   in ms_data (km_local follower) = ms_data (km_local leader) \<and>
      om_find (ms_data (km_local (snd (km_apply memory_results retry leader)))) (str ''k'') = Some (str ''y'') \<and>
      om_find (ms_data (km_local (snd (km_apply memory_results retry follower)))) (str ''k'') = Some (str ''x'')"
  by code_simp

end
