(* ===== verification/Raft_Node.thy ===== *)
theory Raft_Node imports Raft_Log begin

text \<open>
  A raft node (\<^verbatim>\<open>raft/raft_node.cpp\<close>): elections, log replication, commitment, application to the state
  machine, read barriers, compaction and snapshot transfer. The log store and the state machine are
  arguments (\<open>L\<close> and \<open>M\<close>) with their states inside the node; the time is an argument of the functions that read
  the clock; sending appends to an outbox, which the transport empties; completions are cells of a
  store. The counters of the time spent in the state machine are left out.

  A function that returns \<^verbatim>\<open>std::expected<void, Error>\<close> gives the error, if any, and the new node.
\<close>

section \<open>State\<close>

record PendingReadBarrier =
  pb_round :: uint64
  pb_target_index :: uint64
  pb_completion :: nat

record PendingSnapshot =
  ps_term :: uint64
  ps_last_included_index :: uint64
  ps_last_included_term :: uint64
  ps_buffer :: bytes

record ('s, 'm) RaftNode =
  rn_config :: NodeConfig
  rn_store :: 's
  rn_machine :: 'm
  rn_hard_state :: HardState
  rn_role :: Role
  rn_leader_id :: "NodeId option"
  rn_last_log_index :: uint64
  rn_last_included_index :: uint64
  rn_last_included_term :: uint64
  rn_commit_index :: uint64
  rn_last_applied :: uint64
  rn_apply_count :: uint64
  rn_read_barrier_count :: uint64
  rn_next_index :: "NodeId \<rightharpoonup> uint64"
  rn_match_index :: "NodeId \<rightharpoonup> uint64"
  rn_votes_received :: "NodeId list"
  rn_pending_proposals :: "(uint64 \<times> nat) list"
  rn_pending_read_barriers :: "PendingReadBarrier list"
  rn_heartbeat_round :: uint64
  rn_peer_acked_round :: "NodeId \<rightharpoonup> uint64"
  rn_pending_snapshot :: "PendingSnapshot option"
  rn_election_deadline :: uint64
  rn_next_heartbeat :: uint64
  rn_last_error :: "RaftError option"
  rn_completions :: "Completion list"
  rn_outbox :: "(NodeId \<times> Message) list"

abbreviation rn_id :: "('s, 'm) RaftNode \<Rightarrow> NodeId" where "rn_id n \<equiv> nc_node_id (rn_config n)"
abbreviation rn_peers :: "('s, 'm) RaftNode \<Rightarrow> NodeId list" where "rn_peers n \<equiv> nc_peers (rn_config n)"
abbreviation rn_term :: "('s, 'm) RaftNode \<Rightarrow> uint64" where "rn_term n \<equiv> hs_term (rn_hard_state n)"

type_synonym ('s, 'm) outcome = "RaftError option \<times> ('s, 'm) RaftNode"

definition raft_node :: "NodeConfig \<Rightarrow> 's \<Rightarrow> 'm \<Rightarrow> ('s, 'm) RaftNode" where
  "raft_node config store machine =
     \<lparr> rn_config = config\<lparr>
         nc_election_timeout_ms := (if nc_election_timeout_ms config = 0 then 1 else nc_election_timeout_ms config),
         nc_heartbeat_interval_ms := (if nc_heartbeat_interval_ms config = 0 then 1 else nc_heartbeat_interval_ms config)\<rparr>,
       rn_store = store, rn_machine = machine, rn_hard_state = \<lparr> hs_term = 0, hs_voted_for = None \<rparr>,
       rn_role = Follower, rn_leader_id = None, rn_last_log_index = 0, rn_last_included_index = 0,
       rn_last_included_term = 0, rn_commit_index = 0, rn_last_applied = 0, rn_apply_count = 0,
       rn_read_barrier_count = 0, rn_next_index = Map.empty, rn_match_index = Map.empty, rn_votes_received = [],
       rn_pending_proposals = [], rn_pending_read_barriers = [], rn_heartbeat_round = 0,
       rn_peer_acked_round = Map.empty, rn_pending_snapshot = None, rn_election_deadline = 0,
       rn_next_heartbeat = 0, rn_last_error = None, rn_completions = [], rn_outbox = [] \<rparr>"

text \<open>Sequencing of calls that can fail, recording of an error, calls on the log store, and \<^verbatim>\<open>operator[]\<close> of a map.\<close>

definition and_then :: "RaftError option \<times> 'n \<Rightarrow> ('n \<Rightarrow> RaftError option \<times> 'n) \<Rightarrow> RaftError option \<times> 'n" where
  "and_then r f = (case r of (Some e, n) \<Rightarrow> (Some e, n) | (None, n) \<Rightarrow> f n)"

definition record_error :: "RaftError \<Rightarrow> ('s, 'm) RaftNode \<Rightarrow> ('s, 'm) RaftNode" where
  "record_error e n = n\<lparr>rn_last_error := Some e\<rparr>"

definition recording :: "('s, 'm) outcome \<Rightarrow> ('s, 'm) RaftNode" where
  "recording r = (case r of (Some e, n) \<Rightarrow> record_error e n | (None, n) \<Rightarrow> n)"

definition on_store :: "('s \<Rightarrow> RaftError option \<times> 's) \<Rightarrow> ('s, 'm) RaftNode \<Rightarrow> ('s, 'm) outcome" where
  "on_store f n = (case f (rn_store n) of (e, s) \<Rightarrow> (e, n\<lparr>rn_store := s\<rparr>))"

definition get0 :: "(NodeId \<rightharpoonup> uint64) \<Rightarrow> NodeId \<Rightarrow> uint64" where
  "get0 m k = (case m k of None \<Rightarrow> 0 | Some v \<Rightarrow> v)"

definition send :: "NodeId \<Rightarrow> Message \<Rightarrow> ('s, 'm) RaftNode \<Rightarrow> ('s, 'm) RaftNode" where
  "send to message n = n\<lparr>rn_outbox := rn_outbox n @ [(to, message)]\<rparr>"

section \<open>Completions, quorums and deadlines\<close>

definition finish_cells :: "nat list \<Rightarrow> RaftError option \<Rightarrow> bytes \<Rightarrow> ('s, 'm) RaftNode \<Rightarrow> ('s, 'm) RaftNode" where
  "finish_cells cells error result n =
     n\<lparr>rn_completions := fold (\<lambda>c cs. cs[c := finish error result (cs ! c)]) cells (rn_completions n)\<rparr>"

definition complete_applied_proposal :: "uint64 \<Rightarrow> bytes \<Rightarrow> ('s, 'm) RaftNode \<Rightarrow> ('s, 'm) RaftNode" where
  "complete_applied_proposal index apply_result n =
     (case map_of (rn_pending_proposals n) index of
        None \<Rightarrow> n
      | Some c \<Rightarrow> finish_cells [c] None apply_result
          (n\<lparr>rn_pending_proposals := filter (\<lambda>p. fst p \<noteq> index) (rn_pending_proposals n)\<rparr>))"

definition complete_applied_proposals_upto :: "uint64 \<Rightarrow> ('s, 'm) RaftNode \<Rightarrow> ('s, 'm) RaftNode" where
  "complete_applied_proposals_upto index n =
     finish_cells (map snd (filter (\<lambda>p. fst p \<le> index) (rn_pending_proposals n))) None (str ''applied'')
       (n\<lparr>rn_pending_proposals := filter (\<lambda>p. \<not> fst p \<le> index) (rn_pending_proposals n)\<rparr>)"

definition fail_pending_proposals :: "uint64 option \<Rightarrow> RaftError \<Rightarrow> ('s, 'm) RaftNode \<Rightarrow> ('s, 'm) RaftNode" where
  "fail_pending_proposals from_index error n =
     (let hit = (\<lambda>p. case from_index of None \<Rightarrow> True | Some i \<Rightarrow> fst p \<ge> i)
      in finish_cells (map snd (filter hit (rn_pending_proposals n))) (Some error) []
           (n\<lparr>rn_pending_proposals := filter (\<lambda>p. \<not> hit p) (rn_pending_proposals n)\<rparr>))"

definition has_quorum :: "nat \<Rightarrow> ('s, 'm) RaftNode \<Rightarrow> bool" where
  "has_quorum count n \<longleftrightarrow> count \<ge> length (rn_peers n) div 2 + 1"

definition quorum_acknowledged :: "uint64 \<Rightarrow> ('s, 'm) RaftNode \<Rightarrow> bool" where
  "quorum_acknowledged round n =
     has_quorum (1 + length (filter (\<lambda>peer. peer \<noteq> rn_id n \<and>
       (case rn_peer_acked_round n peer of None \<Rightarrow> False | Some acked \<Rightarrow> acked \<ge> round)) (rn_peers n))) n"

definition evaluate_read_barriers :: "('s, 'm) RaftNode \<Rightarrow> ('s, 'm) RaftNode" where
  "evaluate_read_barriers n =
     (let ready = (\<lambda>b. quorum_acknowledged (pb_round b) n \<and> rn_last_applied n \<ge> pb_target_index b)
      in finish_cells (map pb_completion (filter ready (rn_pending_read_barriers n))) None []
           (n\<lparr>rn_pending_read_barriers := filter (\<lambda>b. \<not> ready b) (rn_pending_read_barriers n)\<rparr>))"

definition fail_read_barriers :: "RaftError \<Rightarrow> ('s, 'm) RaftNode \<Rightarrow> ('s, 'm) RaftNode" where
  "fail_read_barriers error n =
     finish_cells (map pb_completion (rn_pending_read_barriers n)) (Some error) [] (n\<lparr>rn_pending_read_barriers := []\<rparr>)"

definition snapshot_range :: "('s, 'm) RaftNode \<Rightarrow> ScanRange" where
  "snapshot_range n =
     (let range = nc_group_range (rn_config n);
          range = (if sr_start range = None then range\<lparr>sr_start := Some []\<rparr> else range)
      in if sr_direction range \<noteq> Forward then range\<lparr>sr_direction := Forward\<rparr> else range)"

definition last_log_term :: "'s LogStore \<Rightarrow> ('s, 'm) RaftNode \<Rightarrow> RaftError + uint64" where
  "last_log_term L n =
     (if rn_last_log_index n = kInvalidIndex then Inr 0
      else map_sum id le_term (ls_at L (rn_store n) (rn_last_log_index n)))"

definition reset_election_deadline :: "uint64 \<Rightarrow> ('s, 'm) RaftNode \<Rightarrow> ('s, 'm) RaftNode" where
  "reset_election_deadline now n =
     (let offset = (rn_id n mod 5) * (nc_election_timeout_ms (rn_config n) div 10)
      in n\<lparr>rn_election_deadline := now + nc_election_timeout_ms (rn_config n) + offset\<rparr>)"

definition quorum_match_index :: "('s, 'm) RaftNode \<Rightarrow> uint64" where
  "quorum_match_index n =
     (let matches = rev (sort (map (get0 (rn_match_index n)) (rn_peers n)))
      in if matches = [] then kInvalidIndex else matches ! ((length matches - 1) div 2))"

definition log_is_up_to_date :: "uint64 \<Rightarrow> uint64 \<Rightarrow> uint64 \<Rightarrow> uint64 \<Rightarrow> bool" where
  "log_is_up_to_date last_log_index last_term candidate_index candidate_term \<longleftrightarrow>
     (if candidate_term \<noteq> last_term then candidate_term > last_term
      else candidate_index \<ge> last_log_index)"

definition initialize_leader_progress :: "('s, 'm) RaftNode \<Rightarrow> ('s, 'm) RaftNode" where
  "initialize_leader_progress n =
     n\<lparr>rn_next_index := fold (\<lambda>peer m. m(peer \<mapsto> rn_last_log_index n + 1)) (rn_peers n) Map.empty,
       rn_match_index := fold (\<lambda>peer m. m(peer \<mapsto> (if peer = rn_id n then rn_last_log_index n else 0))) (rn_peers n) Map.empty,
       rn_peer_acked_round := Map.empty, rn_heartbeat_round := 0\<rparr>"

section \<open>Sending\<close>

definition kSnapshotChunkBytes :: nat where "kSnapshotChunkBytes = 2 ^ 20"
definition kMaxPendingSnapshotBytes :: nat where "kMaxPendingSnapshotBytes = 2 ^ 30"

text \<open>The chunks of a blob: their offsets, whether they are the last, and their bytes.\<close>

function snapshot_chunks :: "nat \<Rightarrow> bytes \<Rightarrow> (nat \<times> bool \<times> bytes) list" where
  "snapshot_chunks offset blob =
     (if blob = [] then []
      else (offset, length blob \<le> kSnapshotChunkBytes, take kSnapshotChunkBytes blob) #
             snapshot_chunks (offset + min kSnapshotChunkBytes (length blob)) (drop kSnapshotChunkBytes blob))"
  by pat_completeness auto
termination
  by (relation "measure (length \<circ> snd)") (auto simp: kSnapshotChunkBytes_def)

declare snapshot_chunks.simps [simp del]

definition send_snapshot :: "'m StateMachine \<Rightarrow> 's LogStore \<Rightarrow> NodeId \<Rightarrow> ('s, 'm) RaftNode \<Rightarrow> ('s, 'm) outcome" where
  "send_snapshot M L to n =
     (if rn_last_included_index n = kInvalidIndex then (None, n)
      else case st_snapshot M (snapshot_range n) (rn_machine n) of
        Inl e \<Rightarrow> (Some e, n)
      | Inr blob \<Rightarrow>
          let included_index = rn_last_applied n
          in case (if included_index = rn_last_included_index n then Inr (rn_last_included_term n)
                   else map_sum id le_term (ls_at L (rn_store n) included_index)) of
               Inl e \<Rightarrow> (Some e, n)
             | Inr included_term \<Rightarrow>
                 let request = (\<lambda>(offset, last_chunk, data). InstallSnapshot \<lparr> is_term = rn_term n, is_leader_id = rn_id n,
                       is_last_included_index = included_index, is_last_included_term = included_term,
                       is_offset = word_of_nat offset, is_done = last_chunk, is_data = data \<rparr>);
                     chunks = (if blob = [] then [(0, True, [])] else snapshot_chunks 0 blob);
                     n = fold (\<lambda>chunk. send to (request chunk)) chunks n
                 in (None, n\<lparr>rn_next_index := (rn_next_index n)(to \<mapsto> included_index + 1),
                       rn_match_index := (rn_match_index n)(to \<mapsto> max (get0 (rn_match_index n) to) included_index)\<rparr>))"

text \<open>
  The entries from \<open>next\<close> to the last one. (The loop of the code runs on at the index $2^{64} - 1$, where the
  next index wraps; no log has that many entries.)
\<close>

fun read_entries :: "'s LogStore \<Rightarrow> 's \<Rightarrow> nat list \<Rightarrow> RaftError + LogEntry list" where
  "read_entries L s [] = Inr []"
| "read_entries L s (i # is) =
     (case ls_at L s (word_of_nat i) of
        Inl e \<Rightarrow> Inl e
      | Inr entry \<Rightarrow> map_sum id (Cons entry) (read_entries L s is))"

text \<open>
  The entries from the next index of the peer to the last of the log. The loop of the source counts in 64 bits and would not end with a
  last index of \<open>2\<^sup>6\<^sup>4 - 1\<close>, which every index is within; a log of that length is not considered.
\<close>

definition send_append_entries :: "'m StateMachine \<Rightarrow> 's LogStore \<Rightarrow> NodeId \<Rightarrow> ('s, 'm) RaftNode \<Rightarrow> ('s, 'm) outcome" where
  "send_append_entries M L to n =
     (let n = (if rn_next_index n to = None
               then n\<lparr>rn_next_index := (rn_next_index n)(to \<mapsto> rn_last_log_index n + 1)\<rparr> else n);
          n = (if rn_match_index n to = None then n\<lparr>rn_match_index := (rn_match_index n)(to \<mapsto> 0)\<rparr> else n);
          next = get0 (rn_next_index n) to
      in if next \<le> rn_last_included_index n then send_snapshot M L to n
         else
           let prev_index = next - 1
           in case (if prev_index = rn_last_included_index n then Inr (rn_last_included_term n)
                    else if prev_index \<noteq> kInvalidIndex then map_sum id le_term (ls_at L (rn_store n) prev_index)
                    else Inr 0) of
                Inl e \<Rightarrow> (Some e, n)
              | Inr prev_term \<Rightarrow>
             (case read_entries L (rn_store n) [unat next..<unat (rn_last_log_index n) + 1] of
                Inl e \<Rightarrow> (Some e, n)
              | Inr entries \<Rightarrow>
                  (None, send to (AppendEntries \<lparr> ae_term = rn_term n, ae_leader_id = rn_id n,
                     ae_prev_log_index = prev_index, ae_prev_log_term = prev_term, ae_entries = entries,
                     ae_leader_commit = rn_commit_index n, ae_round = rn_heartbeat_round n \<rparr>) n)))"

definition send_heartbeats :: "'m StateMachine \<Rightarrow> 's LogStore \<Rightarrow> ('s, 'm) RaftNode \<Rightarrow> ('s, 'm) RaftNode" where
  "send_heartbeats M L n =
     fold (\<lambda>peer n. if peer = rn_id n then n else recording (send_append_entries M L peer n)) (rn_peers n)
       (n\<lparr>rn_heartbeat_round := rn_heartbeat_round n + 1\<rparr>)"

section \<open>Application and commitment\<close>

lemma applied_step [termination_simp]: "(a :: uint64) < c \<Longrightarrow> unat (c - (a + 1)) < unat (c - a)"
proof -
  assume "a < c"
  then have lt: "unat a < unat c" by (simp add: word_less_nat_alt)
  then have "unat (a + 1) = unat a + 1" using unsigned_less[of c, where 'a = nat] by (simp add: unat_word_ariths)
  moreover have "a + 1 \<le> c" using calculation lt by (simp add: word_le_nat_alt)
  ultimately show ?thesis using lt by (simp add: unat_sub word_le_nat_alt)
qed

lemma finish_cells_fields [simp]:
  "rn_config (finish_cells cs e r n) = rn_config n" "rn_store (finish_cells cs e r n) = rn_store n"
  "rn_machine (finish_cells cs e r n) = rn_machine n" "rn_hard_state (finish_cells cs e r n) = rn_hard_state n"
  "rn_role (finish_cells cs e r n) = rn_role n" "rn_leader_id (finish_cells cs e r n) = rn_leader_id n"
  "rn_last_log_index (finish_cells cs e r n) = rn_last_log_index n"
  "rn_last_included_index (finish_cells cs e r n) = rn_last_included_index n"
  "rn_last_included_term (finish_cells cs e r n) = rn_last_included_term n"
  "rn_commit_index (finish_cells cs e r n) = rn_commit_index n" "rn_last_applied (finish_cells cs e r n) = rn_last_applied n"
  "rn_next_index (finish_cells cs e r n) = rn_next_index n" "rn_match_index (finish_cells cs e r n) = rn_match_index n"
  "rn_votes_received (finish_cells cs e r n) = rn_votes_received n" "rn_outbox (finish_cells cs e r n) = rn_outbox n"
  "rn_pending_proposals (finish_cells cs e r n) = rn_pending_proposals n"
  "rn_pending_read_barriers (finish_cells cs e r n) = rn_pending_read_barriers n"
  "rn_heartbeat_round (finish_cells cs e r n) = rn_heartbeat_round n"
  "rn_peer_acked_round (finish_cells cs e r n) = rn_peer_acked_round n"
  "rn_pending_snapshot (finish_cells cs e r n) = rn_pending_snapshot n"
  "rn_apply_count (finish_cells cs e r n) = rn_apply_count n"
  by (simp_all add: finish_cells_def)

lemma complete_fields [simp]:
  "rn_commit_index (complete_applied_proposal i r n) = rn_commit_index n"
  "rn_last_applied (complete_applied_proposal i r n) = rn_last_applied n"
  by (simp_all add: complete_applied_proposal_def split: option.split)

function apply_committed :: "'m StateMachine \<Rightarrow> 's LogStore \<Rightarrow> ('s, 'm) RaftNode \<Rightarrow> ('s, 'm) outcome" where
  "apply_committed M L n =
     (if rn_last_applied n < rn_commit_index n then
        (case ls_at L (rn_store n) (rn_last_applied n + 1) of
           Inl e \<Rightarrow> (Some e, n)
         | Inr entry \<Rightarrow>
             (case st_apply M entry (rn_machine n) of
                (Inl e, m) \<Rightarrow>
                  (Some e, fail_read_barriers e (fail_pending_proposals (Some (rn_last_applied n + 1)) e
                     (n\<lparr>rn_machine := m, rn_apply_count := rn_apply_count n + 1\<rparr>)))
              | (Inr result, m) \<Rightarrow>
                  apply_committed M L (complete_applied_proposal (rn_last_applied n + 1) result
                    (n\<lparr>rn_machine := m, rn_apply_count := rn_apply_count n + 1, rn_last_applied := rn_last_applied n + 1\<rparr>))))
      else (None, evaluate_read_barriers n))"
  by pat_completeness auto
termination
  by (relation "measure (\<lambda>(M, L, n). unat (rn_commit_index n - rn_last_applied n))") (simp_all add: applied_step)

declare apply_committed.simps [simp del]

definition advance_commit :: "'m StateMachine \<Rightarrow> 's LogStore \<Rightarrow> ('s, 'm) RaftNode \<Rightarrow> ('s, 'm) outcome" where
  "advance_commit M L n =
     (let candidate = quorum_match_index n
      in if candidate \<le> rn_commit_index n \<or> candidate > rn_last_log_index n then (None, n)
         else case ls_at L (rn_store n) candidate of
           Inl e \<Rightarrow> (Some e, n)
         | Inr entry \<Rightarrow>
             if le_term entry \<noteq> rn_term n then (None, n)
             else and_then (apply_committed M L (n\<lparr>rn_commit_index := candidate\<rparr>))
               (\<lambda>n. (None, if length (rn_peers n) > 1 then send_heartbeats M L n else n)))"

section \<open>Roles\<close>

definition become_follower :: "'s LogStore \<Rightarrow> uint64 \<Rightarrow> uint64 \<Rightarrow> NodeId option \<Rightarrow> ('s, 'm) RaftNode \<Rightarrow> ('s, 'm) outcome" where
  "become_follower L now term leader n =
     (let old_role = rn_role n;
          old_hard_state = rn_hard_state n;
          saved = (if term > rn_term n
                   then (case on_store (ls_save_hard_state L \<lparr> hs_term = term, hs_voted_for = None \<rparr>)
                           (n\<lparr>rn_hard_state := \<lparr> hs_term = term, hs_voted_for = None \<rparr>\<rparr>) of
                           (Some e, n) \<Rightarrow> (Some e, n\<lparr>rn_hard_state := old_hard_state\<rparr>)
                         | (None, n) \<Rightarrow> (None, n))
                   else (None, n))
      in and_then saved (\<lambda>n.
           let n = n\<lparr>rn_role := Follower\<rparr>;
               n = (if old_role = Leader
                    then fail_read_barriers (raft_error RE_NotLeader ''leadership was lost before the read barrier completed'')
                      (fail_pending_proposals None (raft_error RE_NotLeader ''leadership was lost before commit'') n)
                    else n);
               n = n\<lparr>rn_leader_id := leader, rn_votes_received := [], rn_pending_snapshot := None\<rparr>
           in (None, reset_election_deadline now n)))"

definition become_leader :: "'m StateMachine \<Rightarrow> 's LogStore \<Rightarrow> uint64 \<Rightarrow> ('s, 'm) RaftNode \<Rightarrow> ('s, 'm) outcome" where
  "become_leader M L now n =
     (if rn_role n \<noteq> Candidate then (None, n)
      else
        let n = initialize_leader_progress (n\<lparr>rn_role := Leader, rn_leader_id := Some (rn_id n)\<rparr>);
            index = rn_last_log_index n + 1
        in case on_store (ls_append L \<lparr> le_index = index, le_term = rn_term n, le_data = [] \<rparr>) n of
             (Some e, n) \<Rightarrow>
               and_then (become_follower L now (rn_term n) None n) (\<lambda>n. (Some e, n))
           | (None, n) \<Rightarrow>
               advance_commit M L (send_heartbeats M L
                 (n\<lparr>rn_last_log_index := index, rn_match_index := (rn_match_index n)(rn_id n \<mapsto> index),
                   rn_next_index := (rn_next_index n)(rn_id n \<mapsto> index + 1)\<rparr>)))"

definition start_election :: "'m StateMachine \<Rightarrow> 's LogStore \<Rightarrow> uint64 \<Rightarrow> ('s, 'm) RaftNode \<Rightarrow> ('s, 'm) outcome" where
  "start_election M L now n =
     (let old_hard_state = rn_hard_state n;
          old_role = rn_role n;
          hard = \<lparr> hs_term = rn_term n + 1, hs_voted_for = Some (rn_id n) \<rparr>
      in case on_store (ls_save_hard_state L hard) (n\<lparr>rn_role := Candidate, rn_hard_state := hard, rn_leader_id := None\<rparr>) of
           (Some e, n) \<Rightarrow> (Some e, n\<lparr>rn_hard_state := old_hard_state, rn_role := old_role\<rparr>)
         | (None, n) \<Rightarrow>
             let n = reset_election_deadline now (n\<lparr>rn_votes_received := [rn_id n]\<rparr>)
             in if has_quorum 1 n then become_leader M L now n
                else case last_log_term L n of
                  Inl e \<Rightarrow> (Some e, n)
                | Inr last_term \<Rightarrow>
                    (None, fold (\<lambda>peer n. if peer = rn_id n then n
                        else send peer (RequestVote \<lparr> rv_term = rn_term n, rv_candidate_id = rn_id n,
                               rv_last_log_index = rn_last_log_index n, rv_last_log_term = last_term \<rparr>) n) (rn_peers n) n))"

section \<open>Message handlers\<close>

definition handle_request_vote ::
  "'s LogStore \<Rightarrow> uint64 \<Rightarrow> NodeId \<Rightarrow> RequestVoteRequest \<Rightarrow> ('s, 'm) RaftNode \<Rightarrow> ('s, 'm) outcome" where
  "handle_request_vote L now sender request n =
     (if rv_term request < rn_term n
      then (None, send sender (RequestVoteReply \<lparr> rvr_term = rn_term n, rvr_vote_granted = False \<rparr>) n)
      else and_then (if rv_term request > rn_term n then become_follower L now (rv_term request) None n else (None, n)) (\<lambda>n.
        case last_log_term L n of
          Inl e \<Rightarrow> (Some e, n)
        | Inr last_term \<Rightarrow>
            let can_vote = (case hs_voted_for (rn_hard_state n) of None \<Rightarrow> True | Some v \<Rightarrow> v = rv_candidate_id request);
                log_ok = log_is_up_to_date (rn_last_log_index n) last_term (rv_last_log_index request) (rv_last_log_term request);
                granted = (can_vote \<and> log_ok);
                old_hard_state = rn_hard_state n;
                hard = old_hard_state\<lparr>hs_voted_for := Some (rv_candidate_id request)\<rparr>
            in and_then
                 (if granted
                  then (case on_store (ls_save_hard_state L hard) (n\<lparr>rn_hard_state := hard\<rparr>) of
                          (Some e, n) \<Rightarrow> (Some e, n\<lparr>rn_hard_state := old_hard_state\<rparr>)
                        | (None, n) \<Rightarrow> (None, reset_election_deadline now n))
                  else (None, n))
                 (\<lambda>n. (None, send sender (RequestVoteReply \<lparr> rvr_term = rn_term n, rvr_vote_granted = granted \<rparr>) n))))"

definition handle_request_vote_response ::
  "'m StateMachine \<Rightarrow> 's LogStore \<Rightarrow> uint64 \<Rightarrow> NodeId \<Rightarrow> RequestVoteResponse \<Rightarrow> ('s, 'm) RaftNode \<Rightarrow> ('s, 'm) RaftNode" where
  "handle_request_vote_response M L now sender response n =
     (if rvr_term response > rn_term n then recording (become_follower L now (rvr_term response) None n)
      else if rn_role n \<noteq> Candidate \<or> rvr_term response \<noteq> rn_term n \<or> \<not> rvr_vote_granted response then n
      else
        let n = n\<lparr>rn_votes_received := List.insert sender (rn_votes_received n)\<rparr>
        in if \<not> has_quorum (length (rn_votes_received n)) n then n else recording (become_leader M L now n))"

text \<open>The loop over the entries of a request; \<open>index\<close> is the index of the previous entry.\<close>

fun append_entries_loop ::
  "'s LogStore \<Rightarrow> uint64 \<Rightarrow> uint64 \<Rightarrow> LogEntry list \<Rightarrow> ('s, 'm) RaftNode \<Rightarrow> ('s, 'm) outcome" where
  "append_entries_loop L term index [] n = (None, n)"
| "append_entries_loop L term prev_index (entry # entries) n =
     (let index = prev_index + 1
      in if le_index entry \<noteq> index \<or> le_term entry \<noteq> term
         then (Some (raft_error RE_InvalidArgument ''append entries request has inconsistent index or term''), n)
         else and_then
           (if index \<le> rn_last_log_index n
            then (case ls_at L (rn_store n) index of
                    Inl e \<Rightarrow> (Some e, n)
                  | Inr existing \<Rightarrow>
                      if le_term existing \<noteq> le_term entry
                      then and_then (on_store (ls_truncate_suffix L index) n) (\<lambda>n.
                        (None, fail_pending_proposals (Some index)
                           (raft_error RE_NotLeader ''proposal log suffix was truncated by a new leader'')
                           (n\<lparr>rn_last_log_index := index - 1\<rparr>)))
                      else if le_data existing \<noteq> le_data entry
                      then (Some (raft_error RE_InternalError ''same log position has different data in the same term''), n)
                      else (None, n))
            else (None, n))
           (\<lambda>n. and_then
             (if index > rn_last_log_index n
              then and_then (on_store (ls_append L entry) n) (\<lambda>n. (None, n\<lparr>rn_last_log_index := index\<rparr>))
              else (None, n))
             (append_entries_loop L term index entries)))"

definition follow_leader :: "'s LogStore \<Rightarrow> uint64 \<Rightarrow> uint64 \<Rightarrow> NodeId \<Rightarrow> ('s, 'm) RaftNode \<Rightarrow> ('s, 'm) outcome" where
  "follow_leader L now term leader n =
     (if term > rn_term n \<or> (term = rn_term n \<and> rn_role n \<noteq> Follower)
      then become_follower L now term (Some leader) n
      else (None, reset_election_deadline now (n\<lparr>rn_leader_id := Some leader\<rparr>)))"

definition handle_append_entries ::
  "'m StateMachine \<Rightarrow> 's LogStore \<Rightarrow> uint64 \<Rightarrow> NodeId \<Rightarrow> AppendEntriesRequest \<Rightarrow> ('s, 'm) RaftNode \<Rightarrow> ('s, 'm) outcome" where
  "handle_append_entries M L now sender request n =
     (let reply = (\<lambda>n success match_index hint. send sender (AppendEntriesReply \<lparr> aer_term = rn_term n, aer_success = success,
            aer_match_index = match_index, aer_round = ae_round request, aer_hint_last_index = hint \<rparr>) n)
      in if ae_term request < rn_term n then (None, reply n False 0 0)
         else and_then (follow_leader L now (ae_term request) (ae_leader_id request) n) (\<lambda>n.
           if ae_prev_log_index request > rn_last_log_index n then (None, reply n False 0 (rn_last_log_index n))
           else if ae_prev_log_index request < rn_last_included_index n then (None, reply n False 0 (rn_last_log_index n))
           else case (if ae_prev_log_index request = kInvalidIndex then Inr (ae_prev_log_term request)
                      else if ae_prev_log_index request = rn_last_included_index n then Inr (rn_last_included_term n)
                      else map_sum id le_term (ls_at L (rn_store n) (ae_prev_log_index request))) of
             Inl e \<Rightarrow> (Some e, n)
           | Inr prev_term \<Rightarrow>
               if prev_term \<noteq> ae_prev_log_term request then (None, reply n False 0 (rn_last_log_index n))
               else and_then (append_entries_loop L (ae_term request) (ae_prev_log_index request) (ae_entries request) n) (\<lambda>n.
                 let match_index = ae_prev_log_index request + word_of_nat (length (ae_entries request));
                     n = (if ae_leader_commit request > rn_commit_index n
                          then n\<lparr>rn_commit_index := min (ae_leader_commit request) (rn_last_log_index n)\<rparr> else n)
                 in case apply_committed M L n of (applied, n) \<Rightarrow> (applied, reply n True match_index 0))))"

definition handle_append_entries_response ::
  "'m StateMachine \<Rightarrow> 's LogStore \<Rightarrow> uint64 \<Rightarrow> NodeId \<Rightarrow> AppendEntriesResponse \<Rightarrow> ('s, 'm) RaftNode \<Rightarrow> ('s, 'm) RaftNode" where
  "handle_append_entries_response M L now sender response n =
     (if aer_term response > rn_term n then recording (become_follower L now (aer_term response) None n)
      else if rn_role n \<noteq> Leader \<or> aer_term response \<noteq> rn_term n then n
      else if aer_success response then
        let matched = max (get0 (rn_match_index n) sender) (aer_match_index response);
            n = n\<lparr>rn_match_index := (rn_match_index n)(sender \<mapsto> matched),
                  rn_next_index := (rn_next_index n)(sender \<mapsto> max (get0 (rn_next_index n) sender) (matched + 1)),
                  rn_peer_acked_round := (rn_peer_acked_round n)(sender \<mapsto> max (get0 (rn_peer_acked_round n) sender) (aer_round response))\<rparr>;
            old_commit = rn_commit_index n
        in case advance_commit M L n of
             (Some e, n) \<Rightarrow> record_error e n
           | (None, n) \<Rightarrow>
               let n = evaluate_read_barriers n
               in if get0 (rn_match_index n) sender < rn_last_log_index n \<or> rn_commit_index n \<noteq> old_commit
                  then recording (send_append_entries M L sender n) else n
      else
        let next = get0 (rn_next_index n) sender;
            n = n\<lparr>rn_next_index := (rn_next_index n)(sender \<mapsto> next)\<rparr>
        in if next > 1 \<and> aer_hint_last_index response < rn_last_included_index n
           then recording (send_snapshot M L sender n)
           else recording (send_append_entries M L sender
                  (if next > 1 then n\<lparr>rn_next_index := (rn_next_index n)(sender \<mapsto> next - 1)\<rparr> else n)))"

definition install_pending ::
  "'m StateMachine \<Rightarrow> 's LogStore \<Rightarrow> NodeId \<Rightarrow> PendingSnapshot \<Rightarrow> ('s, 'm) RaftNode \<Rightarrow> ('s, 'm) outcome" where
  "install_pending M L sender pending n =
     (let refuse = (\<lambda>n. send sender (InstallSnapshotReply \<lparr> isr_term = rn_term n, isr_success = False \<rparr>)
            (n\<lparr>rn_pending_snapshot := None\<rparr>))
      in case st_restore M (snapshot_range n) (ps_buffer pending) (rn_machine n) of
           (Some e, m) \<Rightarrow> (Some e, refuse (n\<lparr>rn_machine := m\<rparr>))
         | (None, m) \<Rightarrow>
             let included = ps_last_included_index pending;
                 meta = \<lparr> sm_last_included_index = included, sm_last_included_term = ps_last_included_term pending \<rparr>
             in case on_store (ls_install_snapshot L meta) (n\<lparr>rn_machine := m\<rparr>) of
                  (Some e, n) \<Rightarrow> (Some e, refuse n)
                | (None, n) \<Rightarrow>
                    let n = n\<lparr>rn_pending_snapshot := None, rn_last_included_index := included,
                              rn_last_included_term := ps_last_included_term pending,
                              rn_last_log_index := max (rn_last_log_index n) included,
                              rn_last_applied := max (rn_last_applied n) included,
                              rn_commit_index := max (rn_commit_index n) included\<rparr>;
                        n = evaluate_read_barriers (complete_applied_proposals_upto included n)
                    in (None, send sender (InstallSnapshotReply \<lparr> isr_term = rn_term n, isr_success = True \<rparr>) n))"

definition handle_install_snapshot ::
  "'m StateMachine \<Rightarrow> 's LogStore \<Rightarrow> uint64 \<Rightarrow> NodeId \<Rightarrow> InstallSnapshotRequest \<Rightarrow> ('s, 'm) RaftNode \<Rightarrow> ('s, 'm) outcome" where
  "handle_install_snapshot M L now sender request n =
     (let refuse = (\<lambda>n. send sender (InstallSnapshotReply \<lparr> isr_term = rn_term n, isr_success = False \<rparr>) n)
      in if is_term request < rn_term n then (None, refuse n)
         else
           let term_changed = (is_term request > rn_term n)
           in and_then (follow_leader L now (is_term request) (is_leader_id request) n) (\<lambda>n.
             if is_last_included_index request = kInvalidIndex \<or> is_last_included_term request = 0 then (None, refuse n)
             else if is_last_included_index request < rn_last_applied n then (None, refuse n)
             else
               let pending = (if is_offset request = 0 \<or> term_changed then None else rn_pending_snapshot n);
                   pending = (case pending of Some p \<Rightarrow> p
                     | None \<Rightarrow> \<lparr> ps_term = is_term request, ps_last_included_index = is_last_included_index request,
                         ps_last_included_term = is_last_included_term request, ps_buffer = [] \<rparr>)
               in if ps_last_included_index pending \<noteq> is_last_included_index request \<or>
                     ps_last_included_term pending \<noteq> is_last_included_term request \<or>
                     unat (is_offset request) \<noteq> length (ps_buffer pending)
                  then (None, refuse (n\<lparr>rn_pending_snapshot := None\<rparr>))
                  else
                    let pending = pending\<lparr>ps_buffer := ps_buffer pending @ is_data request\<rparr>
                    in if length (ps_buffer pending) > kMaxPendingSnapshotBytes
                       then (Some (raft_error RE_InvalidArgument ''raft snapshot exceeds the pending-buffer size limit''),
                             refuse (n\<lparr>rn_pending_snapshot := None\<rparr>))
                       else if \<not> is_done request then (None, n\<lparr>rn_pending_snapshot := Some pending\<rparr>)
                       else install_pending M L sender pending (n\<lparr>rn_pending_snapshot := Some pending\<rparr>)))"

definition handle_install_snapshot_response ::
  "'m StateMachine \<Rightarrow> 's LogStore \<Rightarrow> uint64 \<Rightarrow> NodeId \<Rightarrow> InstallSnapshotResponse \<Rightarrow> ('s, 'm) RaftNode \<Rightarrow> ('s, 'm) RaftNode" where
  "handle_install_snapshot_response M L now sender response n =
     (if isr_term response > rn_term n then recording (become_follower L now (isr_term response) None n)
      else if rn_role n \<noteq> Leader \<or> isr_term response \<noteq> rn_term n then n
      else if isr_success response then
        let n = (if rn_match_index n sender = None then n\<lparr>rn_match_index := (rn_match_index n)(sender \<mapsto> 0)\<rparr> else n)
        in if get0 (rn_match_index n) sender < rn_last_log_index n
           then recording (send_append_entries M L sender n) else n
      else record_error (raft_error RE_InternalError ''peer failed to install the raft snapshot'') n)"

definition handle_message ::
  "'m StateMachine \<Rightarrow> 's LogStore \<Rightarrow> uint64 \<Rightarrow> NodeId \<Rightarrow> Message \<Rightarrow> ('s, 'm) RaftNode \<Rightarrow> ('s, 'm) RaftNode" where
  "handle_message M L now sender message n =
     (case message of
        RequestVote r \<Rightarrow> recording (handle_request_vote L now sender r n)
      | RequestVoteReply r \<Rightarrow> handle_request_vote_response M L now sender r n
      | AppendEntries r \<Rightarrow> recording (handle_append_entries M L now sender r n)
      | AppendEntriesReply r \<Rightarrow> handle_append_entries_response M L now sender r n
      | InstallSnapshot r \<Rightarrow> recording (handle_install_snapshot M L now sender r n)
      | InstallSnapshotReply r \<Rightarrow> handle_install_snapshot_response M L now sender r n)"

section \<open>Entry points\<close>

definition start :: "'s LogStore \<Rightarrow> uint64 \<Rightarrow> ('s, 'm) RaftNode \<Rightarrow> ('s, 'm) outcome" where
  "start L now n =
     (if rn_id n = 0 \<or> rn_peers n = []
      then (Some (raft_error RE_InvalidArgument ''node id and peers are required''), n)
      else if rn_id n \<notin> set (rn_peers n)
      then (Some (raft_error RE_InvalidArgument ''the local node id must be included in peers''), n)
      else if \<not> distinct (rn_peers n)
      then (Some (raft_error RE_InvalidArgument ''peers must be unique''), n)
      else if nc_heartbeat_interval_ms (rn_config n) \<ge> nc_election_timeout_ms (rn_config n)
      then (Some (raft_error RE_InvalidArgument ''heartbeat interval must be smaller than election timeout''), n)
      else case ls_load_hard_state L (rn_store n) of
        Inl e \<Rightarrow> (Some e, n)
      | Inr hard \<Rightarrow>
          let n = n\<lparr>rn_hard_state := hard\<rparr>
          in case ls_last_index L (rn_store n) of
               Inl e \<Rightarrow> (Some e, n)
             | Inr last_i \<Rightarrow>
                 let n = n\<lparr>rn_last_log_index := last_i\<rparr>
                 in case ls_snapshot_metadata L (rn_store n) of
                      Inl e \<Rightarrow> (Some e, n)
                    | Inr meta \<Rightarrow>
                        (None, reset_election_deadline now
                           (n\<lparr>rn_last_included_index := sm_last_included_index meta,
                              rn_last_included_term := sm_last_included_term meta,
                              rn_last_applied := sm_last_included_index meta, rn_commit_index := sm_last_included_index meta,
                              rn_role := Follower, rn_leader_id := None, rn_votes_received := [], rn_heartbeat_round := 0,
                              rn_peer_acked_round := Map.empty, rn_pending_read_barriers := [], rn_pending_snapshot := None\<rparr>)))"

definition maybe_compact_log :: "'s LogStore \<Rightarrow> ('s, 'm) RaftNode \<Rightarrow> ('s, 'm) outcome" where
  "maybe_compact_log L n =
     (if rn_role n \<noteq> Leader \<and> rn_role n \<noteq> Follower then (None, n)
      else if nc_snapshot_entries_threshold (rn_config n) = 0 then (None, n)
      else if rn_last_log_index n - rn_last_included_index n < nc_snapshot_entries_threshold (rn_config n) then (None, n)
      else if rn_last_applied n = kInvalidIndex \<or> rn_last_applied n \<le> rn_last_included_index n then (None, n)
      else
        let target = rn_last_applied n
        in case ls_at L (rn_store n) target of
             Inl e \<Rightarrow> (Some e, n)
           | Inr entry \<Rightarrow>
               and_then (on_store (ls_install_snapshot L \<lparr> sm_last_included_index = target, sm_last_included_term = le_term entry \<rparr>) n)
                 (\<lambda>n. (None, n\<lparr>rn_last_included_index := target, rn_last_included_term := le_term entry\<rparr>)))"

text \<open>\<^verbatim>\<open>tick\<close> reads the clock when it begins, and an election reads it again when it sets the next deadline.\<close>

definition tick :: "'m StateMachine \<Rightarrow> 's LogStore \<Rightarrow> uint64 \<Rightarrow> uint64 \<Rightarrow> ('s, 'm) RaftNode \<Rightarrow> ('s, 'm) RaftNode" where
  "tick M L now later n =
     (let n = (if rn_role n = Leader
               then if now \<ge> rn_next_heartbeat n
                    then (send_heartbeats M L n)\<lparr>rn_next_heartbeat := now + nc_heartbeat_interval_ms (rn_config n)\<rparr>
                    else n
               else if now \<ge> rn_election_deadline n then recording (start_election M L later n) else n);
          n = recording (apply_committed M L n)
      in recording (maybe_compact_log L n))"

definition propose :: "'m StateMachine \<Rightarrow> 's LogStore \<Rightarrow> bytes \<Rightarrow> ('s, 'm) RaftNode \<Rightarrow> (RaftError + Proposal) \<times> ('s, 'm) RaftNode" where
  "propose M L data n =
     (if rn_role n \<noteq> Leader then (Inl (raft_error RE_NotLeader ''proposal requires the leader role''), n)
      else
        let index = rn_last_log_index n + 1;
            term = rn_term n
        in case on_store (ls_append L \<lparr> le_index = index, le_term = term, le_data = data \<rparr>) n of
             (Some e, n) \<Rightarrow> (Inl e, n)
           | (None, n) \<Rightarrow>
               let cell = length (rn_completions n);
                   n = n\<lparr>rn_last_log_index := index, rn_match_index := (rn_match_index n)(rn_id n \<mapsto> index),
                         rn_next_index := (rn_next_index n)(rn_id n \<mapsto> index + 1),
                         rn_completions := rn_completions n @ [new_completion],
                         rn_pending_proposals := (index, cell) # filter (\<lambda>p. fst p \<noteq> index) (rn_pending_proposals n)\<rparr>;
                   n = send_heartbeats M L (recording (advance_commit M L n))
               in (Inr \<lparr> pr_index = index, pr_term = term, pr_data = data, pr_committed = (index \<le> rn_commit_index n),
                     pr_apply_result = [], pr_completion = cell \<rparr>, n))"

definition read_barrier :: "'m StateMachine \<Rightarrow> 's LogStore \<Rightarrow> ('s, 'm) RaftNode \<Rightarrow> (RaftError + ReadIndex) \<times> ('s, 'm) RaftNode" where
  "read_barrier M L n =
     (let n = n\<lparr>rn_read_barrier_count := rn_read_barrier_count n + 1\<rparr>
      in if rn_role n \<noteq> Leader then (Inl (raft_error RE_NotLeader ''read barrier requires the leader role''), n)
         else
           let target = rn_commit_index n;
               n = send_heartbeats M L n;
               round = rn_heartbeat_round n;
               cell = length (rn_completions n);
               ready = (quorum_acknowledged round n \<and> rn_last_applied n \<ge> target);
               n = n\<lparr>rn_completions := rn_completions n @ [new_completion]\<rparr>;
               n = (if ready then finish_cells [cell] None [] n
                    else n\<lparr>rn_pending_read_barriers := rn_pending_read_barriers n @
                           [\<lparr> pb_round = round, pb_target_index = target, pb_completion = cell \<rparr>]\<rparr>)
           in (Inr \<lparr> ri_index = target, ri_term = rn_term n, ri_completion = cell \<rparr>, n))"

end
