(* ===== verification/Raft_Election.thy ===== *)
theory Raft_Election imports Raft_Node begin

text \<open>
  The abstract protocol of elections in a group of raft nodes. It keeps of each node its persistent term and
  vote, its role and the votes it holds, and of the network the set of all messages ever sent, so that
  messages may be delayed, duplicated, reordered and lost. At most one leader is ever elected in a term.
\<close>

section \<open>The abstract protocol\<close>

record Election =
  el_hard :: "NodeId \<Rightarrow> HardState"
  el_role :: "NodeId \<Rightarrow> Role"
  el_votes :: "NodeId \<Rightarrow> NodeId list"
  el_net :: "(NodeId \<times> NodeId \<times> Message) set"

abbreviation el_term :: "Election \<Rightarrow> NodeId \<Rightarrow> uint64" where "el_term s i \<equiv> hs_term (el_hard s i)"
abbreviation el_voted :: "Election \<Rightarrow> NodeId \<Rightarrow> NodeId option" where "el_voted s i \<equiv> hs_voted_for (el_hard s i)"

text \<open>Messages that have no part in elections.\<close>

fun plain :: "Message \<Rightarrow> bool" where
  "plain (RequestVote _) \<longleftrightarrow> False"
| "plain (RequestVoteReply r) \<longleftrightarrow> \<not> rvr_vote_granted r"
| "plain _ \<longleftrightarrow> True"

abbreviation vote_for :: "uint64 \<Rightarrow> Message" where
  "vote_for T \<equiv> RequestVoteReply \<lparr> rvr_term = T, rvr_vote_granted = True \<rparr>"

definition el_set :: "Election \<Rightarrow> NodeId \<Rightarrow> HardState \<Rightarrow> Role \<Rightarrow> NodeId list \<Rightarrow> (NodeId \<times> Message) set \<Rightarrow> Election" where
  "el_set s i h r v ms = \<lparr> el_hard = (el_hard s)(i := h), el_role = (el_role s)(i := r), el_votes = (el_votes s)(i := v),
     el_net = el_net s \<union> {(i, p, m) | p m. (p, m) \<in> ms} \<rparr>"

inductive election_step :: "NodeId list \<Rightarrow> Election \<Rightarrow> Election \<Rightarrow> bool" for peers where
  other: "i \<in> set peers \<Longrightarrow> (\<forall>(p, m) \<in> ms. plain m) \<Longrightarrow>
    election_step peers s (el_set s i (el_hard s i) (el_role s i) (el_votes s i) ms)"
| step_down: "i \<in> set peers \<Longrightarrow> election_step peers s (el_set s i (el_hard s i) Follower [] {})"
| new_term: "i \<in> set peers \<Longrightarrow> T > el_term s i \<Longrightarrow>
    election_step peers s (el_set s i \<lparr> hs_term = T, hs_voted_for = None \<rparr> Follower [] {})"
| campaign: "i \<in> set peers \<Longrightarrow> el_term s i \<noteq> - 1 \<Longrightarrow>
    election_step peers s (el_set s i \<lparr> hs_term = el_term s i + 1, hs_voted_for = Some i \<rparr> Candidate [i] {})"
| ask: "i \<in> set peers \<Longrightarrow> el_role s i = Candidate \<Longrightarrow> rv_term r = el_term s i \<Longrightarrow> rv_candidate_id r = i \<Longrightarrow>
    election_step peers s (el_set s i (el_hard s i) Candidate (el_votes s i) {(p, RequestVote r)})"
| grant: "i \<in> set peers \<Longrightarrow> (c, i, RequestVote r) \<in> el_net s \<Longrightarrow> rv_term r = el_term s i \<Longrightarrow>
    el_voted s i = None \<or> el_voted s i = Some (rv_candidate_id r) \<Longrightarrow>
    election_step peers s (el_set s i ((el_hard s i)\<lparr>hs_voted_for := Some (rv_candidate_id r)\<rparr>) (el_role s i) (el_votes s i)
      {(c, vote_for (el_term s i))})"
| count_vote: "i \<in> set peers \<Longrightarrow> (v, i, vote_for (el_term s i)) \<in> el_net s \<Longrightarrow> el_role s i = Candidate \<Longrightarrow>
    election_step peers s (el_set s i (el_hard s i) Candidate (List.insert v (el_votes s i)) {})"
| win: "i \<in> set peers \<Longrightarrow> el_role s i = Candidate \<Longrightarrow> length (el_votes s i) \<ge> length peers div 2 + 1 \<Longrightarrow>
    election_step peers s (el_set s i (el_hard s i) Leader (el_votes s i) {})"

text \<open>
  The invariant: a node asks only for itself and has voted for itself in the term it asks for; a node that
  sent its vote has voted so, or is past the term; it sends its vote in a term to one node, and only to one that asked; a node that
  asked in a term votes for no other node in it; the votes a candidate or leader holds were sent to it in its term.
\<close>

definition requests_ok :: "Election \<Rightarrow> bool" where
  "requests_ok s \<longleftrightarrow> (\<forall>c x r. (c, x, RequestVote r) \<in> el_net s \<longrightarrow> rv_candidate_id r = c \<and>
     (rv_term r < el_term s c \<or> rv_term r = el_term s c \<and> el_voted s c = Some c))"

definition votes_ok :: "NodeId list \<Rightarrow> Election \<Rightarrow> bool" where
  "votes_ok peers s \<longleftrightarrow> (\<forall>v c T. (v, c, vote_for T) \<in> el_net s \<longrightarrow>
     v \<in> set peers \<and> (T < el_term s v \<or> T = el_term s v \<and> el_voted s v = Some c))"

definition votes_unique :: "Election \<Rightarrow> bool" where
  "votes_unique s \<longleftrightarrow> (\<forall>v c d T. (v, c, vote_for T) \<in> el_net s \<longrightarrow> (v, d, vote_for T) \<in> el_net s \<longrightarrow> c = d)"

definition asked_self :: "Election \<Rightarrow> bool" where
  "asked_self s \<longleftrightarrow> (\<forall>v c x r. (v, c, vote_for (rv_term r)) \<in> el_net s \<longrightarrow> (v, x, RequestVote r) \<in> el_net s \<longrightarrow> c = v)"

definition votes_asked :: "Election \<Rightarrow> bool" where
  "votes_asked s \<longleftrightarrow> (\<forall>v c T. (v, c, vote_for T) \<in> el_net s \<longrightarrow> (\<exists>x r. (c, x, RequestVote r) \<in> el_net s \<and> rv_term r = T))"

definition candidates_ok :: "NodeId list \<Rightarrow> Election \<Rightarrow> bool" where
  "candidates_ok peers s \<longleftrightarrow> (\<forall>i. el_role s i \<noteq> Follower \<longrightarrow> i \<in> set peers \<and> el_voted s i = Some i \<and> distinct (el_votes s i) \<and>
     (\<forall>v \<in> set (el_votes s i). v = i \<or> (v, i, vote_for (el_term s i)) \<in> el_net s))"

definition leaders_ok :: "NodeId list \<Rightarrow> Election \<Rightarrow> bool" where
  "leaders_ok peers s \<longleftrightarrow> (\<forall>i. el_role s i = Leader \<longrightarrow> length (el_votes s i) \<ge> length peers div 2 + 1)"

definition election_inv :: "NodeId list \<Rightarrow> Election \<Rightarrow> bool" where
  "election_inv peers s \<longleftrightarrow> requests_ok s \<and> votes_ok peers s \<and> votes_unique s \<and> asked_self s \<and> votes_asked s \<and>
     candidates_ok peers s \<and> leaders_ok peers s"

lemma el_set_simps [simp]:
  "el_hard (el_set s i h r v ms) = (el_hard s)(i := h)" "el_role (el_set s i h r v ms) = (el_role s)(i := r)"
  "el_votes (el_set s i h r v ms) = (el_votes s)(i := v)"
  "el_net (el_set s i h r v ms) = el_net s \<union> {(i, p, m) | p m. (p, m) \<in> ms}"
  by (simp_all add: el_set_def)

lemma election_net_mono: "election_step peers s s' \<Longrightarrow> el_net s \<subseteq> el_net s'"
  by (induction rule: election_step.induct) auto

lemma plain_no_vote: "\<not> plain (vote_for T)" "\<not> plain (RequestVote r)" by simp_all

lemma less_succ: "(t :: uint64) \<noteq> - 1 \<Longrightarrow> t < t + 1"
proof -
  assume "t \<noteq> - 1"
  then have "unat t \<noteq> unat (- 1 :: uint64)" by (simp only: word_unat_eq_iff not_False_eq_True)
  moreover have "unat (- 1 :: uint64) = 2 ^ 64 - 1" by (simp only: unsigned_minus_1_eq_mask mask_eq_exp_minus_1) simp
  ultimately have "unat t + 1 < 2 ^ 64" using unsigned_less[of t, where 'a = nat] by simp
  then show ?thesis by (simp add: word_less_nat_alt unat_word_ariths)
qed

text \<open>What a step does to a node's term and vote, and which messages it adds.\<close>

definition hard_advances :: "HardState \<Rightarrow> HardState \<Rightarrow> bool" where
  "hard_advances h h' \<longleftrightarrow> hs_term h < hs_term h' \<or>
     hs_term h = hs_term h' \<and> (hs_voted_for h \<noteq> None \<longrightarrow> hs_voted_for h' = hs_voted_for h)"

lemma step_advances: "election_step peers s s' \<Longrightarrow> hard_advances (el_hard s j) (el_hard s' j)"
  by (induction rule: election_step.induct) (auto simp: hard_advances_def less_succ)

lemma step_request:
  assumes "election_step peers s s'" "(c, x, RequestVote r) \<in> el_net s'" "(c, x, RequestVote r) \<notin> el_net s"
  shows "el_role s c = Candidate \<and> rv_term r = el_term s c \<and> rv_candidate_id r = c \<and> el_hard s' = el_hard s \<and>
    (\<forall>T v d. (v, d, vote_for T) \<in> el_net s' \<longrightarrow> (v, d, vote_for T) \<in> el_net s)"
  using assms by (induction rule: election_step.induct) auto

lemma step_vote:
  assumes "election_step peers s s'" "(v, c, vote_for T) \<in> el_net s'" "(v, c, vote_for T) \<notin> el_net s"
  shows "v \<in> set peers \<and> T = el_term s v \<and> (\<exists>r. (c, v, RequestVote r) \<in> el_net s \<and> rv_term r = T \<and>
    (el_voted s v = None \<or> el_voted s v = Some (rv_candidate_id r)) \<and>
    el_term s' v = T \<and> el_voted s' v = Some (rv_candidate_id r))"
  using assms by (induction rule: election_step.induct) auto

lemma requests_ok_step:
  assumes st: "election_step peers s s'" and inv: "requests_ok s" "candidates_ok peers s"
  shows "requests_ok s'"
  unfolding requests_ok_def
proof (intro allI impI)
  fix c x r assume m: "(c, x, RequestVote r) \<in> el_net s'"
  show "rv_candidate_id r = c \<and> (rv_term r < el_term s' c \<or> rv_term r = el_term s' c \<and> el_voted s' c = Some c)"
  proof (cases "(c, x, RequestVote r) \<in> el_net s")
    case True
    then show ?thesis using inv(1) step_advances[OF st, of c] by (fastforce simp: requests_ok_def hard_advances_def)
  next
    case False
    then show ?thesis using step_request[OF st m] inv(2) by (auto simp: candidates_ok_def)
  qed
qed

lemma votes_ok_step:
  assumes st: "election_step peers s s'" and inv: "votes_ok peers s" "requests_ok s"
  shows "votes_ok peers s'"
  unfolding votes_ok_def
proof (intro allI impI)
  fix v c T assume m: "(v, c, vote_for T) \<in> el_net s'"
  show "v \<in> set peers \<and> (T < el_term s' v \<or> T = el_term s' v \<and> el_voted s' v = Some c)"
  proof (cases "(v, c, vote_for T) \<in> el_net s")
    case True
    then show ?thesis using inv(1) step_advances[OF st, of v] by (fastforce simp: votes_ok_def hard_advances_def)
  next
    case False
    then show ?thesis using step_vote[OF st m] inv(2) by (fastforce simp: requests_ok_def)
  qed
qed

lemma votes_unique_step:
  assumes st: "election_step peers s s'" and inv: "votes_unique s" "votes_ok peers s" "requests_ok s"
  shows "votes_unique s'"
  unfolding votes_unique_def
proof (intro allI impI)
  fix v c d T assume m: "(v, c, vote_for T) \<in> el_net s'" "(v, d, vote_for T) \<in> el_net s'"
  have new: "a = b" if "(v, a, vote_for T) \<in> el_net s'" "(v, a, vote_for T) \<notin> el_net s" "(v, b, vote_for T) \<in> el_net s'" for a b
  proof -
    have "el_term s' v = T" using step_vote[OF st that(1,2)] by blast
    then show ?thesis using votes_ok_step[OF st inv(2,3), unfolded votes_ok_def] that(1,3) by (metis option.inject order.irrefl)
  qed
  show "c = d" using new[of c d] new[of d c] m inv(1) by (cases "(v, c, vote_for T) \<in> el_net s"; cases "(v, d, vote_for T) \<in> el_net s")
    (auto simp: votes_unique_def)
qed

lemma asked_self_step:
  assumes st: "election_step peers s s'" and inv: "asked_self s" "votes_ok peers s" "requests_ok s" "candidates_ok peers s"
  shows "asked_self s'"
  unfolding asked_self_def
proof (intro allI impI)
  fix v c x r assume m: "(v, c, vote_for (rv_term r)) \<in> el_net s'" "(v, x, RequestVote r) \<in> el_net s'"
  have "rv_term r < el_term s' v \<or> rv_term r = el_term s' v \<and> el_voted s' v = Some v"
    using requests_ok_step[OF st inv(3,4)] m(2) unfolding requests_ok_def by blast
  moreover have "rv_term r < el_term s' v \<or> rv_term r = el_term s' v \<and> el_voted s' v = Some c"
    using votes_ok_step[OF st inv(2,3)] m(1) unfolding votes_ok_def by blast
  moreover have "rv_term r = el_term s' v" if "(v, c, vote_for (rv_term r)) \<notin> el_net s \<or> (v, x, RequestVote r) \<notin> el_net s"
    using that step_vote[OF st m(1)] step_request[OF st m(2)] by metis
  moreover have "c = v" if "(v, c, vote_for (rv_term r)) \<in> el_net s \<and> (v, x, RequestVote r) \<in> el_net s"
    using that inv(1) unfolding asked_self_def by blast
  ultimately show "c = v" by (metis option.inject order.irrefl)
qed

lemma votes_asked_step:
  assumes st: "election_step peers s s'" and inv: "votes_asked s"
  shows "votes_asked s'"
  unfolding votes_asked_def
proof (intro allI impI)
  fix v c T assume m: "(v, c, vote_for T) \<in> el_net s'"
  show "\<exists>x r. (c, x, RequestVote r) \<in> el_net s' \<and> rv_term r = T"
    using step_vote[OF st m] inv election_net_mono[OF st] unfolding votes_asked_def by blast
qed

lemma candidates_ok_step:
  assumes st: "election_step peers s s'" and inv: "candidates_ok peers s"
  shows "candidates_ok peers s'"
  using assms
proof (induction rule: election_step.induct)
  case (grant i c r s)
  then have "el_role s i \<noteq> Follower \<Longrightarrow> rv_candidate_id r = i" by (auto simp: candidates_ok_def)
  then show ?case using grant by (auto simp: candidates_ok_def)
qed (auto simp: candidates_ok_def)

lemma leaders_ok_step: "election_step peers s s' \<Longrightarrow> leaders_ok peers s \<Longrightarrow> leaders_ok peers s'"
  by (induction rule: election_step.induct) (auto simp: leaders_ok_def)

lemma election_inv_step:
  assumes st: "election_step peers s s'" and inv: "election_inv peers s"
  shows "election_inv peers s'"
proof -
  note i = inv[unfolded election_inv_def]
  show ?thesis unfolding election_inv_def
    using requests_ok_step[OF st] votes_ok_step[OF st] votes_unique_step[OF st] asked_self_step[OF st] votes_asked_step[OF st]
      candidates_ok_step[OF st] leaders_ok_step[OF st] i by simp
qed

lemma election_inv_steps: "(election_step peers)\<^sup>*\<^sup>* s s' \<Longrightarrow> election_inv peers s \<Longrightarrow> election_inv peers s' \<and> el_net s \<subseteq> el_net s'"
  by (induction rule: rtranclp_induct) (use election_inv_step election_net_mono in blast)+

lemma quorums_meet:
  assumes "distinct peers" "distinct a" "distinct b" "set a \<subseteq> set peers" "set b \<subseteq> set peers"
    "length a \<ge> length peers div 2 + 1" "length b \<ge> length peers div 2 + 1"
  obtains v where "v \<in> set a" "v \<in> set b"
proof -
  have "card (set a) + card (set b) > card (set peers)"
    using assms by (simp add: distinct_card)
  then have "set a \<inter> set b \<noteq> {}"
    using card_Un_disjoint[of "set a" "set b"] card_mono[of "set peers" "set a \<union> set b"] assms(4,5) by auto
  then show thesis using that by blast
qed

lemma leader_votes:
  "election_inv peers s \<Longrightarrow> el_role s i = Leader \<Longrightarrow> i \<in> set peers \<and> distinct (el_votes s i) \<and>
    (\<forall>v \<in> set (el_votes s i). v = i \<or> (v, i, vote_for (el_term s i)) \<in> el_net s) \<and>
    length (el_votes s i) \<ge> length peers div 2 + 1"
  by (simp add: election_inv_def candidates_ok_def leaders_ok_def)

text \<open>A node that was elected in a term is the only one that ever is.\<close>

lemma one_leader:
  assumes peers: "distinct peers" and inv: "election_inv peers s" and steps: "(election_step peers)\<^sup>*\<^sup>* s s'"
    and a: "el_role s a = Leader" "el_term s a = T" and b: "el_role s' b = Leader" "el_term s' b = T"
  shows "a = b"
proof -
  have inv': "election_inv peers s'" and net: "el_net s \<subseteq> el_net s'" using election_inv_steps[OF steps inv] by simp_all
  have A: "a \<in> set peers" "distinct (el_votes s a)" "\<And>v. v \<in> set (el_votes s a) \<Longrightarrow> v = a \<or> (v, a, vote_for T) \<in> el_net s'"
      "length (el_votes s a) \<ge> length peers div 2 + 1"
    using leader_votes[OF inv a(1)] a(2) net by (blast+)
  have B: "b \<in> set peers" "distinct (el_votes s' b)" "\<And>v. v \<in> set (el_votes s' b) \<Longrightarrow> v = b \<or> (v, b, vote_for T) \<in> el_net s'"
      "length (el_votes s' b) \<ge> length peers div 2 + 1"
    using leader_votes[OF inv' b(1)] b(2) by (blast+)
  have vo: "(v, c, vote_for T) \<in> el_net s' \<Longrightarrow> v \<in> set peers" for v c using inv' unfolding election_inv_def votes_ok_def by blast
  have un: "(v, c, vote_for T) \<in> el_net s' \<Longrightarrow> (v, d, vote_for T) \<in> el_net s' \<Longrightarrow> c = d" for v c d
    using inv' unfolding election_inv_def votes_unique_def by blast
  have self: "c = v" if "(v, c, vote_for T) \<in> el_net s'" "(w, v, vote_for T) \<in> el_net s'" for v c w
    using inv' that unfolding election_inv_def votes_asked_def asked_self_def by metis
  obtain v where v: "v \<in> set (el_votes s a)" "v \<in> set (el_votes s' b)"
    using quorums_meet[OF peers A(2) B(2) _ _ A(4) B(4)] A(1,3) B(1,3) vo by (metis subsetI)
  have other: "\<exists>w. w \<in> set xs \<and> w \<noteq> c" if xs: "distinct xs" "length xs \<ge> length peers div 2 + 1" "length peers \<ge> 2" for xs c
  proof (rule ccontr)
    assume "\<nexists>w. w \<in> set xs \<and> w \<noteq> c"
    then have "set xs \<subseteq> {c}" by auto
    then have "length xs \<le> 1" using xs(1) card_mono[of "{c}" "set xs"] by (simp add: distinct_card)
    then show False using xs(2,3) by simp
  qed
  show "a = b"
  proof (cases "length peers \<ge> 2")
    case True
    obtain x y where "x \<in> set (el_votes s a)" "x \<noteq> a" "y \<in> set (el_votes s' b)" "y \<noteq> b" using other[OF A(2,4) True] other[OF B(2,4) True] by metis
    then show ?thesis using A(3) B(3) v self un by metis
  next
    case False
    then have "length peers = 1" using A(1) by (cases "length peers") auto
    then show ?thesis using A(1) B(1) by (auto simp: length_Suc_conv)
  qed
qed

end
