(* ===== verification/Raft_Cluster.thy ===== *)
theory Raft_Cluster imports Raft_Election begin

text \<open>
  A group of raft nodes and its elections. Every step of a node (a tick, a message, a proposal, a read barrier,
  a crash with restart) is a sequence of steps of the abstract election protocol, provided the log store keeps
  the hard state; so at most one node is ever the leader of a term.
\<close>

section \<open>Steps of a node that have no part in elections\<close>

definition quiet :: "('s \<Rightarrow> HardState) \<Rightarrow> ('s, 'm) RaftNode \<Rightarrow> ('s, 'm) RaftNode \<Rightarrow> bool" where
  "quiet hard n n' \<longleftrightarrow> rn_config n' = rn_config n \<and> rn_hard_state n' = rn_hard_state n \<and>
     hard (rn_store n') = hard (rn_store n) \<and> rn_role n' = rn_role n \<and> rn_votes_received n' = rn_votes_received n \<and>
     (\<exists>ms. rn_outbox n' = rn_outbox n @ ms \<and> (\<forall>(p, m) \<in> set ms. plain m))"

lemma quiet_refl [intro, simp]: "quiet hard n n"
  by (simp add: quiet_def)

lemma quiet_trans [trans]: "quiet hard a b \<Longrightarrow> quiet hard b c \<Longrightarrow> quiet hard a c"
  unfolding quiet_def by (metis (no_types, lifting) Un_iff append.assoc set_append)

lemma quiet_send: "plain m \<Longrightarrow> quiet hard n (send p m n)"
  by (simp add: quiet_def send_def)

lemma quiet_fold: "(\<And>x m. x \<in> set xs \<Longrightarrow> quiet hard m (f x m)) \<Longrightarrow> quiet hard n (fold f xs n)"
  by (induction xs arbitrary: n) (auto intro: quiet_trans)

lemma quiet_recording: "quiet hard n (snd r) \<Longrightarrow> quiet hard n (recording r)"
  by (cases r) (auto simp: recording_def record_error_def quiet_def split: option.split)

lemma quiet_and_then: "quiet hard n (snd r) \<Longrightarrow> (\<And>m. quiet hard m (snd (f m))) \<Longrightarrow> quiet hard n (snd (and_then r f))"
  by (cases r) (auto simp: and_then_def intro: quiet_trans split: option.split)

lemma quiet_bookkeeping [intro, simp]:
  "quiet hard n (finish_cells cs e r n)" "quiet hard n (complete_applied_proposal i r' n)"
  "quiet hard n (complete_applied_proposals_upto i n)" "quiet hard n (fail_pending_proposals fi er n)"
  "quiet hard n (fail_read_barriers er n)" "quiet hard n (evaluate_read_barriers n)"
  "quiet hard n (record_error er n)" "quiet hard n (reset_election_deadline now n)" "quiet hard n (initialize_leader_progress n)"
  by (auto simp: quiet_def finish_cells_def complete_applied_proposal_def complete_applied_proposals_upto_def
      fail_pending_proposals_def fail_read_barriers_def evaluate_read_barriers_def record_error_def
      reset_election_deadline_def initialize_leader_progress_def Let_def split: option.split)

lemma quiet_updates [simp]:
  "quiet hard n (m\<lparr>rn_machine := x1\<rparr>) = quiet hard n m" "quiet hard n (m\<lparr>rn_leader_id := x2\<rparr>) = quiet hard n m"
  "quiet hard n (m\<lparr>rn_last_log_index := x3\<rparr>) = quiet hard n m" "quiet hard n (m\<lparr>rn_last_included_index := x3\<rparr>) = quiet hard n m"
  "quiet hard n (m\<lparr>rn_last_included_term := x3\<rparr>) = quiet hard n m" "quiet hard n (m\<lparr>rn_commit_index := x3\<rparr>) = quiet hard n m"
  "quiet hard n (m\<lparr>rn_last_applied := x3\<rparr>) = quiet hard n m" "quiet hard n (m\<lparr>rn_apply_count := x3\<rparr>) = quiet hard n m"
  "quiet hard n (m\<lparr>rn_read_barrier_count := x3\<rparr>) = quiet hard n m" "quiet hard n (m\<lparr>rn_next_index := x4\<rparr>) = quiet hard n m"
  "quiet hard n (m\<lparr>rn_match_index := x4\<rparr>) = quiet hard n m" "quiet hard n (m\<lparr>rn_pending_proposals := x5\<rparr>) = quiet hard n m"
  "quiet hard n (m\<lparr>rn_pending_read_barriers := x6\<rparr>) = quiet hard n m" "quiet hard n (m\<lparr>rn_heartbeat_round := x3\<rparr>) = quiet hard n m"
  "quiet hard n (m\<lparr>rn_peer_acked_round := x4\<rparr>) = quiet hard n m" "quiet hard n (m\<lparr>rn_pending_snapshot := x7\<rparr>) = quiet hard n m"
  "quiet hard n (m\<lparr>rn_election_deadline := x3\<rparr>) = quiet hard n m" "quiet hard n (m\<lparr>rn_next_heartbeat := x3\<rparr>) = quiet hard n m"
  "quiet hard n (m\<lparr>rn_completions := x8\<rparr>) = quiet hard n m"
  by (simp_all add: quiet_def)

lemma quiet_send_snapshot: "quiet hard n (snd (send_snapshot M L to n))"
  by (auto simp: send_snapshot_def Let_def split_def split: sum.split intro!: quiet_fold quiet_send)

lemma quiet_send_append_entries: "quiet hard n (snd (send_append_entries M L to n))"
proof -
  define n1 where "n1 = (if rn_next_index n to = None then n\<lparr>rn_next_index := (rn_next_index n)(to \<mapsto> rn_last_log_index n + 1)\<rparr> else n)"
  define n2 where "n2 = (if rn_match_index n1 to = None then n1\<lparr>rn_match_index := (rn_match_index n1)(to \<mapsto> 0)\<rparr> else n1)"
  have q: "quiet hard n n2" by (auto simp: n1_def n2_def quiet_def)
  have "quiet hard n2 (snd (send_append_entries M L to n))"
    unfolding send_append_entries_def Let_def n1_def[symmetric] n2_def[symmetric]
    by (auto intro: quiet_send_snapshot quiet_send split: sum.split)
  with q show ?thesis by (rule quiet_trans)
qed

lemma quiet_send_heartbeats: "quiet hard n (send_heartbeats M L n)"
proof -
  have "quiet hard n (n\<lparr>rn_heartbeat_round := rn_heartbeat_round n + 1\<rparr>)" by (simp add: quiet_def)
  moreover have "quiet hard (n\<lparr>rn_heartbeat_round := rn_heartbeat_round n + 1\<rparr>) (send_heartbeats M L n)"
    unfolding send_heartbeats_def by (intro quiet_fold) (auto intro: quiet_recording quiet_send_append_entries)
  ultimately show ?thesis by (rule quiet_trans)
qed

lemma quiet_apply_committed: "quiet hard n (snd (apply_committed M L n))"
proof (induction M L n rule: apply_committed.induct)
  case (1 M L n)
  have u: "quiet hard n (n\<lparr>rn_machine := m, rn_apply_count := c, rn_last_applied := a\<rparr>)" "quiet hard n (n\<lparr>rn_machine := m, rn_apply_count := c\<rparr>)"
    for m c a by (simp_all add: quiet_def)
  show ?case
  proof (cases "rn_last_applied n < rn_commit_index n")
    case True
    show ?thesis
    proof (cases "ls_at L (rn_store n) (rn_last_applied n + 1)")
      case (Inl e)
      then show ?thesis using True by (subst apply_committed.simps) simp
    next
      case (Inr entry)
      obtain res m where a: "st_apply M entry (rn_machine n) = (res, m)" by fastforce
      show ?thesis
      proof (cases res)
        case e: (Inl e)
        show ?thesis using True Inr a e
          by (subst apply_committed.simps) (auto intro: quiet_trans[OF u(2)] quiet_trans[OF quiet_bookkeeping(4)])
      next
        case r: (Inr r)
        show ?thesis
          using True Inr a r quiet_trans[OF quiet_trans[OF u(1) quiet_bookkeeping(2)] 1[OF True Inr a[symmetric] r]]
          by (subst apply_committed.simps) simp
      qed
    qed
  qed (subst apply_committed.simps, simp)
qed

lemma quiet_advance_commit: "quiet hard n (snd (advance_commit M L n))"
proof -
  have "quiet hard n (snd (apply_committed M L (n\<lparr>rn_commit_index := c\<rparr>)))" for c
    using quiet_trans[OF _ quiet_apply_committed, of hard n "n\<lparr>rn_commit_index := c\<rparr>"] by (simp add: quiet_def)
  then show ?thesis
    by (auto simp: advance_commit_def Let_def intro!: quiet_and_then quiet_send_heartbeats split: sum.split)
qed

section \<open>The group of nodes\<close>

text \<open>
  What elections rely on of a log store: the hard state that was saved last is the one that is loaded, a failed
  save changes nothing, and the operations on the log leave it alone.
\<close>

locale persistent_votes =
  fixes L :: "'s LogStore" and hard :: "'s \<Rightarrow> HardState"
  assumes load_hard: "ls_load_hard_state L s = Inr h \<Longrightarrow> h = hard s"
    and save_ok: "ls_save_hard_state L h s = (None, s') \<Longrightarrow> hard s' = h"
    and save_fails: "ls_save_hard_state L h s = (Some e, s') \<Longrightarrow> hard s' = hard s"
    and log_operations: "hard (snd (ls_append L entry s)) = hard s" "hard (snd (ls_truncate_suffix L i s)) = hard s"
      "hard (snd (ls_install_snapshot L meta s)) = hard s"

text \<open>
  A group: its nodes and all messages ever sent. A step is a tick, the delivery of a message, a proposal, a
  read barrier, or a crash with a restart, which keeps the log store and may find the state machine in any state. A
  node does not campaign in the last term, $2^{64} - 1$, after which terms would start over.
\<close>

record ('s, 'm) Cluster =
  cl_nodes :: "NodeId \<Rightarrow> ('s, 'm) RaftNode"
  cl_net :: "(NodeId \<times> NodeId \<times> Message) set"

definition put_node :: "NodeId \<Rightarrow> ('s, 'm) RaftNode \<Rightarrow> ('s, 'm) Cluster \<Rightarrow> ('s, 'm) Cluster" where
  "put_node i n c = c\<lparr>cl_nodes := (cl_nodes c)(i := n\<lparr>rn_outbox := []\<rparr>),
     cl_net := cl_net c \<union> {(i, p, m) | p m. (p, m) \<in> set (rn_outbox n)}\<rparr>"

inductive cluster_step :: "'m StateMachine \<Rightarrow> 's LogStore \<Rightarrow> NodeId list \<Rightarrow> ('s, 'm) Cluster \<Rightarrow> ('s, 'm) Cluster \<Rightarrow> bool"
  for M L peers where
  ticks: "i \<in> set peers \<Longrightarrow> rn_term (cl_nodes c i) \<noteq> - 1 \<Longrightarrow>
    cluster_step M L peers c (put_node i (tick M L now later (cl_nodes c i)) c)"
| delivers: "i \<in> set peers \<Longrightarrow> (j, i, m) \<in> cl_net c \<Longrightarrow>
    cluster_step M L peers c (put_node i (handle_message M L now j m (cl_nodes c i)) c)"
| proposes: "i \<in> set peers \<Longrightarrow> cluster_step M L peers c (put_node i (snd (propose M L data (cl_nodes c i))) c)"
| reads: "i \<in> set peers \<Longrightarrow> cluster_step M L peers c (put_node i (snd (read_barrier M L (cl_nodes c i))) c)"
| restarts: "i \<in> set peers \<Longrightarrow>
    start L now (raft_node (rn_config (cl_nodes c i)) (rn_store (cl_nodes c i)) machine) = (None, n) \<Longrightarrow>
    cluster_step M L peers c (put_node i n c)"

definition initial_cluster :: "'s LogStore \<Rightarrow> NodeId list \<Rightarrow> ('s, 'm) Cluster \<Rightarrow> bool" where
  "initial_cluster L peers c \<longleftrightarrow> distinct peers \<and> cl_net c = {} \<and>
     (\<forall>i \<in> set peers. \<exists>config store machine now. nc_node_id config = i \<and> nc_peers config = peers \<and>
        start L now (raft_node config store machine) = (None, cl_nodes c i))"

definition election_of :: "NodeId list \<Rightarrow> ('s, 'm) Cluster \<Rightarrow> Election" where
  "election_of peers c =
     \<lparr> el_hard = (\<lambda>i. rn_hard_state (cl_nodes c i)),
       el_role = (\<lambda>i. if i \<in> set peers then rn_role (cl_nodes c i) else Follower),
       el_votes = (\<lambda>i. rn_votes_received (cl_nodes c i)), el_net = cl_net c \<rparr>"

text \<open>The abstract state in which node \<open>i\<close> is as \<open>n\<close> says, its outbox sent; and the nodes that are in step with their store.\<close>

definition shown :: "Election \<Rightarrow> NodeId \<Rightarrow> ('s, 'm) RaftNode \<Rightarrow> Election" where
  "shown s i n = el_set s i (rn_hard_state n) (rn_role n) (rn_votes_received n) (set (rn_outbox n))"

definition in_step :: "('s \<Rightarrow> HardState) \<Rightarrow> NodeId list \<Rightarrow> NodeId \<Rightarrow> ('s, 'm) RaftNode \<Rightarrow> bool" where
  "in_step hard peers i n \<longleftrightarrow> i \<in> set peers \<and> rn_id n = i \<and> rn_peers n = peers \<and> hard (rn_store n) = rn_hard_state n"

definition simulated :: "('s \<Rightarrow> HardState) \<Rightarrow> NodeId list \<Rightarrow> Election \<Rightarrow> NodeId \<Rightarrow> ('s, 'm) RaftNode \<Rightarrow> ('s, 'm) RaftNode \<Rightarrow> bool" where
  "simulated hard peers s i n n' \<longleftrightarrow>
     in_step hard peers i n \<longrightarrow> in_step hard peers i n' \<and> (election_step peers)\<^sup>*\<^sup>* (shown s i n) (shown s i n')"

lemma simulated_refl [intro, simp]: "simulated hard peers s i n n"
  by (simp add: simulated_def)

lemma simulated_trans: "simulated hard peers s i a b \<Longrightarrow> simulated hard peers s i b c \<Longrightarrow> simulated hard peers s i a c"
  by (auto simp: simulated_def)

lemma shown_set:
  "el_set (shown s i n) i h r v ms = el_set s i h r v (set (rn_outbox n) \<union> ms)"
  by (auto simp: shown_def el_set_def)

lemma quiet_simulated:
  assumes "quiet hard n n'"
  shows "simulated hard peers s i n n'"
  unfolding simulated_def
proof (intro impI)
  assume g: "in_step hard peers i n"
  obtain ms where ms: "rn_outbox n' = rn_outbox n @ ms" "\<forall>(p, m) \<in> set ms. plain m" using assms by (auto simp: quiet_def)
  have "election_step peers (shown s i n) (el_set (shown s i n) i (el_hard (shown s i n) i) (el_role (shown s i n) i)
      (el_votes (shown s i n) i) (set ms))"
    using g ms(2) by (intro election_step.other) (auto simp: in_step_def)
  moreover have "el_set (shown s i n) i (el_hard (shown s i n) i) (el_role (shown s i n) i) (el_votes (shown s i n) i) (set ms) = shown s i n'"
    unfolding shown_set using assms ms(1) by (simp add: shown_def quiet_def)
  ultimately show "in_step hard peers i n' \<and> (election_step peers)\<^sup>*\<^sup>* (shown s i n) (shown s i n')"
    using g assms by (auto simp: in_step_def quiet_def)
qed

text \<open>One abstract step, given by what the node is afterwards.\<close>

lemma one_step_simulated:
  assumes "in_step hard peers i n \<Longrightarrow> in_step hard peers i n' \<and>
      election_step peers (shown s i n) (el_set (shown s i n) i (rn_hard_state n') (rn_role n') (rn_votes_received n') (set ms))"
    and "rn_outbox n' = rn_outbox n @ ms"
  shows "simulated hard peers s i n n'"
proof -
  have "el_set (shown s i n) i (rn_hard_state n') (rn_role n') (rn_votes_received n') (set ms) = shown s i n'"
    unfolding shown_set using assms(2) by (simp add: shown_def)
  then show ?thesis using assms(1) by (auto simp: simulated_def)
qed

lemma simulated_recording: "simulated hard peers s i n (snd r) \<Longrightarrow> simulated hard peers s i n (recording r)"
  by (cases r) (auto simp: recording_def intro: simulated_trans[OF _ quiet_simulated[OF quiet_bookkeeping(7)]] split: option.split)

lemma simulated_and_then:
  assumes "simulated hard peers s i n (snd r)" "\<And>m. r = (None, m) \<Longrightarrow> simulated hard peers s i m (snd (f m))"
  shows "simulated hard peers s i n (snd (and_then r f))"
  using assms by (cases r) (auto simp: and_then_def intro: simulated_trans split: option.split)

context persistent_votes
begin

lemma quiet_on_store:
  "quiet hard n (snd (on_store (ls_append L entry) n))" "quiet hard n (snd (on_store (ls_truncate_suffix L k) n))"
  "quiet hard n (snd (on_store (ls_install_snapshot L meta) n))"
  using log_operations(1)[of entry "rn_store n"] log_operations(2)[of k "rn_store n"] log_operations(3)[of meta "rn_store n"]
  by (auto simp: on_store_def quiet_def split: prod.split)

lemma simulated_become_follower: "simulated hard peers s i (n :: ('s, 'm) RaftNode) (snd (become_follower L now T l n))"
proof -
  let ?h = "\<lparr> hs_term = T, hs_voted_for = None \<rparr>"
  define tail where "tail = (\<lambda>m :: ('s, 'm) RaftNode. reset_election_deadline now ((if rn_role n = Leader
      then fail_read_barriers (raft_error RE_NotLeader ''leadership was lost before the read barrier completed'')
        (fail_pending_proposals None (raft_error RE_NotLeader ''leadership was lost before commit'') (m\<lparr>rn_role := Follower\<rparr>))
      else m\<lparr>rn_role := Follower\<rparr>)\<lparr>rn_leader_id := l, rn_votes_received := [], rn_pending_snapshot := None\<rparr>))"
  have tail: "rn_config (tail m) = rn_config m" "rn_hard_state (tail m) = rn_hard_state m" "rn_store (tail m) = rn_store m"
    "rn_role (tail m) = Follower" "rn_votes_received (tail m) = []" "rn_outbox (tail m) = rn_outbox m" for m
    by (auto simp: tail_def reset_election_deadline_def Let_def fail_read_barriers_def fail_pending_proposals_def)
  obtain e st where sv: "ls_save_hard_state L ?h (rn_store n) = (e, st)" by fastforce
  consider "\<not> T > rn_term n" "snd (become_follower L now T l n) = tail n"
    | "T > rn_term n" "e = None" "snd (become_follower L now T l n) = tail (n\<lparr>rn_hard_state := ?h, rn_store := st\<rparr>)"
    | err where "T > rn_term n" "e = Some err" "snd (become_follower L now T l n) = n\<lparr>rn_store := st\<rparr>"
    using sv by (cases e; cases "T > rn_term n") (auto simp: become_follower_def and_then_def on_store_def Let_def tail_def)
  then show ?thesis
  proof cases
    case 1
    show ?thesis unfolding 1(2)
      by (rule one_step_simulated[where ms = "[]"]) (use step_down[of i peers "shown s i n"] in \<open>auto simp: tail in_step_def shown_def\<close>)
  next
    case 2
    then have "hard st = ?h" using save_ok[OF sv[unfolded 2(2)]] by simp
    then show ?thesis unfolding 2(3) using 2(1)
      by (intro one_step_simulated[where ms = "[]"]) (use new_term[of i peers "shown s i n" T] in \<open>auto simp: tail in_step_def shown_def\<close>)
  next
    case 3
    then have "hard st = hard (rn_store n)" using save_fails[OF sv[unfolded 3(2)]] by simp
    then show ?thesis unfolding 3(3) by (intro quiet_simulated) (simp add: quiet_def)
  qed
qed

lemma simulated_become_leader:
  assumes "rn_role n = Candidate \<Longrightarrow> has_quorum (length (rn_votes_received n)) n"
  shows "simulated hard peers s i n (snd (become_leader M L now n))"
proof (cases "rn_role n = Candidate")
  case True
  define n1 where "n1 = n\<lparr>rn_role := Leader, rn_leader_id := Some (rn_id n)\<rparr>"
  define n2 where "n2 = initialize_leader_progress n1"
  let ?e = "\<lparr> le_index = rn_last_log_index n2 + 1, le_term = rn_term n2, le_data = [] \<rparr>"
  have win: "simulated hard peers s i n n1"
    using assms True win[of i peers "shown s i n"]
    by (intro one_step_simulated[where ms = "[]"]) (auto simp: n1_def in_step_def shown_def has_quorum_def)
  have q: "quiet hard n1 n2" by (simp add: n2_def)
  obtain e n3 where st: "on_store (ls_append L ?e) n2 = (e, n3)" by fastforce
  then have q3: "quiet hard n1 n3" using quiet_trans[OF q quiet_on_store(1)[of n2 ?e]] by simp
  have "simulated hard peers s i n1 (snd (become_leader M L now n))"
  proof (cases e)
    case (Some err)
    then have "snd (become_leader M L now n) = snd (and_then (become_follower L now (rn_term n3) None n3) (\<lambda>n. (Some err, n)))"
      using True st by (simp add: become_leader_def Let_def n1_def n2_def)
    moreover have "simulated hard peers s i n3 (snd (and_then (become_follower L now (rn_term n3) None n3) (\<lambda>n. (Some err, n))))"
      by (rule simulated_and_then[OF simulated_become_follower]) simp
    ultimately show ?thesis using simulated_trans[OF quiet_simulated[OF q3]] by simp
  next
    case None
    define n4 where "n4 = n3\<lparr>rn_last_log_index := rn_last_log_index n2 + 1,
        rn_match_index := (rn_match_index n3)(rn_id n3 \<mapsto> rn_last_log_index n2 + 1),
        rn_next_index := (rn_next_index n3)(rn_id n3 \<mapsto> rn_last_log_index n2 + 1 + 1)\<rparr>"
    have "quiet hard n3 n4" by (simp add: n4_def quiet_def)
    then have "quiet hard n1 (snd (advance_commit M L (send_heartbeats M L n4)))"
      using quiet_trans[OF q3] quiet_trans[OF _ quiet_trans[OF quiet_send_heartbeats quiet_advance_commit]] by blast
    moreover have "snd (become_leader M L now n) = snd (advance_commit M L (send_heartbeats M L n4))"
      using True st None by (simp add: become_leader_def Let_def n1_def n2_def n4_def)
    ultimately show ?thesis using quiet_simulated by simp
  qed
  then show ?thesis using win by (rule simulated_trans[rotated])
qed (simp add: become_leader_def)

lemma ask_peers:
  assumes "rn_role n = Candidate" "r = \<lparr> rv_term = rn_term n, rv_candidate_id = rn_id n,
    rv_last_log_index = rn_last_log_index n, rv_last_log_term = t \<rparr>"
  shows "simulated hard peers s i n (fold (\<lambda>peer n. if peer = rn_id n then n
    else send peer (RequestVote \<lparr> rv_term = rn_term n, rv_candidate_id = rn_id n,
      rv_last_log_index = rn_last_log_index n, rv_last_log_term = t \<rparr>) n) ps n)"
  using assms
proof (induction ps arbitrary: n r)
  case (Cons p ps)
  let ?n = "send p (RequestVote r) n"
  have "simulated hard peers s i n ?n"
    using Cons.prems ask[of i peers "shown s i n" r p]
    by (intro one_step_simulated[where ms = "[(p, RequestVote r)]"]) (auto simp: send_def in_step_def shown_def)
  then show ?case using Cons.IH[of ?n] Cons.IH[of n] Cons.prems by (auto simp: send_def intro: simulated_trans)
qed simp

lemma simulated_start_election:
  assumes "rn_term n \<noteq> - 1"
  shows "simulated hard peers s i n (snd (start_election M L now n))"
proof -
  define h where "h = \<lparr> hs_term = rn_term n + 1, hs_voted_for = Some (rn_id n) \<rparr>"
  obtain e st where sv: "ls_save_hard_state L h (rn_store n) = (e, st)" by fastforce
  show ?thesis
  proof (cases e)
    case (Some err)
    have "hard st = hard (rn_store n)" using save_fails[OF sv[unfolded Some]] by simp
    moreover have "snd (start_election M L now n) = n\<lparr>rn_store := st, rn_leader_id := None\<rparr>"
      using sv Some by (simp add: start_election_def h_def on_store_def Let_def)
    ultimately show ?thesis by (intro quiet_simulated) (simp add: quiet_def)
  next
    case None
    define n1 where "n1 = reset_election_deadline now
      (n\<lparr>rn_role := Candidate, rn_hard_state := h, rn_leader_id := None, rn_store := st, rn_votes_received := [rn_id n]\<rparr>)"
    have n1: "rn_config n1 = rn_config n" "rn_role n1 = Candidate" "rn_hard_state n1 = h" "rn_store n1 = st"
      "rn_votes_received n1 = [rn_id n]" "rn_outbox n1 = rn_outbox n"
      by (simp_all add: n1_def reset_election_deadline_def)
    have "simulated hard peers s i n n1"
      using save_ok[OF sv[unfolded None]] assms campaign[of i peers "shown s i n"]
      by (intro one_step_simulated[where ms = "[]"]) (auto simp: n1 in_step_def shown_def h_def)
    moreover have "simulated hard peers s i n1 (snd (start_election M L now n))"
    proof -
      have "snd (start_election M L now n) = (if has_quorum 1 n1 then snd (become_leader M L now n1)
          else case last_log_term L n1 of Inl e \<Rightarrow> n1 | Inr t \<Rightarrow> fold (\<lambda>peer n. if peer = rn_id n then n
            else send peer (RequestVote \<lparr> rv_term = rn_term n, rv_candidate_id = rn_id n,
              rv_last_log_index = rn_last_log_index n, rv_last_log_term = t \<rparr>) n) (rn_peers n1) n1)"
        using sv None by (simp add: start_election_def h_def on_store_def Let_def n1_def split: sum.split)
      then show ?thesis using simulated_become_leader[of n1 peers s i M now] ask_peers[OF n1(2) refl] n1
        by (auto split: sum.split)
    qed
    ultimately show ?thesis by (rule simulated_trans)
  qed
qed

end

end
