(* ===== verification/Raft_Safety.thy ===== *)
theory Raft_Safety imports Raft_Cluster begin

text \<open>
  Election safety of the group of raft nodes: the message handlers and entry points follow the abstract protocol.
\<close>

definition cluster_inv :: "('s \<Rightarrow> HardState) \<Rightarrow> NodeId list \<Rightarrow> ('s, 'm) Cluster \<Rightarrow> bool" where
  "cluster_inv hard peers c \<longleftrightarrow> (\<forall>i \<in> set peers. in_step hard peers i (cl_nodes c i) \<and> rn_outbox (cl_nodes c i) = [])"

section \<open>Message handlers\<close>

context persistent_votes
begin

lemma quiet_maybe_compact_log: "quiet hard n (snd (maybe_compact_log L n))"
  by (auto simp: maybe_compact_log_def Let_def intro!: quiet_and_then quiet_on_store split: sum.split)

lemma quiet_append_entries_loop: "quiet hard n (snd (append_entries_loop L T k es n))"
proof (induction es arbitrary: k n T)
  case (Cons e es)
  have a: "quiet hard m (snd (and_then (on_store (ls_truncate_suffix L j) m) (\<lambda>n. (None, fail_pending_proposals x y (n\<lparr>rn_last_log_index := z\<rparr>)))))"
    for m j x y z by (rule quiet_and_then[OF quiet_on_store(2)]) (simp, metis quiet_bookkeeping(4) quiet_refl quiet_trans quiet_updates(3))
  have b: "quiet hard m (snd (if P m then and_then (on_store (ls_append L e) m) (\<lambda>n. (None, n\<lparr>rn_last_log_index := z\<rparr>)) else (None, m)))"
    for m P z by (auto intro!: quiet_and_then quiet_on_store)
  show ?case
    by (auto simp: Let_def split: sum.split intro!: quiet_and_then a b Cons)
qed simp

lemma simulated_follow_leader: "simulated hard peers s i n (snd (follow_leader L now T l n))"
proof -
  have "quiet hard n (reset_election_deadline now (n\<lparr>rn_leader_id := Some l\<rparr>))" by (simp add: reset_election_deadline_def Let_def)
  then show ?thesis using simulated_become_follower quiet_simulated by (auto simp: follow_leader_def)
qed

lemma simulated_handle_append_entries: "simulated hard peers s i (n :: ('s, 'm) RaftNode) (snd (handle_append_entries M L now j r n))"
proof -
  define reply where "reply = (\<lambda>n :: ('s, 'm) RaftNode. \<lambda>success match_index hint. send j (AppendEntriesReply \<lparr> aer_term = rn_term n,
     aer_success = success, aer_match_index = match_index, aer_round = ae_round r, aer_hint_last_index = hint \<rparr>) n)"
  have rep: "quiet hard m (reply m a b c)" for m a b c by (simp add: reply_def quiet_send)
  have app: "quiet hard m (snd (case apply_committed M L (if P then m\<lparr>rn_commit_index := c\<rparr> else m) of (a, n) \<Rightarrow> (a, reply n True x 0)))" for m P c x
  proof -
    have "quiet hard m (if P then m\<lparr>rn_commit_index := c\<rparr> else m)" by simp
    from quiet_trans[OF quiet_trans[OF this quiet_apply_committed] rep] show ?thesis by (simp add: split_def)
  qed
  show ?thesis
    unfolding handle_append_entries_def Let_def reply_def[symmetric]
    by (auto intro!: quiet_simulated[OF rep] simulated_and_then simulated_follow_leader quiet_simulated[OF app]
        quiet_simulated[OF quiet_append_entries_loop] split: sum.split)
qed

lemma simulated_handle_append_entries_response:
  "simulated hard peers s i n (handle_append_entries_response M L now j r n)"
proof -
  have q: "quiet hard n (recording (send_append_entries M L j m))" "quiet hard n (recording (send_snapshot M L j m))" if "quiet hard n m" for m
    using quiet_trans[OF that] quiet_recording quiet_send_append_entries quiet_send_snapshot by blast+
  have acked: "quiet hard n (case advance_commit M L m of (Some e, n) \<Rightarrow> record_error e n
      | (None, n) \<Rightarrow> if P n then recording (send_append_entries M L j (evaluate_read_barriers n)) else evaluate_read_barriers n)"
    if "quiet hard n m" for m P
  proof -
    obtain res x where a: "advance_commit M L m = (res, x)" by fastforce
    have x: "quiet hard n x" using quiet_trans[OF that quiet_advance_commit[of hard m M L]] a by simp
    have "quiet hard n (evaluate_read_barriers x)" "quiet hard n (record_error e x)" for e
      using quiet_trans[OF x] quiet_bookkeeping by blast+
    then show ?thesis using a q(1) by (cases res) simp_all
  qed
  have up: "quiet hard n (n\<lparr>rn_match_index := a, rn_next_index := b, rn_peer_acked_round := c\<rparr>)" "quiet hard n (n\<lparr>rn_next_index := b\<rparr>)"
    "quiet hard n (n\<lparr>rn_next_index := b, rn_next_index := d\<rparr>)" for a b c d by simp_all
  show ?thesis
    unfolding handle_append_entries_response_def Let_def
    by (auto intro: simulated_recording[OF simulated_become_follower] quiet_simulated[OF acked[OF up(1)]]
        quiet_simulated[OF q(1)[OF up(2)]] quiet_simulated[OF q(1)[OF up(3)]] quiet_simulated[OF q(2)[OF up(2)]]
        simp del: fun_upd_upd)
qed

lemma simulated_handle_install_snapshot_response:
  "simulated hard peers s i n (handle_install_snapshot_response M L now j r n)"
proof -
  have q: "quiet hard n (recording (send_append_entries M L j m))" if "quiet hard n m" for m
    using quiet_trans[OF that] quiet_recording quiet_send_append_entries by blast
  show ?thesis
    by (auto simp: handle_install_snapshot_response_def Let_def intro: simulated_recording[OF simulated_become_follower]
        quiet_simulated[OF q] quiet_simulated)
qed

lemma quiet_install_pending: "quiet hard n (snd (install_pending M L j p n))"
proof -
  have s: "quiet hard n (send j (InstallSnapshotReply x) m)" if "quiet hard n m" for m x
    using quiet_trans[OF that quiet_send] by simp
  have b: "quiet hard n (evaluate_read_barriers (complete_applied_proposals_upto k m))" if "quiet hard n m" for m k
    using quiet_trans[OF that quiet_trans[OF quiet_bookkeeping(3,6)]] .
  have o: "quiet hard n x" if "on_store (ls_install_snapshot L meta) (n\<lparr>rn_machine := m\<rparr>) = (o', x)" for meta m o' x
    using quiet_trans[OF _ quiet_on_store(3), of n "n\<lparr>rn_machine := m\<rparr>" meta] that by simp
  show ?thesis
    by (auto simp: install_pending_def Let_def split: prod.split option.split intro!: s b elim!: o)
qed

lemma quiet_if: "quiet hard n (snd a) \<Longrightarrow> quiet hard n (snd b) \<Longrightarrow> quiet hard n (snd (if c then a else b))"
  by simp

lemma simulated_handle_install_snapshot: "simulated hard peers s i n (snd (handle_install_snapshot M L now j r n))"
proof -
  have s: "quiet hard m (snd (e, send j (InstallSnapshotReply x) (m\<lparr>rn_pending_snapshot := q\<rparr>)))" "quiet hard m (snd (e, send j (InstallSnapshotReply x) m))"
    for m x q and e :: "RaftError option" by (simp_all, rule quiet_trans[OF _ quiet_send]) (simp_all add: quiet_send)
  have p: "quiet hard m (snd (install_pending M L j q (m\<lparr>rn_pending_snapshot := x\<rparr>)))" for m q x
    using quiet_trans[OF _ quiet_install_pending, of m "m\<lparr>rn_pending_snapshot := x\<rparr>"] by simp
  have k: "quiet hard m (snd (e, m\<lparr>rn_pending_snapshot := x\<rparr>))" for m x and e :: "RaftError option" by simp
  show ?thesis
  proof (cases "is_term r < rn_term n")
    case True
    then show ?thesis using quiet_simulated[OF quiet_send[of "InstallSnapshotReply _" hard n]] by (simp add: handle_install_snapshot_def)
  next
    case False
    then show ?thesis
      unfolding handle_install_snapshot_def Let_def if_not_P[OF False]
      by (intro simulated_and_then[OF simulated_follow_leader] quiet_simulated quiet_if s p k)
  qed
qed

lemma become_follower_term: "become_follower L now T l n = (None, m) \<Longrightarrow> rn_term m = (if T > rn_term n then T else rn_term n)"
  by (auto simp: become_follower_def and_then_def on_store_def Let_def reset_election_deadline_def fail_read_barriers_def
      fail_pending_proposals_def split: prod.splits option.splits if_splits)

lemma simulated_vote:
  assumes "(j, i, RequestVote r) \<in> el_net s" "rv_term r = rn_term m"
    "hs_voted_for (rn_hard_state m) = None \<or> hs_voted_for (rn_hard_state m) = Some (rv_candidate_id r)"
    "ls_save_hard_state L ((rn_hard_state m)\<lparr>hs_voted_for := Some (rv_candidate_id r)\<rparr>) (rn_store m) = (None, st)"
  shows "simulated hard peers s i m (send j (vote_for (rn_term m)) (reset_election_deadline now
    (m\<lparr>rn_hard_state := (rn_hard_state m)\<lparr>hs_voted_for := Some (rv_candidate_id r)\<rparr>, rn_store := st\<rparr>)))"
  using assms save_ok[OF assms(4)] grant[of i peers j r "shown s i m"]
  by (intro one_step_simulated[where ms = "[(j, vote_for (rn_term m))]"])
    (auto simp: in_step_def shown_def send_def reset_election_deadline_def)

lemma simulated_handle_request_vote:
  assumes j: "(j, i, RequestVote r) \<in> el_net s"
  shows "simulated hard peers s i n (snd (handle_request_vote L now j r n))"
proof (cases "rv_term r < rn_term n")
  case True
  then show ?thesis using quiet_simulated[OF quiet_send[of "RequestVoteReply _" hard n]] by (simp add: handle_request_vote_def)
next
  case False
  have body: "simulated hard peers s i m (snd (case last_log_term L m of
          Inl e \<Rightarrow> (Some e, m)
        | Inr last_term \<Rightarrow>
            and_then (if (case hs_voted_for (rn_hard_state m) of None \<Rightarrow> True | Some v \<Rightarrow> v = rv_candidate_id r) \<and>
                  log_is_up_to_date (rn_last_log_index m) last_term (rv_last_log_index r) (rv_last_log_term r)
                then (case on_store (ls_save_hard_state L ((rn_hard_state m)\<lparr>hs_voted_for := Some (rv_candidate_id r)\<rparr>))
                       (m\<lparr>rn_hard_state := (rn_hard_state m)\<lparr>hs_voted_for := Some (rv_candidate_id r)\<rparr>\<rparr>) of
                        (Some e, n) \<Rightarrow> (Some e, n\<lparr>rn_hard_state := rn_hard_state m\<rparr>)
                      | (None, n) \<Rightarrow> (None, reset_election_deadline now n))
                else (None, m))
              (\<lambda>n. (None, send j (RequestVoteReply \<lparr> rvr_term = rn_term n, rvr_vote_granted =
                 ((case hs_voted_for (rn_hard_state m) of None \<Rightarrow> True | Some v \<Rightarrow> v = rv_candidate_id r) \<and>
                  log_is_up_to_date (rn_last_log_index m) last_term (rv_last_log_index r) (rv_last_log_term r)) \<rparr>) n))))"
    if t: "rv_term r = rn_term m" for m
  proof -
    let ?h = "(rn_hard_state m)\<lparr>hs_voted_for := Some (rv_candidate_id r)\<rparr>"
    obtain e st where sv: "ls_save_hard_state L ?h (rn_store m) = (e, st)" by fastforce
    have refuse: "quiet hard m (send j (RequestVoteReply \<lparr> rvr_term = rn_term m, rvr_vote_granted = False \<rparr>) m)"
      by (simp add: quiet_send)
    show ?thesis
    proof (cases e)
      case None
      have eq: "rn_term (reset_election_deadline now (m\<lparr>rn_hard_state := ?h, rn_store := st\<rparr>)) = rn_term m"
        by (simp add: reset_election_deadline_def)
      show ?thesis
        using quiet_simulated[OF refuse] simulated_vote[OF j t _ sv[unfolded None], of peers now] None sv eq
        by (auto simp: on_store_def and_then_def split: sum.split option.splits)
    next
      case (Some err)
      have "quiet hard m (m\<lparr>rn_store := st\<rparr>)" using save_fails[OF sv[unfolded Some]] by (simp add: quiet_def)
      then show ?thesis
        using quiet_simulated[OF refuse] quiet_simulated Some sv
        by (auto simp: on_store_def and_then_def split: sum.split option.splits)
    qed
  qed
  show ?thesis
    unfolding handle_request_vote_def Let_def if_not_P[OF False]
    using False simulated_become_follower
    by (intro simulated_and_then body) (auto dest: become_follower_term split: if_splits)
qed

lemma simulated_handle_request_vote_response:
  assumes "(j, i, RequestVoteReply r) \<in> el_net s"
  shows "simulated hard peers s i n (handle_request_vote_response M L now j r n)"
proof -
  define n1 where "n1 = n\<lparr>rn_votes_received := List.insert j (rn_votes_received n)\<rparr>"
  have count: "simulated hard peers s i n n1" if "rn_role n = Candidate" "rvr_term r = rn_term n" "rvr_vote_granted r"
  proof -
    have "r = \<lparr> rvr_term = rn_term n, rvr_vote_granted = True \<rparr>" using that by simp
    then have "(j, i, vote_for (rn_term n)) \<in> el_net s" using assms by metis
    then show ?thesis using that count_vote[of i peers j "shown s i n"]
      by (intro one_step_simulated[where ms = "[]"]) (auto simp: n1_def in_step_def shown_def)
  qed
  have "simulated hard peers s i n (recording (become_leader M L now n1))"
    if "rn_role n = Candidate" "rvr_term r = rn_term n" "rvr_vote_granted r" "has_quorum (length (rn_votes_received n1)) n1"
    using simulated_trans[OF count simulated_recording[OF simulated_become_leader]] that by blast
  then show ?thesis
    using count simulated_recording[OF simulated_become_follower]
    by (auto simp: handle_request_vote_response_def Let_def n1_def[symmetric])
qed

lemma simulated_handle_message:
  assumes "(j, i, m) \<in> el_net s"
  shows "simulated hard peers s i n (handle_message M L now j m n)"
  using assms simulated_handle_request_vote simulated_handle_request_vote_response
    simulated_handle_append_entries simulated_handle_append_entries_response
    simulated_handle_install_snapshot simulated_handle_install_snapshot_response
  by (cases m) (auto simp: handle_message_def intro!: simulated_recording)

lemma simulated_tick:
  assumes "rn_term n \<noteq> - 1"
  shows "simulated hard peers s i n (tick M L now later n)"
proof -
  have h: "quiet hard n ((send_heartbeats M L n)\<lparr>rn_next_heartbeat := x\<rparr>)" for x using quiet_send_heartbeats by simp
  have t: "simulated hard peers s i m (recording (maybe_compact_log L (recording (apply_committed M L m))))" for m
    using quiet_trans[OF quiet_recording[OF quiet_apply_committed] quiet_recording[OF quiet_maybe_compact_log]] quiet_simulated by blast
  show ?thesis
    unfolding tick_def Let_def
    by (rule simulated_trans[OF _ t]) (auto intro: quiet_simulated[OF h] simulated_recording simulated_start_election[OF assms])
qed

lemma quiet_propose: "quiet hard n (snd (propose M L data n))"
proof -
  let ?e = "\<lparr> le_index = rn_last_log_index n + 1, le_term = rn_term n, le_data = data \<rparr>"
  obtain e m where st: "on_store (ls_append L ?e) n = (e, m)" by fastforce
  have m: "quiet hard n m" using quiet_on_store(1)[of n ?e] st by simp
  have "quiet hard n (send_heartbeats M L (recording (advance_commit M L x)))" if "quiet hard n x" for x
    using quiet_trans[OF that quiet_trans[OF quiet_recording[OF quiet_advance_commit] quiet_send_heartbeats]] .
  then show ?thesis using m st by (cases e) (simp_all add: propose_def Let_def)
qed

lemma quiet_read_barrier: "quiet hard n (snd (read_barrier M L n))"
proof -
  have "quiet hard n (send_heartbeats M L (n\<lparr>rn_read_barrier_count := x\<rparr>))" for x
    using quiet_trans[OF _ quiet_send_heartbeats, of hard n "n\<lparr>rn_read_barrier_count := x\<rparr>"] by simp
  then show ?thesis by (simp add: read_barrier_def Let_def finish_cells_def)
qed

section \<open>Runs of a group\<close>

lemma put_node_shown: "i \<in> set peers \<Longrightarrow> election_of peers (put_node i n c) = shown (election_of peers c) i n"
  by (auto simp: election_of_def put_node_def shown_def el_set_def fun_eq_iff)

lemma node_shown: "i \<in> set peers \<Longrightarrow> rn_outbox (cl_nodes c i) = [] \<Longrightarrow> shown (election_of peers c) i (cl_nodes c i) = election_of peers c"
  by (auto simp: election_of_def shown_def el_set_def fun_eq_iff)

lemma cluster_simulates:
  assumes "cluster_inv hard peers c" "i \<in> set peers" "\<And>s. el_net s = cl_net c \<Longrightarrow> simulated hard peers s i (cl_nodes c i) n"
  shows "cluster_inv hard peers (put_node i n c) \<and> (election_step peers)\<^sup>*\<^sup>* (election_of peers c) (election_of peers (put_node i n c))"
proof -
  have i: "in_step hard peers i (cl_nodes c i)" "rn_outbox (cl_nodes c i) = []" using assms(1,2) by (auto simp: cluster_inv_def)
  have "el_net (election_of peers c) = cl_net c" by (simp add: election_of_def)
  from assms(3)[OF this] i(1) have n: "in_step hard peers i n"
    and st: "(election_step peers)\<^sup>*\<^sup>* (shown (election_of peers c) i (cl_nodes c i)) (shown (election_of peers c) i n)"
    by (auto simp: simulated_def)
  have "cluster_inv hard peers (put_node i n c)" using assms(1) n by (auto simp: cluster_inv_def put_node_def in_step_def)
  then show ?thesis using st node_shown[OF assms(2) i(2)] put_node_shown[OF assms(2), of n c] by simp
qed

lemma start_fields:
  assumes "start L now (raft_node config store machine) = (None, n)"
  shows "nc_node_id (rn_config n) = nc_node_id config" "nc_peers (rn_config n) = nc_peers config" "rn_store n = store"
    "rn_hard_state n = hard store" "rn_role n = Follower" "rn_votes_received n = []" "rn_outbox n = []"
  using assms load_hard[of store]
  by (auto simp: start_def raft_node_def Let_def reset_election_deadline_def split: if_splits sum.splits)

lemma cluster_step_simulated:
  assumes "cluster_step M L peers c c'" "cluster_inv hard peers c"
  shows "cluster_inv hard peers c' \<and> (election_step peers)\<^sup>*\<^sup>* (election_of peers c) (election_of peers c')"
  using assms
proof (induction rule: cluster_step.induct)
  case (ticks i c now)
  then show ?case by (intro cluster_simulates simulated_tick)
next
  case (delivers i j m c now)
  then show ?case by (intro cluster_simulates simulated_handle_message) simp_all
next
  case (proposes i c data)
  then show ?case by (intro cluster_simulates quiet_simulated[OF quiet_propose])
next
  case (reads i c)
  then show ?case by (intro cluster_simulates quiet_simulated[OF quiet_read_barrier])
next
  case (restarts i now c machine n)
  have sim: "simulated hard peers s i (cl_nodes c i) n" for s
    using start_fields[OF restarts(2)] step_down[of i peers "shown s i (cl_nodes c i)"] restarts(1,3)
    by (intro one_step_simulated[where ms = "[]"]) (auto simp: in_step_def shown_def cluster_inv_def)
  then show ?case using restarts by (intro cluster_simulates)
qed

lemma cluster_run_simulated:
  "(cluster_step M L peers)\<^sup>*\<^sup>* c c' \<Longrightarrow> cluster_inv hard peers c \<Longrightarrow>
    cluster_inv hard peers c' \<and> (election_step peers)\<^sup>*\<^sup>* (election_of peers c) (election_of peers c')"
  by (induction rule: rtranclp_induct) (auto dest: cluster_step_simulated)

lemma initial_inv:
  assumes "initial_cluster L peers c"
  shows "cluster_inv hard peers c" "election_inv peers (election_of peers c)"
proof -
  have "rn_id (cl_nodes c i) = i \<and> rn_peers (cl_nodes c i) = peers \<and> hard (rn_store (cl_nodes c i)) = rn_hard_state (cl_nodes c i) \<and>
      rn_outbox (cl_nodes c i) = [] \<and> rn_role (cl_nodes c i) = Follower" if "i \<in> set peers" for i
    using assms that start_fields by (fastforce simp: initial_cluster_def)
  then show "cluster_inv hard peers c" "election_inv peers (election_of peers c)"
    using assms by (auto simp: cluster_inv_def in_step_def election_inv_def requests_ok_def votes_ok_def votes_unique_def asked_self_def
        votes_asked_def candidates_ok_def leaders_ok_def election_of_def initial_cluster_def)
qed

lemma one_leader_per_term:
  assumes init: "initial_cluster L peers c0" and run: "(cluster_step M L peers)\<^sup>*\<^sup>* c0 c" "(cluster_step M L peers)\<^sup>*\<^sup>* c c'"
    and a: "a \<in> set peers" "rn_role (cl_nodes c a) = Leader" and b: "b \<in> set peers" "rn_role (cl_nodes c' b) = Leader"
    and same: "rn_term (cl_nodes c a) = rn_term (cl_nodes c' b)"
  shows "a = b"
proof -
  note r = cluster_run_simulated[OF run(1) initial_inv(1)[OF init]]
  then have r': "(election_step peers)\<^sup>*\<^sup>* (election_of peers c) (election_of peers c')" using cluster_run_simulated[OF run(2)] by blast
  have inv: "election_inv peers (election_of peers c)" using election_inv_steps[OF _ initial_inv(2)[OF init]] r by blast
  show ?thesis
    using one_leader[OF _ inv r', of a "rn_term (cl_nodes c a)" b] init a b same
    by (simp add: initial_cluster_def election_of_def)
qed

end

section \<open>The log store in memory keeps the votes\<close>

interpretation memory_votes: persistent_votes memory_store ms_hard_state
  by unfold_locales (auto simp: memory_store_def mem_save_hard_state_def mem_append_def mem_truncate_suffix_def mem_install_snapshot_def)

section \<open>A run of three nodes\<close>

definition unit_machine :: "unit StateMachine" where
  "unit_machine = \<lparr> st_apply = (\<lambda>_ m. (Inr [], m)), st_snapshot = (\<lambda>_ _. Inr []), st_restore = (\<lambda>_ _ m. (None, m)) \<rparr>"

definition three_config :: "NodeId \<Rightarrow> NodeConfig" where
  "three_config i = \<lparr> nc_node_id = i, nc_peers = [1, 2, 3], nc_election_timeout_ms = 10, nc_heartbeat_interval_ms = 1,
     nc_group_range = sr_all, nc_snapshot_entries_threshold = 0, nc_group_id = 0 \<rparr>"

definition started :: "NodeId \<Rightarrow> (MemoryLogStore, unit) RaftNode" where
  "started i = snd (start memory_store 0 (raft_node (three_config i) memory_log_store ()))"

definition candidate_1 :: "(MemoryLogStore, unit) RaftNode" where
  "candidate_1 = tick unit_machine memory_store 100 100 (started 1)"

definition ask_2 :: Message where
  "ask_2 = RequestVote \<lparr> rv_term = 1, rv_candidate_id = 1, rv_last_log_index = 0, rv_last_log_term = 0 \<rparr>"

definition voter_2 :: "(MemoryLogStore, unit) RaftNode" where
  "voter_2 = handle_message unit_machine memory_store 100 1 ask_2 (started 2)"

definition elected_1 :: "(MemoryLogStore, unit) RaftNode" where
  "elected_1 = handle_message unit_machine memory_store 100 2 (vote_for 1) (candidate_1\<lparr>rn_outbox := []\<rparr>)"

lemma three_facts:
  "fst (start memory_store 0 (raft_node (three_config 1) memory_log_store ())) = None"
  "fst (start memory_store 0 (raft_node (three_config 2) memory_log_store ())) = None"
  "fst (start memory_store 0 (raft_node (three_config 3) memory_log_store ())) = None"
  "rn_term (started 1) \<noteq> - 1" "(2, ask_2) \<in> set (rn_outbox candidate_1)" "(1, vote_for 1) \<in> set (rn_outbox voter_2)"
  "rn_role elected_1 = Leader" "rn_term elected_1 = 1"
  by code_simp+

definition three_0 :: "(MemoryLogStore, unit) Cluster" where
  "three_0 = \<lparr> cl_nodes = started, cl_net = {} \<rparr>"

definition three_1 :: "(MemoryLogStore, unit) Cluster" where
  "three_1 = put_node 1 candidate_1 three_0"

definition three_2 :: "(MemoryLogStore, unit) Cluster" where
  "three_2 = put_node 2 voter_2 three_1"

definition three_3 :: "(MemoryLogStore, unit) Cluster" where
  "three_3 = put_node 1 elected_1 three_2"

lemma three_initial: "initial_cluster memory_store [1, 2, 3] three_0"
proof -
  have "start memory_store 0 (raft_node (three_config i) memory_log_store ()) = (None, cl_nodes three_0 i)"
    if "i \<in> set [1, 2, 3]" for i
    using that three_facts(1-3) by (auto simp: three_0_def started_def prod_eq_iff)
  moreover have "nc_node_id (three_config i) = i" "nc_peers (three_config i) = [1, 2, 3]" for i
    by (simp_all add: three_config_def)
  moreover have "distinct [1, 2, 3 :: NodeId]" "cl_net three_0 = {}"
    by (simp_all add: three_0_def)
  ultimately show ?thesis
    unfolding initial_cluster_def by blast
qed

lemma three_run: "(cluster_step unit_machine memory_store [1, 2, 3])\<^sup>*\<^sup>* three_0 three_3"
proof -
  have "cluster_step unit_machine memory_store [1, 2, 3] three_0 three_1"
    using cluster_step.ticks[of 1 "[1, 2, 3]" three_0 unit_machine memory_store 100] three_facts(4)
    by (simp add: three_1_def candidate_1_def three_0_def del: fun_upd_apply)
  moreover have "cluster_step unit_machine memory_store [1, 2, 3] three_1 three_2"
    using cluster_step.delivers[of 2 "[1, 2, 3]" 1 ask_2 three_1 unit_machine memory_store 100] three_facts(5)
    by (auto simp: three_2_def voter_2_def three_1_def three_0_def put_node_def)
  moreover have "cluster_step unit_machine memory_store [1, 2, 3] three_2 three_3"
    using cluster_step.delivers[of 1 "[1, 2, 3]" 2 "vote_for 1" three_2 unit_machine memory_store 100] three_facts(6)
    by (auto simp: three_3_def elected_1_def three_2_def three_1_def three_0_def put_node_def)
  ultimately show ?thesis
    by (blast intro: rtranclp.rtrancl_into_rtrancl)
qed

section \<open>Properties\<close>

text \<open>
  C29: election safety. In every run of a group of raft nodes on the log store in memory, in which nodes tick at any
  time, receive any message that was ever sent to them (delayed, duplicated, reordered or never), propose,
  read, and crash and restart with their log store and an arbitrary state machine, a node that is the leader of a term is the only one that
  is ever the leader of that term.
\<close>

theorem election_safety:
  assumes "initial_cluster memory_store peers c0"
    and "(cluster_step M memory_store peers)\<^sup>*\<^sup>* c0 c" and "(cluster_step M memory_store peers)\<^sup>*\<^sup>* c c'"
    and "a \<in> set peers" and "rn_role (cl_nodes c a) = Leader" and "b \<in> set peers" and "rn_role (cl_nodes c' b) = Leader"
    and "rn_term (cl_nodes c a) = rn_term (cl_nodes c' b)"
  shows "a = b"
  using assms by (rule memory_votes.one_leader_per_term)

theorem election_safety_witness:
  "(1 :: NodeId) = 1 \<and> rn_role (cl_nodes three_3 1) = Leader"
proof -
  have lead: "rn_role (cl_nodes three_3 1) = Leader"
    using three_facts(7) by (simp add: three_3_def put_node_def)
  have "(1 :: NodeId) = 1"
    by (rule election_safety[OF three_initial three_run rtranclp.rtrancl_refl _ lead _ lead]) simp_all
  then show ?thesis
    using lead by blast
qed

end
