(* ===== verification/Raft_Commit.thy ===== *)
theory Raft_Commit imports Raft_Safety begin

text \<open>
  Commitment and progress of a raft group: what \<^verbatim>\<open>quorum_match_index\<close> counts, that \<^verbatim>\<open>apply_committed\<close> applies every
  committed entry once and in order, what a follower answers to entries of older terms, and that a node whose
  election deadline has passed is elected once a quorum with no newer log hears it.
\<close>

section \<open>Counting\<close>

lemma sorted_nth_count:
  assumes "sorted xs" "j < length xs"
  shows "(k :: 'a :: linorder) \<le> rev xs ! j \<longleftrightarrow> j < length (filter (\<lambda>x. k \<le> x) xs)"
  using assms
proof (induction xs arbitrary: j)
  case (Cons x xs)
  show ?case
  proof (cases "j < length xs")
    case True
    then have nth: "rev (x # xs) ! j = rev xs ! j" by (simp add: nth_append)
    have all: "k \<le> x \<Longrightarrow> filter (\<lambda>x. k \<le> x) xs = xs" using Cons.prems by (auto simp: filter_id_conv)
    show ?thesis unfolding nth using Cons.IH[of j] Cons.prems True all by (cases "k \<le> x") simp_all
  next
    case False
    then have j: "j = length xs" using Cons.prems by simp
    have "filter (\<lambda>x. k \<le> x) xs = xs" if "k \<le> x" using Cons.prems that by (auto simp: filter_id_conv)
    then show ?thesis using j by (auto simp: nth_append elim: notE[OF leD[OF length_filter_le]])
  qed
qed simp

text \<open>The peers known to hold the log up to an index.\<close>

definition holders :: "uint64 \<Rightarrow> ('s, 'm) RaftNode \<Rightarrow> nat" where
  "holders k n = length (filter (\<lambda>peer. k \<le> get0 (rn_match_index n) peer) (rn_peers n))"

lemma quorum_match_index_counts:
  assumes "rn_peers n \<noteq> []"
  shows "k \<le> quorum_match_index n \<longleftrightarrow> (length (rn_peers n) + 1) div 2 \<le> holders k n"
proof -
  let ?xs = "map (get0 (rn_match_index n)) (rn_peers n)" let ?j = "(length (rn_peers n) - 1) div 2"
  have pos: "length (rn_peers n) > 0" using assms by simp
  then have j: "?j < length (sort ?xs)" by (cases "rn_peers n") auto
  have "length (filter (\<lambda>x. k \<le> x) (sort ?xs)) = holders k n"
    by (simp add: filter_sort holders_def filter_map comp_def)
  then have "k \<le> rev (sort ?xs) ! ?j \<longleftrightarrow> ?j < holders k n"
    using sorted_nth_count[OF sorted_sort j, of k] by simp
  moreover have "?j < holders k n \<longleftrightarrow> (length (rn_peers n) + 1) div 2 \<le> holders k n"
    using pos by (cases "length (rn_peers n)") auto
  moreover have "sort ?xs \<noteq> []" using assms by (metis length_0_conv length_map length_sort)
  ultimately show ?thesis by (simp add: quorum_match_index_def Let_def)
qed

section \<open>Applying\<close>

text \<open>
  The entries at a list of indices, read and applied in turn until one cannot be read or applied: the error, the
  number of entries applied, and the machine.
\<close>

fun replay_entries :: "'m StateMachine \<Rightarrow> 's LogStore \<Rightarrow> 's \<Rightarrow> nat list \<Rightarrow> 'm \<Rightarrow> RaftError option \<times> nat \<times> 'm" where
  "replay_entries M L s [] m = (None, 0, m)"
| "replay_entries M L s (i # is) m =
     (case ls_at L s (word_of_nat i) of
        Inl e \<Rightarrow> (Some e, 0, m)
      | Inr entry \<Rightarrow>
          (case st_apply M entry m of
             (Inl e, m') \<Rightarrow> (Some e, 0, m')
           | (Inr _, m') \<Rightarrow> (case replay_entries M L s is m' of (e, k, m'') \<Rightarrow> (e, Suc k, m''))))"

definition to_apply :: "('s, 'm) RaftNode \<Rightarrow> nat list" where
  "to_apply n = [unat (rn_last_applied n) + 1..<unat (rn_commit_index n) + 1]"

lemma to_apply_step:
  assumes "rn_last_applied n < rn_commit_index n"
  obtains i rest where "to_apply n = i # rest" "(word_of_nat i :: uint64) = rn_last_applied n + 1"
    "unat (rn_last_applied n + 1) = i" "rest = [unat (rn_last_applied n + 1) + 1..<unat (rn_commit_index n) + 1]"
proof
  have lt: "unat (rn_last_applied n) < unat (rn_commit_index n)" using assms by (simp add: word_less_nat_alt)
  then have u: "unat (rn_last_applied n + 1) = unat (rn_last_applied n) + 1"
    using unsigned_less[of "rn_commit_index n", where 'a = nat] by (simp add: unat_word_ariths)
  show "to_apply n = (unat (rn_last_applied n) + 1) # [unat (rn_last_applied n + 1) + 1..<unat (rn_commit_index n) + 1]"
    using lt by (simp add: to_apply_def u upt_conv_Cons del: upt_Suc)
  show "unat (rn_last_applied n + 1) = unat (rn_last_applied n) + 1" by (rule u)
qed simp_all

lemma applied_fields [simp]:
  "rn_store (complete_applied_proposal i r n) = rn_store n" "rn_machine (complete_applied_proposal i r n) = rn_machine n"
  "rn_pending_proposals (complete_applied_proposal i r n) = filter (\<lambda>p. fst p \<noteq> i) (rn_pending_proposals n)"
  "rn_store (evaluate_read_barriers n) = rn_store n" "rn_machine (evaluate_read_barriers n) = rn_machine n"
  "rn_last_applied (evaluate_read_barriers n) = rn_last_applied n"
  "rn_commit_index (evaluate_read_barriers n) = rn_commit_index n"
  "rn_pending_proposals (evaluate_read_barriers n) = rn_pending_proposals n"
  "rn_store (fail_read_barriers e n) = rn_store n" "rn_machine (fail_read_barriers e n) = rn_machine n"
  "rn_last_applied (fail_read_barriers e n) = rn_last_applied n" "rn_commit_index (fail_read_barriers e n) = rn_commit_index n"
  "rn_store (fail_pending_proposals j e n) = rn_store n" "rn_machine (fail_pending_proposals j e n) = rn_machine n"
  "rn_last_applied (fail_pending_proposals j e n) = rn_last_applied n"
  "rn_commit_index (fail_pending_proposals j e n) = rn_commit_index n"
  by (auto simp: complete_applied_proposal_def evaluate_read_barriers_def fail_read_barriers_def fail_pending_proposals_def
      Let_def map_of_eq_None_iff split: option.split intro!: filter_True[symmetric])

lemma apply_committed_replay:
  assumes "apply_committed M L n = (e', n')"
  shows "case replay_entries M L (rn_store n) (to_apply n) (rn_machine n) of (e, k, m) \<Rightarrow>
    e' = e \<and> rn_machine n' = m \<and> rn_last_applied n' = rn_last_applied n + word_of_nat k \<and>
    rn_store n' = rn_store n \<and> rn_commit_index n' = rn_commit_index n \<and>
    (e = None \<longrightarrow> rn_pending_proposals n' =
       filter (\<lambda>p. unat (fst p) \<notin> set (to_apply n)) (rn_pending_proposals n))"
  using assms
proof (induction M L n rule: apply_committed.induct)
  case (1 M L n)
  show ?case
  proof (cases "rn_last_applied n < rn_commit_index n")
    case False
    then have "to_apply n = []" by (simp add: to_apply_def word_less_nat_alt)
    then show ?thesis using 1(2) False by (auto simp: apply_committed.simps[of M L n])
  next
    case True
    obtain i rest where st: "to_apply n = i # rest" "(word_of_nat i :: uint64) = rn_last_applied n + 1"
      "unat (rn_last_applied n + 1) = i" "rest = [unat (rn_last_applied n + 1) + 1..<unat (rn_commit_index n) + 1]"
      using True by (rule to_apply_step)
    show ?thesis
    proof (cases "ls_at L (rn_store n) (rn_last_applied n + 1)")
      case (Inl e)
      then show ?thesis using 1(2) True st(1,2) by (auto simp: apply_committed.simps[of M L n])
    next
      case (Inr entry)
      obtain r m where ap: "st_apply M entry (rn_machine n) = (r, m)" by force
      show ?thesis
      proof (cases r)
        case (Inl e)
        then show ?thesis using 1(2) True st(1,2) Inr ap by (auto simp: apply_committed.simps[of M L n])
      next
        case (Inr result)
        let ?n = "complete_applied_proposal (rn_last_applied n + 1) result
          (n\<lparr>rn_machine := m, rn_apply_count := rn_apply_count n + 1, rn_last_applied := rn_last_applied n + 1\<rparr>)"
        have next_n: "to_apply ?n = rest" by (simp add: to_apply_def st(4) del: upt_Suc)
        have "apply_committed M L ?n = (e', n')"
          using 1(2) True \<open>ls_at L _ _ = _\<close> ap Inr by (simp add: apply_committed.simps[of M L n])
        then have ih: "case replay_entries M L (rn_store n) (to_apply ?n) m of (e, k, m) \<Rightarrow>
            e' = e \<and> rn_machine n' = m \<and> rn_last_applied n' = rn_last_applied n + 1 + word_of_nat k \<and>
            rn_store n' = rn_store n \<and> rn_commit_index n' = rn_commit_index n \<and>
            (e = None \<longrightarrow> rn_pending_proposals n' = filter (\<lambda>p. unat (fst p) \<notin> set (to_apply ?n))
               (filter (\<lambda>p. fst p \<noteq> rn_last_applied n + 1) (rn_pending_proposals n)))"
          using 1(1)[OF True \<open>ls_at L _ _ = _\<close> ap[symmetric, unfolded Inr] refl] by simp
        have ne: "fst p \<noteq> rn_last_applied n + 1 \<longleftrightarrow> unat (fst p) \<noteq> i" for p :: "uint64 \<times> nat"
          using st(3) by (metis unsigned_word_eqI)
        show ?thesis
          using ih \<open>ls_at L _ _ = _\<close> ap Inr st(1,2)
          by (simp add: next_n ne conj_commute split: prod.splits)
      qed
    qed
  qed
qed

section \<open>Entries of older terms\<close>

lemma outbox_bookkeeping [simp]:
  "rn_outbox (fail_pending_proposals j e n) = rn_outbox n" "rn_outbox (fail_read_barriers e n) = rn_outbox n"
  "rn_outbox (reset_election_deadline now n) = rn_outbox n"
  by (auto simp: fail_pending_proposals_def fail_read_barriers_def reset_election_deadline_def Let_def)

lemma outbox_on_store [simp]: "rn_outbox (snd (on_store f n)) = rn_outbox n"
  by (simp add: on_store_def split: prod.split)

lemma outbox_and_then:
  assumes "rn_outbox (snd r) = out" "\<And>m. rn_outbox m = out \<Longrightarrow> rn_outbox (snd (f m)) = out"
  shows "rn_outbox (snd (and_then r f)) = out"
  using assms by (cases r) (auto simp: and_then_def split: option.split)

lemma outbox_append_entries_loop: "rn_outbox n = out \<Longrightarrow> rn_outbox (snd (append_entries_loop L t i es n)) = out"
proof (induction es arbitrary: i n t out)
  case (Cons e es)
  show ?case
    by (auto simp: Let_def Cons.prems split: sum.split intro!: outbox_and_then Cons.IH)
qed simp

lemma outbox_follow_leader: "rn_outbox (snd (follow_leader L now t l n)) = rn_outbox n"
  by (auto simp: follow_leader_def become_follower_def Let_def and_then_def on_store_def split: prod.splits option.splits if_splits)

lemma append_entries_loop_rejects:
  fixes n :: "('s, 'm) RaftNode"
  assumes "e \<in> set es" "le_term e \<noteq> t"
  shows "fst (append_entries_loop L t i es n) \<noteq> None"
  using assms
proof (induction es arbitrary: i n)
  case (Cons x es)
  show ?case
  proof (cases "le_index x \<noteq> i + 1 \<or> le_term x \<noteq> t")
    case False
    then have rej: "fst (append_entries_loop L t (i + 1) es m) \<noteq> None" for m :: "('s, 'm) RaftNode"
      using Cons.IH[of "i + 1" m] Cons.prems by auto
    then have "fst (and_then r (\<lambda>n. and_then (f n) (append_entries_loop L t (i + 1) es))) \<noteq> None" for r :: "('s, 'm) outcome" and f
      using rej by (auto simp: and_then_def split: prod.split option.split)
    then show ?thesis using False by (simp add: Let_def)
  qed (simp add: Let_def)
qed simp

lemma rejected_append_entries:
  assumes "e \<in> set (ae_entries r)" "le_term e \<noteq> ae_term r" "(p, AppendEntriesReply a) \<in> set (rn_outbox (snd (handle_append_entries M L now j r n)))"
    "(p, AppendEntriesReply a) \<notin> set (rn_outbox n)"
  shows "\<not> aer_success a"
proof -
  obtain err n1 where fl: "follow_leader L now (ae_term r) (ae_leader_id r) n = (err, n1)" by fastforce
  obtain err' n2 where lp: "append_entries_loop L (ae_term r) (ae_prev_log_index r) (ae_entries r) n1 = (err', n2)" by fastforce
  have o1: "rn_outbox n1 = rn_outbox n" using outbox_follow_leader[of L now "ae_term r" "ae_leader_id r" n] fl by simp
  have o2: "rn_outbox n2 = rn_outbox n" using outbox_append_entries_loop[OF o1] lp by (metis snd_conv)
  have "err' \<noteq> None" using append_entries_loop_rejects[OF assms(1,2), of L "ae_prev_log_index r" n1] lp by simp
  then show ?thesis
    using assms(3,4) fl lp o1 o2
    by (auto simp: handle_append_entries_def Let_def and_then_def send_def split: if_splits option.splits sum.splits)
qed

lemma follow_leader_memory: "fst (follow_leader memory_store now t l n) = None"
  by (simp add: follow_leader_def become_follower_def Let_def and_then_def on_store_def memory_store_def mem_save_hard_state_def
      split: prod.split option.split)

definition same_log :: "(MemoryLogStore, 'm) RaftNode \<Rightarrow> (MemoryLogStore, 'm) RaftNode \<Rightarrow> bool" where
  "same_log n n' \<longleftrightarrow> rn_last_log_index n' = rn_last_log_index n \<and> rn_last_included_index n' = rn_last_included_index n \<and>
     rn_last_included_term n' = rn_last_included_term n \<and> rn_commit_index n' = rn_commit_index n \<and>
     ms_entries (rn_store n') = ms_entries (rn_store n) \<and> ms_last_index (rn_store n') = ms_last_index (rn_store n) \<and>
     ms_snapshot_meta (rn_store n') = ms_snapshot_meta (rn_store n)"

lemma same_log_at: "same_log n n' \<Longrightarrow> mem_at (rn_store n') k = mem_at (rn_store n) k"
  by (simp add: same_log_def mem_at_def)

lemma same_log_parts [simp]:
  "same_log n (reset_election_deadline now n') = same_log n n'" "same_log n (n'\<lparr>rn_leader_id := l\<rparr>) = same_log n n'"
  "same_log n (fail_read_barriers e n') = same_log n n'" "same_log n (fail_pending_proposals k e n') = same_log n n'"
  "same_log n (n'\<lparr>rn_role := r\<rparr>) = same_log n n'" "same_log n (n'\<lparr>rn_hard_state := h\<rparr>) = same_log n n'"
  "same_log n (n'\<lparr>rn_votes_received := v\<rparr>) = same_log n n'" "same_log n (n'\<lparr>rn_pending_snapshot := s\<rparr>) = same_log n n'"
  by (auto simp: same_log_def reset_election_deadline_def fail_read_barriers_def fail_pending_proposals_def finish_cells_def Let_def)

lemma follow_leader_log:
  assumes "follow_leader memory_store now t l n = (r, n')"
  shows "same_log n n'"
  using assms by (auto simp: follow_leader_def become_follower_def Let_def and_then_def on_store_def memory_store_def
      mem_save_hard_state_def split: prod.splits option.splits if_splits) (auto simp: same_log_def)

lemma append_entries_loop_first:
  "es \<noteq> [] \<Longrightarrow> le_term (hd es) \<noteq> t \<Longrightarrow> snd (append_entries_loop L t i es n) = n"
  by (cases es) (auto simp: Let_def)

text \<open>The check of the entry before those of a request, which says that the logs of leader and follower meet there.\<close>

definition logs_meet :: "AppendEntriesRequest \<Rightarrow> (MemoryLogStore, 'm) RaftNode \<Rightarrow> bool" where
  "logs_meet r n \<longleftrightarrow> ae_prev_log_index r \<le> rn_last_log_index n \<and> rn_last_included_index n \<le> ae_prev_log_index r \<and>
     (ae_prev_log_index r = 0 \<or>
      (if ae_prev_log_index r = rn_last_included_index n then rn_last_included_term n = ae_prev_log_term r
       else \<exists>e. mem_at (rn_store n) (ae_prev_log_index r) = Inr e \<and> le_term e = ae_prev_log_term r))"

lemma stuck_append_entries:
  assumes "e \<in> set (ae_entries r)" "le_term e \<noteq> ae_term r" "rn_term n \<le> ae_term r" "logs_meet r n"
  shows "fst (handle_append_entries M memory_store now j r n) \<noteq> None \<and>
    rn_outbox (snd (handle_append_entries M memory_store now j r n)) = rn_outbox n"
proof -
  obtain n1 where fl: "follow_leader memory_store now (ae_term r) (ae_leader_id r) n = (None, n1)"
    using follow_leader_memory by (metis prod.collapse)
  obtain err' n2 where lp: "append_entries_loop memory_store (ae_term r) (ae_prev_log_index r) (ae_entries r) n1 = (err', n2)" by fastforce
  have o1: "rn_outbox n1 = rn_outbox n" using outbox_follow_leader[of memory_store now "ae_term r" "ae_leader_id r" n] fl by simp
  have o2: "rn_outbox n2 = rn_outbox n" using outbox_append_entries_loop[OF o1] lp by (metis snd_conv)
  have "err' \<noteq> None" using append_entries_loop_rejects[OF assms(1,2), of memory_store "ae_prev_log_index r" n1] lp by simp
  moreover have "ls_at memory_store = mem_at" by (simp add: memory_store_def)
  ultimately show ?thesis
    using assms(3,4) fl lp o2 follow_leader_log[OF fl] same_log_at[OF follow_leader_log[OF fl]]
    by (auto simp: same_log_def handle_append_entries_def Let_def and_then_def logs_meet_def split: if_splits)
qed

lemma first_refused_append_entries:
  assumes "ae_entries r \<noteq> []" "le_term (hd (ae_entries r)) \<noteq> ae_term r" "handle_append_entries M memory_store now j r n = (res, n')"
  shows "ms_entries (rn_store n') = ms_entries (rn_store n) \<and> ms_last_index (rn_store n') = ms_last_index (rn_store n) \<and>
    rn_last_log_index n' = rn_last_log_index n \<and> rn_commit_index n' = rn_commit_index n"
proof -
  obtain n1 where fl: "follow_leader memory_store now (ae_term r) (ae_leader_id r) n = (None, n1)"
    using follow_leader_memory by (metis prod.collapse)
  have "hd (ae_entries r) \<in> set (ae_entries r)" using assms(1) by simp
  then have "fst (append_entries_loop memory_store (ae_term r) i (ae_entries r) n1) \<noteq> None" for i
    using append_entries_loop_rejects assms(2) by blast
  then have "\<exists>e. append_entries_loop memory_store (ae_term r) i (ae_entries r) n1 = (Some e, n1)" for i
    using append_entries_loop_first[OF assms(1,2), of memory_store i n1] by (metis not_None_eq prod.collapse)
  then have "\<exists>e. append_entries_loop memory_store (ae_term r) (ae_prev_log_index r) (ae_entries r) n1 = (Some e, n1)" .
  then show ?thesis
    using assms(3) fl follow_leader_log[OF fl]
    by (auto simp: same_log_def handle_append_entries_def Let_def and_then_def send_def split: if_splits option.splits sum.splits)
qed

section \<open>Elections that succeed\<close>

lemma save_hard_state_log [simp]:
  "ms_last_index (snd (mem_save_hard_state h s)) = ms_last_index s" "mem_at (snd (mem_save_hard_state h s)) i = mem_at s i"
  by (simp_all add: mem_save_hard_state_def mem_at_def)

lemma memory_store_ops [simp]:
  "ls_save_hard_state memory_store = mem_save_hard_state" "ls_at memory_store = mem_at" "ls_append memory_store = mem_append"
  by (simp_all add: memory_store_def)

lemma save_hard_state_ok [simp]: "fst (mem_save_hard_state h s) = None"
  by (simp add: mem_save_hard_state_def)

definition grants :: "RequestVoteRequest \<Rightarrow> (MemoryLogStore, 'm) RaftNode \<Rightarrow> bool" where
  "grants r n \<longleftrightarrow> rn_term n < rv_term r \<and> (case last_log_term memory_store n of Inl e \<Rightarrow> False
     | Inr t \<Rightarrow> log_is_up_to_date (rn_last_log_index n) t (rv_last_log_index r) (rv_last_log_term r))"

lemma vote_granted:
  assumes "grants r n"
  shows "(j, vote_for (rv_term r)) \<in> set (rn_outbox (handle_message M memory_store now j (RequestVote r) n))"
proof -
  define n1 where "n1 = snd (become_follower memory_store now (rv_term r) None n)"
  have bf: "become_follower memory_store now (rv_term r) None n = (None, n1)"
    using assms by (auto simp: n1_def grants_def become_follower_def and_then_def on_store_def Let_def mem_save_hard_state_def)
  have n1: "rn_hard_state n1 = \<lparr> hs_term = rv_term r, hs_voted_for = None \<rparr>" "rn_last_log_index n1 = rn_last_log_index n"
    "rn_store n1 = snd (mem_save_hard_state \<lparr> hs_term = rv_term r, hs_voted_for = None \<rparr> (rn_store n))"
    using assms by (auto simp: n1_def grants_def become_follower_def and_then_def on_store_def Let_def mem_save_hard_state_def
        reset_election_deadline_def fail_read_barriers_def fail_pending_proposals_def)
  then have ll: "last_log_term memory_store n1 = last_log_term memory_store n" by (simp add: last_log_term_def)
  obtain t where t: "last_log_term memory_store n = Inr t"
    "log_is_up_to_date (rn_last_log_index n) t (rv_last_log_index r) (rv_last_log_term r)"
    using assms by (auto simp: grants_def split: sum.splits)
  show ?thesis
    using assms t unfolding grants_def
    by (auto simp: handle_message_def handle_request_vote_def bf ll n1 and_then_def Let_def on_store_def recording_def send_def
        mem_save_hard_state_def reset_election_deadline_def)
qed

lemma won:
  assumes "rn_role n = Candidate" "rn_term n \<noteq> 0" "rn_last_log_index n = ms_last_index (rn_store n)" "rn_last_log_index n \<noteq> - 1"
  shows "rn_role (snd (become_leader M memory_store now n)) = Leader" "rn_term (snd (become_leader M memory_store now n)) = rn_term n"
proof -
  define n2 where "n2 = initialize_leader_progress (n\<lparr>rn_role := Leader, rn_leader_id := Some (rn_id n)\<rparr>)"
  let ?e = "\<lparr> le_index = rn_last_log_index n2 + 1, le_term = rn_term n2, le_data = [] \<rparr>"
  have n2: "rn_role n2 = Leader" "rn_hard_state n2 = rn_hard_state n" "rn_store n2 = rn_store n" "rn_last_log_index n2 = rn_last_log_index n"
    by (simp_all add: n2_def initialize_leader_progress_def)
  define n3 where "n3 = snd (on_store (mem_append ?e) n2)"
  have "rn_last_log_index n + 1 \<noteq> 0" using assms(4) by (metis add_eq_0_iff2)
  then have st: "on_store (mem_append ?e) n2 = (None, n3)"
    using assms(2,3) by (simp add: n3_def on_store_def n2 mem_append_def)
  have n3: "rn_role n3 = Leader" "rn_hard_state n3 = rn_hard_state n"
    by (simp_all add: n3_def on_store_def n2 split: prod.split)
  define n4 where "n4 = n3\<lparr>rn_last_log_index := rn_last_log_index n2 + 1,
      rn_match_index := (rn_match_index n3)(rn_id n3 \<mapsto> rn_last_log_index n2 + 1),
      rn_next_index := (rn_next_index n3)(rn_id n3 \<mapsto> rn_last_log_index n2 + 1 + 1)\<rparr>"
  have "snd (become_leader M memory_store now n) = snd (advance_commit M memory_store (send_heartbeats M memory_store n4))"
    using assms(1) st by (simp add: become_leader_def Let_def n2_def n4_def)
  moreover have "quiet ms_hard_state n4 (snd (advance_commit M memory_store (send_heartbeats M memory_store n4)))"
    by (rule quiet_trans[OF quiet_send_heartbeats quiet_advance_commit])
  ultimately show "rn_role (snd (become_leader M memory_store now n)) = Leader"
    "rn_term (snd (become_leader M memory_store now n)) = rn_term n"
    using n3 by (auto simp: quiet_def n4_def)
qed

lemma vote_counted:
  assumes "rn_role n = Candidate" "rn_term n \<noteq> 0" "rn_last_log_index n = ms_last_index (rn_store n)" "rn_last_log_index n \<noteq> - 1"
    "j \<notin> set (rn_votes_received n)" and n': "n' = handle_message M memory_store now j (vote_for (rn_term n)) n"
  shows "if has_quorum (length (rn_votes_received n) + 1) n then rn_role n' = Leader \<and> rn_term n' = rn_term n
    else n' = n\<lparr>rn_votes_received := j # rn_votes_received n\<rparr>"
proof (cases "has_quorum (length (rn_votes_received n) + 1) n")
  case True
  let ?n = "n\<lparr>rn_votes_received := j # rn_votes_received n\<rparr>"
  have "n' = recording (become_leader M memory_store now ?n)"
    using assms True by (auto simp: handle_message_def handle_request_vote_response_def Let_def has_quorum_def)
  moreover have "quiet ms_hard_state (snd (become_leader M memory_store now ?n)) (recording (become_leader M memory_store now ?n))"
    by (rule quiet_recording) simp
  ultimately show ?thesis
    using True won[of ?n M now] assms(1-4) by (simp add: quiet_def)
next
  case False
  then show ?thesis
    using assms by (auto simp: handle_message_def handle_request_vote_response_def Let_def has_quorum_def)
qed

text \<open>
  The deliveries of one election: a voter gets the request of the candidate, or the candidate gets the answer of a voter, each at some
  time of the receiver.
\<close>

datatype Delivery = Asked NodeId uint64 | Answered NodeId uint64

fun canvass :: "'m StateMachine \<Rightarrow> RequestVoteRequest \<Rightarrow> NodeId \<Rightarrow> Delivery list \<Rightarrow> (MemoryLogStore, 'm) Cluster \<Rightarrow> (MemoryLogStore, 'm) Cluster" where
  "canvass M r i [] c = c"
| "canvass M r i (Asked q t # ds) c =
     canvass M r i ds (put_node q (handle_message M memory_store t i (RequestVote r) (cl_nodes c q)) c)"
| "canvass M r i (Answered q t # ds) c =
     canvass M r i ds (put_node i (handle_message M memory_store t q (vote_for (rv_term r)) (cl_nodes c i)) c)"

text \<open>Every voter is asked at most once, and answers at most once, after having been asked.\<close>

fun orderly :: "NodeId set \<Rightarrow> NodeId set \<Rightarrow> NodeId set \<Rightarrow> Delivery list \<Rightarrow> bool" where
  "orderly voters asked heard [] = True"
| "orderly voters asked heard (Asked q t # ds) \<longleftrightarrow> q \<in> voters \<and> q \<notin> asked \<and> orderly voters (insert q asked) heard ds"
| "orderly voters asked heard (Answered q t # ds) \<longleftrightarrow> q \<in> asked \<and> q \<notin> heard \<and> orderly voters asked (insert q heard) ds"

definition answers :: "Delivery list \<Rightarrow> nat" where
  "answers ds = length (filter (\<lambda>d. case d of Answered _ _ \<Rightarrow> True | Asked _ _ \<Rightarrow> False) ds)"

definition asks :: "RequestVoteRequest \<Rightarrow> (MemoryLogStore, 'm) RaftNode \<Rightarrow> bool" where
  "asks r n \<longleftrightarrow> rn_role n = Candidate \<and> rn_term n = rv_term r \<and> rv_term r \<noteq> 0 \<and>
     rn_last_log_index n = ms_last_index (rn_store n) \<and> rn_last_log_index n \<noteq> - 1"

lemma leader_keeps:
  assumes "rn_role n = Leader" "rn_term n = T"
  shows "handle_message M memory_store t q (vote_for T) n = n"
  using assms by (simp add: handle_message_def handle_request_vote_response_def Let_def)

definition elected :: "uint64 \<Rightarrow> (MemoryLogStore, 'm) RaftNode \<Rightarrow> bool" where
  "elected T n \<longleftrightarrow> rn_role n = Leader \<and> rn_term n = T"

text \<open>
  The state of an election after some deliveries: the voters not asked yet would grant the vote, those that have been asked have sent
  it, and the candidate has the votes it has heard of or is elected already.
\<close>

definition campaign ::
  "NodeId list \<Rightarrow> RequestVoteRequest \<Rightarrow> NodeId \<Rightarrow> NodeId set \<Rightarrow> NodeId set \<Rightarrow> NodeId set \<Rightarrow> nat \<Rightarrow> (MemoryLogStore, 'm) Cluster \<Rightarrow> bool" where
  "campaign peers r i voters asked heard left c \<longleftrightarrow>
     i \<in> set peers \<and> voters \<subseteq> set peers \<and> i \<notin> voters \<and> asked \<subseteq> voters \<and>
     (\<forall>q \<in> voters. (i, q, RequestVote r) \<in> cl_net c) \<and> (\<forall>q \<in> voters - asked. grants r (cl_nodes c q)) \<and>
     (\<forall>q \<in> asked. (q, i, vote_for (rv_term r)) \<in> cl_net c) \<and>
     (elected (rv_term r) (cl_nodes c i) \<or>
      asks r (cl_nodes c i) \<and> rn_peers (cl_nodes c i) = peers \<and> set (rn_votes_received (cl_nodes c i)) \<subseteq> insert i heard \<and>
      length (rn_votes_received (cl_nodes c i)) \<le> length peers div 2 \<and>
      length peers div 2 < length (rn_votes_received (cl_nodes c i)) + left)"

lemma campaign_asked:
  assumes "campaign peers r i voters asked heard left c" "q \<in> voters" "q \<notin> asked"
    and c': "c' = put_node q (handle_message M memory_store t i (RequestVote r) (cl_nodes c q)) c"
  shows "cluster_step M memory_store peers c c' \<and> campaign peers r i voters (insert q asked) heard left c'"
proof -
  have q: "q \<noteq> i" "q \<in> set peers" "(i, q, RequestVote r) \<in> cl_net c" "grants r (cl_nodes c q)"
    using assms(1-3) by (auto simp: campaign_def)
  have "cluster_step M memory_store peers c c'" unfolding c' using q by (intro cluster_step.delivers)
  moreover have "(q, i, vote_for (rv_term r)) \<in> cl_net c'"
    using vote_granted[OF q(4), of i M t] by (simp add: c' put_node_def)
  moreover have "cl_net c \<subseteq> cl_net c'" "\<And>p. p \<noteq> q \<Longrightarrow> cl_nodes c' p = cl_nodes c p" by (auto simp: c' put_node_def)
  ultimately show ?thesis using assms(1,2) q(1) unfolding campaign_def by auto
qed

lemma campaign_answered:
  assumes "campaign peers r i voters asked heard (Suc left) c" "q \<in> asked" "q \<notin> heard"
    and c': "c' = put_node i (handle_message M memory_store t q (vote_for (rv_term r)) (cl_nodes c i)) c"
  shows "cluster_step M memory_store peers c c' \<and> campaign peers r i voters asked (insert q heard) left c'"
proof -
  let ?n = "cl_nodes c i"
  let ?n' = "handle_message M memory_store t q (vote_for (rv_term r)) ?n"
  have q: "q \<noteq> i" "i \<in> set peers" "(q, i, vote_for (rv_term r)) \<in> cl_net c"
    using assms(1,2) by (auto simp: campaign_def)
  have step: "cluster_step M memory_store peers c c'" unfolding c' using q by (intro cluster_step.delivers)
  have net: "cl_net c \<subseteq> cl_net c'" and others: "\<And>p. p \<noteq> i \<Longrightarrow> cl_nodes c' p = cl_nodes c p"
    and own: "cl_nodes c' i = ?n'\<lparr>rn_outbox := []\<rparr>" by (auto simp: c' put_node_def)
  have "elected (rv_term r) (cl_nodes c' i) \<or>
      asks r (cl_nodes c' i) \<and> rn_peers (cl_nodes c' i) = peers \<and> set (rn_votes_received (cl_nodes c' i)) \<subseteq> insert i (insert q heard) \<and>
      length (rn_votes_received (cl_nodes c' i)) \<le> length peers div 2 \<and>
      length peers div 2 < length (rn_votes_received (cl_nodes c' i)) + left"
  proof (cases "elected (rv_term r) ?n")
    case True
    then show ?thesis using leader_keeps[of ?n "rv_term r" M t q] by (simp add: own elected_def)
  next
    case False
    then have a: "asks r ?n" "rn_peers ?n = peers" "set (rn_votes_received ?n) \<subseteq> insert i heard"
        "length (rn_votes_received ?n) \<le> length peers div 2" "length peers div 2 < length (rn_votes_received ?n) + Suc left"
      using assms(1) by (auto simp: campaign_def)
    have nq: "q \<notin> set (rn_votes_received ?n)" using a(3) q(1) assms(3) by blast
    have vote: "if has_quorum (length (rn_votes_received ?n) + 1) ?n then rn_role ?n' = Leader \<and> rn_term ?n' = rn_term ?n
      else ?n' = ?n\<lparr>rn_votes_received := q # rn_votes_received ?n\<rparr>"
      using a(1) nq by (intro vote_counted) (auto simp: asks_def)
    show ?thesis
    proof (cases "has_quorum (length (rn_votes_received ?n) + 1) ?n")
      case True
      then show ?thesis using vote a(1) by (simp add: own elected_def asks_def)
    next
      case False
      then have "?n' = ?n\<lparr>rn_votes_received := q # rn_votes_received ?n\<rparr>" using vote by simp
      then show ?thesis using a False unfolding own by (auto simp: asks_def has_quorum_def)
    qed
  qed
  moreover have "cl_nodes c' p = cl_nodes c p" if "p \<in> voters" for p
    using others[of p] that assms(1) by (auto simp: campaign_def)
  ultimately show ?thesis using step assms(1,2) net unfolding campaign_def by auto
qed

lemma canvass_elects:
  assumes "campaign peers r i voters asked heard (answers ds) c" "orderly voters asked heard ds"
  shows "(cluster_step M memory_store peers)\<^sup>*\<^sup>* c (canvass M r i ds c) \<and> elected (rv_term r) (cl_nodes (canvass M r i ds c) i)"
  using assms
proof (induction ds arbitrary: c asked heard)
  case Nil
  then show ?case by (auto simp: campaign_def answers_def)
next
  case (Cons d ds)
  show ?case
  proof (cases d)
    case (Asked q t)
    define c' where "c' = put_node q (handle_message M memory_store t i (RequestVote r) (cl_nodes c q)) c"
    have "cluster_step M memory_store peers c c'" "campaign peers r i voters (insert q asked) heard (answers ds) c'"
      using campaign_asked[OF _ _ _ c'_def] Cons.prems Asked by (auto simp: answers_def)
    then show ?thesis using Cons.IH Cons.prems(2) Asked by (auto simp: c'_def intro: converse_rtranclp_into_rtranclp)
  next
    case (Answered q t)
    define c' where "c' = put_node i (handle_message M memory_store t q (vote_for (rv_term r)) (cl_nodes c i)) c"
    have "cluster_step M memory_store peers c c'" "campaign peers r i voters asked (insert q heard) (answers ds) c'"
      using campaign_answered[OF _ _ _ c'_def] Cons.prems Answered by (auto simp: answers_def)
    then show ?thesis using Cons.IH Cons.prems(2) Answered by (auto simp: c'_def intro: converse_rtranclp_into_rtranclp)
  qed
qed

lemma bookkeeping_log [simp]:
  "rn_last_log_index (complete_applied_proposal i r n) = rn_last_log_index n"
  "rn_last_log_index (evaluate_read_barriers n) = rn_last_log_index n"
  "rn_last_log_index (fail_read_barriers e n) = rn_last_log_index n"
  "rn_last_log_index (fail_pending_proposals j e n) = rn_last_log_index n"
  by (simp_all add: complete_applied_proposal_def evaluate_read_barriers_def fail_read_barriers_def fail_pending_proposals_def
      Let_def split: option.split)

lemma applied_log [simp]: "rn_last_log_index (snd (apply_committed M L n)) = rn_last_log_index n"
proof (induction M L n rule: apply_committed.induct)
  case (1 M L n)
  show ?case by (subst apply_committed.simps) (use 1 in \<open>auto split: sum.split prod.split\<close>)
qed

lemma applied_store [simp]: "rn_store (snd (apply_committed M L n)) = rn_store n"
  using apply_committed_replay[of M L n "fst (apply_committed M L n)" "snd (apply_committed M L n)"] by (auto split: prod.splits)

lemma asked_peers:
  "fold (\<lambda>peer n. if peer = rn_id n then n
      else send peer (RequestVote \<lparr> rv_term = rn_term n, rv_candidate_id = rn_id n,
        rv_last_log_index = rn_last_log_index n, rv_last_log_term = t \<rparr>) n) ps n =
   n\<lparr>rn_outbox := rn_outbox n @ map (\<lambda>p. (p, RequestVote \<lparr> rv_term = rn_term n, rv_candidate_id = rn_id n,
        rv_last_log_index = rn_last_log_index n, rv_last_log_term = t \<rparr>)) (filter (\<lambda>p. p \<noteq> rn_id n) ps)\<rparr>"
  by (induction ps arbitrary: n) (simp_all add: send_def)

definition vote_request :: "(MemoryLogStore, 'm) RaftNode \<Rightarrow> uint64 \<Rightarrow> RequestVoteRequest" where
  "vote_request n t = \<lparr> rv_term = rn_term n + 1, rv_candidate_id = rn_id n, rv_last_log_index = rn_last_log_index n, rv_last_log_term = t \<rparr>"

lemma election_started:
  assumes "last_log_term memory_store n = Inr t" "\<not> has_quorum 1 n"
  obtains st where "start_election M memory_store now n = (None, reset_election_deadline now
    (n\<lparr>rn_role := Candidate, rn_hard_state := \<lparr> hs_term = rn_term n + 1, hs_voted_for = Some (rn_id n) \<rparr>, rn_leader_id := None,
       rn_store := st, rn_votes_received := [rn_id n], rn_outbox := rn_outbox n @
         map (\<lambda>p. (p, RequestVote (vote_request n t))) (filter (\<lambda>p. p \<noteq> rn_id n) (rn_peers n))\<rparr>))"
    "ms_last_index st = ms_last_index (rn_store n)"
proof -
  define h where "h = \<lparr> hs_term = rn_term n + 1, hs_voted_for = Some (rn_id n) \<rparr>"
  define st where "st = snd (mem_save_hard_state h (rn_store n))"
  define n1 where "n1 = reset_election_deadline now
    (n\<lparr>rn_role := Candidate, rn_hard_state := h, rn_leader_id := None, rn_store := st, rn_votes_received := [rn_id n]\<rparr>)"
  have sv: "mem_save_hard_state h (rn_store n) = (None, st)" by (simp add: st_def mem_save_hard_state_def)
  have n1: "\<not> has_quorum 1 n1" "last_log_term memory_store n1 = Inr t" "rn_config n1 = rn_config n" "rn_hard_state n1 = h"
    "rn_last_log_index n1 = rn_last_log_index n" "rn_outbox n1 = rn_outbox n"
    using assms by (auto simp: n1_def reset_election_deadline_def has_quorum_def last_log_term_def st_def split: if_splits)
  have "start_election M memory_store now n = (None, fold (\<lambda>peer n. if peer = rn_id n then n
      else send peer (RequestVote \<lparr> rv_term = rn_term n, rv_candidate_id = rn_id n,
        rv_last_log_index = rn_last_log_index n, rv_last_log_term = t \<rparr>) n) (rn_peers n1) n1)"
    using sv n1(1,2) by (simp add: start_election_def h_def[symmetric] on_store_def Let_def n1_def)
  also have "\<dots> = (None, n1\<lparr>rn_outbox := rn_outbox n @ map (\<lambda>p. (p, RequestVote (vote_request n t))) (filter (\<lambda>p. p \<noteq> rn_id n) (rn_peers n))\<rparr>)"
    unfolding asked_peers by (simp add: n1 vote_request_def h_def)
  finally have "start_election M memory_store now n = (None, reset_election_deadline now
    (n\<lparr>rn_role := Candidate, rn_hard_state := h, rn_leader_id := None,
       rn_store := st, rn_votes_received := [rn_id n], rn_outbox := rn_outbox n @
         map (\<lambda>p. (p, RequestVote (vote_request n t))) (filter (\<lambda>p. p \<noteq> rn_id n) (rn_peers n))\<rparr>))"
    by (simp add: n1_def reset_election_deadline_def Let_def)
  moreover have "ms_last_index st = ms_last_index (rn_store n)" by (simp add: st_def)
  ultimately show ?thesis using that unfolding h_def by blast
qed

lemma tick_campaigns:
  assumes "rn_role n \<noteq> Leader" "rn_election_deadline n \<le> now" "last_log_term memory_store n = Inr t" "\<not> has_quorum 1 n"
    and n': "n' = tick M memory_store now later n"
  shows "rn_role n' = Candidate" "rn_term n' = rn_term n + 1" "rn_votes_received n' = [rn_id n]" "rn_config n' = rn_config n"
    "rn_last_log_index n' = rn_last_log_index n" "ms_last_index (rn_store n') = ms_last_index (rn_store n)"
    "p \<in> set (rn_peers n) \<Longrightarrow> p \<noteq> rn_id n \<Longrightarrow> (p, RequestVote (vote_request n t)) \<in> set (rn_outbox n')"
proof -
  obtain st where st: "start_election M memory_store later n = (None, reset_election_deadline later
    (n\<lparr>rn_role := Candidate, rn_hard_state := \<lparr> hs_term = rn_term n + 1, hs_voted_for = Some (rn_id n) \<rparr>, rn_leader_id := None,
       rn_store := st, rn_votes_received := [rn_id n], rn_outbox := rn_outbox n @
         map (\<lambda>p. (p, RequestVote (vote_request n t))) (filter (\<lambda>p. p \<noteq> rn_id n) (rn_peers n))\<rparr>))"
    "ms_last_index st = ms_last_index (rn_store n)"
    using election_started[OF assms(3,4)] by blast
  define n1 where "n1 = snd (start_election M memory_store later n)"
  have n1: "rn_role n1 = Candidate" "rn_term n1 = rn_term n + 1" "rn_votes_received n1 = [rn_id n]" "rn_config n1 = rn_config n"
    "rn_last_log_index n1 = rn_last_log_index n" "ms_last_index (rn_store n1) = ms_last_index (rn_store n)"
    "rn_outbox n1 = rn_outbox n @ map (\<lambda>p. (p, RequestVote (vote_request n t))) (filter (\<lambda>p. p \<noteq> rn_id n) (rn_peers n))"
    by (simp_all add: n1_def st reset_election_deadline_def Let_def)
  define n2 where "n2 = recording (apply_committed M memory_store n1)"
  have q: "quiet ms_hard_state n1 n2" unfolding n2_def by (rule quiet_recording[OF quiet_apply_committed])
  have n2: "rn_last_log_index n2 = rn_last_log_index n1" "rn_store n2 = rn_store n1"
    using applied_log[of M memory_store n1] applied_store[of M memory_store n1]
    by (cases "apply_committed M memory_store n1"; auto simp: n2_def recording_def record_error_def split: option.splits)+
  have "recording (start_election M memory_store later n) = n1" by (simp add: n1_def st recording_def)
  then have "n' = recording (maybe_compact_log memory_store n2)"
    using assms(1,2) by (simp add: n' tick_def n2_def)
  moreover have "maybe_compact_log memory_store n2 = (None, n2)" using q n1 by (simp add: maybe_compact_log_def quiet_def)
  ultimately have "n' = n2" by (simp add: recording_def)
  then show "rn_role n' = Candidate" "rn_term n' = rn_term n + 1" "rn_votes_received n' = [rn_id n]" "rn_config n' = rn_config n"
    "rn_last_log_index n' = rn_last_log_index n" "ms_last_index (rn_store n') = ms_last_index (rn_store n)"
    "p \<in> set (rn_peers n) \<Longrightarrow> p \<noteq> rn_id n \<Longrightarrow> (p, RequestVote (vote_request n t)) \<in> set (rn_outbox n')"
    using q n1 n2 by (auto simp: quiet_def)
qed

lemma tick_wins_alone:
  assumes "rn_role n \<noteq> Leader" "rn_election_deadline n \<le> now" "has_quorum 1 n" "rn_term n \<noteq> - 1"
    "rn_last_log_index n = ms_last_index (rn_store n)" "rn_last_log_index n \<noteq> - 1"
  shows "rn_role (tick M memory_store now later n) = Leader \<and> rn_term (tick M memory_store now later n) = rn_term n + 1"
proof -
  define h where "h = \<lparr> hs_term = rn_term n + 1, hs_voted_for = Some (rn_id n) \<rparr>"
  define st where "st = snd (mem_save_hard_state h (rn_store n))"
  define n1 where "n1 = reset_election_deadline later (n\<lparr>rn_role := Candidate, rn_hard_state := h, rn_leader_id := None,
    rn_store := st, rn_votes_received := [rn_id n]\<rparr>)"
  have sv: "mem_save_hard_state h (rn_store n) = (None, st)" by (simp add: st_def mem_save_hard_state_def)
  have n1: "rn_role n1 = Candidate" "rn_term n1 = rn_term n + 1" "rn_last_log_index n1 = rn_last_log_index n"
    "ms_last_index (rn_store n1) = ms_last_index (rn_store n)" "has_quorum 1 n1"
    using assms(3) by (simp_all add: n1_def h_def st_def reset_election_deadline_def Let_def has_quorum_def)
  have started: "start_election M memory_store later n = become_leader M memory_store later n1"
    using sv n1(5) by (simp add: start_election_def h_def[symmetric] on_store_def Let_def n1_def)
  have "rn_term n + 1 \<noteq> 0" using assms(4) by (metis add_eq_0_iff2)
  then have ld: "rn_role (snd (become_leader M memory_store later n1)) = Leader" "rn_term (snd (become_leader M memory_store later n1)) = rn_term n + 1"
    using won[of n1 M later] n1 assms(5,6) by auto
  define n2 where "n2 = recording (become_leader M memory_store later n1)"
  have "quiet ms_hard_state (snd (become_leader M memory_store later n1)) n2" unfolding n2_def by (rule quiet_recording) simp
  moreover have "quiet ms_hard_state n2 (tick M memory_store now later n)"
    using assms(1,2) started quiet_trans[OF quiet_recording[OF quiet_apply_committed] quiet_recording[OF memory_votes.quiet_maybe_compact_log]]
    by (simp add: tick_def Let_def n2_def)
  ultimately show ?thesis using ld by (auto simp: quiet_def)
qed

lemma alone_stays:
  assumes "elected T (cl_nodes c i)" "orderly {} {} {} ds"
  shows "canvass M r i ds c = c"
  using assms(2) by (cases ds; cases "hd ds") auto

lemma election_run:
  assumes "i \<in> set peers" "rn_id (cl_nodes c i) = i" "rn_peers (cl_nodes c i) = peers"
    and "rn_role (cl_nodes c i) \<noteq> Leader" "rn_election_deadline (cl_nodes c i) \<le> now" "rn_term (cl_nodes c i) \<noteq> - 1"
    and "rn_last_log_index (cl_nodes c i) = ms_last_index (rn_store (cl_nodes c i))" "rn_last_log_index (cl_nodes c i) \<noteq> - 1"
    and t: "last_log_term memory_store (cl_nodes c i) = Inr t"
    and v: "voters \<subseteq> set peers" "i \<notin> voters" "\<And>q. q \<in> voters \<Longrightarrow> grants (vote_request (cl_nodes c i) t) (cl_nodes c q)"
    and ds: "orderly voters {} {} ds" "length peers div 2 \<le> answers ds"
    and c': "c' = canvass M (vote_request (cl_nodes c i) t) i ds (put_node i (tick M memory_store now later (cl_nodes c i)) c)"
  shows "(cluster_step M memory_store peers)\<^sup>*\<^sup>* c c' \<and> elected (rn_term (cl_nodes c i) + 1) (cl_nodes c' i)"
proof -
  let ?n = "cl_nodes c i"
  let ?r = "vote_request ?n t"
  define n' where "n' = tick M memory_store now later ?n"
  define c1 where "c1 = put_node i n' c"
  have s1: "cluster_step M memory_store peers c c1" unfolding c1_def n'_def using assms(1,6) by (rule cluster_step.ticks)
  have i1: "cl_nodes c1 i = n'\<lparr>rn_outbox := []\<rparr>" and others: "\<And>p. p \<noteq> i \<Longrightarrow> cl_nodes c1 p = cl_nodes c p"
    by (simp_all add: c1_def put_node_def)
  have T: "rv_term ?r = rn_term ?n + 1" by (simp add: vote_request_def)
  have req: "(i, q, RequestVote ?r) \<in> cl_net c1" if "q \<in> voters" "\<not> has_quorum 1 ?n" for q
    using that v(1,2) tick_campaigns(7)[OF assms(4,5) t that(2) n'_def, of q] assms(2,3) by (auto simp: c1_def put_node_def)
  have camp: "campaign peers ?r i voters {} {} (answers ds) c1" if q: "\<not> has_quorum 1 ?n"
  proof -
    note cand = tick_campaigns[OF assms(4,5) t q n'_def]
    have "rn_term ?n + 1 \<noteq> 0" using assms(6) by (metis add_eq_0_iff2)
    then have "asks ?r (cl_nodes c1 i)" using cand(1-6) assms(7,8) by (simp add: asks_def i1 vote_request_def)
    moreover have "cl_nodes c1 p = cl_nodes c p" if "p \<in> voters" for p using others that v(2) by metis
    ultimately show ?thesis using cand(3,4) assms(1-3) v ds(2) q req
      by (auto simp: campaign_def i1 has_quorum_def)
  qed
  show ?thesis
  proof (cases "has_quorum 1 ?n")
    case True
    have e: "elected (rv_term ?r) (cl_nodes c1 i)"
      using tick_wins_alone[OF assms(4,5) True assms(6-8), of M later] by (simp add: i1 n'_def T elected_def)
    have "length peers \<le> 1" using True assms(3) by (simp add: has_quorum_def)
    then have "voters = {}" using v(1,2) assms(1) by (cases peers) auto
    then have "c' = c1" using alone_stays[OF e, of ds M ?r] ds(1) by (simp add: c' c1_def n'_def)
    then show ?thesis using s1 e T by auto
  next
    case False
    from canvass_elects[OF camp[OF this] ds(1), of M] show ?thesis
      using s1 T by (auto simp: c' c1_def[symmetric] n'_def[symmetric] intro: converse_rtranclp_into_rtranclp)
  qed
qed

section \<open>Properties\<close>

text \<open>
  C30: progress of elections. Let a node that is not the leader have passed its election deadline, and let a set of other nodes be in no
  higher term and have no newer log. Then, whatever happened before, the node is the leader of the next term after it ticked and any
  sequence of deliveries of this election in which answers of enough voters arrive, in any order and at any times: voters are asked and
  answer once, nothing else is delivered meanwhile. (Enough voters are half of the group, rounded down, beside the node.) The deliveries
  are steps of the group.
\<close>

theorem election_progress:
  assumes "i \<in> set peers" "rn_id (cl_nodes c i) = i" "rn_peers (cl_nodes c i) = peers"
    and "rn_role (cl_nodes c i) \<noteq> Leader" "rn_election_deadline (cl_nodes c i) \<le> now" "rn_term (cl_nodes c i) \<noteq> - 1"
    and "rn_last_log_index (cl_nodes c i) = ms_last_index (rn_store (cl_nodes c i))" "rn_last_log_index (cl_nodes c i) \<noteq> - 1"
    and "last_log_term memory_store (cl_nodes c i) = Inr t"
    and "voters \<subseteq> set peers" "i \<notin> voters"
    and "\<And>q. q \<in> voters \<Longrightarrow> rn_term (cl_nodes c q) \<le> rn_term (cl_nodes c i) \<and>
      (\<exists>u. last_log_term memory_store (cl_nodes c q) = Inr u \<and>
         log_is_up_to_date (rn_last_log_index (cl_nodes c q)) u (rn_last_log_index (cl_nodes c i)) t)"
    and "orderly voters {} {} ds" "length peers div 2 \<le> answers ds"
    and "c' = canvass M (vote_request (cl_nodes c i) t) i ds (put_node i (tick M memory_store now later (cl_nodes c i)) c)"
  shows "(cluster_step M memory_store peers)\<^sup>*\<^sup>* c c' \<and> rn_role (cl_nodes c' i) = Leader \<and>
    rn_term (cl_nodes c' i) = rn_term (cl_nodes c i) + 1"
proof -
  have "rn_term (cl_nodes c i) < rn_term (cl_nodes c i) + 1"
    using assms(6) by (rule less_succ)
  then have "grants (vote_request (cl_nodes c i) t) (cl_nodes c q)" if "q \<in> voters" for q
    using assms(12)[OF that] by (auto simp: grants_def vote_request_def split: sum.split intro: le_less_trans)
  from election_run[OF assms(1-11) this assms(13-15)] show ?thesis by (simp add: elected_def)
qed

theorem election_progress_witness:
  "\<exists>r. rn_role (cl_nodes (canvass unit_machine r 3 [Asked 1 70, Asked 2 5, Answered 2 101]
     (put_node 3 (tick unit_machine memory_store 100 101 (cl_nodes three_0 3)) three_0)) 3) = Leader"
proof -
  have f: "rn_id (started 3) = 3" "rn_peers (started 3) = [1, 2, 3]" "rn_role (started 3) \<noteq> Leader"
    "rn_election_deadline (started 3) \<le> 100" "rn_term (started 3) = 0" "rn_term (started 2) = 0" "rn_term (started 1) = 0"
    "rn_last_log_index (started 3) = 0" "rn_last_log_index (started 2) = 0" "rn_last_log_index (started 1) = 0"
    "ms_last_index (rn_store (started 3)) = 0"
    "last_log_term memory_store (started 1) = Inr 0" "last_log_term memory_store (started 2) = Inr 0"
    "last_log_term memory_store (started 3) = Inr 0"
    by code_simp+
  have "rn_role (cl_nodes (canvass unit_machine (vote_request (cl_nodes three_0 3) 0) 3 [Asked 1 70, Asked 2 5, Answered 2 101]
     (put_node 3 (tick unit_machine memory_store 100 101 (cl_nodes three_0 3)) three_0)) 3) = Leader"
    by (rule election_progress[of 3 "[1, 2, 3]" three_0 100 0 "{1, 2}" "[Asked 1 70, Asked 2 5, Answered 2 101]" _ unit_machine 101, THEN conjunct2, THEN conjunct1])
      (use f in \<open>auto simp: three_0_def log_is_up_to_date_def answers_def\<close>)
  then show ?thesis by blast
qed

definition pair_leader :: "(MemoryLogStore, unit) RaftNode" where
  "pair_leader = (started 1)\<lparr>rn_config := (three_config 1)\<lparr>nc_peers := [1, 2]\<rparr>, rn_match_index := [1 \<mapsto> 5]\<rparr>"

text \<open>
  C32: what the leader counts as a quorum. The index \<open>quorum_match_index\<close> is held by at least half of the group,
  rounded up; in a group of odd size that is a quorum, and the index is the greatest one held by a quorum. In a group of even size half of the
  group is enough, which is no quorum: in a group of two the leader alone commits.
\<close>

theorem quorum_match_index_exact:
  assumes "rn_peers n \<noteq> []"
  shows "(k \<le> quorum_match_index n \<longleftrightarrow> (length (rn_peers n) + 1) div 2 \<le> holders k n) \<and>
    (odd (length (rn_peers n)) \<longrightarrow> (k \<le> quorum_match_index n \<longleftrightarrow> has_quorum (holders k n) n)) \<and>
    (even (length (rn_peers n)) \<and> holders k n = length (rn_peers n) div 2 \<longrightarrow>
       k \<le> quorum_match_index n \<and> \<not> has_quorum (holders k n) n)"
  using quorum_match_index_counts[OF assms, of k] by (auto simp: has_quorum_def elim!: oddE evenE)

theorem quorum_match_index_exact_witness:
  "5 \<le> quorum_match_index pair_leader \<and> \<not> has_quorum (holders 5 pair_leader) pair_leader"
proof -
  have "rn_peers pair_leader \<noteq> []" "even (length (rn_peers pair_leader))" "holders 5 pair_leader = length (rn_peers pair_leader) div 2"
    by (simp_all add: pair_leader_def three_config_def holders_def get0_def)
  then show ?thesis using quorum_match_index_exact[of pair_leader 5] by blast
qed

text \<open>
  C31: application. \<^verbatim>\<open>apply_committed\<close> reads and applies the committed entries that were not yet applied, each once and in the order of
  the log, up to the commit index or the first entry that cannot be read or applied; that error is its result. It
  moves \<^verbatim>\<open>last_applied\<close> past exactly the applied entries, completes the proposals among them, and changes neither the log nor the
  commit index.
\<close>

theorem apply_committed_in_order:
  "case (apply_committed M L n, replay_entries M L (rn_store n) [unat (rn_last_applied n) + 1..<unat (rn_commit_index n) + 1] (rn_machine n))
   of ((e', n'), (e, k, m)) \<Rightarrow>
     e' = e \<and> rn_machine n' = m \<and> rn_last_applied n' = rn_last_applied n + word_of_nat k \<and>
     rn_store n' = rn_store n \<and> rn_commit_index n' = rn_commit_index n \<and>
     (e = None \<longrightarrow> rn_pending_proposals n' = filter (\<lambda>p. unat (fst p) \<notin>
        {unat (rn_last_applied n) + 1..<unat (rn_commit_index n) + 1}) (rn_pending_proposals n))"
  using apply_committed_replay[of M L n "fst (apply_committed M L n)" "snd (apply_committed M L n)"]
  by (auto simp: to_apply_def split: prod.splits simp del: upt_Suc applied_store)

theorem apply_committed_in_order_witness:
  "\<exists>n :: (MemoryLogStore, unit) RaftNode. fst (apply_committed unit_machine memory_store n) = None \<and>
     rn_last_applied n < rn_commit_index n \<and> rn_last_applied (snd (apply_committed unit_machine memory_store n)) = rn_commit_index n \<and>
     rn_pending_proposals n = [(1, 0)] \<and> rn_pending_proposals (snd (apply_committed unit_machine memory_store n)) = []"
proof -
  define n where "n = elected_1\<lparr>rn_commit_index := 1, rn_pending_proposals := [(1, 0)]\<rparr>"
  have f: "rn_last_applied n = 0" "rn_commit_index n = 1" "rn_pending_proposals n = [(1, 0)]"
    "fst (replay_entries unit_machine memory_store (rn_store n) [1] (rn_machine n)) = None"
    "fst (snd (replay_entries unit_machine memory_store (rn_store n) [1] (rn_machine n))) = 1"
    unfolding n_def by code_simp+
  have "[unat (rn_last_applied n) + 1..<unat (rn_commit_index n) + 1] = [1]" by (simp add: f upt_rec)
  then show ?thesis
    using apply_committed_in_order[where M = unit_machine and L = memory_store and n = n] f by (intro exI[of _ n]) (auto split: prod.splits)
qed

text \<open>
  C33: a follower refuses entries of older terms. A request that carries an entry whose term is not the term of the request gets no
  successful answer, whatever the log store. With the store in memory, when the term of the request is not old and the logs meet at the
  entry before it, handling the request is an error and nothing is answered, so the leader does not learn of it. When the first entry is
  of an older term, the log and the commit index of the follower stay as they are.
\<close>

theorem older_entries_refused:
  assumes "entry \<in> set (ae_entries request)" "le_term entry \<noteq> ae_term request"
    and "handle_append_entries M memory_store now sender request n' = (result, after)"
  shows "((p, AppendEntriesReply a) \<in> set (rn_outbox (snd (handle_append_entries M L now sender request n))) \<longrightarrow>
      (p, AppendEntriesReply a) \<notin> set (rn_outbox n) \<longrightarrow> \<not> aer_success a) \<and>
    (rn_term n' \<le> ae_term request \<and> logs_meet request n' \<longrightarrow> result \<noteq> None \<and> rn_outbox after = rn_outbox n') \<and>
    (entry = hd (ae_entries request) \<longrightarrow>
      ms_entries (rn_store after) = ms_entries (rn_store n') \<and> ms_last_index (rn_store after) = ms_last_index (rn_store n') \<and>
      rn_last_log_index after = rn_last_log_index n' \<and> rn_commit_index after = rn_commit_index n')"
proof -
  have "ae_entries request \<noteq> []" using assms(1) by auto
  then show ?thesis
    using rejected_append_entries[OF assms(1,2), of p a M L now sender n] stuck_append_entries[OF assms(1,2), of n' M now sender] assms(2,3)
      first_refused_append_entries[of request M now sender n' result after] by auto
qed

theorem older_entries_refused_witness:
  "\<exists>request result after. ae_term request = 2 \<and> ae_entries request = [\<lparr> le_index = 1, le_term = 1, le_data = [] \<rparr>] \<and>
     handle_append_entries unit_machine memory_store 0 1 request (started 2) = (result, after) \<and>
     result \<noteq> None \<and> rn_outbox after = [] \<and> ms_last_index (rn_store after) = 0"
proof -
  let ?e = "\<lparr> le_index = 1, le_term = 1, le_data = [] \<rparr> :: LogEntry"
  define request where "request = \<lparr> ae_term = 2, ae_leader_id = 1, ae_prev_log_index = 0, ae_prev_log_term = 0,
    ae_entries = [?e], ae_leader_commit = 0, ae_round = 1 \<rparr>"
  obtain result after where h: "handle_append_entries unit_machine memory_store 0 1 request (started 2) = (result, after)" by fastforce
  have s: "rn_last_included_index (started 2) = 0" "rn_term (started 2) = 0" "rn_outbox (started 2) = []"
    "ms_last_index (rn_store (started 2)) = 0" by code_simp+
  have r: "?e \<in> set (ae_entries request)" "le_term ?e \<noteq> ae_term request" "ae_term request = 2"
    "ae_entries request = [?e]" "logs_meet request (started 2)" using s by (simp_all add: request_def logs_meet_def)
  note older_entries_refused[OF r(1,2) h, THEN conjunct2]
  then show ?thesis using h s r by (intro exI[of _ request] exI[of _ result] exI[of _ after]) simp
qed

end
