(* ===== verification/Raft_Disk.thy ===== *)
theory Raft_Disk imports Raft_Machine Raft_Commit begin

text \<open>
  The log store and the table of request results on LevelDB (\<^verbatim>\<open>raft/leveldb_log_store.cpp\<close>,
  \<^verbatim>\<open>raft/leveldb_request_result_store.cpp\<close>). LevelDB is a library: it is the record \<open>LevelDb\<close> of the functions that the
  code calls, an argument of the model. What the code relies on is \<open>leveldb_ok\<close>: reads return what the last successful write left,
  a batch is written as a whole (when the write reports an error it may have been written or not), and the rows of an iterator are in
  the order of their keys.
\<close>

section \<open>LevelDB\<close>

datatype DbOp = DbPut bytes bytes | DbDelete bytes

text \<open>A status is the text of an error or nothing. The rows of an iterator come with the status it ends with.\<close>

record 'd LevelDb =
  db_get :: "'d \<Rightarrow> bytes \<Rightarrow> string + bytes option"
  db_write :: "DbOp list \<Rightarrow> 'd \<Rightarrow> string option \<times> 'd"
  db_rows :: "'d \<Rightarrow> (bytes \<times> bytes) list"
  db_iterator_status :: "'d \<Rightarrow> string option"

definition db_apply :: "DbOp \<Rightarrow> bytes omap \<Rightarrow> bytes omap" where
  "db_apply op m = (case op of DbPut k v \<Rightarrow> om_insert k v m | DbDelete k \<Rightarrow> om_erase k m)"

definition leveldb_ok :: "'d LevelDb \<Rightarrow> ('d \<Rightarrow> bytes omap) \<Rightarrow> bool" where
  "leveldb_ok D data \<longleftrightarrow>
     (\<forall>d. om_inv (data d)) \<and>
     (\<forall>d k v. db_get D d k = Inr v \<longrightarrow> v = om_find (data d) k) \<and>
     (\<forall>d ops d'. db_write D ops d = (None, d') \<longrightarrow> data d' = fold db_apply ops (data d)) \<and>
     (\<forall>d ops e d'. db_write D ops d = (Some e, d') \<longrightarrow> data d' = data d \<or> data d' = fold db_apply ops (data d)) \<and>
     (\<forall>d. db_iterator_status D d = None \<longrightarrow> db_rows D d = data d)"

definition rows_from_key :: "bytes \<Rightarrow> (bytes \<times> bytes) list \<Rightarrow> (bytes \<times> bytes) list" where
  "rows_from_key k rows = dropWhile (\<lambda>r. fst r < k) rows"

section \<open>The log store\<close>

definition kHardStateKey :: bytes where "kHardStateKey = str ''hard_state''"
definition kLogPrefix :: bytes where "kLogPrefix = str ''log/''"
definition kSnapshotMetaKey :: bytes where "kSnapshotMetaKey = str ''snapshot_meta''"

definition ld_internal :: "string \<Rightarrow> RaftError" where
  "ld_internal m = raft_error RE_InternalError m"

definition ld_u64 :: "(RaftError, uint64) reader" where
  "ld_u64 = rd_be 8 (ld_internal ''truncated uint64 value'')"

definition log_key :: "uint64 \<Rightarrow> bytes" where
  "log_key index = kLogPrefix @ be_bytes 8 index"

definition is_log_key :: "bytes \<Rightarrow> bool" where
  "is_log_key key \<longleftrightarrow> length key = 12 \<and> take 4 key = kLogPrefix"

definition decode_log_index :: "bytes \<Rightarrow> RaftError + uint64" where
  "decode_log_index key =
     (if \<not> is_log_key key then Inl (ld_internal ''unexpected raft log key'') else map_sum id fst (ld_u64 (drop 4 key)))"

record 'd LevelDBLogStore =
  lv_db :: "'d option"
  lv_last_index :: uint64
  lv_snapshot_meta :: SnapshotMetadata

abbreviation lv_included :: "'d LevelDBLogStore \<Rightarrow> uint64" where
  "lv_included s \<equiv> sm_last_included_index (lv_snapshot_meta s)"

definition leveldb_log_store :: "'d LevelDBLogStore" where
  "leveldb_log_store = \<lparr> lv_db = None, lv_last_index = kInvalidIndex,
     lv_snapshot_meta = \<lparr> sm_last_included_index = 0, sm_last_included_term = 0 \<rparr> \<rparr>"

definition not_open :: RaftError where
  "not_open = ld_internal ''raft log store is not open''"

definition leveldb_error :: "string \<Rightarrow> RaftError" where
  "leveldb_error status = raft_error RE_IOError status"

definition with_db :: "'d LevelDBLogStore \<Rightarrow> ('d \<Rightarrow> RaftError + 'a) \<Rightarrow> RaftError + 'a" where
  "with_db s f = (case lv_db s of None \<Rightarrow> Inl not_open | Some d \<Rightarrow> f d)"

definition update_db ::
  "'d LevelDBLogStore \<Rightarrow> ('d \<Rightarrow> RaftError option \<times> 'd LevelDBLogStore) \<Rightarrow> RaftError option \<times> 'd LevelDBLogStore" where
  "update_db s f = (case lv_db s of None \<Rightarrow> (Some not_open, s) | Some d \<Rightarrow> f d)"

text \<open>A synchronous write, with what the object becomes when it succeeds.\<close>

definition lv_write ::
  "'d LevelDb \<Rightarrow> DbOp list \<Rightarrow> ('d LevelDBLogStore \<Rightarrow> 'd LevelDBLogStore) \<Rightarrow> 'd \<Rightarrow> 'd LevelDBLogStore \<Rightarrow>
     RaftError option \<times> 'd LevelDBLogStore" where
  "lv_write D ops f d s =
     (case db_write D ops d of
        (Some e, d') \<Rightarrow> (Some (leveldb_error e), s\<lparr>lv_db := Some d'\<rparr>)
      | (None, d') \<Rightarrow> (None, f (s\<lparr>lv_db := Some d'\<rparr>)))"

definition encode_entry :: "LogEntry \<Rightarrow> bytes" where
  "encode_entry e = be_bytes 8 (le_term e) @ le_data e"

definition lv_append :: "'d LevelDb \<Rightarrow> LogEntry \<Rightarrow> 'd LevelDBLogStore \<Rightarrow> RaftError option \<times> 'd LevelDBLogStore" where
  "lv_append D entry s = update_db s (\<lambda>d.
     if le_index entry = kInvalidIndex \<or> le_term entry = 0
     then (Some (raft_error RE_InvalidArgument ''invalid log entry''), s)
     else if le_index entry \<noteq> lv_last_index s + 1
     then (Some (raft_error RE_InvalidArgument ''append must extend the log by exactly one entry''), s)
     else lv_write D [DbPut (log_key (le_index entry)) (encode_entry entry)] (\<lambda>s. s\<lparr>lv_last_index := le_index entry\<rparr>) d s)"

definition lv_at :: "'d LevelDb \<Rightarrow> 'd LevelDBLogStore \<Rightarrow> uint64 \<Rightarrow> RaftError + LogEntry" where
  "lv_at D s index = with_db s (\<lambda>d.
     if index = kInvalidIndex \<or> index > lv_last_index s
     then Inl (raft_error RE_InvalidArgument ''log index out of range'')
     else if index < lv_included s
     then Inl (raft_error RE_InvalidArgument ''log index is inside the compacted snapshot prefix'')
     else if index = lv_included s
     then Inr \<lparr> le_index = index, le_term = sm_last_included_term (lv_snapshot_meta s), le_data = [] \<rparr>
     else case db_get D d (log_key index) of
       Inl e \<Rightarrow> Inl (leveldb_error e)
     | Inr None \<Rightarrow> Inl (ld_internal ''cached raft log index is missing'')
     | Inr (Some value) \<Rightarrow>
         if length value < 8 then Inl (ld_internal ''truncated raft log entry'')
         else (case ld_u64 value of
           Inl e \<Rightarrow> Inl e
         | Inr (term, rest) \<Rightarrow>
             if term = 0 then Inl (ld_internal ''raft log entry has zero term'')
             else Inr \<lparr> le_index = index, le_term = term, le_data = rest \<rparr>))"

definition lv_truncate_suffix :: "'d LevelDb \<Rightarrow> uint64 \<Rightarrow> 'd LevelDBLogStore \<Rightarrow> RaftError option \<times> 'd LevelDBLogStore" where
  "lv_truncate_suffix D from_index s = update_db s (\<lambda>d.
     if from_index = kInvalidIndex \<or> from_index \<le> lv_included s \<or> from_index > lv_last_index s + 1
     then (Some (raft_error RE_InvalidArgument ''truncate suffix out of range''), s)
     else
       let hit = takeWhile (\<lambda>r. is_log_key (fst r)) (rows_from_key (log_key from_index) (db_rows D d))
       in case db_iterator_status D d of
            Some e \<Rightarrow> (Some (leveldb_error e), s)
          | None \<Rightarrow> lv_write D (map (DbDelete \<circ> fst) hit) (\<lambda>s. s\<lparr>lv_last_index := from_index - 1\<rparr>) d s)"

definition encode_hard_state :: "HardState \<Rightarrow> bytes" where
  "encode_hard_state h = be_bytes 8 (hs_term h) @
     (case hs_voted_for h of None \<Rightarrow> [0] | Some v \<Rightarrow> 1 # be_bytes 8 v)"

definition lv_save_hard_state :: "'d LevelDb \<Rightarrow> HardState \<Rightarrow> 'd LevelDBLogStore \<Rightarrow> RaftError option \<times> 'd LevelDBLogStore" where
  "lv_save_hard_state D h s = update_db s (\<lambda>d. lv_write D [DbPut kHardStateKey (encode_hard_state h)] id d s)"

definition read_hard_state :: "(RaftError, HardState) reader" where
  "read_hard_state = rd_bind ld_u64 (\<lambda>term. rd_bind (rd_be 1 (ld_internal ''truncated uint64 value'')) (\<lambda>flag :: byte.
     if flag \<noteq> 0 then rd_bind ld_u64 (\<lambda>v. rd_return \<lparr> hs_term = term, hs_voted_for = Some v \<rparr>)
     else rd_return \<lparr> hs_term = term, hs_voted_for = None \<rparr>))"

definition lv_load_hard_state :: "'d LevelDb \<Rightarrow> 'd LevelDBLogStore \<Rightarrow> RaftError + HardState" where
  "lv_load_hard_state D s = with_db s (\<lambda>d.
     case db_get D d kHardStateKey of
       Inl e \<Rightarrow> Inl (leveldb_error e)
     | Inr None \<Rightarrow> Inr \<lparr> hs_term = 0, hs_voted_for = None \<rparr>
     | Inr (Some value) \<Rightarrow>
         if length value \<noteq> 17 then Inl (ld_internal ''invalid raft hard state size'')
         else map_sum id fst (read_hard_state value))"

definition encode_meta :: "SnapshotMetadata \<Rightarrow> bytes" where
  "encode_meta meta = be_bytes 8 (sm_last_included_index meta) @ be_bytes 8 (sm_last_included_term meta)"

text \<open>The loop stops at the first key above the boundary; a log key always has an index.\<close>

definition lv_install_snapshot :: "'d LevelDb \<Rightarrow> SnapshotMetadata \<Rightarrow> 'd LevelDBLogStore \<Rightarrow> RaftError option \<times> 'd LevelDBLogStore" where
  "lv_install_snapshot D meta s = update_db s (\<lambda>d.
     if sm_last_included_index meta = kInvalidIndex \<or> sm_last_included_term meta = 0
     then (Some (raft_error RE_InvalidArgument ''invalid snapshot metadata''), s)
     else
       let below = (\<lambda>r. is_log_key (fst r) \<and> (be_word 8 (drop 4 (fst r)) :: uint64) \<le> sm_last_included_index meta);
           hit = takeWhile below (rows_from_key (log_key 1) (db_rows D d))
       in case db_iterator_status D d of
            Some e \<Rightarrow> (Some (leveldb_error e), s)
          | None \<Rightarrow> lv_write D (map (DbDelete \<circ> fst) hit @ [DbPut kSnapshotMetaKey (encode_meta meta)])
              (\<lambda>s. s\<lparr>lv_snapshot_meta := meta,
                 lv_last_index := (if lv_last_index s < sm_last_included_index meta then sm_last_included_index meta
                                   else lv_last_index s)\<rparr>) d s)"

definition leveldb_store :: "'d LevelDb \<Rightarrow> 'd LevelDBLogStore LogStore" where
  "leveldb_store D = \<lparr> ls_append = lv_append D, ls_at = lv_at D, ls_truncate_suffix = lv_truncate_suffix D,
     ls_save_hard_state = lv_save_hard_state D, ls_load_hard_state = lv_load_hard_state D,
     ls_last_index = (\<lambda>s. with_db s (\<lambda>_. Inr (lv_last_index s))),
     ls_snapshot_metadata = (\<lambda>s. with_db s (\<lambda>_. Inr (lv_snapshot_meta s))),
     ls_install_snapshot = lv_install_snapshot D \<rparr>"

section \<open>Opening\<close>

text \<open>The scan of the log: the keys to drop, and the last index found. A gap or a short record is an error.\<close>

fun scan_log :: "uint64 \<Rightarrow> uint64 \<Rightarrow> uint64 \<Rightarrow> (bytes \<times> bytes) list \<Rightarrow> RaftError + bytes list \<times> uint64" where
  "scan_log expected_start expected last_found [] = Inr ([], last_found)"
| "scan_log expected_start expected last_found ((k, v) # rows) =
     (if \<not> is_log_key k then Inr ([], last_found)
      else case decode_log_index k of
        Inl e \<Rightarrow> Inl e
      | Inr index \<Rightarrow>
          if index < expected_start
          then map_sum id (\<lambda>(ks, l). (k # ks, l)) (scan_log expected_start expected last_found rows)
          else if index \<noteq> expected then Inl (ld_internal ''raft log store has a gap or a non-contiguous prefix'')
          else if length v < 8 then Inl (ld_internal ''truncated raft log entry'')
          else scan_log expected_start (expected + 1) index rows)"

definition load_meta :: "'d LevelDb \<Rightarrow> 'd \<Rightarrow> SnapshotMetadata \<Rightarrow> RaftError + SnapshotMetadata" where
  "load_meta D d old =
     (case db_get D d kSnapshotMetaKey of
        Inl e \<Rightarrow> Inl (leveldb_error e)
      | Inr None \<Rightarrow> Inr old
      | Inr (Some value) \<Rightarrow>
          if length value \<noteq> 16 then Inl (ld_internal ''invalid raft snapshot metadata size'')
          else let included = be_word 8 value; included_term = be_word 8 (drop 8 value)
               in if included = kInvalidIndex \<or> included_term = 0
                  then Inl (ld_internal ''invalid raft snapshot metadata values'')
                  else Inr \<lparr> sm_last_included_index = included, sm_last_included_term = included_term \<rparr>)"

text \<open>
  \<^verbatim>\<open>open\<close>, with the result of \<^verbatim>\<open>leveldb::DB::Open\<close> and the function \<^verbatim>\<open>SnapshotMetadata::has_snapshot\<close>, whose header is not part of
  the sources. (After an error the database stays open, as in the code.)
\<close>

definition lv_open :: "(SnapshotMetadata \<Rightarrow> bool) \<Rightarrow> 'd LevelDb \<Rightarrow> string + 'd \<Rightarrow> 'd LevelDBLogStore \<Rightarrow> RaftError option \<times> 'd LevelDBLogStore" where
  "lv_open has_snapshot D opened s =
     (if lv_db s \<noteq> None then (Some (raft_error RE_InvalidArgument ''raft log store is already open''), s)
      else case opened of
        Inl e \<Rightarrow> (Some (leveldb_error e), s)
      | Inr d \<Rightarrow>
          let s = s\<lparr>lv_db := Some d\<rparr>
          in case load_meta D d (lv_snapshot_meta s) of
               Inl e \<Rightarrow> (Some e, s)
             | Inr meta \<Rightarrow>
                 let s = s\<lparr>lv_snapshot_meta := meta\<rparr>;
                     expected_start = (if has_snapshot meta then sm_last_included_index meta + 1 else 1)
                 in case scan_log expected_start expected_start kInvalidIndex (rows_from_key (log_key 1) (db_rows D d)) of
                      Inl e \<Rightarrow> (Some e, s)
                    | Inr (stale, last_found) \<Rightarrow>
                        (case db_iterator_status D d of
                           Some e \<Rightarrow> (Some (leveldb_error e), s)
                         | None \<Rightarrow>
                             let done = (\<lambda>s. s\<lparr>lv_last_index := max last_found (sm_last_included_index meta)\<rparr>)
                             in if stale = [] then (None, done s) else lv_write D (map DbDelete stale) done d s))"

definition lv_close :: "'d LevelDBLogStore \<Rightarrow> 'd LevelDBLogStore" where
  "lv_close s = (if lv_db s = None then s else s\<lparr>lv_db := None, lv_last_index := kInvalidIndex\<rparr>)"

section \<open>Keys\<close>

lemma log_key_inj [simp]: "log_key i = log_key j \<longleftrightarrow> i = j"
  by (simp add: log_key_def)

lemma log_key_less: "log_key i < log_key j \<longleftrightarrow> i < j"
  by (simp add: log_key_def kLogPrefix_def be_bytes_less_iff)

lemma log_key_le: "log_key i \<le> log_key j \<longleftrightarrow> i \<le> j"
  using log_key_less[of j i] by (simp add: linorder_not_less[symmetric])

lemma is_log_key_iff: "is_log_key k \<longleftrightarrow> (\<exists>i. k = log_key i)"
proof
  assume "is_log_key k"
  then have k: "length (drop 4 k) = 8" "k = kLogPrefix @ drop 4 k" by (auto simp: is_log_key_def) (metis append_take_drop_id)
  have "be_bytes 8 (be_word 8 (drop 4 k) :: uint64) = drop 4 k" using k(1) by (intro be_bytes_be_word) simp_all
  then show "\<exists>i. k = log_key i" using k(2) by (metis log_key_def)
qed (auto simp: is_log_key_def log_key_def kLogPrefix_def)

lemma key_order [simp]:
  "kHardStateKey < log_key i" "log_key i < kSnapshotMetaKey" "log_key i \<noteq> kHardStateKey" "kHardStateKey \<noteq> log_key i" "log_key i \<noteq> kSnapshotMetaKey"
  "kSnapshotMetaKey \<noteq> log_key i" "kHardStateKey \<noteq> kSnapshotMetaKey" "\<not> is_log_key kHardStateKey" "\<not> is_log_key kSnapshotMetaKey"
  by (auto simp: kHardStateKey_def log_key_def kSnapshotMetaKey_def kLogPrefix_def is_log_key_def)

lemma meta_key_last [simp]: "\<not> kSnapshotMetaKey < log_key i" "\<not> log_key i \<le> kHardStateKey"
  using less_not_sym[OF key_order(2)] leD key_order(1) by blast+

lemma decode_log_index_key: "decode_log_index (log_key i) = Inr i" "be_word 8 (drop 4 (log_key i)) = i"
proof -
  have d: "drop 4 (log_key i) = be_bytes 8 i @ []" by (simp add: log_key_def kLogPrefix_def)
  show w: "be_word 8 (drop 4 (log_key i)) = i" unfolding d using be_word_be_bytes[of 8 i "[]"] by simp
  have "ld_u64 (drop 4 (log_key i)) = Inr (i, [])" unfolding d ld_u64_def by (simp add: wire_simps)
  then show "decode_log_index (log_key i) = Inr i" by (auto simp: decode_log_index_def is_log_key_iff)
qed

section \<open>Writes\<close>

fun db_key :: "DbOp \<Rightarrow> bytes" where
  "db_key (DbPut k v) = k"
| "db_key (DbDelete k) = k"

lemma db_apply_inv [simp]: "om_inv m \<Longrightarrow> om_inv (db_apply op m)"
  by (simp add: db_apply_def split: DbOp.split)

lemma db_fold_inv [simp]: "om_inv m \<Longrightarrow> om_inv (fold db_apply ops m)"
  by (induction ops arbitrary: m) auto

lemma db_apply_other: "om_inv m \<Longrightarrow> k \<noteq> db_key op \<Longrightarrow> om_find (db_apply op m) k = om_find m k"
  by (auto simp: db_apply_def split: DbOp.split)

lemma db_fold_other: "om_inv m \<Longrightarrow> k \<notin> db_key ` set ops \<Longrightarrow> om_find (fold db_apply ops m) k = om_find m k"
  by (induction ops arbitrary: m) (auto simp: db_apply_other)

lemma db_fold_deletes: "om_inv m \<Longrightarrow> om_find (fold db_apply (map DbDelete ks) m) k = (if k \<in> set ks then None else om_find m k)"
  by (induction ks arbitrary: m) (auto simp: db_apply_def)

lemma leveldb_okD:
  assumes "leveldb_ok D data"
  shows "om_inv (data d)" "db_get D d k = Inr v \<Longrightarrow> v = om_find (data d) k"
    "db_write D ops d = (None, d') \<Longrightarrow> data d' = fold db_apply ops (data d)" "db_write D ops d = (Some e, d') \<Longrightarrow> data d' = data d \<or> data d' = fold db_apply ops (data d)"
    "db_iterator_status D d = None \<Longrightarrow> db_rows D d = data d"
  using assms unfolding leveldb_ok_def by blast+

section \<open>The hard state\<close>

definition decode_hard_state :: "bytes \<Rightarrow> HardState" where
  "decode_hard_state value = (case read_hard_state value of Inr (h, _) \<Rightarrow> h | Inl _ \<Rightarrow> \<lparr> hs_term = 0, hs_voted_for = None \<rparr>)"

definition stored_hard :: "('d \<Rightarrow> bytes omap) \<Rightarrow> 'd LevelDBLogStore \<Rightarrow> HardState" where
  "stored_hard data s = (case lv_db s of None \<Rightarrow> \<lparr> hs_term = 0, hs_voted_for = None \<rparr>
     | Some d \<Rightarrow> (case om_find (data d) kHardStateKey of None \<Rightarrow> \<lparr> hs_term = 0, hs_voted_for = None \<rparr> | Some v \<Rightarrow> decode_hard_state v))"

lemma ld_forward:
  "ld_u64 (be_bytes 8 c @ rest) = Inr (c, rest)" "ld_u64 (be_bytes 8 c) = Inr (c, [])"
  "rd_be (Suc 0) e (a # rest) = Inr (a :: byte, rest)"
  by (simp_all add: ld_u64_def wire_simps)

lemma read_hard_state_encode: "read_hard_state (encode_hard_state h) = Inr (h, [])"
  by (cases h; cases "hs_voted_for h") (simp_all add: encode_hard_state_def read_hard_state_def rd_bind_def ld_forward rd_return_def)

lemma decode_encode_hard_state [simp]: "decode_hard_state (encode_hard_state h) = h"
  by (simp add: decode_hard_state_def read_hard_state_encode)

section \<open>The log\<close>

definition decode_entry :: "uint64 \<Rightarrow> bytes \<Rightarrow> LogEntry" where
  "decode_entry i v = \<lparr> le_index = i, le_term = be_word 8 v, le_data = drop 8 v \<rparr>"

definition log_inv :: "(bytes \<rightharpoonup> bytes) \<Rightarrow> uint64 \<Rightarrow> SnapshotMetadata \<Rightarrow> bool" where
  "log_inv f last_i meta \<longleftrightarrow>
     (\<forall>k. f k \<noteq> None \<longrightarrow> is_log_key k \<or> k = kHardStateKey \<or> k = kSnapshotMetaKey) \<and>
     sm_last_included_index meta \<le> last_i \<and>
     (\<forall>i. f (log_key i) \<noteq> None \<longleftrightarrow> sm_last_included_index meta < i \<and> i \<le> last_i) \<and>
     (\<forall>i v. f (log_key i) = Some v \<longrightarrow> 8 \<le> length v \<and> (be_word 8 v :: uint64) \<noteq> 0) \<and>
     f kSnapshotMetaKey = (if sm_last_included_index meta = 0 then None else Some (encode_meta meta)) \<and>
     (sm_last_included_index meta = 0 \<longleftrightarrow> sm_last_included_term meta = 0)"

definition log_entries :: "(bytes \<rightharpoonup> bytes) \<Rightarrow> uint64 \<Rightarrow> SnapshotMetadata \<Rightarrow> LogEntry list" where
  "log_entries f last_i meta = map (\<lambda>i. decode_entry (word_of_nat i) (the (f (log_key (word_of_nat i)))))
     [unat (sm_last_included_index meta) + 1..<unat last_i + 1]"

definition lv_find :: "('d \<Rightarrow> bytes omap) \<Rightarrow> 'd LevelDBLogStore \<Rightarrow> bytes \<rightharpoonup> bytes" where
  "lv_find data s = om_find (data (the (lv_db s)))"

definition lv_inv :: "('d \<Rightarrow> bytes omap) \<Rightarrow> 'd LevelDBLogStore \<Rightarrow> bool" where
  "lv_inv data s \<longleftrightarrow> lv_db s \<noteq> None \<and> log_inv (lv_find data s) (lv_last_index s) (lv_snapshot_meta s)"

definition lv_view :: "('d \<Rightarrow> bytes omap) \<Rightarrow> 'd LevelDBLogStore \<Rightarrow> MemoryLogStore" where
  "lv_view data s = \<lparr> ms_entries = log_entries (lv_find data s) (lv_last_index s) (lv_snapshot_meta s),
     ms_last_index = lv_last_index s, ms_snapshot_meta = lv_snapshot_meta s, ms_hard_state = stored_hard data s,
     ms_hard_state_writes = 0 \<rparr>"

lemma log_invD:
  assumes "log_inv f l meta"
  shows "f k \<noteq> None \<Longrightarrow> is_log_key k \<or> k = kHardStateKey \<or> k = kSnapshotMetaKey" "sm_last_included_index meta \<le> l"
    "f (log_key i) \<noteq> None \<longleftrightarrow> sm_last_included_index meta < i \<and> i \<le> l"
    "f (log_key i) = Some v \<Longrightarrow> 8 \<le> length v \<and> (be_word 8 v :: uint64) \<noteq> 0"
  using assms unfolding log_inv_def by blast+

lemma unat_succ: "(a :: uint64) < i \<Longrightarrow> unat (a + 1) = unat a + 1"
  using unsigned_less[of i, where 'a = nat] by (simp add: unat_word_ariths word_less_nat_alt)

lemma unat_pred_diff:
  assumes "(a :: uint64) < i"
  shows "unat (i - 1 - a) = unat i - unat a - 1"
proof -
  have "a + 1 \<le> i" using assms unat_succ[OF assms] by (simp add: word_le_nat_alt word_less_nat_alt)
  then have "unat (i - (a + 1)) = unat i - unat (a + 1)" by (rule unat_sub)
  moreover have "i - 1 - a = i - (a + 1)" by (simp add: algebra_simps)
  ultimately show ?thesis using unat_succ[OF assms] by (simp only:)
qed

lemma lv_at_view:
  assumes "leveldb_ok D data" "lv_inv data s" "\<And>e. lv_at D s i = Inl e \<Longrightarrow> re_code e \<noteq> RE_IOError"
  shows "lv_at D s i = mem_at (lv_view data s) i"
proof -
  obtain d where d: "lv_db s = Some d" and inv: "log_inv (lv_find data s) (lv_last_index s) (lv_snapshot_meta s)"
    using assms(2) by (auto simp: lv_inv_def)
  show ?thesis
  proof (cases "i \<noteq> kInvalidIndex \<and> i \<le> lv_last_index s \<and> lv_included s < i")
    case False
    then show ?thesis using d by (auto simp: lv_at_def mem_at_def with_db_def lv_view_def not_less)
  next
    case True
    then obtain v where v: "lv_find data s (log_key i) = Some v" using log_invD(3)[OF inv, of i] by auto
    have ok: "8 \<le> length v" "(be_word 8 v :: uint64) \<noteq> 0" using log_invD(4)[OF inv v] by auto
    have lt: "unat (lv_included s) < unat i" "unat i \<le> unat (lv_last_index s)" using True by (simp_all add: word_less_nat_alt word_le_nat_alt)
    have "unat (i - 1 - lv_included s) = unat i - unat (lv_included s) - 1" using True by (intro unat_pred_diff) simp
    moreover have "ms_entries (lv_view data s) ! (unat i - unat (lv_included s) - 1) = decode_entry i v"
      using lt v by (simp add: lv_view_def log_entries_def del: upt_Suc)
    ultimately have m: "mem_at (lv_view data s) i = Inr (decode_entry i v)"
      using True by (auto simp: mem_at_def lv_view_def)
    obtain r where r: "db_get D d (log_key i) = r" by blast
    have "lv_at D s i = Inr (decode_entry i v)"
    proof (cases r)
      case (Inl e)
      then have "lv_at D s i = Inl (leveldb_error e)" using True d r by (auto simp: lv_at_def with_db_def)
      then show ?thesis using assms(3) by (auto simp: leveldb_error_def raft_error_def)
    next
      case (Inr x)
      then have "x = Some v" using leveldb_okD(2)[OF assms(1)] r v d by (fastforce simp: lv_find_def)
      moreover have "ld_u64 v = Inr (be_word 8 v, drop 8 v)" using ok by (simp add: ld_u64_def rd_be_def)
      ultimately show ?thesis using True d r Inr ok by (auto simp: lv_at_def with_db_def decode_entry_def)
    qed
    then show ?thesis using m by simp
  qed
qed

lemma log_inv_append:
  assumes inv: "log_inv f l meta" and new: "le_index e = l + 1" "le_index e \<noteq> 0" "le_term e \<noteq> 0"
    and f': "f' = f(log_key (le_index e) \<mapsto> encode_entry e)"
  shows "log_inv f' (le_index e) meta" "log_entries f' (le_index e) meta = log_entries f l meta @ [e]"
proof -
  have lt: "l < le_index e" using new(1,2) less_succ[of l] by (metis add.commute add_eq_0_iff)
  have u: "unat (le_index e) = unat l + 1" using unat_succ[OF lt] new(1) by simp
  have step: "i \<le> le_index e \<longleftrightarrow> i \<le> l \<or> i = le_index e" for i :: uint64
    using u by (auto simp: word_le_nat_alt) (metis le_Suc_eq word_unat_eq_iff add.commute plus_1_eq_Suc)
  have "be_word 8 (encode_entry e) = le_term e" "8 \<le> length (encode_entry e)" by (simp_all add: encode_entry_def)
  moreover have "sm_last_included_index meta < le_index e" using log_invD(2)[OF inv] lt by (rule le_less_trans)
  ultimately show "log_inv f' (le_index e) meta"
    using inv lt new(3) step unfolding log_inv_def f'
    by (auto simp: is_log_key_iff)
  have "le_term e \<noteq> 0" by (rule new(3))
  have dec: "decode_entry (le_index e) (encode_entry e) = e" by (simp add: decode_entry_def encode_entry_def)
  have le: "unat (sm_last_included_index meta) \<le> unat l" using log_invD(2)[OF inv] by (simp add: word_le_nat_alt)
  have split: "[unat (sm_last_included_index meta) + 1..<unat (le_index e) + 1] = [unat (sm_last_included_index meta) + 1..<unat l + 1] @ [unat (le_index e)]"
    using le u by simp
  have "f' (log_key (word_of_nat i)) = f (log_key (word_of_nat i))" if "i \<in> set [unat (sm_last_included_index meta) + 1..<unat l + 1]" for i
  proof -
    have "i \<le> unat l" using that by auto
    then have "i < 2 ^ 64" using unsigned_less[of l, where 'a = nat] by simp
    then have w: "unat (word_of_nat i :: uint64) = i" by (simp add: unsigned_of_nat take_bit_nat_eq_self)
    have "(word_of_nat i :: uint64) \<noteq> le_index e"
    proof
      assume "(word_of_nat i :: uint64) = le_index e"
      then have "i = unat (le_index e)" using w by simp
      then show False using u \<open>i \<le> unat l\<close> by simp
    qed
    then show ?thesis by (simp add: f')
  qed
  then show "log_entries f' (le_index e) meta = log_entries f l meta @ [e]"
    unfolding log_entries_def split by (simp add: f' dec del: upt_Suc)
qed

lemma takeWhile_log_keys:
  assumes "om_inv m" "\<And>p q. p \<in> set m \<Longrightarrow> q \<in> set m \<Longrightarrow> fst p < fst q \<Longrightarrow> P q \<Longrightarrow> P p"
  shows "takeWhile P m = filter P m"
  using assms
proof (induction m)
  case (Cons x m)
  then show ?case
  proof (cases "P x")
    case False
    then have "\<not> P y" if "y \<in> set m" for y using Cons.prems(1) Cons.prems(2)[of x y] that by auto
    then show ?thesis using False by (simp add: filter_empty_conv)
  qed auto
qed simp

lemma rows_hit:
  assumes "om_inv m" "\<And>k. om_find m k \<noteq> None \<Longrightarrow> is_log_key k \<or> k = kHardStateKey \<or> k = kSnapshotMetaKey"
  shows "k \<in> fst ` set (takeWhile (\<lambda>r. is_log_key (fst r)) (rows_from_key (log_key i) m)) \<longleftrightarrow>
      om_find m k \<noteq> None \<and> is_log_key k \<and> log_key i \<le> k"
    and "k \<in> fst ` set (takeWhile (\<lambda>r. is_log_key (fst r) \<and> (be_word 8 (drop 4 (fst r)) :: uint64) \<le> b) (rows_from_key (log_key i) m)) \<longleftrightarrow>
      om_find m k \<noteq> None \<and> (\<exists>j. k = log_key j \<and> i \<le> j \<and> j \<le> b)"
proof -
  let ?m = "filter (\<lambda>p. log_key i \<le> fst p) m"
  have r: "rows_from_key (log_key i) m = ?m" using assms(1) by (simp add: rows_from_key_def dropWhile_filter)
  have key: "is_log_key (fst p) \<or> fst p = kSnapshotMetaKey" if "p \<in> set ?m" for p
    using that assms(2)[of "fst p"] by (auto simp: om_find_def map_of_eq_None_iff dest: leD)
  have dom: "om_find m k \<noteq> None \<longleftrightarrow> k \<in> fst ` set m" for k by (simp add: om_find_def map_of_eq_None_iff)
  have inv: "om_inv ?m" using assms(1) by (rule om_inv_filter)
  have down: "is_log_key (fst p)" if "p \<in> set ?m" "fst p < fst q" "is_log_key (fst q)" for p q :: "bytes \<times> bytes"
    using key[OF that(1)] that(2,3) by (auto simp: is_log_key_iff dest: less_trans)
  have "takeWhile (\<lambda>r. is_log_key (fst r)) ?m = filter (\<lambda>r. is_log_key (fst r)) ?m"
    by (rule takeWhile_log_keys[OF inv]) (rule down)
  then show "k \<in> fst ` set (takeWhile (\<lambda>r. is_log_key (fst r)) (rows_from_key (log_key i) m)) \<longleftrightarrow>
      om_find m k \<noteq> None \<and> is_log_key k \<and> log_key i \<le> k"
    unfolding r dom by auto
  have tw: "takeWhile (\<lambda>r. is_log_key (fst r) \<and> (be_word 8 (drop 4 (fst r)) :: uint64) \<le> b) ?m =
      filter (\<lambda>r. is_log_key (fst r) \<and> (be_word 8 (drop 4 (fst r)) :: uint64) \<le> b) ?m"
  proof (rule takeWhile_log_keys[OF inv])
    fix p q :: "bytes \<times> bytes" assume a: "p \<in> set ?m" "fst p < fst q" "is_log_key (fst q) \<and> (be_word 8 (drop 4 (fst q)) :: uint64) \<le> b"
    then have "is_log_key (fst p)" using down by blast
    then show "is_log_key (fst p) \<and> (be_word 8 (drop 4 (fst p)) :: uint64) \<le> b"
      using a by (auto simp: is_log_key_iff decode_log_index_key log_key_less)
  qed
  show "k \<in> fst ` set (takeWhile (\<lambda>r. is_log_key (fst r) \<and> (be_word 8 (drop 4 (fst r)) :: uint64) \<le> b) (rows_from_key (log_key i) m)) \<longleftrightarrow>
      om_find m k \<noteq> None \<and> (\<exists>j. k = log_key j \<and> i \<le> j \<and> j \<le> b)"
  proof -
    have "k \<in> fst ` set (filter (\<lambda>r. is_log_key (fst r) \<and> (be_word 8 (drop 4 (fst r)) :: uint64) \<le> b) ?m) \<longleftrightarrow>
        k \<in> fst ` set m \<and> log_key i \<le> k \<and> is_log_key k \<and> (be_word 8 (drop 4 k) :: uint64) \<le> b" by auto
    also have "\<dots> \<longleftrightarrow> k \<in> fst ` set m \<and> (\<exists>j. k = log_key j \<and> i \<le> j \<and> j \<le> b)"
      unfolding is_log_key_iff by (auto simp: decode_log_index_key log_key_le)
    finally show ?thesis unfolding r tw dom .
  qed
qed

lemma unat_pred: "(i :: uint64) \<noteq> 0 \<Longrightarrow> unat (i - 1) = unat i - 1"
  using unat_pred_diff[of 0 i] by (simp add: word_gt_0)

lemma log_inv_truncate:
  assumes inv: "log_inv f l meta" and b: "i \<noteq> 0" "sm_last_included_index meta < i" "i \<le> l + 1"
    and f': "\<And>k. f' k = (if is_log_key k \<and> log_key i \<le> k then None else f k)"
  shows "log_inv f' (i - 1) meta"
    "log_entries f' (i - 1) meta = take (unat (i - 1 - sm_last_included_index meta)) (log_entries f l meta)"
proof -
  have "l + 1 \<noteq> 0" using b(1,3) by auto
  then have l1: "unat (l + 1) = unat l + 1" using unat_succ less_succ[of l] by (metis add.commute add_eq_0_iff)
  have up: "unat (i - 1) = unat i - 1" using b(1) by (rule unat_pred)
  have n: "unat (sm_last_included_index meta) < unat i" "unat i \<le> unat l + 1" using b(2,3) l1 by (simp_all add: word_less_nat_alt word_le_nat_alt)
  have lk: "f' (log_key j) = (if i \<le> j then None else f (log_key j))" for j by (simp add: f' is_log_key_iff log_key_le)
  have j: "sm_last_included_index meta < j \<and> j \<le> l \<and> \<not> i \<le> j \<longleftrightarrow> sm_last_included_index meta < j \<and> j \<le> i - 1" for j
    using n up by (auto simp: word_less_nat_alt word_le_nat_alt)
  have inc: "sm_last_included_index meta \<le> i - 1" using n up by (simp add: word_le_nat_alt)
  have "f' (log_key j) \<noteq> None \<longleftrightarrow> sm_last_included_index meta < j \<and> j \<le> i - 1" for j
    using log_invD(3)[OF inv, of j] j[of j] by (auto simp add: lk)
  moreover have "8 \<le> length v \<and> (be_word 8 v :: uint64) \<noteq> 0" if "f' (log_key j) = Some v" for j v
    using that log_invD(4)[OF inv, of j v] by (simp add: lk split: if_splits)
  ultimately show "log_inv f' (i - 1) meta"
    using inv inc unfolding log_inv_def by (simp add: f')
  have "f' (log_key (word_of_nat x)) = f (log_key (word_of_nat x))" if "x \<in> set [unat (sm_last_included_index meta) + 1..<unat i]" for x
  proof -
    have "x < 2 ^ 64" using that unsigned_less[of i, where 'a = nat] by simp
    then have "unat (word_of_nat x :: uint64) = x" by (simp add: unsigned_of_nat take_bit_nat_eq_self)
    then show ?thesis using that by (simp add: lk word_le_nat_alt)
  qed
  moreover have "unat (i - 1) + 1 = unat i" "unat (i - 1 - sm_last_included_index meta) = unat i - unat (sm_last_included_index meta) - 1"
    using n up unat_pred_diff[OF b(2)] by simp_all
  ultimately show "log_entries f' (i - 1) meta = take (unat (i - 1 - sm_last_included_index meta)) (log_entries f l meta)"
    using n unfolding log_entries_def by (simp add: take_map take_upt del: upt_Suc)
qed

lemma dropWhile_upt: "dropWhile (\<lambda>i. i \<le> m) [a..<b] = [max a (Suc m)..<b]"
proof (induction "b - a" arbitrary: a)
  case (Suc n)
  then have c: "[a..<b] = a # [Suc a..<b]" "n = b - Suc a" by (simp_all add: upt_conv_Cons)
  show ?case
  proof (cases "a \<le> m")
    case True
    then show ?thesis using Suc(1)[OF c(2)] c(1) by simp
  next
    case False
    then show ?thesis using c(1) by (simp add: max_absorb1)
  qed
qed simp

lemma log_inv_compact:
  assumes inv: "log_inv f l meta" and new: "sm_last_included_index meta \<le> sm_last_included_index meta'"
      "sm_last_included_index meta' \<noteq> 0" "sm_last_included_term meta' \<noteq> 0"
    and f': "\<And>k. f' k = (if k = kSnapshotMetaKey then Some (encode_meta meta')
      else if \<exists>j. k = log_key j \<and> 1 \<le> j \<and> j \<le> sm_last_included_index meta' then None else f k)"
  shows "log_inv f' (max l (sm_last_included_index meta')) meta'"
    "log_entries f' (max l (sm_last_included_index meta')) meta' =
      dropWhile (\<lambda>e. le_index e \<le> sm_last_included_index meta') (log_entries f l meta)"
proof -
  let ?m = "sm_last_included_index meta" let ?m' = "sm_last_included_index meta'"
  have lk: "f' (log_key j) = (if 1 \<le> j \<and> j \<le> ?m' then None else f (log_key j))" for j by (auto simp: f')
  have z: "f (log_key 0) = None" using log_invD(3)[OF inv, of 0] by auto
  have some: "f' (log_key j) \<noteq> None \<longleftrightarrow> ?m' < j \<and> j \<le> max l ?m'" for j
  proof -
    have "1 \<le> j \<longleftrightarrow> j \<noteq> 0" by (metis word_gt_0 word_le_less_eq word_less_1 linorder_not_le)
    then show ?thesis using log_invD(3)[OF inv, of j] new(1) z by (auto simp: lk le_max_iff_disj not_le)
  qed
  have "8 \<le> length v \<and> (be_word 8 v :: uint64) \<noteq> 0" if "f' (log_key j) = Some v" for j v
    using that log_invD(4)[OF inv, of j v] by (auto simp: lk split: if_splits)
  then show "log_inv f' (max l ?m') meta'"
    using inv new some unfolding log_inv_def by (auto simp: f' split: if_splits)
  have keep: "f' (log_key (word_of_nat x)) = f (log_key (word_of_nat x))" and idx: "unat (word_of_nat x :: uint64) = x"
    if "x \<in> set [Suc (unat ?m')..<unat l + 1]" for x
  proof -
    have "x < 2 ^ 64" using that unsigned_less[of l, where 'a = nat] by (auto simp del: upt_Suc)
    then show w: "unat (word_of_nat x :: uint64) = x" by (simp add: unsigned_of_nat take_bit_nat_eq_self)
    then show "f' (log_key (word_of_nat x)) = f (log_key (word_of_nat x))" using that by (auto simp: lk word_le_nat_alt simp del: upt_Suc)
  qed
  have "dropWhile (\<lambda>e. le_index e \<le> ?m') (log_entries f l meta) =
      map (\<lambda>i. decode_entry (word_of_nat i) (the (f (log_key (word_of_nat i))))) (dropWhile (\<lambda>i. i \<le> unat ?m') [unat ?m + 1..<unat l + 1])"
    unfolding log_entries_def dropWhile_map
  proof (rule arg_cong[where f = "map _"], rule dropWhile_cong[OF refl])
    fix x assume "x \<in> set [unat ?m + 1..<unat l + 1]"
    then have "x < 2 ^ 64" using unsigned_less[of l, where 'a = nat] by (auto simp del: upt_Suc)
    then have "unat (word_of_nat x :: uint64) = x" by (simp add: unsigned_of_nat take_bit_nat_eq_self)
    then show "((\<lambda>e. le_index e \<le> ?m') \<circ> (\<lambda>i. decode_entry (word_of_nat i) (the (f (log_key (word_of_nat i)))))) x = (x \<le> unat ?m')"
      by (simp add: decode_entry_def word_le_nat_alt)
  qed
  also have "\<dots> = map (\<lambda>i. decode_entry (word_of_nat i) (the (f (log_key (word_of_nat i))))) [Suc (unat ?m')..<unat l + 1]"
    using new(1) by (simp add: dropWhile_upt max_def word_le_nat_alt del: upt_Suc)
  also have "\<dots> = map (\<lambda>i. decode_entry (word_of_nat i) (the (f' (log_key (word_of_nat i))))) [Suc (unat ?m')..<unat l + 1]"
    using keep by (auto simp del: upt_Suc)
  also have "\<dots> = log_entries f' (max l ?m') meta'"
    by (cases "l \<le> ?m'") (simp_all add: log_entries_def max_def word_le_nat_alt del: upt_Suc)
  finally show "log_entries f' (max l ?m') meta' = dropWhile (\<lambda>e. le_index e \<le> ?m') (log_entries f l meta)" by simp
qed

text \<open>Every write of the store has taken place and been noted in the object, or fails, and then the batch is on disk as a whole or not at all.\<close>

lemma lv_write_cases:
  assumes "leveldb_ok D data" "lv_db s = Some d"
  obtains e d' where "lv_write D ops f d s = (Some (leveldb_error e), s\<lparr>lv_db := Some d'\<rparr>)"
      "data d' = data d \<or> data d' = fold db_apply ops (data d)"
  | d' where "lv_write D ops f d s = (None, f (s\<lparr>lv_db := Some d'\<rparr>))" "data d' = fold db_apply ops (data d)"
proof (cases "db_write D ops d")
  case (Pair e d')
  then show thesis using that leveldb_okD(3,4)[OF assms(1)] by (cases e) (auto simp: lv_write_def)
qed

lemma lv_view_same:
  "lv_db s = Some d \<Longrightarrow> data d' = data d \<Longrightarrow> lv_view data (s\<lparr>lv_db := Some d'\<rparr>) = lv_view data s"
  "lv_db s = Some d \<Longrightarrow> data d' = data d \<Longrightarrow> lv_inv data (s\<lparr>lv_db := Some d'\<rparr>) = lv_inv data s"
  by (simp_all add: lv_view_def lv_inv_def lv_find_def stored_hard_def)

text \<open>
  What a step of the store on disk may do, given what the same step does in memory: the same, or report an I/O error. Then the object has
  noted nothing, and the database holds a well-formed log that is the old one or the new one: the state \<open>s'\<close> of the object that
  belongs to it.
\<close>

definition io_failed ::
  "('d \<Rightarrow> bytes omap) \<Rightarrow> 'd LevelDBLogStore \<Rightarrow> RaftError option \<times> 'd LevelDBLogStore \<Rightarrow> RaftError option \<times> MemoryLogStore \<Rightarrow> bool" where
  "io_failed data s r m \<longleftrightarrow> (\<exists>status s'. fst r = Some (leveldb_error status) \<and>
     lv_last_index (snd r) = lv_last_index s \<and> lv_snapshot_meta (snd r) = lv_snapshot_meta s \<and>
     lv_db s' = lv_db (snd r) \<and> lv_inv data s' \<and> (lv_view data s' = lv_view data s \<or> (None, lv_view data s') = m))"

definition io_or_same ::
  "('d \<Rightarrow> bytes omap) \<Rightarrow> 'd LevelDBLogStore \<Rightarrow> RaftError option \<times> 'd LevelDBLogStore \<Rightarrow> RaftError option \<times> MemoryLogStore \<Rightarrow> bool" where
  "io_or_same data s r m \<longleftrightarrow> lv_inv data (snd r) \<and> (fst r, lv_view data (snd r)) = m \<or> io_failed data s r m"

lemma io_or_same_refused: "lv_inv data s \<Longrightarrow> m = (Some e, lv_view data s) \<Longrightarrow> io_or_same data s (Some e, s) m"
  by (simp add: io_or_same_def)

lemma io_or_same_failed: "lv_inv data s \<Longrightarrow> io_or_same data s (Some (leveldb_error e), s) m"
  by (auto simp: io_or_same_def io_failed_def)

lemma io_or_same_write:
  assumes ok: "leveldb_ok D data" "lv_inv data s" "lv_db s = Some d"
    and f: "\<And>s. lv_db (f s) = lv_db s"
    and after: "\<And>d'. data d' = fold db_apply ops (data d) \<Longrightarrow>
      lv_inv data (f (s\<lparr>lv_db := Some d'\<rparr>)) \<and> m = (None, lv_view data (f (s\<lparr>lv_db := Some d'\<rparr>)))"
  shows "io_or_same data s (lv_write D ops f d s) m"
proof (rule lv_write_cases[OF ok(1,3), of ops f])
  fix e d' assume w: "lv_write D ops f d s = (Some (leveldb_error e), s\<lparr>lv_db := Some d'\<rparr>)"
    and d': "data d' = data d \<or> data d' = fold db_apply ops (data d)"
  define s' where "s' = (if data d' = data d then s\<lparr>lv_db := Some d'\<rparr> else f (s\<lparr>lv_db := Some d'\<rparr>))"
  have "lv_db s' = Some d'" "lv_inv data s' \<and> (lv_view data s' = lv_view data s \<or> (None, lv_view data s') = m)"
    using d' lv_view_same[OF ok(3)] ok(2) after[of d'] by (auto simp: s'_def f)
  then show ?thesis unfolding w by (auto simp: io_or_same_def io_failed_def)
next
  fix d' assume "lv_write D ops f d s = (None, f (s\<lparr>lv_db := Some d'\<rparr>))" "data d' = fold db_apply ops (data d)"
  then show ?thesis using after[of d'] by (simp add: io_or_same_def)
qed

lemma io_or_same_update:
  assumes "lv_inv data s" "\<And>d. lv_db s = Some d \<Longrightarrow> io_or_same data s (f d) m"
  shows "io_or_same data s (update_db s f) m"
  using assms by (auto simp: update_db_def lv_inv_def)

lemma lv_append_refines:
  assumes ok: "leveldb_ok D data" "lv_inv data s"
  shows "io_or_same data s (lv_append D e s) (mem_append e (lv_view data s))"
  unfolding lv_append_def
proof (rule io_or_same_update[OF ok(2)])
  fix d assume d: "lv_db s = Some d"
  let ?op = "[DbPut (log_key (le_index e)) (encode_entry e)]"
  let ?f = "\<lambda>s :: 'a LevelDBLogStore. s\<lparr>lv_last_index := le_index e\<rparr>"
  show "io_or_same data s (if le_index e = kInvalidIndex \<or> le_term e = 0
     then (Some (raft_error RE_InvalidArgument ''invalid log entry''), s)
     else if le_index e \<noteq> lv_last_index s + 1
     then (Some (raft_error RE_InvalidArgument ''append must extend the log by exactly one entry''), s)
     else lv_write D ?op ?f d s) (mem_append e (lv_view data s))"
  proof (cases "le_index e = kInvalidIndex \<or> le_term e = 0 \<or> le_index e \<noteq> lv_last_index s + 1")
    case True
    then show ?thesis by (auto intro!: io_or_same_refused[OF ok(2)] simp: mem_append_def lv_view_def)
  next
    case False
    have "io_or_same data s (lv_write D ?op ?f d s) (mem_append e (lv_view data s))"
    proof (rule io_or_same_write[OF ok d], simp)
      fix d' assume d': "data d' = fold db_apply ?op (data d)"
      let ?g = "om_find (data d')"
      have g: "?g = (lv_find data s)(log_key (le_index e) \<mapsto> encode_entry e)"
        using d d' leveldb_okD(1)[OF ok(1), of d] by (auto simp: fun_eq_iff lv_find_def db_apply_def)
      have "log_inv (lv_find data s) (lv_last_index s) (lv_snapshot_meta s)" using ok(2) by (simp add: lv_inv_def)
      moreover have n: "le_index e = lv_last_index s + 1" "le_index e \<noteq> 0" "le_term e \<noteq> 0" using False by auto
      ultimately have app: "log_inv ?g (le_index e) (lv_snapshot_meta s)"
          "log_entries ?g (le_index e) (lv_snapshot_meta s) = log_entries (lv_find data s) (lv_last_index s) (lv_snapshot_meta s) @ [e]"
        using log_inv_append[OF _ n g] by auto
      have m: "mem_append e (lv_view data s) =
          (None, (lv_view data s)\<lparr>ms_entries := ms_entries (lv_view data s) @ [e], ms_last_index := le_index e\<rparr>)"
        using n by (auto simp: mem_append_def lv_view_def)
      have h: "stored_hard data (s\<lparr>lv_db := Some d', lv_last_index := le_index e\<rparr>) = stored_hard data s"
        using d fun_cong[OF g, of kHardStateKey] by (simp add: stored_hard_def lv_find_def)
      show "lv_inv data (?f (s\<lparr>lv_db := Some d'\<rparr>)) \<and> mem_append e (lv_view data s) = (None, lv_view data (?f (s\<lparr>lv_db := Some d'\<rparr>)))"
        unfolding m using app h by (simp add: lv_inv_def lv_view_def lv_find_def)
    qed
    moreover have "\<not> (le_index e = kInvalidIndex \<or> le_term e = 0)" "\<not> le_index e \<noteq> lv_last_index s + 1" using False by blast+
    ultimately show ?thesis by (simp only: if_False)
  qed
qed

lemma lv_find_deletes:
  assumes "leveldb_ok D data" "lv_db s = Some d" "db_iterator_status D d = None"
    "data d' = fold db_apply (map (DbDelete \<circ> fst) hit) (data d)"
  shows "om_find (data d') k = (if k \<in> fst ` set hit then None else lv_find data s k)"
  using assms db_fold_deletes[OF leveldb_okD(1)[OF assms(1)], of "map fst hit"] by (simp add: lv_find_def)

lemma lv_truncate_refines:
  assumes ok: "leveldb_ok D data" "lv_inv data s"
  shows "io_or_same data s (lv_truncate_suffix D i s) (mem_truncate_suffix i (lv_view data s))"
  unfolding lv_truncate_suffix_def
proof (rule io_or_same_update[OF ok(2)])
  fix d assume d: "lv_db s = Some d"
  define hit where "hit = takeWhile (\<lambda>r. is_log_key (fst r)) (rows_from_key (log_key i) (db_rows D d))"
  let ?out = "i = kInvalidIndex \<or> i \<le> lv_included s \<or> lv_last_index s + 1 < i"
  let ?f = "\<lambda>s :: 'a LevelDBLogStore. s\<lparr>lv_last_index := i - 1\<rparr>"
  have inv: "log_inv (lv_find data s) (lv_last_index s) (lv_snapshot_meta s)" using ok(2) by (simp add: lv_inv_def)
  have w: "io_or_same data s (lv_write D (map (DbDelete \<circ> fst) hit) ?f d s) (mem_truncate_suffix i (lv_view data s))"
    if st: "db_iterator_status D d = None" and i: "\<not> ?out"
  proof (rule io_or_same_write[OF ok d], simp)
    fix d' assume d': "data d' = fold db_apply (map (DbDelete \<circ> fst) hit) (data d)"
    have "om_find (data d') k = (if is_log_key k \<and> log_key i \<le> k then None else lv_find data s k)" for k
      unfolding lv_find_deletes[OF ok(1) d st d'] hit_def leveldb_okD(5)[OF ok(1) st]
      using rows_hit(1)[OF leveldb_okD(1)[OF ok(1), of d], of k i] log_invD(1)[OF inv] d by (auto simp: lv_find_def)
    note t = log_inv_truncate[OF inv _ _ _ this]
    have "stored_hard data (s\<lparr>lv_db := Some d', lv_last_index := i - 1\<rparr>) = stored_hard data s"
      using d lv_find_deletes[OF ok(1) d st d', of kHardStateKey] set_takeWhileD[of _ "\<lambda>r. is_log_key (fst r)"]
      by (fastforce simp: stored_hard_def lv_find_def hit_def)
    then show "lv_inv data (?f (s\<lparr>lv_db := Some d'\<rparr>)) \<and> mem_truncate_suffix i (lv_view data s) = (None, lv_view data (?f (s\<lparr>lv_db := Some d'\<rparr>)))"
      using i t by (simp add: lv_inv_def lv_view_def lv_find_def mem_truncate_suffix_def not_le not_less)
  qed
  show "io_or_same data s (if ?out then (Some (raft_error RE_InvalidArgument ''truncate suffix out of range''), s)
     else let hit = takeWhile (\<lambda>r. is_log_key (fst r)) (rows_from_key (log_key i) (db_rows D d))
       in case db_iterator_status D d of
            Some e \<Rightarrow> (Some (leveldb_error e), s)
          | None \<Rightarrow> lv_write D (map (DbDelete \<circ> fst) hit) ?f d s) (mem_truncate_suffix i (lv_view data s))"
    using w ok(2) unfolding Let_def hit_def[symmetric]
    by (cases "db_iterator_status D d") (auto simp: mem_truncate_suffix_def lv_view_def intro: io_or_same_refused io_or_same_failed)
qed

lemma lv_install_refines:
  assumes ok: "leveldb_ok D data" "lv_inv data s" and newer: "lv_included s \<le> sm_last_included_index meta"
  shows "io_or_same data s (lv_install_snapshot D meta s) (mem_install_snapshot meta (lv_view data s))"
  unfolding lv_install_snapshot_def
proof (rule io_or_same_update[OF ok(2)])
  fix d assume d: "lv_db s = Some d"
  let ?m = "sm_last_included_index meta"
  let ?below = "\<lambda>r :: bytes \<times> bytes. is_log_key (fst r) \<and> (be_word 8 (drop 4 (fst r)) :: uint64) \<le> ?m"
  define hit where "hit = takeWhile ?below (rows_from_key (log_key 1) (db_rows D d))"
  let ?out = "?m = kInvalidIndex \<or> sm_last_included_term meta = 0"
  let ?ops = "map (DbDelete \<circ> fst) hit @ [DbPut kSnapshotMetaKey (encode_meta meta)]"
  let ?f = "\<lambda>s :: 'a LevelDBLogStore. s\<lparr>lv_snapshot_meta := meta,
     lv_last_index := (if lv_last_index s < ?m then ?m else lv_last_index s)\<rparr>"
  have inv: "log_inv (lv_find data s) (lv_last_index s) (lv_snapshot_meta s)" using ok(2) by (simp add: lv_inv_def)
  have w: "io_or_same data s (lv_write D ?ops ?f d s) (mem_install_snapshot meta (lv_view data s))"
    if st: "db_iterator_status D d = None" and i: "\<not> ?out"
  proof (rule io_or_same_write[OF ok d], simp)
    fix d' assume d': "data d' = fold db_apply ?ops (data d)"
    have mx: "(if lv_last_index s < ?m then ?m else lv_last_index s) = max (lv_last_index s) ?m"
      "(if lv_last_index s < ?m then ?m else lv_last_index (s\<lparr>lv_db := Some d'\<rparr>)) = max (lv_last_index s) ?m"
      by (auto simp: max_def)
    let ?del = "fold db_apply (map (DbDelete \<circ> fst) hit) (data d)"
    have "om_inv ?del" using leveldb_okD(1)[OF ok(1)] by simp
    moreover have "om_find ?del k = (if k \<in> fst ` set hit then None else om_find (data d) k)" for k
      using db_fold_deletes[OF leveldb_okD(1)[OF ok(1)], of "map fst hit"] by simp
    moreover have fd: "om_find (data d) = lv_find data s" using d by (simp add: lv_find_def)
    ultimately have del: "om_find (data d') k = (if k = kSnapshotMetaKey then Some (encode_meta meta)
        else if k \<in> fst ` set hit then None else lv_find data s k)" for k
      unfolding d' by (simp add: db_apply_def)
    have hitk: "k \<in> fst ` set hit \<longleftrightarrow> lv_find data s k \<noteq> None \<and> (\<exists>j. k = log_key j \<and> 1 \<le> j \<and> j \<le> ?m)" for k
      unfolding hit_def leveldb_okD(5)[OF ok(1) st] fd[symmetric]
      by (rule rows_hit(2)[OF leveldb_okD(1)[OF ok(1)]]) (use log_invD(1)[OF inv] fd in simp)
    have "om_find (data d') k = (if k = kSnapshotMetaKey then Some (encode_meta meta)
        else if \<exists>j. k = log_key j \<and> 1 \<le> j \<and> j \<le> ?m then None else lv_find data s k)" for k
      using hitk[of k] unfolding del by (cases "lv_find data s k") auto
    note t = log_inv_compact[OF inv newer _ _ this]
    have h: "stored_hard data (s\<lparr>lv_db := Some d', lv_snapshot_meta := meta, lv_last_index := x\<rparr>) = stored_hard data s" for x
      using d del[of kHardStateKey] hitk[of kHardStateKey] fd by (simp add: stored_hard_def)
    show "lv_inv data (?f (s\<lparr>lv_db := Some d'\<rparr>)) \<and> mem_install_snapshot meta (lv_view data s) = (None, lv_view data (?f (s\<lparr>lv_db := Some d'\<rparr>)))"
      using i t by (simp add: lv_inv_def lv_view_def lv_find_def mem_install_snapshot_def mx h)
  qed
  show "io_or_same data s (if ?out then (Some (raft_error RE_InvalidArgument ''invalid snapshot metadata''), s)
     else let below = ?below; hit = takeWhile below (rows_from_key (log_key 1) (db_rows D d))
       in case db_iterator_status D d of
            Some e \<Rightarrow> (Some (leveldb_error e), s)
          | None \<Rightarrow> lv_write D (map (DbDelete \<circ> fst) hit @ [DbPut kSnapshotMetaKey (encode_meta meta)]) ?f d s)
     (mem_install_snapshot meta (lv_view data s))"
    using w ok(2) unfolding Let_def hit_def[symmetric]
    by (cases "db_iterator_status D d") (auto simp: mem_install_snapshot_def lv_view_def intro: io_or_same_refused io_or_same_failed)
qed

text \<open>
  C38: The log kept in LevelDB does what the log kept in memory does. As long as LevelDB reads what was written and writes each batch
  as a whole, \<^verbatim>\<open>append\<close>, \<^verbatim>\<open>truncate_suffix\<close> and \<^verbatim>\<open>install_snapshot\<close> (with a boundary that does not go back) on a
  well-formed store give the same result and the same log as on the memory store, or report an I/O error; then the indices that the
  object keeps are the old ones, and the database holds either the old log or the new one, well-formed in both cases. A read with
  \<^verbatim>\<open>at\<close> that does not fail with an I/O error returns the same entry or error.
\<close>

theorem disk_log_refines_memory:
  assumes "leveldb_ok D data" "lv_inv data s"
  shows "io_or_same data s (lv_append D e s) (mem_append e (lv_view data s)) \<and>
    io_or_same data s (lv_truncate_suffix D i s) (mem_truncate_suffix i (lv_view data s)) \<and>
    (lv_included s \<le> sm_last_included_index meta \<longrightarrow>
       io_or_same data s (lv_install_snapshot D meta s) (mem_install_snapshot meta (lv_view data s))) \<and>
    ((\<forall>x. lv_at D s j = Inl x \<longrightarrow> re_code x \<noteq> RE_IOError) \<longrightarrow> lv_at D s j = mem_at (lv_view data s) j)"
  using lv_append_refines[OF assms] lv_truncate_refines[OF assms] lv_install_refines[OF assms] lv_at_view[OF assms] by blast

section \<open>Reopening\<close>

lemma scan_log_contiguous:
  assumes "om_inv rows" "n \<le> unat (l :: uint64) + 1" "es \<le> n"
    "\<And>i. (\<exists>v. (log_key i, v) \<in> set rows) \<longleftrightarrow> n \<le> unat i \<and> i \<le> l"
    "\<And>k v. (k, v) \<in> set rows \<Longrightarrow> (is_log_key k \<and> 8 \<le> length v) \<or> (\<forall>i. log_key i < k)"
  shows "scan_log (word_of_nat es) (word_of_nat n) found rows = Inr ([], if n \<le> unat l then l else found)"
  using assms
proof (induction rows arbitrary: n found)
  case Nil
  have "\<not> n \<le> unat l" using Nil(4)[of l] by simp
  then show ?case by simp
next
  case (Cons r rows)
  obtain k v where r: "r = (k, v)" by (cases r)
  show ?case
  proof (cases "is_log_key k")
    case False
    then have "log_key i < k" for i using Cons.prems(5)[of k v] r by auto
    moreover have "k \<le> log_key i" if "(log_key i, w) \<in> set (r # rows)" for i w using that Cons.prems(1) r by auto
    ultimately have "(log_key i, w) \<notin> set (r # rows)" for i w using leD by blast
    then have "\<not> n \<le> unat l" using Cons.prems(4)[of l] by auto
    then show ?thesis using False r by simp
  next
    case True
    then obtain i where i: "k = log_key i" by (auto simp: is_log_key_iff)
    have ni: "n \<le> unat i" "i \<le> l" using Cons.prems(4)[of i] i r by auto
    have len: "8 \<le> length v" using Cons.prems(5)[of k v] i r by auto
    have "n < 2 ^ 64" using ni unsigned_less[of i, where 'a = nat] by simp
    then have un: "unat (word_of_nat n :: uint64) = n" by (simp add: unsigned_of_nat take_bit_nat_eq_self)
    have small: "(word_of_nat n :: uint64) \<le> i" "(word_of_nat n :: uint64) \<le> l" using ni un by (simp_all add: word_le_nat_alt)
    have first: "i \<le> j" if "(log_key j, w) \<in> set (r # rows)" for j w
      using that Cons.prems(1) r i by (auto simp: log_key_less[symmetric] log_key_le[symmetric])
    obtain w where "(log_key (word_of_nat n), w) \<in> set (r # rows)"
      using Cons.prems(4)[of "word_of_nat n"] un small(2) by auto
    then have in_: "i = word_of_nat n" using first small(1) by (metis order_antisym)
    then have ui: "unat i = n" using un by simp
    have rest: "(\<exists>w. (log_key j, w) \<in> set rows) \<longleftrightarrow> n + 1 \<le> unat j \<and> j \<le> l" for j
    proof -
      have "(\<exists>w. (log_key j, w) \<in> set rows) \<longleftrightarrow> (\<exists>w. (log_key j, w) \<in> set (r # rows)) \<and> j \<noteq> i"
        using Cons.prems(1) r i by auto
      also have "\<dots> \<longleftrightarrow> n \<le> unat j \<and> j \<le> l \<and> unat j \<noteq> n" unfolding Cons.prems(4) using ui by (auto simp: word_unat_eq_iff)
      finally show ?thesis by auto
    qed
    have "scan_log (word_of_nat es) (word_of_nat (n + 1)) i rows = Inr ([], if n + 1 \<le> unat l then l else i)"
      using Cons.prems ni rest by (intro Cons.IH) (auto simp: word_le_nat_alt)
    moreover have "(if n + 1 \<le> unat l then l else i) = l" using ui ni by (auto simp: word_le_nat_alt word_unat_eq_iff)
    moreover have "\<not> i < word_of_nat es" using Cons.prems(3) ui \<open>n < 2 ^ 64\<close>
      by (simp add: word_less_nat_alt unsigned_of_nat take_bit_nat_eq_self)
    moreover have "n \<le> unat l" using ni by (simp add: word_le_nat_alt)
    ultimately show ?thesis using r i len in_ True by (simp add: decode_log_index_key add.commute)
  qed
qed

lemma load_meta_log_inv:
  assumes ok: "leveldb_ok D data" and inv: "log_inv (om_find (data d)) l meta" and read: "db_get D d kSnapshotMetaKey = Inr v"
  shows "load_meta D d \<lparr> sm_last_included_index = 0, sm_last_included_term = 0 \<rparr> = Inr meta"
proof -
  have v: "v = (if sm_last_included_index meta = 0 then None else Some (encode_meta meta))"
      "sm_last_included_index meta = 0 \<longleftrightarrow> sm_last_included_term meta = 0"
    using leveldb_okD(2)[OF ok read] inv by (simp_all add: log_inv_def)
  have e: "length (encode_meta meta) = 16" "be_word 8 (encode_meta meta) = sm_last_included_index meta"
      "be_word 8 (drop 8 (encode_meta meta)) = sm_last_included_term meta"
    using be_word_be_bytes[of 8 "sm_last_included_term meta" "[]"] by (simp_all add: encode_meta_def be_word_be_bytes)
  show ?thesis using v read e by (cases meta) (auto simp: load_meta_def)
qed

lemma rows_of_log:
  assumes m: "om_inv m" and inv: "log_inv (om_find m) l meta" and n: "n = unat (sm_last_included_index meta) + 1"
  shows "scan_log (word_of_nat n) (word_of_nat n) found (rows_from_key (log_key 1) m) = Inr ([], if n \<le> unat l then l else found)"
proof (rule scan_log_contiguous)
  have r: "rows_from_key (log_key 1) m = filter (\<lambda>p. log_key 1 \<le> fst p) m" using m by (simp add: rows_from_key_def dropWhile_filter)
  have mem: "(k, v) \<in> set m \<longleftrightarrow> om_find m k = Some v" for k v
    using om_inv_distinct[OF m] by (simp add: om_find_def)
  show "om_inv (rows_from_key (log_key 1) m)" unfolding r using m by (rule om_inv_filter)
  show "n \<le> unat l + 1" using log_invD(2)[OF inv] n by (simp add: word_le_nat_alt)
  show "(\<exists>v. (log_key i, v) \<in> set (rows_from_key (log_key 1) m)) \<longleftrightarrow> n \<le> unat i \<and> i \<le> l" for i
  proof -
    have "(\<exists>v. (log_key i, v) \<in> set (rows_from_key (log_key 1) m)) \<longleftrightarrow> 1 \<le> i \<and> om_find m (log_key i) \<noteq> None"
      unfolding r by (auto simp: mem log_key_le)
    also have "\<dots> \<longleftrightarrow> n \<le> unat i \<and> i \<le> l"
      unfolding log_invD(3)[OF inv] using n by (auto simp: word_less_nat_alt word_le_nat_alt)
    finally show ?thesis .
  qed
  fix k v assume "(k, v) \<in> set (rows_from_key (log_key 1) m)"
  then have kv: "om_find m k = Some v" "log_key 1 \<le> k" unfolding r by (auto simp: mem)
  then consider i where "k = log_key i" | "k = kSnapshotMetaKey"
    using log_invD(1)[OF inv, of k] meta_key_last(2)[of 1] by (auto simp: is_log_key_iff)
  then show "(is_log_key k \<and> 8 \<le> length v) \<or> (\<forall>i. log_key i < k)"
    by cases (use log_invD(4)[OF inv] kv in \<open>auto simp: is_log_key_iff\<close>)
qed simp

text \<open>
  C39: A restart loses nothing of the log. When a log store in a well-formed state is closed and a fresh one is opened on a database with
  the same content (and the metadata record and the scan read without an I/O error), opening succeeds, deletes nothing and gives back the
  same last index, the same snapshot boundary and the same entries. What \<^verbatim>\<open>SnapshotMetadata::has_snapshot\<close> returns is assumed
  to be whether there is a boundary.
\<close>

theorem reopen_restores_log:
  assumes "leveldb_ok D data" "lv_inv data s" "lv_db s = Some d" "data d' = data d"
    and "\<And>meta. has_snapshot meta \<longleftrightarrow> sm_last_included_index meta \<noteq> 0"
    and "db_get D d' kSnapshotMetaKey = Inr v" "db_iterator_status D d' = None"
  shows "\<exists>s'. lv_open has_snapshot D (Inr d') leveldb_log_store = (None, s') \<and> lv_db s' = Some d' \<and> lv_inv data s' \<and>
    lv_view data s' = lv_view data s"
proof -
  have inv: "log_inv (om_find (data d')) (lv_last_index s) (lv_snapshot_meta s)"
    using assms(2,3,4) by (simp add: lv_inv_def lv_find_def)
  let ?n = "unat (lv_included s) + 1"
  have start: "(if has_snapshot (lv_snapshot_meta s) then lv_included s + 1 else 1) = word_of_nat ?n"
    using assms(5) by (simp add: add.commute)
  have "scan_log (word_of_nat ?n) (word_of_nat ?n) kInvalidIndex (rows_from_key (log_key 1) (db_rows D d')) =
      Inr ([], if ?n \<le> unat (lv_last_index s) then lv_last_index s else kInvalidIndex)"
    unfolding leveldb_okD(5)[OF assms(1,7)] by (rule rows_of_log[OF leveldb_okD(1)[OF assms(1)] inv refl])
  moreover have "max (if ?n \<le> unat (lv_last_index s) then lv_last_index s else 0) (lv_included s) = lv_last_index s"
    using log_invD(2)[OF inv] by (auto simp: max_def word_le_nat_alt word_unat_eq_iff)
  ultimately have "lv_open has_snapshot D (Inr d') leveldb_log_store =
      (None, \<lparr> lv_db = Some d', lv_last_index = lv_last_index s, lv_snapshot_meta = lv_snapshot_meta s \<rparr>)"
    using load_meta_log_inv[OF assms(1) inv assms(6)] assms(7) start by (simp add: lv_open_def leveldb_log_store_def Let_def)
  then show ?thesis using assms(2,3,4) inv by (simp add: lv_inv_def lv_find_def lv_view_def stored_hard_def)
qed

section \<open>The hard state on disk\<close>

text \<open>
  C40: A hard state without a vote cannot be read back. After a successful save, a load whose read succeeds returns the saved
  state when it has a vote, and otherwise the error "invalid raft hard state size": \<^verbatim>\<open>save_hard_state\<close> writes 9 bytes then, and \<^verbatim>\<open>load_hard_state\<close>
  demands 17. So a node that has persisted a new term without having voted in it cannot start again, whatever its configuration.
\<close>

theorem voteless_hard_state_unreadable:
  assumes "leveldb_ok D data" "lv_save_hard_state D h s = (None, s')" "db_get D (the (lv_db s')) kHardStateKey = Inr v"
  shows "lv_load_hard_state D s' =
      (if hs_voted_for h = None then Inl (ld_internal ''invalid raft hard state size'') else Inr h) \<and>
    (hs_voted_for h = None \<and> rn_store n = s' \<longrightarrow> fst (start (leveldb_store D) now n) \<noteq> None)"
proof -
  obtain d where d: "lv_db s = Some d" using assms(2) by (cases "lv_db s") (auto simp: lv_save_hard_state_def update_db_def)
  have w: "lv_write D [DbPut kHardStateKey (encode_hard_state h)] id d s = (None, s')"
    using assms(2) d by (simp add: lv_save_hard_state_def update_db_def)
  obtain d' where d': "lv_db s' = Some d'" "data d' = fold db_apply [DbPut kHardStateKey (encode_hard_state h)] (data d)"
    by (rule lv_write_cases[OF assms(1) d, of "[DbPut kHardStateKey (encode_hard_state h)]" id]) (use w in auto)
  have "v = Some (encode_hard_state h)"
    using leveldb_okD(2)[OF assms(1,3)] d' leveldb_okD(1)[OF assms(1), of d] by (simp add: db_apply_def)
  moreover have "length (encode_hard_state h) = (if hs_voted_for h = None then 9 else 17)"
    by (auto simp: encode_hard_state_def)
  ultimately have load: "lv_load_hard_state D s' =
      (if hs_voted_for h = None then Inl (ld_internal ''invalid raft hard state size'') else Inr h)"
    using assms(3) d' by (simp add: lv_load_hard_state_def with_db_def read_hard_state_encode)
  have "ls_load_hard_state (leveldb_store D) = lv_load_hard_state D" by (simp add: leveldb_store_def)
  then show ?thesis using load by (simp add: start_def)
qed

section \<open>The table of request results\<close>

definition client_key :: "uint64 \<Rightarrow> bytes" where
  "client_key client_id = str ''client/'' @ be_bytes 8 client_id"

definition lr_not_open :: RaftError where
  "lr_not_open = raft_error RE_InternalError ''request result store is not open''"

definition lr_open :: "string + 'd \<Rightarrow> 'd option \<Rightarrow> RaftError option \<times> 'd option" where
  "lr_open opened db =
     (if db \<noteq> None then (Some (raft_error RE_InvalidArgument ''request result store is already open''), db)
      else case opened of Inl e \<Rightarrow> (Some (leveldb_error e), db) | Inr d \<Rightarrow> (None, Some d))"

definition lr_truncated :: RaftError where
  "lr_truncated = raft_error RE_InternalError ''truncated request result record''"

definition lr_find :: "'d LevelDb \<Rightarrow> uint64 \<Rightarrow> uint64 \<Rightarrow> 'd option \<Rightarrow> RaftError + bytes option" where
  "lr_find D client_id request_id db =
     (case db of
        None \<Rightarrow> Inl lr_not_open
      | Some d \<Rightarrow> (case db_get D d (client_key client_id) of
          Inl e \<Rightarrow> Inl (leveldb_error e)
        | Inr None \<Rightarrow> Inr None
        | Inr (Some value) \<Rightarrow> (case rd_be 8 lr_truncated value of
            Inl e \<Rightarrow> Inl e
          | Inr (saved_request_id, rest) \<Rightarrow>
              if saved_request_id = request_id then Inr (Some rest)
              else if saved_request_id > request_id
              then Inl (raft_error RE_InvalidArgument ''request id is older than the client's latest applied request'')
              else Inr None)))"

definition lr_save :: "'d LevelDb \<Rightarrow> uint64 \<Rightarrow> uint64 \<Rightarrow> bytes \<Rightarrow> 'd option \<Rightarrow> RaftError option \<times> 'd option" where
  "lr_save D client_id request_id result db =
     (case db of
        None \<Rightarrow> (Some lr_not_open, db)
      | Some d \<Rightarrow> (case db_write D [DbPut (client_key client_id) (be_bytes 8 request_id @ result)] d of
          (Some e, d') \<Rightarrow> (Some (leveldb_error e), Some d')
        | (None, d') \<Rightarrow> (None, Some d')))"

definition leveldb_results :: "'d LevelDb \<Rightarrow> 'd option RequestResultStore" where
  "leveldb_results D = \<lparr> rs_find = lr_find D, rs_save = lr_save D \<rparr>"

definition lr_results :: "('d \<Rightarrow> bytes omap) \<Rightarrow> 'd \<Rightarrow> RequestResults" where
  "lr_results data d client_id = map_option (\<lambda>v. (be_word 8 v, drop 8 v)) (om_find (data d) (client_key client_id))"

definition lr_inv :: "('d \<Rightarrow> bytes omap) \<Rightarrow> 'd \<Rightarrow> bool" where
  "lr_inv data d \<longleftrightarrow> (\<forall>c v. om_find (data d) (client_key c) = Some v \<longrightarrow> 8 \<le> length v)"

lemma client_key_inj [simp]: "client_key a = client_key b \<longleftrightarrow> a = b"
  by (simp add: client_key_def)

lemma lr_find_refines:
  assumes "leveldb_ok D data" "lr_inv data d"
  shows "(\<exists>e. lr_find D c r (Some d) = Inl (leveldb_error e)) \<or> lr_find D c r (Some d) = rr_find c r (lr_results data d)"
proof (cases "db_get D d (client_key c)")
  case (Inr v)
  then have v: "v = om_find (data d) (client_key c)" by (rule leveldb_okD(2)[OF assms(1)])
  have "rd_be 8 lr_truncated x = Inr (be_word 8 x :: uint64, drop 8 x)" if "v = Some x" for x
    using v[symmetric] that assms(2) by (force simp: rd_be_def lr_inv_def)
  then show ?thesis using Inr v[symmetric] by (cases v) (simp_all add: lr_find_def rr_find_def lr_results_def)
qed (auto simp: lr_find_def)

lemma lr_save_refines:
  assumes "leveldb_ok D data" "lr_inv data d" "lr_save D c r result (Some d) = (e, db')"
  obtains d' where "db' = Some d'" "lr_inv data d'"
    "lr_results data d' = rr_save c r result (lr_results data d) \<or> e \<noteq> None \<and> lr_results data d' = lr_results data d"
proof (cases "db_write D [DbPut (client_key c) (be_bytes 8 r @ result)] d")
  case (Pair e' d')
  have "data d' = om_insert (client_key c) (be_bytes 8 r @ result) (data d) \<or> e' \<noteq> None \<and> data d' = data d"
    using Pair leveldb_okD(3)[OF assms(1), of "[DbPut (client_key c) (be_bytes 8 r @ result)]" d d']
      leveldb_okD(4)[OF assms(1), of "[DbPut (client_key c) (be_bytes 8 r @ result)]" d _ d']
    by (cases e') (auto simp: db_apply_def)
  moreover have "db' = Some d'" "e = None \<longleftrightarrow> e' = None" using assms(3) Pair by (auto simp: lr_save_def split: option.splits)
  ultimately show thesis using assms(2) leveldb_okD(1)[OF assms(1), of d]
    by (intro that[of d']) (auto simp: lr_inv_def lr_results_def rr_save_def fun_eq_iff be_word_be_bytes split: if_splits)
qed

section \<open>A database in memory\<close>

text \<open>An instance of the parameter that meets what is relied on of LevelDB: the ordered map itself.\<close>

definition mem_data :: "bytes omap \<Rightarrow> bytes omap" where
  "mem_data d = (if om_inv d then d else [])"

definition mem_db :: "bytes omap LevelDb" where
  "mem_db = \<lparr> db_get = (\<lambda>d k. Inr (om_find (mem_data d) k)), db_write = (\<lambda>ops d. (None, fold db_apply ops (mem_data d))),
     db_rows = mem_data, db_iterator_status = (\<lambda>_. None) \<rparr>"

lemma mem_db_ok: "leveldb_ok mem_db mem_data"
  by (auto simp: leveldb_ok_def mem_db_def mem_data_def)

definition mem_opened :: "bytes omap LevelDBLogStore" where
  "mem_opened = leveldb_log_store\<lparr>lv_db := Some []\<rparr>"

lemma mem_opened_inv: "lv_inv mem_data mem_opened"
  by (auto simp: lv_inv_def mem_opened_def leveldb_log_store_def log_inv_def lv_find_def mem_data_def)

definition one_entry :: LogEntry where
  "one_entry = \<lparr> le_index = 1, le_term = 1, le_data = [7] \<rparr>"

lemma mem_append_ok:
  "lv_append mem_db one_entry mem_opened = (None, mem_opened\<lparr>lv_db := Some [(log_key 1, encode_entry one_entry)], lv_last_index := 1\<rparr>)"
  by (simp add: lv_append_def update_db_def mem_opened_def leveldb_log_store_def one_entry_def lv_write_def mem_db_def mem_data_def
      db_apply_def)

theorem disk_log_refines_memory_witness:
  "\<exists>s. lv_append mem_db one_entry mem_opened = (None, s) \<and> lv_view mem_data s = snd (mem_append one_entry (lv_view mem_data mem_opened)) \<and>
     ms_entries (lv_view mem_data s) = [one_entry]"
proof -
  let ?m = "lv_view mem_data mem_opened"
  have m: "ms_last_index ?m = 0" "ms_entries ?m = []" by (simp_all add: lv_view_def mem_opened_def leveldb_log_store_def log_entries_def)
  have a: "mem_append one_entry ?m = (None, ?m\<lparr>ms_entries := [one_entry], ms_last_index := 1\<rparr>)"
    using m by (simp add: mem_append_def one_entry_def)
  have "io_or_same mem_data mem_opened (lv_append mem_db one_entry mem_opened) (mem_append one_entry ?m)"
    using disk_log_refines_memory[OF mem_db_ok mem_opened_inv, of one_entry 0 undefined 0] by blast
  then show ?thesis using a mem_append_ok by (simp add: io_or_same_def io_failed_def)
qed

theorem reopen_restores_log_witness:
  "\<exists>s s'. lv_append mem_db one_entry mem_opened = (None, s) \<and>
     lv_open (\<lambda>meta. sm_last_included_index meta \<noteq> 0) mem_db (Inr (the (lv_db s))) leveldb_log_store = (None, s') \<and>
     lv_view mem_data s' = lv_view mem_data s \<and> lv_last_index s' = 1"
proof -
  define s where "s = mem_opened\<lparr>lv_db := Some [(log_key 1, encode_entry one_entry)], lv_last_index := 1\<rparr>"
  have inv: "lv_inv mem_data s"
    using lv_append_refines[OF mem_db_ok mem_opened_inv, of one_entry] mem_append_ok by (simp add: io_or_same_def io_failed_def s_def)
  have v: "db_get mem_db (the (lv_db s)) kSnapshotMetaKey = Inr (om_find (mem_data (the (lv_db s))) kSnapshotMetaKey)"
    by (simp add: mem_db_def)
  have it: "db_iterator_status mem_db (the (lv_db s)) = None" by (simp add: mem_db_def)
  obtain s' where s': "lv_open (\<lambda>meta. sm_last_included_index meta \<noteq> 0) mem_db (Inr (the (lv_db s))) leveldb_log_store = (None, s')"
      "lv_view mem_data s' = lv_view mem_data s"
    using reopen_restores_log[OF mem_db_ok inv _ refl refl v it] by (auto simp: s_def)
  have "lv_last_index s' = 1" using arg_cong[OF s'(2), of ms_last_index] by (simp add: lv_view_def s_def)
  then show ?thesis using s' mem_append_ok by (auto simp: s_def)
qed

theorem voteless_hard_state_unreadable_witness:
  "\<exists>s. lv_save_hard_state mem_db \<lparr> hs_term = 2, hs_voted_for = None \<rparr> mem_opened = (None, s) \<and>
     lv_load_hard_state mem_db s = Inl (ld_internal ''invalid raft hard state size'')"
proof -
  define h where "h = \<lparr> hs_term = 2, hs_voted_for = None \<rparr>"
  define s where "s = mem_opened\<lparr>lv_db := Some [(kHardStateKey, encode_hard_state h)]\<rparr>"
  have w: "lv_save_hard_state mem_db h mem_opened = (None, s)"
    by (simp add: lv_save_hard_state_def update_db_def mem_opened_def lv_write_def mem_db_def mem_data_def db_apply_def s_def)
  have v: "db_get mem_db (the (lv_db s)) kHardStateKey = Inr (om_find (mem_data (the (lv_db s))) kHardStateKey)"
    by (simp add: mem_db_def)
  show ?thesis using voteless_hard_state_unreadable[OF mem_db_ok w v] w by (auto simp: h_def)
qed

end
