(* ===== verification/Engine_Contract.thy ===== *)
theory Engine_Contract imports Kv_Transactions begin

text \<open>
  The interface \<^verbatim>\<open>KVEngine\<close> of \<^verbatim>\<open>storage/kv_engine/kv_engine.h\<close> as the relational layer uses it: a record of the
  operations on a connection, what they promise (the locale \<open>kv_engine\<close>), and the in-memory engine as a provider. The promise
  holds while no other connection commits; \<open>Kv_Transactions\<close> says what happens then.
\<close>

section \<open>The operations\<close>

record ('e, 'it) KVEngine =
  kv_is_open :: "'e \<Rightarrow> bool"
  kv_last_error :: "'e \<Rightarrow> Status"
  kv_last_cross_group_info :: "'e \<Rightarrow> (uint64 \<times> uint64) option"
  kv_get :: "bytes \<Rightarrow> 'e \<Rightarrow> Status \<times> bytes option"
  kv_exists :: "bytes \<Rightarrow> 'e \<Rightarrow> bool"
  kv_put :: "bytes \<Rightarrow> bytes \<Rightarrow> 'e \<Rightarrow> Status \<times> 'e"
  kv_remove :: "bytes \<Rightarrow> 'e \<Rightarrow> Status \<times> 'e"
  kv_write_batch :: "WriteBatch \<Rightarrow> 'e \<Rightarrow> Status \<times> 'e"
  kv_new_iterator :: "ScanRange \<Rightarrow> 'e \<Rightarrow> 'it option"
  it_valid :: "'it \<Rightarrow> bool"
  it_next :: "'it \<Rightarrow> 'it"
  it_seek_to_first :: "'it \<Rightarrow> 'it"
  it_kvpair :: "'it \<Rightarrow> bytes \<times> bytes"
  it_status :: "'it \<Rightarrow> Status"
  it_error_message :: "'it \<Rightarrow> string"

section \<open>The contract\<close>

locale kv_engine = kv_iterator "it_valid E" "it_next E" "it_kvpair E" "it_status E" it_inv it_rest
  for E :: "('e, 'it) KVEngine" and it_inv :: "'it \<Rightarrow> bool" and it_rest :: "'it \<Rightarrow> (bytes \<times> bytes) list" +
  fixes eng_inv :: "'e \<Rightarrow> bool" and view :: "'e \<Rightarrow> bytes \<rightharpoonup> bytes" and scannable :: "'e \<Rightarrow> bool"
  assumes opened: "eng_inv e \<Longrightarrow> kv_is_open E e"
    and get_view: "eng_inv e \<Longrightarrow> kv_get E k e = (case view e k of None \<Rightarrow> (S_NotFound, None) | Some v \<Rightarrow> (S_OK, Some v))"
    and exists_view: "eng_inv e \<Longrightarrow> kv_exists E k e \<longleftrightarrow> view e k \<noteq> None"
    and put_view: "eng_inv e \<Longrightarrow> kv_put E k v e = (st, e') \<Longrightarrow>
      eng_inv e' \<and> view e' = (if st = S_OK then (view e)(k \<mapsto> v) else view e)"
    and remove_view: "eng_inv e \<Longrightarrow> kv_remove E k e = (st, e') \<Longrightarrow>
      eng_inv e' \<and> view e' = (if st = S_OK \<or> st = S_NotFound then (view e)(k := None) else view e)"
    and batch_view: "eng_inv e \<Longrightarrow> list_all op_valid (wb_ops b) \<Longrightarrow> kv_write_batch E b e = (st, e') \<Longrightarrow>
      eng_inv e' \<and> view e' = (if st = S_OK then replay (wb_ops b) (view e) else view e)"
    and scan_view: "eng_inv e \<Longrightarrow> scannable e \<Longrightarrow> \<exists>it m. kv_new_iterator E rg e = Some it \<and> it_inv it \<and>
      om_inv m \<and> om_find m = view e \<and> it_rest it = in_direction (sr_direction rg) (materialize m rg)"

text \<open>An engine that tells when no write will be refused: after the first write that was not.\<close>

locale kv_writer = kv_engine E it_inv it_rest eng_inv view scannable
  for E :: "('e, 'it) KVEngine" and it_inv :: "'it \<Rightarrow> bool" and it_rest :: "'it \<Rightarrow> (bytes \<times> bytes) list" and eng_inv :: "'e \<Rightarrow> bool"
    and view :: "'e \<Rightarrow> bytes \<rightharpoonup> bytes" and scannable :: "'e \<Rightarrow> bool" +
  fixes writable :: "'e \<Rightarrow> bool"
  assumes put_writable: "eng_inv e \<Longrightarrow> kv_put E k v e = (S_OK, e') \<Longrightarrow> writable e'"
    and batch_writable: "eng_inv e \<Longrightarrow> wb_ops b \<noteq> [] \<Longrightarrow> kv_write_batch E b e = (S_OK, e') \<Longrightarrow> writable e'"
    and writable_put: "eng_inv e \<Longrightarrow> writable e \<Longrightarrow> fst (kv_put E k v e) = S_OK"
    and writable_remove: "eng_inv e \<Longrightarrow> writable e \<Longrightarrow> kv_remove E k e = (st, e') \<Longrightarrow> (st = S_OK \<or> st = S_NotFound) \<and> writable e'"

section \<open>The in-memory engine\<close>

fun ei_valid :: "EngineIterator \<Rightarrow> bool" where
  "ei_valid (PlainIterator it) = mi_valid it"
| "ei_valid (TxIterator m) = mg_valid m"

fun ei_next :: "EngineIterator \<Rightarrow> EngineIterator" where
  "ei_next (PlainIterator it) = PlainIterator (mi_next it)"
| "ei_next (TxIterator m) = TxIterator (mg_next m)"

fun ei_seek_to_first :: "EngineIterator \<Rightarrow> EngineIterator" where
  "ei_seek_to_first (PlainIterator it) = PlainIterator (mi_seek_to_first it)"
| "ei_seek_to_first (TxIterator m) = TxIterator (mg_seek_to_first m)"

fun ei_kvpair :: "EngineIterator \<Rightarrow> bytes \<times> bytes" where
  "ei_kvpair (PlainIterator it) = mi_kvpair it"
| "ei_kvpair (TxIterator m) = mg_kvpair m"

fun ei_status :: "EngineIterator \<Rightarrow> Status" where
  "ei_status (PlainIterator it) = mi_status it"
| "ei_status (TxIterator m) = mg_status m"

fun ei_error_message :: "EngineIterator \<Rightarrow> string" where
  "ei_error_message (PlainIterator it) = mi_error it"
| "ei_error_message (TxIterator m) = (case mg_db m of Some it \<Rightarrow> mi_error it | None \<Rightarrow> ''no db iterator'')"

definition mock_kv :: "nat \<Rightarrow> (conn_state, EngineIterator) KVEngine" where
  "mock_kv i = \<lparr> kv_is_open = ms_is_open \<circ> fst, kv_last_error = (\<lambda>_. S_OK), kv_last_cross_group_info = (\<lambda>_. None),
     kv_get = me_get, kv_exists = me_exists, kv_put = me_put i, kv_remove = me_remove i, kv_write_batch = me_write_batch i,
     kv_new_iterator = me_new_iterator, it_valid = ei_valid, it_next = ei_next, it_seek_to_first = ei_seek_to_first,
     it_kvpair = ei_kvpair, it_status = ei_status, it_error_message = ei_error_message \<rparr>"

fun ei_inv :: "EngineIterator \<Rightarrow> bool" where
  "ei_inv (PlainIterator it) = mi_inv it"
| "ei_inv (TxIterator m) = mg_inv m"

fun ei_rest :: "EngineIterator \<Rightarrow> (bytes \<times> bytes) list" where
  "ei_rest (PlainIterator it) = mi_rest it"
| "ei_rest (TxIterator m) = mg_rest m"

text \<open>
  A connection in its own discipline: inside a transaction its snapshot, if it still has one, is what the store holds, and outside of a
  transaction it does not hold the write slot.
\<close>

definition session_inv :: "nat \<Rightarrow> conn_state \<Rightarrow> bool" where
  "session_inv i sc \<longleftrightarrow> ready i sc \<and>
     (me_tx (snd sc) = None \<longrightarrow> \<not> me_write_slot (snd sc)) \<and>
     (\<forall>m. me_snapshot (snd sc) = Some m \<longrightarrow> m = ms_data (fst sc)) \<and>
     (\<forall>tb. me_tx (snd sc) = Some tb \<longrightarrow> \<not> list_ex op_rejected (tb_log tb))"

definition session_view :: "conn_state \<Rightarrow> bytes \<rightharpoonup> bytes" where
  "session_view sc = (case me_tx (snd sc) of
     None \<Rightarrow> om_find (ms_data (fst sc)) | Some tb \<Rightarrow> replay (tb_log tb) (om_find (ms_data (fst sc))))"

definition session_scannable :: "conn_state \<Rightarrow> bool" where
  "session_scannable sc \<longleftrightarrow> (\<forall>tb. me_tx (snd sc) = Some tb \<longrightarrow> tb_range_deletes tb = [])"

interpretation engine_it: kv_iterator ei_valid ei_next ei_kvpair ei_status ei_inv ei_rest
proof
  fix it assume inv: "ei_inv it"
  show "ei_valid it \<longleftrightarrow> ei_rest it \<noteq> []" using inv mock_it.valid_rest merging_it.valid_rest by (cases it) auto
  show "ei_inv (ei_next it)" using inv mock_it.next_inv merging_it.next_inv by (cases it) auto
  show "ei_status it = S_OK \<or> ei_status it = S_NotFound" using inv mock_it.status_ok merging_it.status_ok by (cases it) auto
  assume "ei_rest it \<noteq> []"
  then show "ei_kvpair it = hd (ei_rest it)" "ei_rest (ei_next it) = tl (ei_rest it)"
    using inv mock_it.pair_rest merging_it.pair_rest mock_it.next_rest merging_it.next_rest by (cases it; auto)+
qed

section \<open>The in-memory engine keeps the contract\<close>

lemma session_lookup:
  assumes "session_inv i (s, c)" "me_tx c = Some tb"
  shows "session_view (s, c) k = overlay (tb_lookup tb k) (om_find (ms_data s) k)"
proof -
  have "tb_inv tb" using assms by (auto simp: session_inv_def ready_def conn_inv_def)
  then show ?thesis using assms(2) by (simp add: session_view_def tb_inv_def)
qed

lemma session_get:
  assumes "session_inv i sc"
  shows "me_get k sc = (case session_view sc k of None \<Rightarrow> (S_NotFound, None) | Some v \<Rightarrow> (S_OK, Some v))"
    "me_exists k sc \<longleftrightarrow> session_view sc k \<noteq> None"
proof -
  obtain s c where sc: "sc = (s, c)" by (cases sc)
  have o: "ms_is_open s" "\<And>m. me_snapshot c = Some m \<Longrightarrow> m = ms_data s" "me_tx c = None \<Longrightarrow> me_snapshot c = None"
    using assms by (auto simp: session_inv_def ready_def conn_inv_def sc)
  show "me_get k sc = (case session_view sc k of None \<Rightarrow> (S_NotFound, None) | Some v \<Rightarrow> (S_OK, Some v))"
  proof (cases "me_tx c")
    case None
    then show ?thesis using o by (simp add: sc me_get_def session_view_def ms_get_def)
  next
    case (Some tb)
    then show ?thesis using o session_lookup[OF assms[unfolded sc] Some, of k]
      by (cases "tb_lookup tb k"; cases "me_snapshot c") (auto simp: sc me_get_def overlay_def ms_get_def)
  qed
  show "me_exists k sc \<longleftrightarrow> session_view sc k \<noteq> None"
  proof (cases "me_tx c")
    case None
    then show ?thesis using o by (simp add: sc me_exists_def session_view_def ms_exists_def covered_def)
  next
    case (Some tb)
    then show ?thesis using o session_lookup[OF assms[unfolded sc] Some, of k]
      by (cases "tb_lookup tb k"; cases "me_snapshot c") (auto simp: sc me_exists_def overlay_def ms_exists_def covered_def overlay_has_value_def)
  qed
qed

lemma session_buffered:
  assumes inv: "session_inv i sc" "me_tx (snd sc) = Some tb" and b: "buffered i f tb sc = (st, sc')"
    and f: "\<And>b. tb_inv b \<Longrightarrow> tb_inv (f b)" "\<not> list_ex op_rejected (tb_log (f tb))"
      "\<And>m. replay (tb_log (f tb)) m = g (replay (tb_log tb) m)"
  shows "session_inv i sc' \<and> session_view sc' = (if st = S_OK then g (session_view sc) else session_view sc)"
proof -
  obtain s c where sc: "sc = (s, c)" by (cases sc)
  have rdy: "ready i sc" using inv(1) by (simp add: session_inv_def)
  have g: "good_step i sc (snd (buffered i f tb sc))" "ms_data (fst (snd (buffered i f tb sc))) = ms_data (fst sc)"
    using f(1) by (intro buffered_good[OF rdy inv(2)]; blast)+
  have r: "ready i sc'" using g(1) b by (simp add: ready_def good_step_def)
  have d: "ms_data (fst sc') = ms_data s" using g(2) b by (simp add: sc)
  have t: "me_tx (snd sc') = Some (if st = S_OK then f tb else tb)" "me_snapshot (snd sc') = None \<or> me_snapshot (snd sc') = me_snapshot c"
    using b inv(2) by (auto simp: buffered_def me_ensure_write_slot_def me_acquire_write_slot_def sc split: if_splits prod.splits)
  show ?thesis using inv r d t f(2,3) by (auto simp: session_inv_def session_view_def sc)
qed

lemma session_autocommit:
  assumes inv: "session_inv i sc" "me_tx (snd sc) = None" and a: "autocommit i w sc = (st, sc')"
    and w: "\<And>s st s'. ms_is_open s \<Longrightarrow> om_inv (ms_data s) \<Longrightarrow> w s = (st, s') \<Longrightarrow> om_inv (ms_data s') \<and>
      ms_is_open s' = ms_is_open s \<and> ms_write_owner s' = ms_write_owner s \<and>
      om_find (ms_data s') = (if P st then g (om_find (ms_data s)) else om_find (ms_data s))"
    and P: "\<not> P S_Busy"
  shows "session_inv i sc' \<and> session_view sc' = (if P st then g (session_view sc) else session_view sc)"
proof -
  obtain s c where sc: "sc = (s, c)" by (cases sc)
  have o: "ready i sc" "\<not> me_write_slot c" "ms_is_open s" "om_inv (ms_data s)" "me_snapshot c = None"
    using inv by (auto simp: session_inv_def ready_def conn_inv_def sc)
  have ns: "\<not> me_write_slot (snd sc)" using o(2) by (simp add: sc)
  have "good_step i sc (snd (autocommit i w sc))" by (rule autocommit_good[OF o(1) ns inv(2)]) (use w in blast)
  then have "ready i sc'" using a by (simp add: ready_def good_step_def)
  moreover have "snd sc' = c" using a by (auto simp: autocommit_def sc split: prod.splits if_splits)
  moreover have "om_find (ms_data (fst sc')) = (if P st then g (om_find (ms_data s)) else om_find (ms_data s))"
  proof (cases "ms_acquire_write_slot i s")
    case (Pair st1 s1)
    then have s1: "ms_data s1 = ms_data s" "ms_is_open s1" "st1 = S_OK \<or> st1 = S_Busy" using o(3) by (auto simp: ms_acquire_write_slot_def split: if_splits)
    obtain st2 s2 where w2: "w s1 = (st2, s2)" by (cases "w s1")
    have "om_find (ms_data s2) = (if P st2 then g (om_find (ms_data s)) else om_find (ms_data s))"
      using w[OF s1(2) _ w2] s1(1) o(4) by simp
    moreover have "(st, sc') = (if st1 = S_OK then (st2, snd (ms_release_write_slot i s2), c) else (st1, s1, c))"
      using a Pair w2 by (cases "st1 = S_OK") (simp_all add: autocommit_def sc)
    ultimately show ?thesis using s1 P by (auto simp: ms_release_write_slot_def split: if_splits)
  qed
  ultimately show ?thesis using inv o(2,5) by (simp add: session_inv_def session_view_def sc)
qed

lemma op_rejected_simps [simp]:
  "\<not> op_rejected (put_op k v)" "\<not> op_rejected (remove_op k)" "op_rejected (remove_range_op a b) \<longleftrightarrow> b \<le> a"
  by (simp_all add: op_rejected_def put_op_def remove_op_def remove_range_op_def)

lemma tb_log_writes [simp]: "tb_log (tb_put k v b) = tb_log b @ [put_op k v]" "tb_log (tb_remove k b) = tb_log b @ [remove_op k]"
  by (simp_all add: tb_put_def tb_remove_def tb_write_def)

lemma session_batch:
  assumes inv: "session_inv i sc" and ok: "list_all op_valid (wb_ops b)" and w: "me_write_batch i b sc = (st, sc')"
  shows "session_inv i sc' \<and> session_view sc' = (if st = S_OK then replay (wb_ops b) (session_view sc) else session_view sc)"
proof -
  have o: "ms_is_open (fst sc)" using inv by (simp add: session_inv_def ready_def)
  show ?thesis
  proof (cases "me_tx (snd sc)")
    case None
    show ?thesis
    proof (cases "wb_ops b = []")
      case True
      then show ?thesis using w o None inv by (auto simp: me_write_batch_def)
    next
      case False
      then have "autocommit i (ms_write_batch b) sc = (st, sc')" using w o None by (simp add: me_write_batch_def)
      then show ?thesis
        using session_autocommit[OF inv None, of "ms_write_batch b" st sc' "\<lambda>st. st = S_OK" "replay (wb_ops b)"] write_batch_cases by fastforce
    qed
  next
    case (Some tb)
    have l: "\<not> list_ex op_rejected (tb_log (fold buffer_op ops t)) \<and>
        (\<forall>m. replay (tb_log (fold buffer_op ops t)) m = replay ops (replay (tb_log t) m))"
      if "\<not> list_ex op_rejected (tb_log t)" "list_all op_valid ops" for ops t
      using that
    proof (induction ops arbitrary: t)
      case (Cons op ops)
      have "\<not> list_ex op_rejected (tb_log (buffer_op op t))"
        using Cons(2,3) by (cases "op_type op") (simp_all add: buffer_op_log op_valid_def not_le)
      moreover have "replay (tb_log (buffer_op op t)) m = replay_op op (replay (tb_log t) m)" for m
        using Cons(3) by (intro buffer_op_replay) (auto simp: op_valid_def split: OpType.splits)
      ultimately show ?case using Cons(1)[of "buffer_op op t"] Cons(3) by simp
    qed simp
    have t: "\<not> list_ex op_rejected (tb_log tb)" using inv Some by (simp add: session_inv_def)
    have "buffered i (fold buffer_op (wb_ops b)) tb sc = (st, sc')" using w o Some by (simp add: me_write_batch_def)
    then show ?thesis
      by (rule session_buffered[OF inv Some]) (use l[OF t ok] buffer_ops_inv in auto)
  qed
qed

lemma session_scan:
  assumes inv: "session_inv i sc" "session_scannable sc"
  shows "\<exists>it m. me_new_iterator rg sc = Some it \<and> ei_inv it \<and> om_inv m \<and> om_find m = session_view sc \<and>
    ei_rest it = in_direction (sr_direction rg) (materialize m rg)"
proof -
  obtain s c where sc: "sc = (s, c)" by (cases sc)
  have o: "ms_is_open s" "om_inv (ms_data s)" "me_snapshot c = None \<or> me_snapshot c = Some (ms_data s)"
      "me_tx c = None \<Longrightarrow> me_snapshot c = None"
    using inv(1) by (cases "me_snapshot c"; auto simp: session_inv_def ready_def conn_inv_def sc)+
  let ?it = "mock_iterator (materialize (ms_data s) rg) rg"
  have new: "me_new_iterator rg sc = (case me_tx c of None \<Rightarrow> Some (PlainIterator ?it)
      | Some tb \<Rightarrow> Some (TxIterator (merging_iterator (Some ?it) (Some tb) rg)))"
    using o by (auto simp: me_new_iterator_def ms_new_iterator_def sc split: option.split)
  show ?thesis
  proof (cases "me_tx c")
    case None
    have "mi_inv ?it" "mi_rest ?it = in_direction (sr_direction rg) (materialize (ms_data s) rg)"
      by (rule mock_iterator_rest; simp add: materialize_filter[OF o(2)])+
    then show ?thesis using new None o(2) by (auto simp: session_view_def sc)
  next
    case (Some tb)
    have tb: "tb_inv tb" "\<not> list_ex op_rejected (tb_log tb)" "tb_range_deletes tb = []"
      using inv Some by (auto simp: session_inv_def ready_def conn_inv_def session_scannable_def sc)
    let ?m = "fold apply_op (tb_log tb) (ms_data s)"
    have m: "om_inv ?m" "om_find ?m = replay (tb_log tb) (om_find (ms_data s))" using apply_ops_replay[OF o(2) tb(2)] by auto
    have "om_find ?m = (\<lambda>k. overlay (view_op tb k) (om_find (ms_data s) k))"
      using tb(1) m(2) by (simp add: view_op_no_ranges[OF tb(3)] tb_inv_def fun_eq_iff)
    from merged_scan[OF o(2) tb(1) m(1) this, of rg] show ?thesis
      using new Some m by (intro exI[of _ "TxIterator (merging_iterator (Some ?it) (Some tb) rg)"] exI[of _ ?m])
        (simp add: session_view_def sc)
  qed
qed

interpretation mock_engine_kv: kv_engine "mock_kv i" ei_inv ei_rest "session_inv i" session_view session_scannable
proof
  fix e e' k v b st rg
  note [simp] = mock_kv_def
  assume inv: "session_inv i e"
  have o: "ms_is_open (fst e)" using inv by (simp add: session_inv_def ready_def)
  then show "kv_is_open (mock_kv i) e" by simp
  show "kv_get (mock_kv i) k e = (case session_view e k of None \<Rightarrow> (S_NotFound, None) | Some v \<Rightarrow> (S_OK, Some v))"
    "kv_exists (mock_kv i) k e \<longleftrightarrow> session_view e k \<noteq> None" using session_get[OF inv] by simp_all
  show "session_inv i e' \<and> session_view e' = (if st = S_OK then replay (wb_ops b) (session_view e) else session_view e)"
    if "list_all op_valid (wb_ops b)" "kv_write_batch (mock_kv i) b e = (st, e')" using session_batch[OF inv] that by simp
  show "\<exists>it m. kv_new_iterator (mock_kv i) rg e = Some it \<and> ei_inv it \<and> om_inv m \<and> om_find m = session_view e \<and>
      ei_rest it = in_direction (sr_direction rg) (materialize m rg)" if "session_scannable e"
    using session_scan[OF inv that] by simp
  show "session_inv i e' \<and> session_view e' = (if st = S_OK then (session_view e)(k \<mapsto> v) else session_view e)"
    if "kv_put (mock_kv i) k v e = (st, e')"
  proof (cases "me_tx (snd e)")
    case None
    then have a: "autocommit i (ms_put k v) e = (st, e')" using that o by (simp add: me_put_def)
    show ?thesis
      by (rule session_autocommit[OF inv None a, where P = "\<lambda>st. st = S_OK" and g = "\<lambda>m. m(k \<mapsto> v)"]) (auto simp: ms_put_def split: if_splits)
  next
    case (Some tb)
    then have a: "buffered i (tb_put k v) tb e = (st, e')" using that o by (simp add: me_put_def)
    have t: "\<not> list_ex op_rejected (tb_log tb)" using inv Some by (simp add: session_inv_def)
    show ?thesis
      by (rule session_buffered[OF inv Some a, where g = "\<lambda>m. m(k \<mapsto> v)"])
        (use t in \<open>auto simp: tb_put_inv\<close>)
  qed
  show "session_inv i e' \<and> session_view e' = (if st = S_OK \<or> st = S_NotFound then (session_view e)(k := None) else session_view e)"
    if "kv_remove (mock_kv i) k e = (st, e')"
  proof (cases "me_tx (snd e)")
    case None
    then have a: "autocommit i (ms_remove k) e = (st, e')" using that o by (simp add: me_remove_def)
    show ?thesis
      by (rule session_autocommit[OF inv None a, where P = "\<lambda>st. st = S_OK \<or> st = S_NotFound" and g = "\<lambda>m. m(k := None)"])
        (auto simp: ms_remove_def fun_eq_iff split: if_splits)
  next
    case (Some tb)
    then have a: "buffered i (tb_remove k) tb e = (st, e')" using that o by (simp add: me_remove_def)
    have t: "\<not> list_ex op_rejected (tb_log tb)" using inv Some by (simp add: session_inv_def)
    have "session_inv i e' \<and> session_view e' = (if st = S_OK then (session_view e)(k := None) else session_view e)"
      by (rule session_buffered[OF inv Some a, where g = "\<lambda>m. m(k := None)"])
        (use t in \<open>auto simp: tb_remove_inv\<close>)
    moreover have "st \<noteq> S_NotFound" using a by (auto simp: buffered_def me_ensure_write_slot_def me_acquire_write_slot_def
        ms_acquire_write_slot_def split: if_splits prod.splits)
    ultimately show ?thesis by simp
  qed
qed (simp_all add: mock_kv_def engine_it.valid_rest engine_it.pair_rest engine_it.next_rest engine_it.next_inv engine_it.status_ok)

definition session_writable :: "nat \<Rightarrow> conn_state \<Rightarrow> bool" where
  "session_writable i sc \<longleftrightarrow> ms_write_owner (fst sc) = None \<or> ms_write_owner (fst sc) = Some i"

lemma buffered_writable:
  assumes "session_inv i sc" "me_tx (snd sc) = Some tb"
  shows "buffered i f tb sc = (S_OK, sc') \<Longrightarrow> session_writable i sc'"
    "session_writable i sc \<Longrightarrow> fst (buffered i f tb sc) = S_OK \<and> session_writable i (snd (buffered i f tb sc))"
  using assms by (auto simp: buffered_def me_ensure_write_slot_def me_acquire_write_slot_def ms_acquire_write_slot_def session_writable_def
      session_inv_def ready_def conn_inv_def split: if_splits prod.splits)

lemma autocommit_writable:
  assumes "session_inv i sc" "\<And>s. ms_write_owner (snd (w s)) = ms_write_owner s" "autocommit i w sc = (st, sc')"
  shows "st \<noteq> S_Busy \<or> session_writable i sc \<Longrightarrow> session_writable i sc' \<and> (\<exists>s. ms_is_open s \<and> st = fst (w s))"
proof -
  assume free: "st \<noteq> S_Busy \<or> session_writable i sc"
  obtain s c where sc: "sc = (s, c)" by (cases sc)
  have o: "ms_is_open s" using assms(1) by (simp add: session_inv_def ready_def sc)
  have own: "ms_write_owner s = None \<or> ms_write_owner s = Some i"
    using free assms(3) o by (auto simp: autocommit_def ms_acquire_write_slot_def session_writable_def sc split: if_splits)
  let ?s1 = "s\<lparr>ms_write_owner := Some i\<rparr>"
  obtain st2 s2 where w: "w ?s1 = (st2, s2)" by (cases "w ?s1")
  have "ms_write_owner s2 = Some i" using assms(2)[of ?s1] w by simp
  moreover have "st = st2" "sc' = (snd (ms_release_write_slot i s2), c)"
    using assms(3) own o w by (auto simp: autocommit_def ms_acquire_write_slot_def sc)
  ultimately show ?thesis using w o by (auto simp: session_writable_def ms_release_write_slot_def intro!: exI[of _ ?s1])
qed

lemma ms_writes_owner:
  "ms_write_owner (snd (ms_put k v s)) = ms_write_owner s" "ms_write_owner (snd (ms_remove k s)) = ms_write_owner s"
  "ms_write_owner (snd (ms_write_batch b s)) = ms_write_owner s"
  by (simp_all add: ms_put_def ms_remove_def ms_write_batch_def apply_batch_locked_def)

interpretation mock_writer: kv_writer "mock_kv i" ei_inv ei_rest "session_inv i" session_view session_scannable "session_writable i"
proof
  fix e k v b st e'
  note [simp] = mock_kv_def
  assume inv: "session_inv i e"
  have o: "ms_is_open (fst e)" using inv by (simp add: session_inv_def ready_def)
  show "session_writable i e'" if "kv_put (mock_kv i) k v e = (S_OK, e')"
    using that o autocommit_writable[OF inv ms_writes_owner(1)] buffered_writable(1)[OF inv]
    by (cases "me_tx (snd e)") (auto simp: me_put_def)
  show "session_writable i e'" if "wb_ops b \<noteq> []" "kv_write_batch (mock_kv i) b e = (S_OK, e')"
    using that o autocommit_writable[OF inv ms_writes_owner(3)] buffered_writable(1)[OF inv]
    by (cases "me_tx (snd e)") (auto simp: me_write_batch_def)
  assume free: "session_writable i e"
  show "fst (kv_put (mock_kv i) k v e) = S_OK"
  proof (cases "me_tx (snd e)")
    case None
    obtain st' e'' where a: "autocommit i (ms_put k v) e = (st', e'')" by (cases "autocommit i (ms_put k v) e")
    then show ?thesis using None o autocommit_writable[OF inv ms_writes_owner(1) a] free by (auto simp: me_put_def ms_put_def)
  next
    case (Some tb)
    then show ?thesis using o buffered_writable(2)[OF inv Some free] by (simp add: me_put_def)
  qed
  show "(st = S_OK \<or> st = S_NotFound) \<and> session_writable i e'" if r: "kv_remove (mock_kv i) k e = (st, e')"
  proof (cases "me_tx (snd e)")
    case None
    then have a: "autocommit i (ms_remove k) e = (st, e')" using r o by (simp add: me_remove_def)
    then show ?thesis using autocommit_writable[OF inv ms_writes_owner(2) a] free by (auto simp: ms_remove_def split: if_splits)
  next
    case (Some tb)
    then show ?thesis using r o buffered_writable(2)[OF inv Some free, of "tb_remove k"] by (simp add: me_remove_def)
  qed
qed

end
