(* ===== verification/Key_Prefix.thy ===== *)
theory Key_Prefix imports Sql_Value Key_Codec Identifier begin

text \<open>
  The layout of the store (\<^verbatim>\<open>relation/key_prefix.h\<close>): names are written with their length in front, so that no key of one
  table or database is a key of another, and the keys of a table are exactly the interval from its prefix to \<open>prefix_end\<close>.
\<close>

definition encode_component :: "bytes \<Rightarrow> bytes" where
  "encode_component name = decimal_digits (length name) @ str '':'' @ name"

definition encode_identifier :: "Identifier \<Rightarrow> bytes" where
  "encode_identifier name = encode_component (id_normalized name)"

definition prefix_end :: "bytes \<Rightarrow> bytes" where
  "prefix_end p =
     (let p = rev (dropWhile (\<lambda>c. c = 0xFF) (rev p)) in if p = [] then [] else butlast p @ [last p + 1])"

definition databases_key :: bytes where
  "databases_key = str ''@system/databases''"

definition db_tables :: "Identifier \<Rightarrow> bytes" where
  "db_tables db = str ''@system/tables/'' @ encode_identifier db"

definition db_schema_prefix :: "Identifier \<Rightarrow> bytes" where
  "db_schema_prefix db = str ''@system/schema/'' @ encode_identifier db @ str ''/''"

definition db_schema :: "Identifier \<Rightarrow> Identifier \<Rightarrow> bytes" where
  "db_schema db table = str ''@system/schema/'' @ encode_identifier db @ str ''/'' @ encode_identifier table"

definition db_stats :: "Identifier \<Rightarrow> bytes" where
  "db_stats db = str ''@system/dbstats/'' @ encode_identifier db"

definition table_stats_key :: "Identifier \<Rightarrow> Identifier \<Rightarrow> bytes" where
  "table_stats_key db table = str ''@system/tablestats/'' @ encode_identifier db @ str ''/'' @ encode_identifier table"

definition table_stats_prefix :: "Identifier \<Rightarrow> bytes" where
  "table_stats_prefix db = str ''@system/tablestats/'' @ encode_identifier db @ str ''/''"

definition data_prefix :: "Identifier \<Rightarrow> Identifier \<Rightarrow> bytes" where
  "data_prefix db table = str ''@data/'' @ encode_identifier db @ str ''/'' @ encode_identifier table @ str ''/''"

definition db_data_prefix :: "Identifier \<Rightarrow> bytes" where
  "db_data_prefix db = str ''@data/'' @ encode_identifier db @ str ''/''"

definition data_key :: "Identifier \<Rightarrow> Identifier \<Rightarrow> Value \<Rightarrow> DataType \<Rightarrow> bytes" where
  "data_key db table pk pk_type = data_prefix db table @ to_key_col pk pk_type"

definition is_system_key :: "bytes \<Rightarrow> bool" where
  "is_system_key key \<longleftrightarrow> length key \<ge> 8 \<and> take 8 key = str ''@system/''"

definition is_data_key :: "bytes \<Rightarrow> bool" where
  "is_data_key key \<longleftrightarrow> length key \<ge> 6 \<and> take 6 key = str ''@data/''"

section \<open>Names are self-delimiting\<close>

lemma decimal_digits_value: "foldl (\<lambda>n b. 10 * n + (unat b - 48)) 0 (decimal_digits n) = n"
proof (induction n rule: decimal_digits.induct)
  case (1 n)
  have d: "unat (of_nat (48 + m) :: byte) - 48 = m" if "m < 10" for m
    using that by (simp add: unsigned_of_nat take_bit_nat_eq_self del: of_nat_add)
  show ?case using 1 d[of n] d[of "n mod 10"] by (subst decimal_digits.simps) auto
qed

lemma decimal_digits_bytes: "b \<in> set (decimal_digits n) \<Longrightarrow> b \<noteq> 58"
proof (induction n rule: decimal_digits.induct)
  case (1 n)
  have d: "(of_nat (48 + m) :: byte) \<noteq> 58" if "m < 10" for m
  proof
    assume "(of_nat (48 + m) :: byte) = 58"
    then have "unat (of_nat (48 + m) :: byte) = 58" by simp
    then show False using that by (simp add: unsigned_of_nat take_bit_nat_eq_self del: of_nat_add)
  qed
  show ?case using 1 d[of n] d[of "n mod 10"] by (subst (asm) decimal_digits.simps) (auto split: if_splits)
qed

lemma encode_component_append:
  "encode_component a @ r = encode_component b @ s \<longleftrightarrow> a = b \<and> r = s"
proof
  assume eq: "encode_component a @ r = encode_component b @ s"
  have tw: "takeWhile (\<lambda>c. c \<noteq> 58) (encode_component x @ y) = decimal_digits (length x)" for x y
    using decimal_digits_bytes by (simp add: encode_component_def takeWhile_append str_def)
  have "decimal_digits (length a) = decimal_digits (length b)" using tw[of a r] tw[of b s] eq by simp
  then have "length a = length b" using decimal_digits_value by metis
  then show "a = b \<and> r = s" using eq by (simp add: encode_component_def)
qed simp

lemma encode_identifier_append: "encode_identifier a @ r = encode_identifier b @ s \<longleftrightarrow> id_eq a b \<and> r = s"
  by (simp add: encode_identifier_def encode_component_append id_eq_def)

lemma encode_identifier_eq: "encode_identifier a = encode_identifier b \<longleftrightarrow> id_eq a b"
  using encode_identifier_append[of a "[]" b "[]"] by simp

lemma data_prefix_append:
  "data_prefix db t @ k = data_prefix db' t' @ k' \<longleftrightarrow> id_eq db db' \<and> id_eq t t' \<and> k = k'"
  by (auto simp: data_prefix_def encode_identifier_append)

lemma prefix_end_interval: "prefix p k \<longleftrightarrow> p \<le> k \<and> (prefix_end p = [] \<or> k < prefix_end p)"
  using prefix_iff_successor[of p k] by (simp add: successor_def prefix_end_def)

text \<open>The prefixes that the code passes to \<^verbatim>\<open>prefix_end\<close> end in a slash, so the interval has an end.\<close>

lemma prefix_end_slash: "prefix_end (p @ str ''/'') = p @ str ''0''"
  by (simp add: prefix_end_def str_def)

lemma slash_interval:
  "p @ str ''/'' \<le> k \<and> k < prefix_end (p @ str ''/'') \<longleftrightarrow> prefix (p @ str ''/'') k" "p @ str ''/'' < prefix_end (p @ str ''/'')"
proof -
  have "prefix_end (p @ str ''/'') \<noteq> []" unfolding prefix_end_slash by simp
  then show "p @ str ''/'' \<le> k \<and> k < prefix_end (p @ str ''/'') \<longleftrightarrow> prefix (p @ str ''/'') k"
    using prefix_end_interval[of "p @ str ''/''" k] by blast
  show "p @ str ''/'' < prefix_end (p @ str ''/'')" unfolding prefix_end_slash by (simp add: append_less_cancel)
qed

end
