(* ===== verification/Relation_Table.thy ===== *)
theory Relation_Table imports Engine_Contract Key_Prefix Key_Range Row Schema_Text begin

text \<open>
  Tables on the key-value store (\<^verbatim>\<open>relation/relation_defs.h\<close>, \<^verbatim>\<open>table.cpp\<close>, \<^verbatim>\<open>cursor.cpp\<close>,
  \<^verbatim>\<open>sql_types/cursor.h\<close>). A table is a view: the engine is an argument of every operation, a record of the functions that the
  code calls. A row is one pair of the store, its key the prefix of the table and the encoded primary key.
\<close>

section \<open>Errors\<close>

datatype RelErrorCode = Rel_OK | Rel_NOT_OPEN | Rel_TABLE_NOT_FOUND | Rel_NOT_FOUND | Rel_SCHEMA_ERROR | Rel_PRIMARY_KEY_NULL
  | Rel_PRIMARY_KEY_MISMATCH | Rel_DUPLICATE_PRIMARY_KEY | Rel_COLUMN_NOT_FOUND | Rel_KV_ERROR | Rel_NOT_SUPPORTED

fun rel_error_message :: "RelErrorCode \<Rightarrow> bytes" where
  "rel_error_message Rel_OK = str ''OK''"
| "rel_error_message Rel_NOT_OPEN = str ''KV engine is not open''"
| "rel_error_message Rel_TABLE_NOT_FOUND = str ''Table not found''"
| "rel_error_message Rel_NOT_FOUND = str ''Row not found''"
| "rel_error_message Rel_SCHEMA_ERROR = str ''Row does not match table schema''"
| "rel_error_message Rel_PRIMARY_KEY_NULL = str ''Primary key is NULL''"
| "rel_error_message Rel_PRIMARY_KEY_MISMATCH = str ''Primary key in row does not match the key''"
| "rel_error_message Rel_DUPLICATE_PRIMARY_KEY = str ''Duplicate primary key''"
| "rel_error_message Rel_COLUMN_NOT_FOUND = str ''Column not found''"
| "rel_error_message Rel_KV_ERROR = str ''KV engine error''"
| "rel_error_message Rel_NOT_SUPPORTED = str ''Not supported''"

record RelError =
  rel_code :: RelErrorCode
  rel_message :: bytes

definition rel_error :: "RelErrorCode \<Rightarrow> bytes \<Rightarrow> RelError" where
  "rel_error c m = \<lparr> rel_code = c, rel_message = m \<rparr>"

definition rel_to_string :: "RelError \<Rightarrow> bytes" where
  "rel_to_string e = (if rel_message e = [] then rel_error_message (rel_code e) else rel_message e)"

datatype CursorErrorCode = Cur_OK | Cur_END | Cur_NOT_FOUND | Cur_SCHEMA_ERROR | Cur_CONSTRAINT_VIOLATION | Cur_INVALID_ARGUMENT
  | Cur_IO_ERROR | Cur_INTERNAL

fun cursor_error_message :: "CursorErrorCode \<Rightarrow> bytes" where
  "cursor_error_message Cur_OK = str ''OK''"
| "cursor_error_message Cur_END = str ''End of stream''"
| "cursor_error_message Cur_NOT_FOUND = str ''Row not found''"
| "cursor_error_message Cur_SCHEMA_ERROR = str ''Row does not match schema''"
| "cursor_error_message Cur_CONSTRAINT_VIOLATION = str ''Constraint violation''"
| "cursor_error_message Cur_INVALID_ARGUMENT = str ''Invalid argument''"
| "cursor_error_message Cur_IO_ERROR = str ''Storage I/O error''"
| "cursor_error_message Cur_INTERNAL = str ''Internal error''"

record CursorError =
  cur_code :: CursorErrorCode
  cur_message :: bytes

definition cursor_error :: "CursorErrorCode \<Rightarrow> bytes \<Rightarrow> CursorError" where
  "cursor_error c m = \<lparr> cur_code = c, cur_message = m \<rparr>"

definition cur_is_error :: "CursorError \<Rightarrow> bool" where
  "cur_is_error e \<longleftrightarrow> cur_code e \<noteq> Cur_OK \<and> cur_code e \<noteq> Cur_END"

definition cur_to_string :: "CursorError \<Rightarrow> bytes" where
  "cur_to_string e = (if cur_message e = [] then cursor_error_message (cur_code e) else cur_message e)"

definition end_of_stream :: CursorError where
  "end_of_stream = cursor_error Cur_END []"

definition to_cursor_error :: "RelError \<Rightarrow> CursorError" where
  "to_cursor_error e = cursor_error
     (case rel_code e of
        Rel_NOT_FOUND \<Rightarrow> Cur_NOT_FOUND
      | Rel_SCHEMA_ERROR \<Rightarrow> Cur_SCHEMA_ERROR
      | Rel_DUPLICATE_PRIMARY_KEY \<Rightarrow> Cur_CONSTRAINT_VIOLATION
      | Rel_NOT_OPEN \<Rightarrow> Cur_IO_ERROR
      | Rel_KV_ERROR \<Rightarrow> Cur_IO_ERROR
      | Rel_COLUMN_NOT_FOUND \<Rightarrow> Cur_INVALID_ARGUMENT
      | Rel_PRIMARY_KEY_NULL \<Rightarrow> Cur_INVALID_ARGUMENT
      | Rel_PRIMARY_KEY_MISMATCH \<Rightarrow> Cur_INVALID_ARGUMENT
      | Rel_TABLE_NOT_FOUND \<Rightarrow> Cur_INVALID_ARGUMENT
      | _ \<Rightarrow> Cur_INTERNAL) (rel_to_string e)"

definition kv_error :: "('e, 'it) KVEngine \<Rightarrow> string \<Rightarrow> Status \<Rightarrow> 'e \<Rightarrow> RelError" where
  "kv_error E what status e = rel_error Rel_KV_ERROR
     (str what @ str '' failed: '' @ str (status_to_string status) @
      (if status = S_CrossGroupTransaction
       then (case kv_last_cross_group_info E e of
               None \<Rightarrow> []
             | Some (from_group, to_group) \<Rightarrow> str '' (group '' @ decimal_digits (unat from_group) @ str '' -> group '' @
                 decimal_digits (unat to_group) @ str '')'')
       else []))"

definition rel_schema_error :: "SchemaError \<Rightarrow> bytes \<Rightarrow> RelError" where
  "rel_schema_error err what = rel_error Rel_SCHEMA_ERROR (what @ str '': '' @ error_message err)"

section \<open>A table\<close>

record Table =
  tbl_db :: Identifier
  tbl_schema :: TableSchema
  tbl_key_prefix :: bytes
  tbl_pk_type :: DataType

definition make_table :: "Identifier \<Rightarrow> TableSchema \<Rightarrow> Table" where
  "make_table db schema = \<lparr> tbl_db = db, tbl_schema = schema, tbl_key_prefix = data_prefix db (ts_name schema),
     tbl_pk_type = (case primary_key_column schema of Some pk \<Rightarrow> col_type pk | None \<Rightarrow> UNKNOWN_TYPE) \<rparr>"

abbreviation tbl_name :: "Table \<Rightarrow> bytes" where
  "tbl_name T \<equiv> id_name (ts_name (tbl_schema T))"

definition encode_key :: "Table \<Rightarrow> Value \<Rightarrow> bytes" where
  "encode_key T pk = data_key (tbl_db T) (ts_name (tbl_schema T)) pk (tbl_pk_type T)"

definition encode_row :: "Table \<Rightarrow> Row \<Rightarrow> bytes" where
  "encode_row T row = serialize_row_schema (tbl_schema T) row"

definition decode_row :: "Table \<Rightarrow> bytes \<Rightarrow> RelError + Row" where
  "decode_row T data = (case deserialize_row data (tbl_schema T) of
     Inl err \<Rightarrow> Inl (rel_schema_error err (str ''decode row of '' @ tbl_name T)) | Inr row \<Rightarrow> Inr row)"

definition primary_key_of :: "Table \<Rightarrow> Row \<Rightarrow> Value" where
  "primary_key_of T row =
     (let index = ts_pk_index (tbl_schema T)
      in if index < 0 \<or> nat index \<ge> length row then NullV else row ! nat index)"

section \<open>Reading\<close>

definition table_find :: "('e, 'it) KVEngine \<Rightarrow> Table \<Rightarrow> Value \<Rightarrow> 'e \<Rightarrow> RelError + Row" where
  "table_find E T pk e =
     (if v_is_null pk then Inl (rel_error Rel_PRIMARY_KEY_NULL (str ''primary key is NULL''))
      else case kv_get E (encode_key T pk) e of (status, data) \<Rightarrow>
        if status = S_NotFound then Inl (rel_error Rel_NOT_FOUND (str ''row not found in '' @ tbl_name T))
        else if status \<noteq> S_OK then Inl (kv_error E ''get'' status e)
        else decode_row T (the data))"

record 'it TableCursor =
  tc_table :: "Table option"
  tc_range :: KeyRange
  tc_it :: "'it option"
  tc_open_status :: Status
  tc_closed :: bool
  tc_error :: CursorError

definition table_cursor :: "Table option \<Rightarrow> KeyRange \<Rightarrow> 'it option \<Rightarrow> Status \<Rightarrow> 'it TableCursor" where
  "table_cursor T r it status = \<lparr> tc_table = T, tc_range = r, tc_it = it, tc_open_status = status, tc_closed = False,
     tc_error = cursor_error Cur_OK [] \<rparr>"

definition tc_fail :: "CursorError \<Rightarrow> 'it TableCursor \<Rightarrow> (CursorError + Row) \<times> 'it TableCursor" where
  "tc_fail err c = (Inl err, c\<lparr>tc_error := err\<rparr>)"

definition tc_next :: "('e, 'it) KVEngine \<Rightarrow> 'it TableCursor \<Rightarrow> (CursorError + Row) \<times> 'it TableCursor" where
  "tc_next E c =
     (if cur_is_error (tc_error c) then (Inl (tc_error c), c)
      else if tc_closed c then tc_fail end_of_stream c
      else case tc_table c of
        None \<Rightarrow> tc_fail end_of_stream c
      | Some T \<Rightarrow>
          (case tc_it c of
             None \<Rightarrow> tc_fail (cursor_error Cur_IO_ERROR (str ''kv scan failed: '' @
               (if tc_open_status c = S_OK then str ''no iterator'' else str (status_to_string (tc_open_status c))))) c
           | Some it \<Rightarrow>
               if \<not> it_valid E it
               then (if it_status E it \<noteq> S_OK \<and> it_status E it \<noteq> S_NotFound
                     then tc_fail (cursor_error Cur_IO_ERROR (str ''kv scan failed: '' @ str (it_error_message E it))) c
                     else tc_fail end_of_stream c)
               else (let decoded = decode_row T (snd (it_kvpair E it)); c = c\<lparr>tc_it := Some (it_next E it)\<rparr>
                     in case decoded of Inl err \<Rightarrow> tc_fail (to_cursor_error err) c | Inr row \<Rightarrow> (Inr row, c))))"

definition tc_close :: "'it TableCursor \<Rightarrow> 'it TableCursor" where
  "tc_close c = (let c = c\<lparr>tc_it := None, tc_closed := True\<rparr>
     in if cur_is_error (tc_error c) then c else c\<lparr>tc_error := end_of_stream\<rparr>)"

definition tc_reset :: "('e, 'it) KVEngine \<Rightarrow> 'it TableCursor \<Rightarrow> 'it TableCursor" where
  "tc_reset E c = c\<lparr>tc_error := cursor_error Cur_OK [], tc_closed := False, tc_it := map_option (it_seek_to_first E) (tc_it c)\<rparr>"

definition physical_start :: "Table \<Rightarrow> KeyRange \<Rightarrow> bytes" where
  "physical_start T r = tbl_key_prefix T @ sk_start (to_str_key_range r (tbl_pk_type T))"

definition physical_end :: "Table \<Rightarrow> KeyRange \<Rightarrow> bytes" where
  "physical_end T r = tbl_key_prefix T @ sk_end (to_str_key_range r (tbl_pk_type T))"

definition scan_range :: "Table \<Rightarrow> KeyRange \<Rightarrow> ScanDirection \<Rightarrow> ScanRange" where
  "scan_range T r d = \<lparr> sr_start = Some (physical_start T r), sr_end = Some (physical_end T r), sr_limit = 0, sr_direction = d \<rparr>"

definition table_scan :: "('e, 'it) KVEngine \<Rightarrow> Table \<Rightarrow> KeyRange \<Rightarrow> bool \<Rightarrow> 'e \<Rightarrow> 'it TableCursor" where
  "table_scan E T r ascending e =
     (let it = kv_new_iterator E (scan_range T r (if ascending then Forward else Reverse)) e
      in table_cursor (Some T) r it (if it = None then kv_last_error E e else S_OK))"

definition table_scan_all :: "('e, 'it) KVEngine \<Rightarrow> Table \<Rightarrow> bool \<Rightarrow> 'e \<Rightarrow> 'it TableCursor" where
  "table_scan_all E T ascending e = table_scan E T (range_all (tbl_pk_type T)) ascending e"

text \<open>The loop of \<^verbatim>\<open>row_count\<close>; it need not end for an engine whose iterator never does.\<close>

partial_function (option) count_rows :: "('e, 'it) KVEngine \<Rightarrow> nat \<Rightarrow> 'it TableCursor \<Rightarrow> (RelError + nat) option" where
  "count_rows E n c =
     (case tc_next E c of
        (Inr _, c) \<Rightarrow> count_rows E (n + 1) c
      | (Inl err, c) \<Rightarrow>
          Some (if cur_code err = Cur_END then Inr n
                else Inl (rel_error (if cur_code err = Cur_SCHEMA_ERROR then Rel_SCHEMA_ERROR else Rel_KV_ERROR) (cur_to_string err))))"

text \<open>The loop that every reader of a cursor has.\<close>

partial_function (option) drain :: "('e, 'it) KVEngine \<Rightarrow> 'it TableCursor \<Rightarrow> (CursorError + Row list) option" where
  "drain E c =
     (case tc_next E c of
        (Inr row, c) \<Rightarrow> Option.bind (drain E c) (\<lambda>r. Some (map_sum id ((#) row) r))
      | (Inl err, c) \<Rightarrow> Some (if cur_code err = Cur_END then Inr [] else Inl err))"

definition row_count :: "('e, 'it) KVEngine \<Rightarrow> Table \<Rightarrow> 'e \<Rightarrow> (RelError + nat) option" where
  "row_count E T e = count_rows E 0 (table_scan_all E T True e)"

section \<open>Writing\<close>

definition finish_write :: "('e, 'it) KVEngine \<Rightarrow> string \<Rightarrow> Status \<times> 'e \<Rightarrow> RelError option \<times> 'e" where
  "finish_write E what r = (case r of (status, e) \<Rightarrow> (if status = S_OK then None else Some (kv_error E what status e), e))"

definition table_insert :: "('e, 'it) KVEngine \<Rightarrow> Table \<Rightarrow> Row \<Rightarrow> 'e \<Rightarrow> RelError option \<times> 'e" where
  "table_insert E T row e =
     (let valid = validate_row (tbl_schema T) row
      in if valid \<noteq> SE_OK then (Some (rel_schema_error valid (str ''insert into '' @ tbl_name T)), e)
         else
           let pk = primary_key_of T row
           in if v_is_null pk then (Some (rel_error Rel_PRIMARY_KEY_NULL (str ''insert with NULL key'')), e)
              else if kv_exists E (encode_key T pk) e
              then (Some (rel_error Rel_DUPLICATE_PRIMARY_KEY
                (str ''duplicate primary key in '' @ tbl_name T @ str '': '' @ value_to_string pk)), e)
              else finish_write E ''put'' (kv_put E (encode_key T pk) (encode_row T row) e))"

definition table_update :: "('e, 'it) KVEngine \<Rightarrow> Table \<Rightarrow> Value \<Rightarrow> Row \<Rightarrow> 'e \<Rightarrow> RelError option \<times> 'e" where
  "table_update E T pk row e =
     (if v_is_null pk then (Some (rel_error Rel_PRIMARY_KEY_NULL (str ''update with NULL key'')), e)
      else
        let valid = validate_row (tbl_schema T) row
        in if valid \<noteq> SE_OK then (Some (rel_schema_error valid (str ''update '' @ tbl_name T)), e)
           else
             let row_pk = primary_key_of T row
             in if \<not> value_eq row_pk pk
                then (Some (rel_error Rel_PRIMARY_KEY_MISMATCH (str ''primary key in row ('' @ value_to_string row_pk @
                  str '') != target key ('' @ value_to_string pk @ str '')'')), e)
                else finish_write E ''put'' (kv_put E (encode_key T pk) (encode_row T row) e))"

fun assign_columns :: "TableSchema \<Rightarrow> (Identifier \<times> Value) list \<Rightarrow> Row \<Rightarrow> RelError + Row" where
  "assign_columns s [] row = Inr row"
| "assign_columns s ((col, v) # assignments) row =
     (let index = column_index s col
      in if index < 0 then Inl (rel_error Rel_COLUMN_NOT_FOUND (str ''column not found: '' @ id_name col))
         else assign_columns s assignments (row[nat index := v]))"

definition table_update_columns ::
  "('e, 'it) KVEngine \<Rightarrow> Table \<Rightarrow> Value \<Rightarrow> (Identifier \<times> Value) list \<Rightarrow> 'e \<Rightarrow> RelError option \<times> 'e" where
  "table_update_columns E T pk assignments e =
     (case table_find E T pk e of
        Inl err \<Rightarrow> (Some err, e)
      | Inr current \<Rightarrow>
          (case assign_columns (tbl_schema T) assignments current of
             Inl err \<Rightarrow> (Some err, e)
           | Inr updated \<Rightarrow> table_update E T pk updated e))"

definition table_remove :: "('e, 'it) KVEngine \<Rightarrow> Table \<Rightarrow> Value \<Rightarrow> 'e \<Rightarrow> RelError option \<times> 'e" where
  "table_remove E T pk e =
     (if v_is_null pk then (Some (rel_error Rel_PRIMARY_KEY_NULL (str ''remove with NULL key'')), e)
      else case kv_remove E (encode_key T pk) e of (status, e') \<Rightarrow>
        (if status \<noteq> S_OK \<and> status \<noteq> S_NotFound then Some (kv_error E ''remove'' status e') else None, e'))"

definition table_truncate :: "('e, 'it) KVEngine \<Rightarrow> Table \<Rightarrow> 'e \<Rightarrow> RelError option \<times> 'e" where
  "table_truncate E T e =
     finish_write E ''remove_range''
       (kv_write_batch E (wb_remove_range (tbl_key_prefix T) (prefix_end (tbl_key_prefix T)) empty_batch) e)"

text \<open>All the writes, as one step.\<close>

datatype TableOp = T_Insert Row | T_Update Value Row | T_UpdateColumns Value "(Identifier \<times> Value) list" | T_Remove Value | T_Truncate

fun table_op :: "('e, 'it) KVEngine \<Rightarrow> Table \<Rightarrow> TableOp \<Rightarrow> 'e \<Rightarrow> RelError option \<times> 'e" where
  "table_op E T (T_Insert row) e = table_insert E T row e"
| "table_op E T (T_Update pk row) e = table_update E T pk row e"
| "table_op E T (T_UpdateColumns pk assignments) e = table_update_columns E T pk assignments e"
| "table_op E T (T_Remove pk) e = table_remove E T pk e"
| "table_op E T T_Truncate e = table_truncate E T e"

section \<open>Keys and rows of a table\<close>

definition table_wf :: "Table \<Rightarrow> bool" where
  "table_wf T \<longleftrightarrow> T = make_table (tbl_db T) (tbl_schema T)"

lemma make_table_wf [simp]: "table_wf (make_table db s)"
  by (simp add: table_wf_def make_table_def)

lemma make_table_simps [simp]:
  "tbl_schema (make_table db s) = s" "tbl_db (make_table db s) = db" "tbl_key_prefix (make_table db s) = data_prefix db (ts_name s)"
  by (simp_all add: make_table_def)

lemma table_wfD: "table_wf T \<Longrightarrow> tbl_key_prefix T = data_prefix (tbl_db T) (ts_name (tbl_schema T))"
  unfolding table_wf_def make_table_def by (metis Table.select_convs(3))

lemma encode_key_prefix: "table_wf T \<Longrightarrow> encode_key T pk = tbl_key_prefix T @ to_key_col pk (tbl_pk_type T)"
  by (simp add: encode_key_def data_key_def table_wfD)

lemma encode_key_prefixed [simp]: "table_wf T \<Longrightarrow> prefix (tbl_key_prefix T) (encode_key T pk)"
  by (simp add: encode_key_prefix)

lemma key_view_key: "str_kind_of t \<noteq> None \<or> \<not> (\<exists>k s. v = StrV k s) \<Longrightarrow> to_key_col (key_view t v) u = to_key_col v u"
  by (cases v) (auto simp: to_key_simps)

definition value_small :: "TableSchema \<Rightarrow> Value \<Rightarrow> bool" where
  "value_small s v \<longleftrightarrow> (\<forall>c \<in> set (ts_columns s). length (to_key_col v (col_type c)) < 2 ^ 32)"

definition row_small :: "TableSchema \<Rightarrow> Row \<Rightarrow> bool" where
  "row_small s row \<longleftrightarrow> length (ts_columns s) < 2 ^ 32 \<and> list_all (value_small s) row"

lemma value_small_view: "validate_value c v = SE_OK \<Longrightarrow> to_key_col (key_view (col_type c) v) u = to_key_col v u"
  using validate_value_family[of c v] by (intro key_view_key, cases v) (auto simp: same_family_kinds is_string_kind)

lemma pk_column:
  assumes "table_wf T" "validate_row (tbl_schema T) row = SE_OK" "\<not> v_is_null (primary_key_of T row)"
  obtains c n where "n < length row" "n < length (ts_columns (tbl_schema T))" "ts_columns (tbl_schema T) ! n = c" "ts_pk_index (tbl_schema T) = int n"
    "primary_key_of T row = row ! n" "validate_value c (row ! n) = SE_OK" "tbl_pk_type T = col_type c"
proof -
  let ?s = "tbl_schema T"
  define n where "n = nat (ts_pk_index ?s)"
  have len: "length row = length (ts_columns ?s)" using assms(2) by (auto simp: validate_row_iff dest: list_all2_lengthD)
  have n: "ts_pk_index ?s = int n" "n < length row" "primary_key_of T row = row ! n"
    using assms(3) by (auto simp: primary_key_of_def n_def Let_def split: if_splits)
  have "primary_key_column ?s = Some (ts_columns ?s ! n)"
    using n len by (simp add: primary_key_column_def has_primary_key_def column_at_def)
  then have "tbl_pk_type T = col_type (ts_columns ?s ! n)"
    using assms(1) unfolding table_wf_def make_table_def by (metis Table.select_convs(4) option.simps(5))
  moreover have "validate_value (ts_columns ?s ! n) (row ! n) = SE_OK" using assms(2) n len by (simp add: validate_row_iff list_all2_conv_all_nth)
  ultimately show thesis using that n len by simp
qed

lemma pk_family:
  assumes "table_wf T" "validate_row (tbl_schema T) row = SE_OK" "\<not> v_is_null (primary_key_of T row)"
  shows "in_family (tbl_pk_type T) (primary_key_of T row)"
  by (rule pk_column[OF assms]) (use assms(3) validate_value_family same_family_tag in \<open>force simp: in_family_def v_is_null_iff\<close>)

text \<open>What is written comes back: the decoded row is the row written, up to the integer and string types of its values, and has its key.\<close>

lemma decode_encode_row:
  assumes "table_wf T" "validate_row (tbl_schema T) row = SE_OK" "row_small (tbl_schema T) row" "\<not> v_is_null (primary_key_of T row)"
  obtains row' where "decode_row T (encode_row T row) = Inr row'" "row_eq row' row" "validate_row (tbl_schema T) row' = SE_OK"
    "row_small (tbl_schema T) row'" "\<not> v_is_null (primary_key_of T row')" "encode_key T (primary_key_of T row') = encode_key T (primary_key_of T row)"
proof -
  let ?s = "tbl_schema T"
  let ?row = "map2 (\<lambda>c. key_view (col_type c)) (ts_columns ?s) row"
  have all: "list_all2 (\<lambda>c v. validate_value c v = SE_OK) (ts_columns ?s) row" using assms(2) by (simp add: validate_row_iff)
  then have len: "length row = length (ts_columns ?s)" by (simp add: list_all2_lengthD)
  have d: "deserialize_row (serialize_row_schema ?s row) ?s = Inr ?row"
    using assms(2,3) len by (intro deserialize_serialize_row) (auto simp: row_small_def value_small_def list_all_iff)
  have nth: "?row ! i = key_view (col_type (ts_columns ?s ! i)) (row ! i)" "validate_value (ts_columns ?s ! i) (row ! i) = SE_OK"
    if "i < length row" for i using that len all by (auto simp: list_all2_conv_all_nth)
  have "value_eq (?row ! i) (row ! i)" if "i < length row" for i
    using nth[OF that] validate_value_family[of "ts_columns ?s ! i" "row ! i"] key_view_eq by (cases "row ! i = NullV") auto
  then have e: "row_eq ?row row" using len by (simp add: row_eq_def list_all2_conv_all_nth)
  have v: "validate_row ?s ?row = SE_OK" using nth len validate_key_view by (simp add: validate_row_iff list_all2_conv_all_nth)
  have k: "to_key_col (?row ! i) u = to_key_col (row ! i) u" if "i < length row" for i u using nth[OF that] value_small_view by simp
  have "value_small ?s (?row ! i)" if "i < length row" for i
    using k[OF that] assms(3) that by (simp add: value_small_def row_small_def list_all_length)
  then have sm: "row_small ?s ?row" using assms(3) len by (simp add: row_small_def list_all_length)
  obtain c n where n: "n < length row" "ts_pk_index ?s = int n" "primary_key_of T row = row ! n" by (rule pk_column[OF assms(1,2,4)])
  have pk: "primary_key_of T ?row = ?row ! n" using n len by (simp add: primary_key_of_def)
  have "\<not> v_is_null (?row ! n)" using nth(1)[OF n(1)] assms(4) n(3) by (cases "row ! n") auto
  then show thesis using that[of ?row] d e v sm pk k[OF n(1)] n(3) assms(1) by (simp add: decode_row_def encode_row_def encode_key_prefix)
qed

text \<open>The invariant of the pairs of a table, over what the engine shows.\<close>

definition rows_ok :: "Table \<Rightarrow> (bytes \<rightharpoonup> bytes) \<Rightarrow> bool" where
  "rows_ok T m \<longleftrightarrow> (\<forall>k v. m k = Some v \<and> prefix (tbl_key_prefix T) k \<longrightarrow> (\<exists>row. decode_row T v = Inr row \<and>
     validate_row (tbl_schema T) row = SE_OK \<and> row_small (tbl_schema T) row \<and> \<not> v_is_null (primary_key_of T row) \<and>
     k = encode_key T (primary_key_of T row)))"

definition op_small :: "Table \<Rightarrow> TableOp \<Rightarrow> bool" where
  "op_small T op = (case op of
     T_Insert row \<Rightarrow> row_small (tbl_schema T) row | T_Update pk row \<Rightarrow> row_small (tbl_schema T) row
   | T_UpdateColumns pk assignments \<Rightarrow> list_all (\<lambda>(c, v). value_small (tbl_schema T) v) assignments
   | _ \<Rightarrow> True)"

lemma rows_ok_put:
  assumes "table_wf T" "rows_ok T m" "validate_row (tbl_schema T) row = SE_OK" "row_small (tbl_schema T) row"
    "\<not> v_is_null (primary_key_of T row)"
  shows "rows_ok T (m(encode_key T (primary_key_of T row) \<mapsto> encode_row T row))"
proof -
  obtain row' where "decode_row T (encode_row T row) = Inr row'" "validate_row (tbl_schema T) row' = SE_OK" "row_small (tbl_schema T) row'"
    "\<not> v_is_null (primary_key_of T row')" "encode_key T (primary_key_of T row') = encode_key T (primary_key_of T row)"
    by (rule decode_encode_row[OF assms(1,3,4,5)])
  then show ?thesis using assms(2) unfolding rows_ok_def by (auto split: if_splits)
qed

lemma assign_columns_small:
  assumes "assign_columns s assignments row = Inr row'" "list_all (value_small s) row" "list_all (\<lambda>(c, v). value_small s v) assignments"
  shows "list_all (value_small s) row'"
  using assms
proof (induction s assignments row rule: assign_columns.induct)
  case (2 s col v assignments row)
  have "list_all (value_small s) (row[nat (column_index s col) := v])"
    using 2(3,4) by (auto simp: list_all_iff dest: set_update_subset_insert[THEN subsetD])
  then show ?case using 2 by (auto simp: Let_def split: if_splits)
qed simp

lemma prefix_interval:
  "table_wf T \<Longrightarrow> tbl_key_prefix T \<le> k \<and> k < prefix_end (tbl_key_prefix T) \<longleftrightarrow> prefix (tbl_key_prefix T) k"
  "table_wf T \<Longrightarrow> tbl_key_prefix T < prefix_end (tbl_key_prefix T)"
  using slash_interval[of "str ''@data/'' @ encode_identifier (tbl_db T) @ str ''/'' @ encode_identifier (ts_name (tbl_schema T))"]
  by (simp_all add: table_wfD data_prefix_def)

text \<open>The physical range of a scan: below the prefix of the table, and there exactly the keys of the logical range.\<close>

lemma scan_range_prefix: "sr_contains (scan_range T r d) k \<Longrightarrow> prefix (tbl_key_prefix T) k"
  using between_prefix[of "tbl_key_prefix T" _ k]
  by (fastforce simp: scan_range_def sr_contains_def physical_start_def physical_end_def not_le not_less split: if_splits)

lemma scan_range_key:
  assumes "table_wf T" "tag_of (tbl_pk_type T) \<noteq> kTagNull" "range_wf (tbl_pk_type T) r" "in_family (tbl_pk_type T) pk"
  shows "sr_contains (scan_range T r d) (encode_key T pk) \<longleftrightarrow> range_contains r pk"
  using flatten_contains[OF assms(3,2,4)]
  by (auto simp: scan_range_def sr_contains_def physical_start_def physical_end_def encode_key_prefix[OF assms(1)] not_le not_less
      append_le_cancel append_less_cancel)

section \<open>The operations over any engine that keeps its contract\<close>

context kv_engine
begin

lemma find_view:
  assumes "eng_inv e" "\<not> v_is_null pk"
  shows "table_find E T pk e = (case view e (encode_key T pk) of
     None \<Rightarrow> Inl (rel_error Rel_NOT_FOUND (str ''row not found in '' @ tbl_name T)) | Some data \<Rightarrow> decode_row T data)"
  using assms by (simp add: table_find_def get_view split: option.split)

lemma put_step:
  assumes "eng_inv e" "finish_write E what (kv_put E k v e) = (r, e')"
  shows "eng_inv e' \<and> view e' = (if r = None then (view e)(k \<mapsto> v) else view e)"
  using put_view[OF assms(1), of k v] assms(2) by (cases "kv_put E k v e") (auto simp: finish_write_def split: if_splits)

text \<open>What a step does to the pairs of the store: nothing when it fails, and otherwise one put, one removal or the removal of the table.\<close>

lemma insert_step:
  assumes "eng_inv e" "table_insert E T row e = (r, e')"
  shows "eng_inv e' \<and> (if r = None then validate_row (tbl_schema T) row = SE_OK \<and> \<not> v_is_null (primary_key_of T row) \<and>
      view e (encode_key T (primary_key_of T row)) = None \<and> view e' = (view e)(encode_key T (primary_key_of T row) \<mapsto> encode_row T row)
    else view e' = view e)"
  using assms put_step[OF assms(1), of "''put''" "encode_key T (primary_key_of T row)" "encode_row T row" r e'] exists_view[OF assms(1)]
  by (auto simp: table_insert_def Let_def split: if_splits)

lemma update_step:
  assumes "eng_inv e" "table_update E T pk row e = (r, e')"
  shows "eng_inv e' \<and> (if r = None then validate_row (tbl_schema T) row = SE_OK \<and> \<not> v_is_null pk \<and> value_eq (primary_key_of T row) pk \<and>
      view e' = (view e)(encode_key T pk \<mapsto> encode_row T row) else view e' = view e)"
  using assms put_step[OF assms(1), of "''put''" "encode_key T pk" "encode_row T row" r e']
  by (auto simp: table_update_def Let_def split: if_splits)

lemma remove_step:
  assumes "eng_inv e" "table_remove E T pk e = (r, e')"
  shows "eng_inv e' \<and> view e' = (if r = None then (view e)(encode_key T pk := None) else view e)"
  using assms remove_view[OF assms(1), of "encode_key T pk"] by (auto simp: table_remove_def split: if_splits prod.splits)

lemma truncate_step:
  assumes "eng_inv e" "table_wf T" "table_truncate E T e = (r, e')"
  shows "eng_inv e' \<and> view e' = (if r = None then (\<lambda>k. if prefix (tbl_key_prefix T) k then None else view e k) else view e)"
proof -
  let ?b = "wb_remove_range (tbl_key_prefix T) (prefix_end (tbl_key_prefix T)) empty_batch"
  have "list_all op_valid (wb_ops ?b)" using prefix_interval(2)[OF assms(2)] by (simp add: op_valid_def remove_range_op_def)
  note b = batch_view[OF assms(1) this]
  have "replay (wb_ops ?b) (view e) = (\<lambda>k. if prefix (tbl_key_prefix T) k then None else view e k)"
    using prefix_interval(1)[OF assms(2)] by simp
  then show ?thesis using b assms(3) by (cases "kv_write_batch E ?b e") (auto simp: table_truncate_def finish_write_def split: if_splits)
qed

lemma update_columns_step:
  assumes "eng_inv e" "table_update_columns E T pk assignments e = (r, e')"
  shows "(r \<noteq> None \<and> e' = e) \<or> (\<exists>row updated. table_find E T pk e = Inr row \<and> assign_columns (tbl_schema T) assignments row = Inr updated \<and>
    table_update E T pk updated e = (r, e'))"
  using assms(2) by (auto simp: table_update_columns_def split: sum.splits)

lemma table_op_outside:
  assumes "eng_inv e" "table_wf T" "table_op E T op e = (r, e')"
  shows "eng_inv e' \<and> (\<forall>k. \<not> prefix (tbl_key_prefix T) k \<longrightarrow> view e' k = view e k) \<and> (r \<noteq> None \<longrightarrow> view e' = view e)"
proof -
  have other: "k \<noteq> encode_key T pk" if "\<not> prefix (tbl_key_prefix T) k" for k pk using that assms(2) by auto
  show ?thesis
  proof (cases op)
    case (T_Insert row)
    then show ?thesis using insert_step[OF assms(1), of T row r e'] assms(3) other by (cases r) auto
  next
    case (T_Update pk row)
    then show ?thesis using update_step[OF assms(1), of T pk row r e'] assms(3) other by (cases r) auto
  next
    case (T_UpdateColumns pk assignments)
    then have "table_update_columns E T pk assignments e = (r, e')" using assms(3) by simp
    from update_columns_step[OF assms(1) this] consider "r \<noteq> None" "e' = e" | updated where "table_update E T pk updated e = (r, e')" by blast
    then show ?thesis
    proof cases
      case 2
      then show ?thesis using update_step[OF assms(1) 2] other by (cases r) auto
    qed (use assms(1) in simp)
  next
    case (T_Remove pk)
    then show ?thesis using remove_step[OF assms(1), of T pk r e'] assms(3) other by (cases r) auto
  next
    case T_Truncate
    then show ?thesis using truncate_step[OF assms(1,2), of r e'] assms(3) by (cases r) auto
  qed
qed

lemma table_op_rows_ok:
  assumes "eng_inv e" "table_wf T" "op_small T op" "rows_ok T (view e)" "table_op E T op e = (r, e')"
  shows "rows_ok T (view e')"
proof -
  have upd: "rows_ok T (view e')" if u: "table_update E T pk row e = (r, e')" and small: "row_small (tbl_schema T) row" for pk row
  proof (cases r)
    case None
    then have s: "validate_row (tbl_schema T) row = SE_OK" "\<not> v_is_null pk" "value_eq (primary_key_of T row) pk"
        "view e' = (view e)(encode_key T pk \<mapsto> encode_row T row)"
      using update_step[OF assms(1) u] by auto
    have nn: "\<not> v_is_null (primary_key_of T row)" using s(2,3) by (cases pk; cases "primary_key_of T row") auto
    have "to_key_col pk (tbl_pk_type T) = to_key_col (primary_key_of T row) (tbl_pk_type T)"
      using s(2,3) nn by (cases pk; cases "primary_key_of T row") (auto simp: to_key_simps)
    then have "encode_key T pk = encode_key T (primary_key_of T row)" by (simp add: encode_key_def data_key_def)
    then show ?thesis using rows_ok_put[OF assms(2,4) s(1) small nn] s(4) by simp
  next
    case (Some x)
    then show ?thesis using update_step[OF assms(1) u] assms(4) by simp
  qed
  show ?thesis
  proof (cases op)
    case (T_Insert row)
    then show ?thesis using insert_step[OF assms(1), of T row r e'] assms rows_ok_put[OF assms(2,4), of row]
      by (cases r) (auto simp: op_small_def)
  next
    case (T_Update pk row)
    then show ?thesis using upd assms(3,5) by (simp add: op_small_def)
  next
    case (T_UpdateColumns pk assignments)
    then have u: "table_update_columns E T pk assignments e = (r, e')" using assms(5) by simp
    consider "e' = e" | row updated where "table_find E T pk e = Inr row" "assign_columns (tbl_schema T) assignments row = Inr updated"
        "table_update E T pk updated e = (r, e')" using update_columns_step[OF assms(1) u] by blast
    then show ?thesis
    proof cases
      case 2
      have "\<not> v_is_null pk" using 2(1) by (auto simp: table_find_def split: if_splits)
      then obtain data where d: "view e (encode_key T pk) = Some data" "decode_row T data = Inr row"
        using 2(1) find_view[OF assms(1)] by (auto split: option.splits)
      then have "row_small (tbl_schema T) row" using assms(2,4) unfolding rows_ok_def by fastforce
      then have "row_small (tbl_schema T) updated"
        using assign_columns_small[OF 2(2)] assms(3) T_UpdateColumns by (simp add: row_small_def op_small_def)
      then show ?thesis using upd 2(3) by blast
    qed (use assms(4) in simp)
  next
    case (T_Remove pk)
    then show ?thesis using remove_step[OF assms(1), of T pk r e'] assms by (cases r) (auto simp: rows_ok_def)
  next
    case T_Truncate
    then show ?thesis using truncate_step[OF assms(1,2), of r e'] assms by (cases r) (auto simp: rows_ok_def)
  qed
qed

text \<open>A cursor over rows that all decode returns them in the order of the iterator and then the end.\<close>

lemma next_row:
  assumes "it_inv it" "tc_it c = Some it" "tc_table c = Some T" "\<not> tc_closed c" "\<not> cur_is_error (tc_error c)"
  shows "it_rest it = [] \<Longrightarrow> tc_next E c = tc_fail end_of_stream c"
    "it_rest it = p # ps \<Longrightarrow> decode_row T (snd p) = Inr row \<Longrightarrow> tc_next E c = (Inr row, c\<lparr>tc_it := Some (it_next E it)\<rparr>)"
  using assms valid_rest[OF assms(1)] pair_rest[OF assms(1)] status_ok[OF assms(1)] by (auto simp: tc_next_def)

lemma cursor_drained:
  assumes "it_inv it" "tc_it c = Some it" "tc_table c = Some T" "\<not> tc_closed c" "\<not> cur_is_error (tc_error c)"
    and "list_all2 (\<lambda>p row. decode_row T (snd p) = Inr row) (it_rest it) rows"
  shows "drain E c = Some (Inr rows)" "count_rows E n c = Some (Inr (n + length rows))"
proof -
  have "drain E c = Some (Inr rows) \<and> count_rows E n c = Some (Inr (n + length rows))" for n
    using assms
  proof (induction rows arbitrary: it c n)
    case Nil
    then have "tc_next E c = tc_fail end_of_stream c" by (intro next_row(1)) auto
    then show ?case by (subst drain.simps, subst count_rows.simps) (simp add: tc_fail_def end_of_stream_def cursor_error_def)
  next
    case (Cons row rows)
    then obtain p ps where p: "it_rest it = p # ps" "decode_row T (snd p) = Inr row" "list_all2 (\<lambda>p row. decode_row T (snd p) = Inr row) ps rows"
      by (auto simp: list_all2_Cons2)
    let ?c = "c\<lparr>tc_it := Some (it_next E it)\<rparr>"
    have n: "tc_next E c = (Inr row, ?c)" using next_row(2)[OF Cons(2,3,4,5,6) p(1,2)] .
    have "it_inv (it_next E it)" "it_rest (it_next E it) = ps" using next_inv next_rest Cons(2) p(1) by auto
    then have "drain E ?c = Some (Inr rows) \<and> count_rows E (n + 1) ?c = Some (Inr (n + 1 + length rows))"
      using Cons(4,5,6) p(3) by (intro Cons(1)) auto
    then show ?case using n by (subst drain.simps, subst count_rows.simps) simp
  qed
  then show "drain E c = Some (Inr rows)" "count_rows E n c = Some (Inr (n + length rows))" by auto
qed

lemma scan_drained:
  assumes e: "eng_inv e" "scannable e" and T: "table_wf T" "tag_of (tbl_pk_type T) \<noteq> kTagNull" and r: "range_wf (tbl_pk_type T) r"
    and ok: "rows_ok T (view e)"
  shows "\<exists>rows. drain E (table_scan E T r asc e) = Some (Inr rows) \<and> count_rows E 0 (table_scan E T r asc e) = Some (Inr (length rows)) \<and>
    sorted_wrt (\<lambda>a b. if asc then encode_key T (primary_key_of T a) < encode_key T (primary_key_of T b)
      else encode_key T (primary_key_of T b) < encode_key T (primary_key_of T a)) rows \<and>
    set rows = {row. table_find E T (primary_key_of T row) e = Inr row \<and> range_contains r (primary_key_of T row)}"
proof -
  let ?rg = "scan_range T r (if asc then Forward else Reverse)"
  obtain it m where it: "kv_new_iterator E ?rg e = Some it" "it_inv it" "om_inv m" "om_find m = view e"
      "it_rest it = in_direction (if asc then Forward else Reverse) (materialize m ?rg)"
    using scan_view[OF e, of ?rg] by (auto simp: scan_range_def)
  define ps where "ps = materialize m ?rg"
  have ps: "ps = filter (\<lambda>p. sr_contains ?rg (fst p)) m" unfolding ps_def by (rule materialize_filter[OF it(3)])
  define f where "f p = (SOME row. decode_row T (snd p) = Inr row)" for p :: "bytes \<times> bytes"
  have inm: "p \<in> set m \<longleftrightarrow> view e (fst p) = Some (snd p)" for p
    using om_inv_distinct[OF it(3)] it(4) by (cases p) (simp add: om_find_def fun_eq_iff[symmetric] flip: it(4))
  have row: "decode_row T (snd p) = Inr (f p) \<and> validate_row (tbl_schema T) (f p) = SE_OK \<and> \<not> v_is_null (primary_key_of T (f p)) \<and>
      fst p = encode_key T (primary_key_of T (f p))" if "p \<in> set m" "prefix (tbl_key_prefix T) (fst p)" for p
    using ok that inm[of p] unfolding rows_ok_def f_def by (fastforce intro: someI2)
  have range: "sr_contains ?rg (fst p) \<longleftrightarrow> prefix (tbl_key_prefix T) (fst p) \<and> range_contains r (primary_key_of T (f p))" if p: "p \<in> set m" for p
    using scan_range_prefix[of T r "if asc then Forward else Reverse" "fst p"] row[OF p]
      scan_range_key[OF T r, of "primary_key_of T (f p)" "if asc then Forward else Reverse"] pk_family[OF T(1), of "f p"]
    by (auto simp: scan_range_def)
  let ?d = "if asc then Forward else Reverse"
  let ?rows = "map f (in_direction ?d ps)"
  have good: "decode_row T (snd p) = Inr (f p)" "fst p = encode_key T (primary_key_of T (f p))" if "p \<in> set ps" for p
    using that row[of p] range[of p] unfolding ps by auto
  have sd: "set (in_direction ?d ps) = set ps" by (simp add: in_direction_def)
  have "list_all2 (\<lambda>p row. decode_row T (snd p) = Inr row) (it_rest it) ?rows"
    using good sd it(5) by (auto simp: list_all2_map2 ps_def[symmetric] list.rel_refl_strong intro!: list_all2_same[THEN iffD2])
  then have "drain E (table_scan E T r asc e) = Some (Inr ?rows)" "count_rows E 0 (table_scan E T r asc e) = Some (Inr (length ?rows))"
    using it(1,2) cursor_drained(1)[OF it(2), of "table_cursor (Some T) r (Some it) S_OK" T ?rows]
      cursor_drained(2)[OF it(2), of "table_cursor (Some T) r (Some it) S_OK" T ?rows 0]
    by (simp_all add: table_scan_def Let_def table_cursor_def cur_is_error_def cursor_error_def)
  moreover have "sorted_wrt (\<lambda>a b. if asc then encode_key T (primary_key_of T a) < encode_key T (primary_key_of T b)
      else encode_key T (primary_key_of T b) < encode_key T (primary_key_of T a)) ?rows"
  proof -
    have "sorted_wrt (\<lambda>a b. scan_before ?d (fst a) (fst b)) (in_direction ?d ps)"
      using direction_find(2)[of ps ?d] om_inv_filter[OF it(3)] by (simp add: ps sorted_wrt_map)
    then show ?thesis unfolding sorted_wrt_map using good(2) sd by (rule_tac sorted_wrt_mono_rel) (auto simp: scan_before_def)
  qed
  moreover have "set ?rows = {row. table_find E T (primary_key_of T row) e = Inr row \<and> range_contains r (primary_key_of T row)}"
  proof -
    have "f p \<in> {row. table_find E T (primary_key_of T row) e = Inr row \<and> range_contains r (primary_key_of T row)}" if "p \<in> set ps" for p
      using that row[of p] range[of p] inm[of p] find_view[OF e(1), of "primary_key_of T (f p)" T] unfolding ps by auto
    moreover have "row \<in> f ` set ps" if f: "table_find E T (primary_key_of T row) e = Inr row" "range_contains r (primary_key_of T row)" for row
    proof -
      have nn: "\<not> v_is_null (primary_key_of T row)" using f(1) by (auto simp: table_find_def)
      obtain data where d: "view e (encode_key T (primary_key_of T row)) = Some data" "decode_row T data = Inr row"
        using f(1) find_view[OF e(1) nn, of T] by (auto split: option.splits)
      let ?p = "(encode_key T (primary_key_of T row), data)"
      have p: "?p \<in> set m" "f ?p = row" using inm[of ?p] d by (simp_all add: f_def)
      then have "?p \<in> set ps" using range[OF p(1)] f(2) T(1) unfolding ps by simp
      then show ?thesis using p(2) by (metis imageI)
    qed
    ultimately show ?thesis using sd by auto
  qed
  ultimately show ?thesis by blast
qed

end

text \<open>Any sequence of writes keeps the rows of a table well-formed.\<close>

lemma table_rows_invariant:
  assumes "session_inv i sc" "rows_ok (make_table db s) (session_view sc)" "list_all (op_small (make_table db s)) ops"
  shows "session_inv i (fold (\<lambda>op sc. snd (table_op (mock_kv i) (make_table db s) op sc)) ops sc) \<and>
    rows_ok (make_table db s) (session_view (fold (\<lambda>op sc. snd (table_op (mock_kv i) (make_table db s) op sc)) ops sc))"
  using assms
proof (induction ops arbitrary: sc)
  case (Cons op ops)
  obtain r sc' where s: "table_op (mock_kv i) (make_table db s) op sc = (r, sc')" by (cases "table_op (mock_kv i) (make_table db s) op sc")
  have "session_inv i sc'" "rows_ok (make_table db s) (session_view sc')"
    using mock_engine_kv.table_op_outside[OF Cons(2) make_table_wf s] mock_engine_kv.table_op_rows_ok[OF Cons(2) make_table_wf _ Cons(3) s] Cons(4)
    by auto
  then show ?case using Cons(1)[of sc'] Cons(4) s by simp
qed simp

section \<open>Properties\<close>

text \<open>
  C25: What is inserted can be found, and only that changes. After a successful INSERT through a connection, looking up the primary
  key of the row returns the row (up to the integer and string types that the column gives its values), every lookup under another key
  returns what it returned before, and a second INSERT under the same key is refused as a duplicate.
\<close>

theorem insert_then_find:
  assumes "session_inv i sc" "row_small s row" "table_insert (mock_kv i) (make_table db s) row sc = (None, sc')"
  shows "(\<exists>row'. table_find (mock_kv i) (make_table db s) (primary_key_of (make_table db s) row) sc' = Inr row' \<and> row_eq row' row) \<and>
    (\<forall>pk. encode_key (make_table db s) pk \<noteq> encode_key (make_table db s) (primary_key_of (make_table db s) row) \<longrightarrow>
      table_find (mock_kv i) (make_table db s) pk sc' = table_find (mock_kv i) (make_table db s) pk sc) \<and>
    (\<exists>err. table_insert (mock_kv i) (make_table db s) row sc' = (Some err, sc') \<and> rel_code err = Rel_DUPLICATE_PRIMARY_KEY)"
proof -
  let ?T = "make_table db s" let ?E = "mock_kv i"
  have st: "session_inv i sc'" "validate_row s row = SE_OK" "\<not> v_is_null (primary_key_of ?T row)"
      "session_view sc' = (session_view sc)(encode_key ?T (primary_key_of ?T row) \<mapsto> encode_row ?T row)"
    using mock_engine_kv.insert_step[OF assms(1,3)] by simp_all
  obtain row' where "decode_row ?T (encode_row ?T row) = Inr row'" "row_eq row' row"
    by (rule decode_encode_row[of ?T row]) (use st(2,3) assms(2) in simp_all)
  then have "\<exists>row'. table_find ?E ?T (primary_key_of ?T row) sc' = Inr row' \<and> row_eq row' row"
    using mock_engine_kv.find_view[OF st(1,3), of ?T] st(4) by simp
  moreover have "table_find ?E ?T pk sc' = table_find ?E ?T pk sc"
    if "encode_key ?T pk \<noteq> encode_key ?T (primary_key_of ?T row)" for pk
  proof (cases "v_is_null pk")
    case False
    then show ?thesis using that mock_engine_kv.find_view[OF st(1), of pk ?T] mock_engine_kv.find_view[OF assms(1), of pk ?T] st(4) by simp
  qed (simp add: table_find_def)
  moreover have "\<exists>err. table_insert ?E ?T row sc' = (Some err, sc') \<and> rel_code err = Rel_DUPLICATE_PRIMARY_KEY"
    using st mock_engine_kv.exists_view[OF st(1)] by (simp add: table_insert_def Let_def rel_error_def)
  ultimately show ?thesis by blast
qed

text \<open>
  C26: Tables do not touch each other. No write to one table (INSERT, UPDATE, DELETE, TRUNCATE), successful or not, changes what is found
  in a table of another name or of another database, whatever the names are; and a write that reports an error changes nothing at all.
\<close>

theorem tables_isolated:
  assumes "session_inv i sc" "table_op (mock_kv i) (make_table db s) op sc = (r, sc')"
    and "\<not> (id_eq db db' \<and> id_eq (ts_name s) (ts_name s'))"
  shows "session_inv i sc' \<and> table_find (mock_kv i) (make_table db' s') pk sc' = table_find (mock_kv i) (make_table db' s') pk sc \<and>
    (r \<noteq> None \<longrightarrow> session_view sc' = session_view sc)"
proof -
  have st: "session_inv i sc'" "\<And>k. \<not> prefix (data_prefix db (ts_name s)) k \<Longrightarrow> session_view sc' k = session_view sc k"
      "r \<noteq> None \<Longrightarrow> session_view sc' = session_view sc"
    using mock_engine_kv.table_op_outside[OF assms(1) _ assms(2)] by simp_all
  have "\<not> prefix (data_prefix db (ts_name s)) (encode_key (make_table db' s') pk)"
    using assms(3) unfolding prefix_def encode_key_prefix[OF make_table_wf]
    by (auto simp: data_prefix_append eq_commute[of "data_prefix db' (ts_name s') @ _"])
  then show ?thesis
    using st mock_engine_kv.find_view[OF st(1), of pk "make_table db' s'"] mock_engine_kv.find_view[OF assms(1), of pk "make_table db' s'"]
    by (cases "v_is_null pk") (simp_all add: table_find_def)
qed


text \<open>An example: an empty store and a table with an integer key.\<close>

definition users :: TableSchema where
  "users = build_schema (make_identifier (str ''users'')) [column_def (make_identifier (str ''id'')) INT_TYPE 0 True False]"

definition shop :: Identifier where "shop = make_identifier (str ''shop'')"

definition user_7 :: Row where "user_7 = [IntV K_INT 7]"

lemma users_facts:
  "ts_columns users = [column_def (make_identifier (str ''id'')) INT_TYPE 0 True False]" "ts_pk_index users = 0"
  "primary_key_column users = Some (column_def (make_identifier (str ''id'')) INT_TYPE 0 True False)"
  by (simp_all add: users_def schema_eval)

lemma session_start: "session_inv 1 (store0, mock_engine)" "session_scannable (store0, mock_engine)" "session_view (store0, mock_engine) = Map.empty"
  by (simp_all add: session_inv_def ready_def conn_inv_def store0_def mock_engine_def session_scannable_def session_view_def fun_eq_iff)

lemma user_7_ok: "row_small users user_7" "validate_row users user_7 = SE_OK" "primary_key_of (make_table shop users) user_7 = IntV K_INT 7"
  by (simp_all add: row_small_def value_small_def users_facts user_7_def validate_row_iff validate_value_simps is_same_family_def column_def_def
      type_family_defs can_represent_def integer_min_def integer_max_def primary_key_of_def)

definition with_user_7 :: conn_state where
  "with_user_7 = snd (table_insert (mock_kv 1) (make_table shop users) user_7 (store0, mock_engine))"

lemma user_7_inserted: "table_insert (mock_kv 1) (make_table shop users) user_7 (store0, mock_engine) = (None, with_user_7)"
proof -
  have "\<not> kv_exists (mock_kv 1) k (store0, mock_engine)" for k
    using mock_engine_kv.exists_view[OF session_start(1)] session_start(3) by simp
  moreover have "fst (kv_put (mock_kv 1) k v (store0, mock_engine)) = S_OK" for k v
    by (simp add: mock_kv_def me_put_def store0_def mock_engine_def autocommit_def ms_acquire_write_slot_def ms_put_def)
  ultimately have "fst (table_insert (mock_kv 1) (make_table shop users) user_7 (store0, mock_engine)) = None"
    using user_7_ok(2,3) by (simp add: table_insert_def Let_def finish_write_def split: prod.split) (metis fst_conv)
  then show ?thesis by (simp add: with_user_7_def prod_eq_iff)
qed

theorem insert_then_find_witness:
  "\<exists>row'. table_find (mock_kv 1) (make_table shop users) (IntV K_INT 7) with_user_7 = Inr row' \<and> row_eq row' user_7"
  using insert_then_find[OF session_start(1) user_7_ok(1) user_7_inserted] user_7_ok(3) by simp

theorem tables_isolated_witness:
  "table_find (mock_kv 1) (make_table (make_identifier (str ''shop2'')) users) (IntV K_INT 7) with_user_7 =
   table_find (mock_kv 1) (make_table (make_identifier (str ''shop2'')) users) (IntV K_INT 7) (store0, mock_engine)"
proof -
  have "\<not> id_eq shop (make_identifier (str ''shop2''))" by code_simp
  moreover have "table_op (mock_kv 1) (make_table shop users) (T_Insert user_7) (store0, mock_engine) = (None, with_user_7)"
    using user_7_inserted by simp
  ultimately show ?thesis using tables_isolated[OF session_start(1)] by blast
qed


end
