(* ===== verification/Kv_Catalog.thy ===== *)
theory Kv_Catalog imports Relation_Table Wire_Codec begin

text \<open>
  The catalog (\<^verbatim>\<open>relation/kv_catalog.cpp\<close>): lists of names, schemas and statistics under the keys of \<open>Key_Prefix\<close>, and the database
  chosen by USE. Reading records the status of the engine, so the operations that read return the catalog as well. The clock
  is an argument of the operations that ask it.
\<close>

section \<open>The formats\<close>

definition kNameListVersion :: byte where "kNameListVersion = 1"

definition kStatsVersion :: byte where "kStatsVersion = 2"

definition le_at :: "nat \<Rightarrow> bytes \<Rightarrow> uint64" where
  "le_at pos data = be_word 8 (rev (take 8 (drop pos data)))"

definition encode_stats :: "int64 \<Rightarrow> int64 \<Rightarrow> int64 \<Rightarrow> bytes" where
  "encode_stats created_at last_write_at rows =
     kStatsVersion # le_bytes 8 created_at @ le_bytes 8 last_write_at @ le_bytes 8 rows"

definition decode_stats :: "bytes \<Rightarrow> (int64 \<times> int64 \<times> int64) option" where
  "decode_stats data =
     (if data = [] then None
      else if hd data = 1 \<and> length data = 17 then Some (le_at 1 data, le_at 9 data, - 1)
      else if hd data = 2 \<and> length data = 25 then Some (le_at 1 data, le_at 9 data, le_at 17 data)
      else None)"

definition serialize_names :: "Identifier list \<Rightarrow> bytes" where
  "serialize_names names =
     kNameListVersion # concat (map (\<lambda>n. le_bytes 4 (of_nat (length (id_name n)) :: uint32) @ id_name n) names)"

definition read_name :: "(unit, bytes) reader" where
  "read_name = rd_sized (rd_le 4 () :: (unit, uint32) reader) ()"

lemma read_name_shorter: "read_name bs = Inr (name, rest) \<Longrightarrow> length rest < length bs"
  by (auto simp: read_name_def rd_sized_def rd_bind_def rd_le_def rd_take_def split: if_splits)

function parse_loop :: "bytes \<Rightarrow> Identifier list" where
  "parse_loop bs = (if bs = [] then [] else case read_name bs of
     Inl _ \<Rightarrow> [] | Inr (name, rest) \<Rightarrow> make_identifier name # parse_loop rest)"
  by pat_completeness auto
termination
  by (relation "measure length") (auto dest: read_name_shorter)

declare parse_loop.simps [simp del]

definition parse_names :: "bytes \<Rightarrow> Identifier list" where
  "parse_names data = (if data = [] \<or> hd data \<noteq> kNameListVersion then [] else parse_loop (tl data))"

section \<open>The catalog\<close>

record 'e KVCatalog =
  ct_engine :: 'e
  ct_last_read_status :: Status
  ct_current_db :: Identifier

definition kv_catalog :: "'e \<Rightarrow> 'e KVCatalog" where
  "kv_catalog e = \<lparr> ct_engine = e, ct_last_read_status = S_OK, ct_current_db = no_identifier \<rparr>"

definition ct_is_open :: "('e, 'it) KVEngine \<Rightarrow> 'e KVCatalog \<Rightarrow> bool" where
  "ct_is_open E c = kv_is_open E (ct_engine c)"

definition read_meta :: "('e, 'it) KVEngine \<Rightarrow> bytes \<Rightarrow> 'e KVCatalog \<Rightarrow> bytes \<times> 'e KVCatalog" where
  "read_meta E key c =
     (if \<not> ct_is_open E c then ([], c)
      else case kv_get E key (ct_engine c) of (status, data) \<Rightarrow>
        if status = S_NotFound then ([], c\<lparr>ct_last_read_status := S_OK\<rparr>)
        else if status \<noteq> S_OK then ([], c\<lparr>ct_last_read_status := status\<rparr>)
        else (the data, c\<lparr>ct_last_read_status := status\<rparr>))"

definition write_meta :: "('e, 'it) KVEngine \<Rightarrow> bytes \<Rightarrow> bytes \<Rightarrow> 'e KVCatalog \<Rightarrow> bool \<times> 'e KVCatalog" where
  "write_meta E key data c =
     (if \<not> ct_is_open E c then (False, c)
      else case kv_put E key data (ct_engine c) of (status, e) \<Rightarrow> (status = S_OK, c\<lparr>ct_engine := e\<rparr>))"

text \<open>\<^verbatim>\<open>engine_->remove\<close> with its status ignored, as the code calls it.\<close>

definition remove_meta :: "('e, 'it) KVEngine \<Rightarrow> bytes \<Rightarrow> 'e KVCatalog \<Rightarrow> 'e KVCatalog" where
  "remove_meta E key c = c\<lparr>ct_engine := snd (kv_remove E key (ct_engine c))\<rparr>"

definition remove_prefix :: "('e, 'it) KVEngine \<Rightarrow> bytes \<Rightarrow> 'e KVCatalog \<Rightarrow> bool \<times> 'e KVCatalog" where
  "remove_prefix E p c =
     (if \<not> ct_is_open E c \<or> p = [] then (False, c)
      else case kv_write_batch E (wb_remove_range p (prefix_end p) empty_batch) (ct_engine c) of
        (status, e) \<Rightarrow> (status = S_OK, c\<lparr>ct_engine := e\<rparr>))"

definition list_databases :: "('e, 'it) KVEngine \<Rightarrow> 'e KVCatalog \<Rightarrow> Identifier list \<times> 'e KVCatalog" where
  "list_databases E c = (case read_meta E databases_key c of (data, c) \<Rightarrow> (parse_names data, c))"

definition list_tables :: "('e, 'it) KVEngine \<Rightarrow> Identifier \<Rightarrow> 'e KVCatalog \<Rightarrow> Identifier list \<times> 'e KVCatalog" where
  "list_tables E db c = (case read_meta E (db_tables db) c of (data, c) \<Rightarrow> (parse_names data, c))"

definition write_table_list :: "('e, 'it) KVEngine \<Rightarrow> Identifier \<Rightarrow> Identifier list \<Rightarrow> 'e KVCatalog \<Rightarrow> bool \<times> 'e KVCatalog" where
  "write_table_list E db tables c = write_meta E (db_tables db) (serialize_names tables) c"

definition named :: "Identifier \<Rightarrow> Identifier list \<Rightarrow> bool" where
  "named n ns \<longleftrightarrow> list_ex (\<lambda>x. id_eq x n) ns"

definition database_exists :: "('e, 'it) KVEngine \<Rightarrow> Identifier \<Rightarrow> 'e KVCatalog \<Rightarrow> bool \<times> 'e KVCatalog" where
  "database_exists E db c = (case list_databases E c of (dbs, c) \<Rightarrow> (named db dbs, c))"

definition table_exists :: "('e, 'it) KVEngine \<Rightarrow> Identifier \<Rightarrow> Identifier \<Rightarrow> 'e KVCatalog \<Rightarrow> bool \<times> 'e KVCatalog" where
  "table_exists E db t c = (case list_tables E db c of (tables, c) \<Rightarrow> (named t tables, c))"

definition get_table_schema ::
  "('e, 'it) KVEngine \<Rightarrow> Identifier \<Rightarrow> Identifier \<Rightarrow> 'e KVCatalog \<Rightarrow> TableSchema option \<times> 'e KVCatalog" where
  "get_table_schema E db t c =
     (case read_meta E (db_schema db t) c of (data, c) \<Rightarrow>
        if data = [] then (None, c)
        else case deserialize_schema data of Inl _ \<Rightarrow> (None, c) | Inr s \<Rightarrow> (Some s, c))"

definition use_database :: "('e, 'it) KVEngine \<Rightarrow> Identifier \<Rightarrow> 'e KVCatalog \<Rightarrow> bool \<times> 'e KVCatalog" where
  "use_database E db c =
     (case database_exists E db c of (False, c) \<Rightarrow> (False, c) | (True, c) \<Rightarrow> (True, c\<lparr>ct_current_db := db\<rparr>))"

section \<open>Opening a table\<close>

definition open_table :: "('e, 'it) KVEngine \<Rightarrow> Identifier \<Rightarrow> Identifier \<Rightarrow> 'e KVCatalog \<Rightarrow> (RelError + Table) \<times> 'e KVCatalog" where
  "open_table E db t c =
     (if \<not> ct_is_open E c then (Inl (rel_error Rel_NOT_OPEN (str ''kv engine is not open'')), c)
      else case get_table_schema E db t c of
        (None, c) \<Rightarrow>
          if ct_last_read_status c \<noteq> S_OK
          then (Inl (rel_error Rel_KV_ERROR (str ''read table schema failed: '' @ str (status_to_string (ct_last_read_status c)))), c)
          else (Inl (rel_error Rel_TABLE_NOT_FOUND (str ''table not found: '' @ id_name db @ str ''.'' @ id_name t)), c)
      | (Some s, c) \<Rightarrow> (Inr (make_table db s), c))"

definition open_current_table :: "('e, 'it) KVEngine \<Rightarrow> Identifier \<Rightarrow> 'e KVCatalog \<Rightarrow> (RelError + Table) \<times> 'e KVCatalog" where
  "open_current_table E t c =
     (if id_name (ct_current_db c) = [] then (Inl (rel_error Rel_NOT_OPEN (str ''no database selected'')), c)
      else open_table E (ct_current_db c) t c)"

definition primary_key_exists ::
  "('e, 'it) KVEngine \<Rightarrow> Identifier \<Rightarrow> Identifier \<Rightarrow> Value \<Rightarrow> 'e KVCatalog \<Rightarrow> bool option \<times> 'e KVCatalog" where
  "primary_key_exists E db t pk c =
     (if \<not> ct_is_open E c \<or> id_name db = [] \<or> id_name t = [] \<or> v_is_null pk then (None, c)
      else case open_table E db t c of
        (Inl _, c) \<Rightarrow> (None, c)
      | (Inr T, c) \<Rightarrow>
          (case table_find E T pk (ct_engine c) of
             Inr _ \<Rightarrow> Some True
           | Inl err \<Rightarrow> if rel_code err = Rel_NOT_FOUND then Some False else None, c))"

section \<open>Data definition\<close>

fun erase_name :: "Identifier \<Rightarrow> Identifier list \<Rightarrow> Identifier list" where
  "erase_name n [] = []"
| "erase_name n (x # xs) = (if id_eq x n then xs else x # erase_name n xs)"

definition create_database :: "('e, 'it) KVEngine \<Rightarrow> int64 \<Rightarrow> Identifier \<Rightarrow> 'e KVCatalog \<Rightarrow> bool \<times> 'e KVCatalog" where
  "create_database E now db c =
     (if \<not> ct_is_open E c \<or> id_name db = [] then (False, c)
      else case database_exists E db c of
        (True, c) \<Rightarrow> (False, c)
      | (False, c) \<Rightarrow>
          (case list_databases E c of (dbs, c) \<Rightarrow>
             case write_meta E databases_key (serialize_names (dbs @ [db])) c of
               (False, c) \<Rightarrow> (False, c)
             | (True, c) \<Rightarrow>
                 (case write_table_list E db [] c of
                    (False, c) \<Rightarrow> (False, snd (write_meta E databases_key (serialize_names dbs) c))
                  | (True, c) \<Rightarrow> (True, snd (write_meta E (db_stats db) (encode_stats now 0 (- 1)) c)))))"

definition drop_database :: "('e, 'it) KVEngine \<Rightarrow> Identifier \<Rightarrow> 'e KVCatalog \<Rightarrow> bool \<times> 'e KVCatalog" where
  "drop_database E db c =
     (if \<not> ct_is_open E c then (False, c)
      else case database_exists E db c of (False, c) \<Rightarrow> (False, c) | (True, c) \<Rightarrow>
        (case remove_prefix E (db_schema_prefix db) c of (False, c) \<Rightarrow> (False, c) | (True, c) \<Rightarrow>
        (case remove_prefix E (db_data_prefix db) c of (False, c) \<Rightarrow> (False, c) | (True, c) \<Rightarrow>
        (case remove_prefix E (table_stats_prefix db) c of (False, c) \<Rightarrow> (False, c) | (True, c) \<Rightarrow>
           let c = remove_meta E (db_tables db) (remove_meta E (db_stats db) c)
           in case list_databases E c of (dbs, c) \<Rightarrow>
                (case write_meta E databases_key (serialize_names (erase_name db dbs)) c of
                   (False, c) \<Rightarrow> (False, c)
                 | (True, c) \<Rightarrow> (True, if id_eq (ct_current_db c) db then c\<lparr>ct_current_db := no_identifier\<rparr> else c))))))"

definition create_table :: "('e, 'it) KVEngine \<Rightarrow> int64 \<Rightarrow> Identifier \<Rightarrow> TableSchema \<Rightarrow> 'e KVCatalog \<Rightarrow> bool \<times> 'e KVCatalog" where
  "create_table E now db s c =
     (if \<not> ct_is_open E c then (False, c)
      else case database_exists E db c of (False, c) \<Rightarrow> (False, c) | (True, c) \<Rightarrow>
        if ts_columns s = [] then (False, c)
        else case table_exists E db (ts_name s) c of (True, c) \<Rightarrow> (False, c) | (False, c) \<Rightarrow>
          if validate s \<noteq> SE_OK then (False, c)
          else case write_meta E (db_schema db (ts_name s)) (serialize_schema s) c of (False, c) \<Rightarrow> (False, c) | (True, c) \<Rightarrow>
            let c = snd (write_meta E (table_stats_key db (ts_name s)) (encode_stats now 0 0) c)
            in case list_tables E db c of (tables, c) \<Rightarrow>
                 (case write_table_list E db (tables @ [ts_name s]) c of
                    (False, c) \<Rightarrow> (False, remove_meta E (db_schema db (ts_name s)) c)
                  | (True, c) \<Rightarrow> (True, c)))"

definition drop_table :: "('e, 'it) KVEngine \<Rightarrow> Identifier \<Rightarrow> Identifier \<Rightarrow> 'e KVCatalog \<Rightarrow> bool \<times> 'e KVCatalog" where
  "drop_table E db t c =
     (if \<not> ct_is_open E c then (False, c)
      else case database_exists E db c of (False, c) \<Rightarrow> (False, c) | (True, c) \<Rightarrow>
        case table_exists E db t c of (False, c) \<Rightarrow> (False, c) | (True, c) \<Rightarrow>
          case remove_prefix E (data_prefix db t) c of (False, c) \<Rightarrow> (False, c) | (True, c) \<Rightarrow>
            let c = remove_meta E (table_stats_key db t) (remove_meta E (db_schema db t) c)
            in case list_tables E db c of (tables, c) \<Rightarrow> write_table_list E db (erase_name t tables) c)"

section \<open>Statistics\<close>

record TableStats =
  st_created_at :: int64
  st_last_write_at :: int64
  st_row_count :: int64

definition database_stats :: "('e, 'it) KVEngine \<Rightarrow> Identifier \<Rightarrow> 'e KVCatalog \<Rightarrow> (RelError + int64) \<times> 'e KVCatalog" where
  "database_stats E db c =
     (case database_exists E db c of
        (False, c) \<Rightarrow> (Inl (rel_error Rel_NOT_FOUND (str ''database not found: '' @ id_name db)), c)
      | (True, c) \<Rightarrow> (case read_meta E (db_stats db) c of (data, c) \<Rightarrow>
          (Inr (case decode_stats data of None \<Rightarrow> 0 | Some (created_at, _) \<Rightarrow> created_at), c)))"

definition table_stats :: "('e, 'it) KVEngine \<Rightarrow> Identifier \<Rightarrow> Identifier \<Rightarrow> 'e KVCatalog \<Rightarrow> (RelError + TableStats) \<times> 'e KVCatalog" where
  "table_stats E db t c =
     (case table_exists E db t c of
        (False, c) \<Rightarrow> (Inl (rel_error Rel_TABLE_NOT_FOUND (str ''table not found: '' @ id_name db @ str ''.'' @ id_name t)), c)
      | (True, c) \<Rightarrow> (case read_meta E (table_stats_key db t) c of (data, c) \<Rightarrow>
          (Inr (case decode_stats data of
             None \<Rightarrow> \<lparr> st_created_at = 0, st_last_write_at = 0, st_row_count = - 1 \<rparr>
           | Some (created_at, last_write_at, rows) \<Rightarrow>
               \<lparr> st_created_at = created_at, st_last_write_at = last_write_at, st_row_count = rows \<rparr>), c)))"

definition touch_table ::
  "('e, 'it) KVEngine \<Rightarrow> int64 \<Rightarrow> Identifier \<Rightarrow> Identifier \<Rightarrow> int64 \<Rightarrow> 'e KVCatalog \<Rightarrow> bool \<times> 'e KVCatalog" where
  "touch_table E now db t row_delta c =
     (case table_exists E db t c of (False, c) \<Rightarrow> (False, c) | (True, c) \<Rightarrow>
        (case table_stats E db t c of (stats, c) \<Rightarrow>
           let created = (case stats of Inr st \<Rightarrow> st_created_at st | Inl _ \<Rightarrow> 0);
               rows = (case stats of Inr st \<Rightarrow> st_row_count st | Inl _ \<Rightarrow> - 1);
               rows = (if 0 \<le> sint rows then (if sint (rows + row_delta) < 0 then 0 else rows + row_delta) else rows)
           in write_meta E (table_stats_key db t) (encode_stats created now rows) c))"

section \<open>Names and keys\<close>

definition name_ok :: "Identifier \<Rightarrow> bool" where
  "name_ok n \<longleftrightarrow> id_wf n \<and> \<not> in_quotes (id_name n) \<and> length (id_name n) < 2 ^ 32"

lemma name_reread: "name_ok n \<Longrightarrow> make_identifier (id_name n) = n\<lparr>id_quoted := False\<rparr>"
  by (cases n) (simp add: name_ok_def make_identifier_def id_wf_def)

lemma read_name_bytes:
  assumes "length name < 2 ^ 32"
  shows "read_name ((le_bytes 4 (of_nat (length name) :: uint32) @ name) @ rest) = Inr (name, rest)"
proof -
  have "unat (of_nat (length name) :: uint32) = length name" using assms by (simp add: unsigned_of_nat take_bit_nat_eq_self)
  moreover have "rd_le 4 () (le_bytes 4 v @ r) = Inr (v :: uint32, r)" for v r by (simp add: rd_le_Inr)
  ultimately show ?thesis by (simp add: read_name_def rd_sized_def rd_bind_def rd_take_def)
qed

lemma parse_serialize_names:
  assumes "list_all name_ok names"
  shows "parse_names (serialize_names names) = map (\<lambda>n. n\<lparr>id_quoted := False\<rparr>) names"
proof -
  have "parse_loop (concat (map (\<lambda>n. le_bytes 4 (of_nat (length (id_name n)) :: uint32) @ id_name n) names)) =
      map (\<lambda>n. n\<lparr>id_quoted := False\<rparr>) names"
    using assms
  proof (induction names)
    case (Cons n names)
    let ?f = "\<lambda>n. le_bytes 4 (of_nat (length (id_name n)) :: uint32) @ id_name n"
    have "read_name (?f n @ concat (map ?f names)) = Inr (id_name n, concat (map ?f names))"
      using Cons(2) by (intro read_name_bytes) (simp add: name_ok_def)
    moreover have "length (le_bytes 4 v) = 4" for v :: uint32 by (simp add: le_bytes_def)
    then have "le_bytes 4 v \<noteq> []" for v :: uint32 by (metis length_0_conv zero_neq_numeral)
    ultimately show ?case using Cons by (subst parse_loop.simps) (simp add: name_reread)
  qed (subst parse_loop.simps, simp)
  then show ?thesis by (simp add: parse_names_def serialize_names_def)
qed

text \<open>The keys of the catalog are distinct from each other and from the keys of the tables.\<close>

lemma system_keys [simp]:
  "db_schema db t \<noteq> table_stats_key db' t'" "table_stats_key db t \<noteq> db_schema db' t'" "db_schema db t \<noteq> db_tables db'" "db_tables db' \<noteq> db_schema db t"
  "table_stats_key db t \<noteq> db_tables db'" "db_tables db' \<noteq> table_stats_key db t" "databases_key \<noteq> db_schema db t" "databases_key \<noteq> table_stats_key db t"
  "databases_key \<noteq> db_tables db" "db_schema db t \<noteq> databases_key" "table_stats_key db t \<noteq> databases_key" "db_tables db \<noteq> databases_key"
  "\<not> prefix (data_prefix a b) (db_schema db t)" "\<not> prefix (data_prefix a b) (table_stats_key db t)" "\<not> prefix (data_prefix a b) (db_tables db)"
  "\<not> prefix (data_prefix a b) databases_key"
  by (simp_all add: db_schema_def table_stats_key_def db_tables_def databases_key_def data_prefix_def)

lemma data_key_not_system [simp]:
  "encode_key T pk \<noteq> db_schema db t" "encode_key T pk \<noteq> table_stats_key db t" "encode_key T pk \<noteq> db_tables db" "encode_key T pk \<noteq> databases_key"
  by (simp_all add: encode_key_def data_key_def data_prefix_def db_schema_def table_stats_key_def db_tables_def databases_key_def)

lemma erase_name_subset: "x \<in> set (erase_name n xs) \<Longrightarrow> x \<in> set xs"
  by (induction xs) (auto split: if_splits)

lemma db_schema_eq: "db_schema db t = db_schema db' t' \<longleftrightarrow> id_eq db db' \<and> id_eq t t'"
  by (auto simp: db_schema_def encode_identifier_append encode_identifier_eq)

lemma db_tables_eq: "db_tables db = db_tables db' \<longleftrightarrow> id_eq db db'"
  by (simp add: db_tables_def encode_identifier_eq)

section \<open>The operations over any engine that keeps its contract\<close>

definition meta_data :: "(bytes \<rightharpoonup> bytes) \<Rightarrow> bytes \<Rightarrow> bytes" where
  "meta_data m k = (case m k of None \<Rightarrow> [] | Some v \<Rightarrow> v)"

abbreviation tables_of :: "(bytes \<rightharpoonup> bytes) \<Rightarrow> Identifier \<Rightarrow> Identifier list" where
  "tables_of m db \<equiv> parse_names (meta_data m (db_tables db))"

abbreviation databases_of :: "(bytes \<rightharpoonup> bytes) \<Rightarrow> Identifier list" where
  "databases_of m \<equiv> parse_names (meta_data m databases_key)"

context kv_writer
begin

lemma read_meta_view:
  "eng_inv (ct_engine c) \<Longrightarrow> read_meta E k c = (meta_data (view (ct_engine c)) k, c\<lparr>ct_last_read_status := S_OK\<rparr>)"
  by (simp add: read_meta_def ct_is_open_def opened get_view meta_data_def split: option.split)

lemma catalog_reads:
  assumes "eng_inv (ct_engine c)"
  shows "list_tables E db c = (tables_of (view (ct_engine c)) db, c\<lparr>ct_last_read_status := S_OK\<rparr>)"
    "list_databases E c = (databases_of (view (ct_engine c)), c\<lparr>ct_last_read_status := S_OK\<rparr>)"
    "database_exists E db c = (named db (databases_of (view (ct_engine c))), c\<lparr>ct_last_read_status := S_OK\<rparr>)"
    "table_exists E db t c = (named t (tables_of (view (ct_engine c)) db), c\<lparr>ct_last_read_status := S_OK\<rparr>)"
  using assms by (simp_all add: list_tables_def list_databases_def database_exists_def table_exists_def read_meta_view)

lemma write_meta_step:
  assumes "eng_inv (ct_engine c)" "write_meta E k v c = (ok, c')"
  shows "eng_inv (ct_engine c') \<and> view (ct_engine c') = (if ok then (view (ct_engine c))(k \<mapsto> v) else view (ct_engine c)) \<and>
    (ok \<longrightarrow> writable (ct_engine c')) \<and> (writable (ct_engine c) \<longrightarrow> ok) \<and> ct_current_db c' = ct_current_db c"
proof -
  obtain st e where p: "kv_put E k v (ct_engine c) = (st, e)" by (cases "kv_put E k v (ct_engine c)")
  then have "ok = (st = S_OK)" "c' = c\<lparr>ct_engine := e\<rparr>" using assms by (auto simp: write_meta_def ct_is_open_def opened)
  then show ?thesis using put_view[OF assms(1) p] put_writable[OF assms(1)] writable_put[OF assms(1), of k v] p by auto
qed

lemma remove_meta_step:
  assumes "eng_inv (ct_engine c)" "writable (ct_engine c)"
  shows "eng_inv (ct_engine (remove_meta E k c)) \<and> view (ct_engine (remove_meta E k c)) = (view (ct_engine c))(k := None) \<and>
    writable (ct_engine (remove_meta E k c)) \<and> ct_current_db (remove_meta E k c) = ct_current_db c"
proof -
  obtain st e where r: "kv_remove E k (ct_engine c) = (st, e)" by (cases "kv_remove E k (ct_engine c)")
  then show ?thesis using remove_view[OF assms(1) r] writable_remove[OF assms r] by (auto simp: remove_meta_def)
qed

lemma remove_prefix_step:
  assumes "eng_inv (ct_engine c)" "remove_prefix E (p @ str ''/'') c = (ok, c')"
  shows "eng_inv (ct_engine c') \<and> view (ct_engine c') = (if ok then (\<lambda>k. if prefix (p @ str ''/'') k then None else view (ct_engine c) k) else view (ct_engine c)) \<and>
    (ok \<longrightarrow> writable (ct_engine c')) \<and> ct_current_db c' = ct_current_db c"
proof -
  let ?b = "wb_remove_range (p @ str ''/'') (prefix_end (p @ str ''/'')) empty_batch"
  obtain st e where w: "kv_write_batch E ?b (ct_engine c) = (st, e)" by (cases "kv_write_batch E ?b (ct_engine c)")
  have v: "list_all op_valid (wb_ops ?b)" using slash_interval(2)[of p] by (simp add: op_valid_def remove_range_op_def)
  have "replay (wb_ops ?b) (view (ct_engine c)) = (\<lambda>k. if prefix (p @ str ''/'') k then None else view (ct_engine c) k)"
    using slash_interval(1)[of p] by simp
  then have "eng_inv e \<and> view e = (if st = S_OK then (\<lambda>k. if prefix (p @ str ''/'') k then None else view (ct_engine c) k) else view (ct_engine c))"
    using batch_view[OF assms(1) v w] by (simp only:)
  moreover have "st = S_OK \<Longrightarrow> writable e" using batch_writable[OF assms(1), of ?b e] w by simp
  moreover have "ok = (st = S_OK)" "c' = c\<lparr>ct_engine := e\<rparr>" using assms w by (auto simp: remove_prefix_def ct_is_open_def opened)
  ultimately show ?thesis by simp
qed

lemma create_table_step:
  assumes inv: "eng_inv (ct_engine c)" and r: "create_table E now db s c = (True, c')"
  shows "eng_inv (ct_engine c') \<and> validate s = SE_OK \<and> named db (databases_of (view (ct_engine c))) \<and>
    \<not> named (ts_name s) (tables_of (view (ct_engine c)) db) \<and>
    view (ct_engine c') = (view (ct_engine c))(db_schema db (ts_name s) \<mapsto> serialize_schema s,
      table_stats_key db (ts_name s) \<mapsto> encode_stats now 0 0,
      db_tables db \<mapsto> serialize_names (tables_of (view (ct_engine c)) db @ [ts_name s]))"
proof -
  let ?m = "view (ct_engine c)"
  let ?c0 = "c\<lparr>ct_last_read_status := S_OK\<rparr>"
  have o: "ct_is_open E c" using inv by (simp add: ct_is_open_def opened)
  have g: "named db (databases_of ?m)" "\<not> named (ts_name s) (tables_of ?m db)" "validate s = SE_OK" "ts_columns s \<noteq> []"
    using r o inv by (auto simp: create_table_def catalog_reads split: if_splits bool.splits)
  obtain ok1 c1 where w1: "write_meta E (db_schema db (ts_name s)) (serialize_schema s) ?c0 = (ok1, c1)"
    by (cases "write_meta E (db_schema db (ts_name s)) (serialize_schema s) ?c0")
  then have s1: ok1 "eng_inv (ct_engine c1)" "view (ct_engine c1) = ?m(db_schema db (ts_name s) \<mapsto> serialize_schema s)" "writable (ct_engine c1)"
    using write_meta_step[OF _ w1] r o inv g by (auto simp: create_table_def catalog_reads split: bool.splits)
  obtain ok2 c2 where w2: "write_meta E (table_stats_key db (ts_name s)) (encode_stats now 0 0) c1 = (ok2, c2)"
    by (cases "write_meta E (table_stats_key db (ts_name s)) (encode_stats now 0 0) c1")
  have s2: "eng_inv (ct_engine c2)" "view (ct_engine c2) = ?m(db_schema db (ts_name s) \<mapsto> serialize_schema s, table_stats_key db (ts_name s) \<mapsto> encode_stats now 0 0)"
    using write_meta_step[OF s1(2) w2] s1(3,4) by auto
  have t: "tables_of (view (ct_engine c2)) db = tables_of ?m db" using s2(2) by (simp add: meta_data_def)
  have "write_table_list E db (tables_of ?m db @ [ts_name s]) (c2\<lparr>ct_last_read_status := S_OK\<rparr>) = (True, c')"
    using r o inv g w1 s1(1) w2 s2(1) t by (auto simp: create_table_def catalog_reads split: bool.splits prod.splits)
  then show ?thesis using write_meta_step[of "c2\<lparr>ct_last_read_status := S_OK\<rparr>"] s2 g by (auto simp: write_table_list_def)
qed

lemma drop_table_step:
  assumes inv: "eng_inv (ct_engine c)" and r: "drop_table E db t c = (True, c')"
  shows "eng_inv (ct_engine c') \<and> named t (tables_of (view (ct_engine c)) db) \<and>
    view (ct_engine c') = (\<lambda>k. if prefix (data_prefix db t) k \<or> k = db_schema db t \<or> k = table_stats_key db t then None
      else if k = db_tables db then Some (serialize_names (erase_name t (tables_of (view (ct_engine c)) db))) else view (ct_engine c) k)"
proof -
  let ?m = "view (ct_engine c)"
  let ?c0 = "c\<lparr>ct_last_read_status := S_OK\<rparr>"
  have o: "ct_is_open E c" using inv by (simp add: ct_is_open_def opened)
  have g: "named db (databases_of ?m)" "named t (tables_of ?m db)"
    using r o inv by (auto simp: drop_table_def catalog_reads split: if_splits bool.splits)
  obtain ok1 c1 where w1: "remove_prefix E (data_prefix db t) ?c0 = (ok1, c1)" by (cases "remove_prefix E (data_prefix db t) ?c0")
  have sl: "data_prefix db t = (str ''@data/'' @ encode_identifier db @ str ''/'' @ encode_identifier t) @ str ''/''" by (simp add: data_prefix_def)
  note rp = remove_prefix_step[of ?c0 "str ''@data/'' @ encode_identifier db @ str ''/'' @ encode_identifier t", folded sl]
  have s1: ok1 "eng_inv (ct_engine c1)" "view (ct_engine c1) = (\<lambda>k. if prefix (data_prefix db t) k then None else ?m k)" "writable (ct_engine c1)"
    using rp[OF _ w1] r o inv g w1 by (auto simp: drop_table_def catalog_reads split: bool.splits)
  let ?c2 = "remove_meta E (table_stats_key db t) (remove_meta E (db_schema db t) c1)"
  have s2: "eng_inv (ct_engine ?c2)" "view (ct_engine ?c2) = (view (ct_engine c1))(db_schema db t := None, table_stats_key db t := None)"
    using remove_meta_step[OF s1(2,4), of "db_schema db t"] remove_meta_step[of "remove_meta E (db_schema db t) c1" "table_stats_key db t"] by auto
  have t: "tables_of (view (ct_engine ?c2)) db = tables_of ?m db" using s2(2) s1(3) by (simp add: meta_data_def)
  have "write_table_list E db (erase_name t (tables_of ?m db)) (?c2\<lparr>ct_last_read_status := S_OK\<rparr>) = (True, c')"
    using r o inv g w1 s1(1) s2(1) t by (simp add: drop_table_def catalog_reads Let_def)
  then show ?thesis using write_meta_step[of "?c2\<lparr>ct_last_read_status := S_OK\<rparr>"] s2 s1(3) g
    by (auto simp: write_table_list_def fun_eq_iff)
qed

lemma open_table_view:
  assumes "eng_inv (ct_engine c)"
  shows "fst (open_table E db t c) =
    (if meta_data (view (ct_engine c)) (db_schema db t) = []
     then Inl (rel_error Rel_TABLE_NOT_FOUND (str ''table not found: '' @ id_name db @ str ''.'' @ id_name t))
     else case deserialize_schema (meta_data (view (ct_engine c)) (db_schema db t)) of
       Inl _ \<Rightarrow> Inl (rel_error Rel_TABLE_NOT_FOUND (str ''table not found: '' @ id_name db @ str ''.'' @ id_name t))
     | Inr s \<Rightarrow> Inr (make_table db s))"
  using assms by (simp add: open_table_def get_table_schema_def read_meta_view ct_is_open_def opened split: sum.split)

lemma create_database_step:
  assumes inv: "eng_inv (ct_engine c)" and r: "create_database E now db c = (True, c')"
  shows "eng_inv (ct_engine c') \<and> \<not> named db (databases_of (view (ct_engine c))) \<and>
    view (ct_engine c') = (view (ct_engine c))(databases_key \<mapsto> serialize_names (databases_of (view (ct_engine c)) @ [db]),
      db_tables db \<mapsto> serialize_names [], db_stats db \<mapsto> encode_stats now 0 (- 1))"
proof -
  let ?m = "view (ct_engine c)"
  let ?c0 = "c\<lparr>ct_last_read_status := S_OK\<rparr>"
  let ?names = "serialize_names (databases_of ?m @ [db])"
  have o: "ct_is_open E c" using inv by (simp add: ct_is_open_def opened)
  have g: "id_name db \<noteq> []" "\<not> named db (databases_of ?m)"
    using r o inv by (auto simp: create_database_def catalog_reads split: if_splits bool.splits)
  obtain ok1 c1 where w1: "write_meta E databases_key ?names ?c0 = (ok1, c1)" by (cases "write_meta E databases_key ?names ?c0")
  then have s1: ok1 "eng_inv (ct_engine c1)" "view (ct_engine c1) = ?m(databases_key \<mapsto> ?names)" "writable (ct_engine c1)"
    using write_meta_step[OF _ w1] r o inv g by (auto simp: create_database_def catalog_reads split: bool.splits)
  obtain ok2 c2 where w2: "write_table_list E db [] c1 = (ok2, c2)" by (cases "write_table_list E db [] c1")
  then have s2: ok2 "eng_inv (ct_engine c2)" "view (ct_engine c2) = ?m(databases_key \<mapsto> ?names, db_tables db \<mapsto> serialize_names [])" "writable (ct_engine c2)"
    using write_meta_step[OF s1(2), of "db_tables db" "serialize_names []" ok2 c2] s1(3,4) by (auto simp: write_table_list_def)
  obtain ok3 c3 where w3: "write_meta E (db_stats db) (encode_stats now 0 (- 1)) c2 = (ok3, c3)"
    by (cases "write_meta E (db_stats db) (encode_stats now 0 (- 1)) c2")
  moreover have "c' = c3" using r o inv g w1 w2 w3 s1(1) s2(1) by (simp add: create_database_def catalog_reads)
  ultimately show ?thesis using write_meta_step[OF s2(2) w3] s2(3,4) g by auto
qed

end

section \<open>Data definition on the in-memory engine\<close>

lemma create_table_exact:
  assumes "session_inv i (ct_engine c)" "create_table (mock_kv i) now db s c = (True, c')" "schema_inv s" "schema_fits s"
    and "list_all name_ok (fst (list_tables (mock_kv i) db c))"
  shows "fst (database_exists (mock_kv i) db c) \<and> \<not> fst (table_exists (mock_kv i) db (ts_name s) c) \<and> validate s = SE_OK \<and>
    (\<exists>s'. fst (open_table (mock_kv i) db (ts_name s) c') = Inr (make_table db s') \<and> schema_eq s' s) \<and>
    map id_normalized (fst (list_tables (mock_kv i) db c')) = map id_normalized (fst (list_tables (mock_kv i) db c) @ [ts_name s]) \<and>
    (\<forall>db' t' s' pk. \<not> (id_eq db db' \<and> id_eq (ts_name s) t') \<longrightarrow>
      fst (open_table (mock_kv i) db' t' c') = fst (open_table (mock_kv i) db' t' c) \<and>
      table_find (mock_kv i) (make_table db' s') pk (ct_engine c') = table_find (mock_kv i) (make_table db' s') pk (ct_engine c))"
proof -
  let ?E = "mock_kv i" let ?m = "session_view (ct_engine c)"
  have st: "session_inv i (ct_engine c')" "validate s = SE_OK" "named db (databases_of ?m)" "\<not> named (ts_name s) (tables_of ?m db)"
      "session_view (ct_engine c') = ?m(db_schema db (ts_name s) \<mapsto> serialize_schema s, table_stats_key db (ts_name s) \<mapsto> encode_stats now 0 0,
        db_tables db \<mapsto> serialize_names (tables_of ?m db @ [ts_name s]))"
    using mock_writer.create_table_step[OF assms(1,2)] by auto
  note reads = mock_writer.catalog_reads[OF assms(1)] mock_writer.catalog_reads[OF st(1)]
  obtain s' where s': "deserialize_schema (serialize_schema s) = Inr s'" "schema_eq s' s"
    using schema_reread[OF assms(3,4)] by blast
  have "deserialize_schema [] = Inl INVALID_FORMAT" by code_simp
  then have "serialize_schema s \<noteq> []" using s'(1) by auto
  then have "fst (open_table ?E db (ts_name s) c') = Inr (make_table db s')"
    using mock_writer.open_table_view[OF st(1), of db "ts_name s"] st(5) s'(1) by (simp add: meta_data_def)
  moreover have "map id_normalized (tables_of (session_view (ct_engine c')) db) = map id_normalized (tables_of ?m db @ [ts_name s])"
  proof -
    have "name_ok (ts_name s)" using assms(4) by (simp add: schema_fits_def name_ok_def)
    then have "list_all name_ok (tables_of ?m db @ [ts_name s])" using assms(5) reads(1) by simp
    then show ?thesis using parse_serialize_names st(5) by (simp add: meta_data_def)
  qed
  moreover have "fst (open_table ?E db' t' c') = fst (open_table ?E db' t' c)" if "\<not> (id_eq db db' \<and> id_eq (ts_name s) t')" for db' t'
  proof -
    have "db_schema db' t' \<noteq> db_schema db (ts_name s)" using that db_schema_eq id_eq_equiv(2) by blast
    then show ?thesis using mock_writer.open_table_view[OF st(1)] mock_writer.open_table_view[OF assms(1)] st(5) by (simp add: meta_data_def)
  qed
  moreover have "table_find ?E (make_table db' s') pk (ct_engine c') = table_find ?E (make_table db' s') pk (ct_engine c)" for db' s' pk
  proof -
    have "session_view (ct_engine c') (encode_key (make_table db' s') pk) = ?m (encode_key (make_table db' s') pk)"
      using st(5) data_key_not_system by simp
    then show ?thesis
      using mock_engine_kv.find_view[OF st(1), of pk "make_table db' s'"] mock_engine_kv.find_view[OF assms(1), of pk "make_table db' s'"]
      by (cases "v_is_null pk") (simp_all add: table_find_def)
  qed
  ultimately show ?thesis using s'(2) st(2,3,4) unfolding reads fst_conv by blast
qed

lemma drop_table_exact:
  assumes "session_inv i (ct_engine c)" "drop_table (mock_kv i) db t c = (True, c')"
    and "list_all name_ok (fst (list_tables (mock_kv i) db c))"
  shows "(\<exists>err. fst (open_table (mock_kv i) db t c') = Inl err \<and> rel_code err = Rel_TABLE_NOT_FOUND) \<and>
    (\<forall>s pk. id_eq t (ts_name s) \<and> \<not> v_is_null pk \<longrightarrow>
      (\<exists>err. table_find (mock_kv i) (make_table db s) pk (ct_engine c') = Inl err \<and> rel_code err = Rel_NOT_FOUND)) \<and>
    map id_normalized (fst (list_tables (mock_kv i) db c')) = map id_normalized (erase_name t (fst (list_tables (mock_kv i) db c))) \<and>
    (\<forall>db' t' s' pk. \<not> (id_eq db db' \<and> id_eq t t') \<and> id_eq t' (ts_name s') \<longrightarrow>
      fst (open_table (mock_kv i) db' t' c') = fst (open_table (mock_kv i) db' t' c) \<and>
      table_find (mock_kv i) (make_table db' s') pk (ct_engine c') = table_find (mock_kv i) (make_table db' s') pk (ct_engine c))"
proof -
  let ?E = "mock_kv i" let ?m = "session_view (ct_engine c)"
  have st: "session_inv i (ct_engine c')" "session_view (ct_engine c') = (\<lambda>k. if prefix (data_prefix db t) k \<or> k = db_schema db t \<or> k = table_stats_key db t then None
      else if k = db_tables db then Some (serialize_names (erase_name t (tables_of ?m db))) else ?m k)"
    using mock_writer.drop_table_step[OF assms(1,2)] by auto
  note reads = mock_writer.catalog_reads(1)[OF assms(1)] mock_writer.catalog_reads(1)[OF st(1)]
  have "\<exists>err. fst (open_table ?E db t c') = Inl err \<and> rel_code err = Rel_TABLE_NOT_FOUND"
    using mock_writer.open_table_view[OF st(1), of db t] st(2) by (simp add: meta_data_def rel_error_def)
  moreover have "\<exists>err. table_find ?E (make_table db s) pk (ct_engine c') = Inl err \<and> rel_code err = Rel_NOT_FOUND"
    if "id_eq t (ts_name s)" "\<not> v_is_null pk" for s pk
  proof -
    have "prefix (data_prefix db t) (encode_key (make_table db s) pk)"
      using that(1) data_prefix_append[of db t "to_key_col pk (tbl_pk_type (make_table db s))" db "ts_name s"]
      unfolding encode_key_prefix[OF make_table_wf] by (metis id_eq_equiv(1) make_table_simps(3) prefixI)
    then show ?thesis using mock_engine_kv.find_view[OF st(1) that(2), of "make_table db s"] st(2) by (simp add: rel_error_def)
  qed
  moreover have "map id_normalized (tables_of (session_view (ct_engine c')) db) = map id_normalized (erase_name t (tables_of ?m db))"
  proof -
    have "list_all name_ok (erase_name t (tables_of ?m db))" using assms(3) reads(1) erase_name_subset by (fastforce simp: list_all_iff)
    then show ?thesis using parse_serialize_names st(2) by (simp add: meta_data_def)
  qed
  moreover have "fst (open_table ?E db' t' c') = fst (open_table ?E db' t' c)" if "\<not> (id_eq db db' \<and> id_eq t t')" for db' t'
  proof -
    have "db_schema db' t' \<noteq> db_schema db t" using that db_schema_eq id_eq_equiv(2) by blast
    then show ?thesis using mock_writer.open_table_view[OF st(1)] mock_writer.open_table_view[OF assms(1)] st(2) by (simp add: meta_data_def)
  qed
  moreover have "table_find ?E (make_table db' s') pk (ct_engine c') = table_find ?E (make_table db' s') pk (ct_engine c)"
    if "\<not> (id_eq db db' \<and> id_eq t t')" "id_eq t' (ts_name s')" for db' t' s' pk
  proof -
    have "\<not> (id_eq db db' \<and> id_eq t (ts_name s'))" using that by (auto simp: id_eq_def)
    then have "\<not> prefix (data_prefix db t) (encode_key (make_table db' s') pk)"
      unfolding prefix_def encode_key_prefix[OF make_table_wf] by (auto simp: data_prefix_append eq_commute[of "data_prefix db' (ts_name s') @ _"])
    then have "session_view (ct_engine c') (encode_key (make_table db' s') pk) = ?m (encode_key (make_table db' s') pk)"
      using st(2) data_key_not_system by simp
    then show ?thesis
      using mock_engine_kv.find_view[OF st(1), of pk "make_table db' s'"] mock_engine_kv.find_view[OF assms(1), of pk "make_table db' s'"]
      by (cases "v_is_null pk") (simp_all add: table_find_def)
  qed
  ultimately show ?thesis unfolding reads fst_conv by blast
qed

section \<open>Properties\<close>

text \<open>
  C28: CREATE TABLE and DROP TABLE change the table they name and nothing else. A CREATE that succeeds had a database that exists, a
  valid schema and a name that the database did not have; afterwards opening the table gives a table with an equal schema, its name
  is at the end of the list of tables, and every other table opens and reads as before. After a DROP that succeeds the table cannot be
  opened, no row is left under its name, its name is gone from the list, and every table of another name or of another database opens
  and reads as before.
\<close>

theorem ddl_exact:
  assumes "session_inv i (ct_engine c)" "list_all name_ok (fst (list_tables (mock_kv i) db c))"
  shows "(create_table (mock_kv i) now db s c = (True, c') \<and> schema_inv s \<and> schema_fits s \<longrightarrow>
    fst (database_exists (mock_kv i) db c) \<and> \<not> fst (table_exists (mock_kv i) db (ts_name s) c) \<and> validate s = SE_OK \<and>
    (\<exists>s'. fst (open_table (mock_kv i) db (ts_name s) c') = Inr (make_table db s') \<and> schema_eq s' s) \<and>
    map id_normalized (fst (list_tables (mock_kv i) db c')) = map id_normalized (fst (list_tables (mock_kv i) db c) @ [ts_name s]) \<and>
    (\<forall>db' t' s' pk. \<not> (id_eq db db' \<and> id_eq (ts_name s) t') \<longrightarrow>
      fst (open_table (mock_kv i) db' t' c') = fst (open_table (mock_kv i) db' t' c) \<and>
      table_find (mock_kv i) (make_table db' s') pk (ct_engine c') = table_find (mock_kv i) (make_table db' s') pk (ct_engine c))) \<and>
   (drop_table (mock_kv i) db t c = (True, c'') \<longrightarrow>
    (\<exists>err. fst (open_table (mock_kv i) db t c'') = Inl err \<and> rel_code err = Rel_TABLE_NOT_FOUND) \<and>
    (\<forall>s pk. id_eq t (ts_name s) \<and> \<not> v_is_null pk \<longrightarrow>
      (\<exists>err. table_find (mock_kv i) (make_table db s) pk (ct_engine c'') = Inl err \<and> rel_code err = Rel_NOT_FOUND)) \<and>
    map id_normalized (fst (list_tables (mock_kv i) db c'')) = map id_normalized (erase_name t (fst (list_tables (mock_kv i) db c))) \<and>
    (\<forall>db' t' s' pk. \<not> (id_eq db db' \<and> id_eq t t') \<and> id_eq t' (ts_name s') \<longrightarrow>
      fst (open_table (mock_kv i) db' t' c'') = fst (open_table (mock_kv i) db' t' c) \<and>
      table_find (mock_kv i) (make_table db' s') pk (ct_engine c'') = table_find (mock_kv i) (make_table db' s') pk (ct_engine c)))"
  using create_table_exact[OF assms(1) _ _ _ assms(2), of now s c'] drop_table_exact[OF assms(1) _ assms(2), of t c''] by blast

text \<open>An example: a database, a table in it, and the table dropped again.\<close>

definition with_shop :: "conn_state KVCatalog" where
  "with_shop = snd (create_database (mock_kv 1) 5 shop (kv_catalog (store0, mock_engine)))"

definition with_users :: "conn_state KVCatalog" where
  "with_users = snd (create_table (mock_kv 1) 6 shop users with_shop)"

lemma with_shop_created: "create_database (mock_kv 1) 5 shop (kv_catalog (store0, mock_engine)) = (True, with_shop)"
proof -
  have "fst (create_database (mock_kv 1) 5 shop (kv_catalog (store0, mock_engine)))" by code_simp
  then show ?thesis by (simp add: with_shop_def prod_eq_iff)
qed

lemma with_users_created: "create_table (mock_kv 1) 6 shop users with_shop = (True, with_users)"
proof -
  have "fst (create_table (mock_kv 1) 6 shop users with_shop)" by code_simp
  then show ?thesis by (simp add: with_users_def prod_eq_iff)
qed

lemma catalog_sessions: "session_inv 1 (ct_engine with_shop)" "session_inv 1 (ct_engine with_users)"
proof -
  show s: "session_inv 1 (ct_engine with_shop)"
    using mock_writer.create_database_step[OF _ with_shop_created] session_start(1) by (simp add: kv_catalog_def)
  show "session_inv 1 (ct_engine with_users)" using mock_writer.create_table_step[OF s with_users_created] by blast
qed

lemma users_wf: "schema_inv users" "schema_fits users"
proof -
  show "schema_inv users" unfolding users_def build_schema_def by (rule schema_inv_fold[OF schema_inv_empty]) (simp add: column_def_def)
  show "schema_fits users"
    unfolding schema_fits_def users_facts by (simp add: users_def schema_eval column_def_def make_identifier_def in_quotes_def id_wf_def)
qed

theorem ddl_exact_witness:
  "(\<exists>s'. fst (open_table (mock_kv 1) shop (ts_name users) with_users) = Inr (make_table shop s') \<and> schema_eq s' users) \<and>
   (\<exists>c err. drop_table (mock_kv 1) shop (ts_name users) with_users = (True, c) \<and>
     fst (open_table (mock_kv 1) shop (ts_name users) c) = Inl err \<and> rel_code err = Rel_TABLE_NOT_FOUND)"
proof -
  have "fst (list_tables (mock_kv 1) shop with_shop) = []" by code_simp
  then have e: "list_all name_ok (fst (list_tables (mock_kv 1) shop with_shop))" by simp
  have "fst (drop_table (mock_kv 1) shop (ts_name users) with_users)" by code_simp
  then obtain c where d: "drop_table (mock_kv 1) shop (ts_name users) with_users = (True, c)" by (metis prod.collapse)
  have "fst (list_tables (mock_kv 1) shop with_users) = [make_identifier (str ''users'')]" by code_simp
  then have l: "list_all name_ok (fst (list_tables (mock_kv 1) shop with_users))"
    by (simp add: name_ok_def make_identifier_def in_quotes_def id_wf_def)
  show ?thesis
    using ddl_exact[OF catalog_sessions(1) e, THEN conjunct1, of 6 users with_users] with_users_created users_wf
      ddl_exact[OF catalog_sessions(2) l, THEN conjunct2, of "ts_name users" c] d by blast
qed

end
