(* ===== verification/Spec2Isabelle.thy ===== *)
theory Spec2Isabelle
  imports Temporal_Text Schema_Text Row Sql_Truth Key_Set Kv_Transactions Optimizer_Laws Raft_Disk Kv_Catalog
begin

text \<open>
  Verification of the SQL database \<^verbatim>\<open>hands_on_sqldb_in_cpp\<close>. All paths are relative to \<^verbatim>\<open>src/\<close>.

  \<^bold>\<open>The program.\<close> A statement is parsed (\<^verbatim>\<open>parser\<close>, \<^verbatim>\<open>statement\<close>), its condition is rewritten and turned into key ranges and a
  remaining filter (\<^verbatim>\<open>planner\<close>), and executed (\<^verbatim>\<open>executor\<close>, \<^verbatim>\<open>session\<close>) on tables (\<^verbatim>\<open>relation\<close>). A table is a set of pairs
  of a key-value engine (\<^verbatim>\<open>storage\<close>): the key is a prefix with the names of database and table followed by an order-preserving encoding
  of the primary key, the value is the serialised row. All layers speak of the values, keys, ranges, schemas, rows and conditions
  of \<^verbatim>\<open>sql_types\<close>. Several replicas of a store are kept together by Raft (\<^verbatim>\<open>raft\<close>): proposals with write batches go through a
  replicated log, and each node applies the committed entries to its local store.

  \<^bold>\<open>The theories\<close>, from the bottom up.

  \<^item> \<open>Prelude\<close> has the vocabulary: a \<^verbatim>\<open>std::string\<close> is a list of bytes (\<open>8 word\<close>) under the lexicographic order of unsigned bytes,
  \<^verbatim>\<open>int64_t\<close> and \<^verbatim>\<open>uint64_t\<close> are \<open>64 word\<close>, with \<open>sint\<close> where the sign counts; and big-endian numbers. \<open>Ordered_Map\<close> is
  \<^verbatim>\<open>std::map\<close> on byte strings, \<open>Sorted_Algorithms\<close> the algorithms of the standard library on sorted ranges (locale \<open>comparator\<close>,
  interpreted for values by key and for key ranges), \<open>Wire_Codec\<close> the readers of binary formats (locales \<open>wire_field\<close>, \<open>wire_format\<close>).

  \<^item> \<^verbatim>\<open>sql_types\<close>: \<open>Field_Type\<close> (\<^verbatim>\<open>field_type.h\<close>, \<^verbatim>\<open>common/c_types.h\<close>), \<open>Temporal\<close>, \<open>Temporal_Calendar\<close>, \<open>Temporal_Text\<close>
  (\<^verbatim>\<open>temporal.cpp\<close>), \<open>Byte_Buffer\<close>, \<open>Identifier\<close>, \<open>Sql_Value\<close> (\<^verbatim>\<open>value.h\<close>), \<open>Key_Codec\<close> (\<^verbatim>\<open>key.h\<close>), \<open>Schema\<close>, \<open>Schema_Text\<close>, \<open>Row\<close>,
  \<open>Condition\<close>, \<open>Sql_Truth\<close> (\<^verbatim>\<open>sql_truth.h\<close>), \<open>Key_Range\<close>, \<open>Key_Set\<close>, \<open>Query\<close>. Shown: keys are ordered as values and decode to them; which
  byte strings the validity test accepts; the calendar conversions and text formats are inverse within the range of the arithmetic, with
  the wrap-around of \<^verbatim>\<open>int64_t\<close> in the definitions; schemas and rows survive serialisation (locale \<open>field_codec\<close>, interpreted for columns and
  values); the schema and row builders accept exactly the right input; range and set operations are those of sets, and a range is a
  byte interval of keys; the condition evaluator computes Kleene logic, LIKE its declarative meaning; promotion of numbers loses
  nothing.

  \<^item> \<^verbatim>\<open>storage\<close>: \<open>Kv_Engine\<close> (status codes, batches, scan ranges), \<open>Tx_Buffer\<close>, \<open>Kv_Iterator\<close> (locale \<open>kv_iterator\<close>, the contract of every
  iterator), \<open>Merging_Iterator\<close>, \<open>Mock_Engine\<close> (store, connections and iterators of the in-memory engine), \<open>Kv_Transactions\<close> (commit, and
  the interleaving of connections as a step relation with its invariant), \<open>Engine_Contract\<close> (the interface \<^verbatim>\<open>KVEngine\<close> as a record, its
  laws as the locales \<open>kv_engine\<close> and \<open>kv_writer\<close>, and the in-memory engine as their model). A mutex section is one step. Shown: there is one
  writer; reads in a transaction do not change under other connections; a commit applies the buffered operations or nothing; reading
  through the buffer is reading after replaying it, and a scan lists what it lists after the commit, with the exception of deleted
  ranges, whose rows still appear.

  \<^item> \<^verbatim>\<open>planner\<close>: \<open>Rewriter\<close>, \<open>Rewriter_Laws\<close>, \<open>Cost\<close>, \<open>Optimizer\<close>, \<open>Optimizer_Laws\<close>. Shown: the first three passes of the rewriter keep the
  truth value of every condition, the whole pipeline that of disjunctions of conjunctions with texts that tell the predicates apart (a
  lemma shows what it loses of others); ranges and filter of the optimizer select the rows that WHERE selects, for the conditions and
  literals named there.

  \<^item> \<^verbatim>\<open>relation\<close>: \<open>Key_Prefix\<close> (\<^verbatim>\<open>key_prefix.h\<close>), \<open>Relation_Table\<close> (\<^verbatim>\<open>table.cpp\<close>, \<^verbatim>\<open>cursor.cpp\<close>), \<open>Kv_Catalog\<close> (\<^verbatim>\<open>kv_catalog.cpp\<close>). The
  operations take the engine as an argument, and their lemmas are proved from the engine locales; the properties are stated for the
  in-memory engine. Shown: what is inserted is found; tables do not touch each other; writes keep rows well-formed and scans return
  the rows of their range; CREATE and DROP TABLE change one table.

  \<^item> \<^verbatim>\<open>raft\<close>: \<open>Raft_Log\<close> (data, interfaces and the log in memory), \<open>Raft_Node\<close> (every handler of \<^verbatim>\<open>raft_node.cpp\<close> over any state machine
  and log store; messages go to an outbox, completions to cells), \<open>Raft_Election\<close>, \<open>Raft_Cluster\<close> (nodes and a network that loses, repeats
  and reorders, as a step relation; locale \<open>persistent_votes\<close>), \<open>Raft_Safety\<close>, \<open>Raft_Commit\<close>, \<open>Raft_Codec\<close> (\<^verbatim>\<open>message_codec.cpp\<close> and the
  receiving loop of \<^verbatim>\<open>tcp_transport.cpp\<close>), \<open>Raft_Machine\<close> (\<^verbatim>\<open>kv_state_machine.cpp\<close>, \<^verbatim>\<open>proposal_payload.cpp\<close>), \<open>Raft_Disk\<close> (the log store and
  the store of request results on LevelDB). Shown: a term has one leader; an election whose messages arrive succeeds; committed
  entries are applied once and in order; which match index a quorum has; entries of older terms are refused; messages and
  proposals are read back exactly, a connection delivers what was sent; requests are applied once, snapshots carry over the data;
  the log on disk refines the log in memory and survives reopening, except for a hard state without a vote.

  \<^bold>\<open>Modelling.\<close> Objects are records that operations take and return; \<^verbatim>\<open>std::expected\<close> is a sum with the error on the left. Clock readings
  are arguments; \<^verbatim>\<open>tick\<close> reads the clock twice. Loops are structural or have a termination proof by a measure, except for the loops
  over iterators and cursors of an arbitrary engine, which are partial functions into \<open>option\<close> that are shown to return for iterators
  that meet the contract; no fuel is used. LevelDB is a record of functions with the hypothesis \<open>leveldb_ok\<close>: a read returns what is stored or fails, and a batch is
  written as a whole or not at all, also when the write reports a failure. The state machine and log store of a node are
  parameters. The header \<^verbatim>\<open>raft/log_store.h\<close> is not in the repository; its interface is read off the two implementations.

  \<^bold>\<open>Simplifications.\<close> Sizes (\<^verbatim>\<open>size_t\<close>) are natural numbers. Costs are rational numbers instead of \<^verbatim>\<open>double\<close>. The loop that collects entries for
  a follower is not followed to a last index of \<open>2\<^sup>6\<^sup>4 - 1\<close>. Log output, statistics counters and source positions are left out.

  \<^bold>\<open>Not modelled.\<close> The parser, whose tables are generated, with the statements built from its trees; plan nodes, executor and session on top of
  them; the LevelDB engine, which has the interface of the in-memory engine and shares its buffer and merging iterator; the threads
  and wiring of the Raft service; server, clients, client protocol, sockets and event loops.
\<close>

end
